(* ===== verification/Prelude.thy ===== *)
theory Prelude
  imports Main "HOL-Library.Word" "HOL-Library.Char_ord" "HOL-Library.List_Lexorder"
    "HOL-Library.Multiset"
begin

text \<open>
  The vocabulary every other theory shares: the machine types, Rust's \<open>Result\<close> as a sum
  (\<open>Inl\<close> the error, \<open>Inr\<close> the value), the fact collections the component proofs feed to
  \<open>simp\<close>, and the two interfaces that most components provide: a text codec and a
  canonical text codec.

  Conventions. A \<open>u8\<close> or \<open>u64\<close> is a word of that width. A Rust \<open>str\<close> or \<open>String\<close> is a HOL
  \<open>string\<close>: HOL's \<open>char\<close> is an 8-bit byte, so a \<open>string\<close> is the UTF-8 byte sequence that the
  Rust value holds and \<open>length\<close> is Rust's \<open>len()\<close>. A digest or a key is a \<open>u8 list\<close>. A
  \<open>usize\<close> that counts bytes held in memory is a \<open>nat\<close>. The error text that a third-party
  crate reports is carried opaquely as an \<open>ext_error\<close>.
\<close>

section \<open>Machine types and results\<close>

type_synonym u8 = "8 word"
type_synonym u16 = "16 word"
type_synonym u32 = "32 word"
type_synonym u64 = "64 word"

type_synonym ext_error = string

named_theorems text_simps \<open>evaluation rules for the string operations of Rust's standard library\<close>
named_theorems codec_simps \<open>print and parse facts of the text codecs\<close>
named_theorems wf_intros \<open>introduction rules for well-formedness predicates\<close>

text \<open>The \<open>?\<close> operator: continue with the value, or return the error at once.\<close>

definition and_then :: "'e + 'a \<Rightarrow> ('a \<Rightarrow> 'e + 'b) \<Rightarrow> 'e + 'b" where
  "and_then m f = (case m of Inl e \<Rightarrow> Inl e | Inr a \<Rightarrow> f a)"

text \<open>snafu's \<open>context\<close>: wrap the source error in the caller's variant.\<close>

definition ctx :: "('e \<Rightarrow> 'f) \<Rightarrow> 'e + 'a \<Rightarrow> 'f + 'a" where
  "ctx w m = (case m of Inl e \<Rightarrow> Inl (w e) | Inr a \<Rightarrow> Inr a)"

text \<open>\<open>OptionExt::context\<close>: a missing value becomes the given error.\<close>

definition or_err :: "'e \<Rightarrow> 'a option \<Rightarrow> 'e + 'a" where
  "or_err e m = (case m of None \<Rightarrow> Inl e | Some a \<Rightarrow> Inr a)"

text \<open>\<open>snafu::ensure!\<close>.\<close>

definition ensure :: "bool \<Rightarrow> 'e \<Rightarrow> 'e + unit" where
  "ensure b e = (if b then Inr () else Inl e)"

lemma and_then_simps [simp]:
  "and_then (Inl e) f = Inl e"
  "and_then (Inr a) f = f a"
  by (simp_all add: and_then_def)

lemma ctx_simps [simp]:
  "ctx w (Inl e) = Inl (w e)"
  "ctx w (Inr a) = Inr a"
  by (simp_all add: ctx_def)

lemma or_err_simps [simp]:
  "or_err e None = Inl e"
  "or_err e (Some a) = Inr a"
  by (simp_all add: or_err_def)

lemma ensure_simps [simp]:
  "ensure True e = Inr ()"
  "ensure False e = Inl e"
  by (simp_all add: ensure_def)

lemma and_then_eq_Inr_iff: "and_then m f = Inr b \<longleftrightarrow> (\<exists>a. m = Inr a \<and> f a = Inr b)"
  by (cases m) auto

lemma and_then_eq_Inl_iff: "and_then m f = Inl e \<longleftrightarrow> m = Inl e \<or> (\<exists>a. m = Inr a \<and> f a = Inl e)"
  by (cases m) auto

lemma ctx_eq_Inr_iff [simp]: "ctx w m = Inr a \<longleftrightarrow> m = Inr a"
  by (cases m) auto

lemma ctx_eq_Inl_iff: "ctx w m = Inl f \<longleftrightarrow> (\<exists>e. m = Inl e \<and> f = w e)"
  by (cases m) auto

lemma or_err_eq_Inr_iff [simp]: "or_err e m = Inr a \<longleftrightarrow> m = Some a"
  by (cases m) auto

lemma or_err_eq_Inl_iff [simp]: "or_err e m = Inl f \<longleftrightarrow> m = None \<and> f = e"
  by (cases m) auto

lemma ensure_eq_Inr_iff [simp]: "ensure b e = Inr u \<longleftrightarrow> b"
  by (cases b) auto

lemma ensure_eq_Inl_iff [simp]: "ensure b e = Inl f \<longleftrightarrow> \<not> b \<and> f = e"
  by (cases b) auto

lemmas result_iffs = and_then_eq_Inr_iff and_then_eq_Inl_iff ctx_eq_Inl_iff

section \<open>The codec interfaces\<close>

text \<open>
  Every name the protocol carries has a printer and a fallible parser. The client of such a
  pair relies on one law: what was printed parses back. \<open>valid\<close> says which values may be
  printed (the invariant the constructors enforce).
\<close>

locale codec =
  fixes print :: "'a \<Rightarrow> string"
    and parse :: "string \<Rightarrow> 'e + 'a"
    and valid :: "'a \<Rightarrow> bool"
  assumes parse_print: "valid a \<Longrightarrow> parse (print a) = Inr a"
begin

lemma print_inject: "valid a \<Longrightarrow> valid b \<Longrightarrow> print a = print b \<longleftrightarrow> a = b"
  by (metis parse_print sum.inject(2))

lemma print_inj_on: "inj_on print {a. valid a}"
  by (rule inj_onI) (simp add: print_inject)

lemma distinct_map_print: "list_all valid as \<Longrightarrow> distinct (map print as) \<longleftrightarrow> distinct as"
  by (auto simp: distinct_map list_all_iff intro: inj_on_subset [OF print_inj_on])

end

text \<open>
  A canonical codec accepts exactly one spelling of each value: a parsed text is the
  rendering of what it parsed to, so two texts that differ never alias one value.
\<close>

locale canonical_codec = codec +
  assumes parse_valid: "parse s = Inr a \<Longrightarrow> valid a"
    and print_parse: "parse s = Inr a \<Longrightarrow> print a = s"
begin

lemma parse_inject: "parse s = Inr a \<Longrightarrow> parse t = Inr a \<Longrightarrow> s = t"
  using print_parse by blast

lemma parse_eq_iff: "parse s = Inr a \<longleftrightarrow> valid a \<and> s = print a"
  using parse_print parse_valid print_parse by blast

end

end
