(* ===== verification/Text.thy ===== *)
theory Text
  imports Prelude
begin

text \<open>
  The operations of Rust's standard library on \<open>str\<close> and \<open>u64\<close> that the program calls, on
  the byte sequence of the string: \<open>split_once\<close>, \<open>strip_prefix\<close>, \<open>strip_suffix\<close>, \<open>lines\<close>,
  \<open>split\<close>, \<open>trim\<close>, \<open>from_utf8\<close>, \<open>eq_ignore_ascii_case\<close>, and the decimal \<open>Display\<close> and
  \<open>FromStr\<close> of \<open>u64\<close>.
\<close>

abbreviation nl :: char where "nl \<equiv> CHR 0x0A"
abbreviation cr :: char where "cr \<equiv> CHR 0x0D"
abbreviation colon :: char where "colon \<equiv> CHR '':''"
abbreviation dash :: char where "dash \<equiv> CHR ''-''"
abbreviation slash :: char where "slash \<equiv> CHR ''/''"

section \<open>Searching and splitting\<close>

fun strip_prefix :: "string \<Rightarrow> string \<Rightarrow> string option" where
  "strip_prefix [] s = Some s"
| "strip_prefix (p # ps) [] = None"
| "strip_prefix (p # ps) (c # cs) = (if p = c then strip_prefix ps cs else None)"

definition strip_suffix :: "string \<Rightarrow> string \<Rightarrow> string option" where
  "strip_suffix p s = map_option rev (strip_prefix (rev p) (rev s))"

fun split_once :: "string \<Rightarrow> string \<Rightarrow> (string \<times> string) option" where
  "split_once p [] = (case strip_prefix p [] of Some r \<Rightarrow> Some ([], r) | None \<Rightarrow> None)"
| "split_once p (c # cs) =
     (case strip_prefix p (c # cs) of
        Some r \<Rightarrow> Some ([], r)
      | None \<Rightarrow> (case split_once p cs of None \<Rightarrow> None | Some (a, b) \<Rightarrow> Some (c # a, b)))"

text \<open>\<open>split\<close> on a set of separator characters: always at least one piece.\<close>

fun split_on :: "(char \<Rightarrow> bool) \<Rightarrow> string \<Rightarrow> string list" where
  "split_on f [] = [[]]"
| "split_on f (c # cs) =
     (if f c then [] # split_on f cs
      else (case split_on f cs of [] \<Rightarrow> [[c]] | p # ps \<Rightarrow> (c # p) # ps))"

text \<open>\<open>split_inclusive('\n')\<close>: each piece keeps its terminator, no empty piece at the end.\<close>

fun split_lines :: "string \<Rightarrow> string list" where
  "split_lines [] = []"
| "split_lines (c # cs) =
     (if c = nl then [nl] # split_lines cs
      else (case split_lines cs of [] \<Rightarrow> [[c]] | p # ps \<Rightarrow> (c # p) # ps))"

definition chomp :: "string \<Rightarrow> string" where
  "chomp l = (case strip_suffix [nl] l of
                None \<Rightarrow> l
              | Some l' \<Rightarrow> (case strip_suffix [cr] l' of None \<Rightarrow> l' | Some l'' \<Rightarrow> l''))"

definition lines :: "string \<Rightarrow> string list" where
  "lines s = map chomp (split_lines s)"

text \<open>\<open>join\<close>.\<close>

fun join :: "string \<Rightarrow> string list \<Rightarrow> string" where
  "join sep [] = []"
| "join sep [x] = x"
| "join sep (x # y # xs) = x @ sep @ join sep (y # xs)"

lemma strip_prefix_eq_Some: "strip_prefix p s = Some r \<longleftrightarrow> s = p @ r"
  by (induction p s rule: strip_prefix.induct) auto

lemma strip_prefix_append [simp, text_simps]: "strip_prefix p (p @ r) = Some r"
  by (simp add: strip_prefix_eq_Some)

lemma strip_prefix_self [simp]: "strip_prefix p p = Some []"
  using strip_prefix_append [of p "[]"] by simp

lemma strip_prefix_eq_None: "strip_prefix p s = None \<longleftrightarrow> (\<forall>r. s \<noteq> p @ r)"
  by (metis strip_prefix_eq_Some not_None_eq)

lemma strip_suffix_eq_Some: "strip_suffix p s = Some r \<longleftrightarrow> s = r @ p"
  by (auto simp: strip_suffix_def strip_prefix_eq_Some) (metis rev_append rev_rev_ident)

lemma strip_suffix_append [simp, text_simps]: "strip_suffix p (r @ p) = Some r"
  by (simp add: strip_suffix_eq_Some)

lemma strip_suffix_eq_None: "strip_suffix p s = None \<longleftrightarrow> (\<forall>r. s \<noteq> r @ p)"
  by (metis strip_suffix_eq_Some not_None_eq)

lemma split_once_SomeD: "split_once p s = Some (a, b) \<Longrightarrow> s = a @ p @ b"
proof (induction s arbitrary: a)
  case Nil
  then show ?case by (auto simp: strip_prefix_eq_Some split: option.splits)
next
  case (Cons c cs)
  then show ?case
    by (auto simp: strip_prefix_eq_Some split: option.splits)
qed

lemma split_once_append:
  assumes "p \<noteq> []" "hd p \<notin> set a"
  shows "split_once p (a @ p @ b) = Some (a, b)"
  using assms(2)
proof (induction a)
  case Nil
  from assms(1) obtain x xs where "p = x # xs" by (cases p) auto
  then show ?case by simp
next
  case (Cons c cs)
  from assms(1) obtain x xs where p: "p = x # xs" by (cases p) auto
  with Cons.prems have "x \<noteq> c" by auto
  with p Cons show ?case by simp
qed

lemma split_once_char: "c \<notin> set a \<Longrightarrow> split_once [c] (a @ c # b) = Some (a, b)"
  using split_once_append [of "[c]" a b] by simp

lemma split_once_char_eq_Some:
  "split_once [c] s = Some (a, b) \<longleftrightarrow> c \<notin> set a \<and> s = a @ c # b"
proof
  assume s: "split_once [c] s = Some (a, b)"
  have "c \<notin> set a" using s
    by (induction s arbitrary: a) (auto split: option.splits if_splits)
  with split_once_SomeD [OF s] show "c \<notin> set a \<and> s = a @ c # b" by simp
qed (auto intro: split_once_char)

lemma split_once_char_eq_None: "split_once [c] s = None \<longleftrightarrow> c \<notin> set s"
  by (induction s) (auto split: option.splits)

lemma split_once_eq_None:
  assumes "p \<noteq> []"
  shows "split_once p s = None \<longleftrightarrow> (\<forall>a b. s \<noteq> a @ p @ b)"
proof (induction s)
  case Nil
  with assms show ?case by (cases p) auto
next
  case (Cons c cs)
  show ?case
  proof (cases "strip_prefix p (c # cs)")
    case None
    then have np: "c # cs \<noteq> p @ b" for b by (simp add: strip_prefix_eq_None)
    have "(\<exists>a b. c # cs = a @ p @ b) \<longleftrightarrow> (\<exists>a b. cs = a @ p @ b)"
    proof
      assume "\<exists>a b. c # cs = a @ p @ b"
      then obtain a b where "c # cs = a @ p @ b" by blast
      with np show "\<exists>a b. cs = a @ p @ b" by (cases a) auto
    next
      assume "\<exists>a b. cs = a @ p @ b"
      then obtain a b where "cs = a @ p @ b" by blast
      then have "c # cs = (c # a) @ p @ b" by simp
      then show "\<exists>a b. c # cs = a @ p @ b" by blast
    qed
    with None Cons show ?thesis by (auto split: option.splits)
  next
    case (Some r)
    then have "c # cs = [] @ p @ r" by (simp add: strip_prefix_eq_Some)
    then have "\<exists>a b. c # cs = a @ p @ b" by blast
    with Some show ?thesis by (simp only: split_once.simps option.case) simp
  qed
qed

lemma split_on_notin: "(\<And>c. c \<in> set s \<Longrightarrow> \<not> f c) \<Longrightarrow> split_on f s = [s]"
  by (induction s) auto

lemma split_on_nonempty [simp]: "split_on f s \<noteq> []"
  by (induction s) (auto split: list.splits)

lemma split_on_append:
  "(\<And>c. c \<in> set a \<Longrightarrow> \<not> f c) \<Longrightarrow> f c \<Longrightarrow> split_on f (a @ c # b) = a # split_on f b"
  by (induction a) auto

lemma split_on_pieces: "p \<in> set (split_on f s) \<Longrightarrow> x \<in> set p \<Longrightarrow> \<not> f x \<and> x \<in> set s"
proof (induction s arbitrary: p)
  case Nil
  then show ?case by simp
next
  case (Cons c cs)
  obtain q qs where q: "split_on f cs = q # qs"
    using split_on_nonempty [of f cs] by (cases "split_on f cs") auto
  show ?case
  proof (cases "f c")
    case True
    with Cons show ?thesis by auto
  next
    case False
    with Cons.prems q consider "p = c # q" | "p \<in> set qs" by auto
    then show ?thesis
    proof cases
      case 1
      with Cons.prems(2) Cons.IH [of q] q False show ?thesis by auto
    next
      case 2
      with Cons.prems(2) Cons.IH [of p] q show ?thesis by auto
    qed
  qed
qed

lemma split_on_join:
  assumes "f c" "\<And>p x. p \<in> set ps \<Longrightarrow> x \<in> set p \<Longrightarrow> \<not> f x" "ps \<noteq> []"
  shows "split_on f (join [c] ps) = ps"
  using assms(2,3)
proof (induction ps)
  case Nil
  then show ?case by simp
next
  case (Cons p ps)
  show ?case
  proof (cases ps)
    case Nil
    with Cons.prems show ?thesis by (simp add: split_on_notin)
  next
    case (Cons q qs)
    have "split_on f (p @ c # join [c] ps) = p # split_on f (join [c] ps)"
      using Cons.prems(1) assms(1) by (intro split_on_append) auto
    moreover have "split_on f (join [c] ps) = ps"
      using Cons.prems(1) Cons by (intro Cons.IH) auto
    ultimately show ?thesis using Cons by simp
  qed
qed

subsection \<open>Lines\<close>

lemma split_lines_line: "nl \<notin> set l \<Longrightarrow> split_lines (l @ nl # rest) = (l @ [nl]) # split_lines rest"
  by (induction l) auto

lemma chomp_line [text_simps]: "\<not> (l \<noteq> [] \<and> last l = cr) \<Longrightarrow> chomp (l @ [nl]) = l"
proof -
  assume a: "\<not> (l \<noteq> [] \<and> last l = cr)"
  have "strip_suffix [cr] l = None"
    using a by (auto simp: strip_suffix_eq_None)
  then show ?thesis
    unfolding chomp_def by (simp only: strip_suffix_append option.case)
qed

text \<open>A text line: no line feed inside and no carriage return at its end.\<close>

definition line_ok :: "string \<Rightarrow> bool" where
  "line_ok l \<longleftrightarrow> nl \<notin> set l \<and> (l \<noteq> [] \<longrightarrow> last l \<noteq> cr)"

definition unlines :: "string list \<Rightarrow> string" where
  "unlines ls = concat (map (\<lambda>l. l @ [nl]) ls)"

lemma unlines_simps [simp]:
  "unlines [] = []"
  "unlines (l # ls) = l @ nl # unlines ls"
  "unlines (ls @ ms) = unlines ls @ unlines ms"
  by (simp_all add: unlines_def)

lemma lines_append:
  "line_ok l \<Longrightarrow> lines (l @ nl # rest) = l # lines rest"
proof -
  assume "line_ok l"
  then have "split_lines (l @ nl # rest) = (l @ [nl]) # split_lines rest" and "chomp (l @ [nl]) = l"
    unfolding line_ok_def by (blast intro: split_lines_line chomp_line)+
  then show ?thesis by (simp add: lines_def)
qed

lemma lines_unlines: "list_all line_ok ls \<Longrightarrow> lines (unlines ls) = ls"
  by (induction ls) (simp_all add: lines_append, simp add: lines_def)

lemma line_ok_plain: "nl \<notin> set l \<Longrightarrow> cr \<notin> set l \<Longrightarrow> line_ok l"
  by (metis last_in_set line_ok_def)

section \<open>Case, white space and UTF-8\<close>

definition ascii_lower :: "char \<Rightarrow> char" where
  "ascii_lower c = (let n = of_char c :: nat in if 65 \<le> n \<and> n \<le> 90 then char_of (n + 32) else c)"

definition eq_ignore_ascii_case :: "string \<Rightarrow> string \<Rightarrow> bool" where
  "eq_ignore_ascii_case a b \<longleftrightarrow> map ascii_lower a = map ascii_lower b"

text \<open>
  The length of the white space character that starts the given bytes, 0 if there is none:
  the code points with the property \<open>White_Space\<close>, in UTF-8.
\<close>

fun ws_len :: "nat list \<Rightarrow> nat" where
  "ws_len [] = 0"
| "ws_len (a # s) =
     (if 9 \<le> a \<and> a \<le> 13 \<or> a = 32 then 1
      else (case s of
          [] \<Rightarrow> 0
        | b # s' \<Rightarrow>
            (if a = 0xC2 \<and> (b = 0x85 \<or> b = 0xA0) then 2
             else (case s' of
                 [] \<Rightarrow> 0
               | c # _ \<Rightarrow>
                   (if a = 0xE1 \<and> b = 0x9A \<and> c = 0x80
                     \<or> a = 0xE2 \<and> b = 0x80 \<and> (0x80 \<le> c \<and> c \<le> 0x8A \<or> c = 0xA8 \<or> c = 0xA9 \<or> c = 0xAF)
                     \<or> a = 0xE2 \<and> b = 0x81 \<and> c = 0x9F
                     \<or> a = 0xE3 \<and> b = 0x80 \<and> c = 0x80 then 3 else 0)))))"

text \<open>The same for the character that ends the bytes; the bytes are given last first.\<close>

fun ws_len_back :: "nat list \<Rightarrow> nat" where
  "ws_len_back [] = 0"
| "ws_len_back (a # s) =
     (if ws_len [a] = 1 then 1
      else (case s of
          [] \<Rightarrow> 0
        | b # s' \<Rightarrow>
            (if ws_len [b, a] = 2 then 2
             else (case s' of [] \<Rightarrow> 0 | c # _ \<Rightarrow> (if ws_len [c, b, a] = 3 then 3 else 0)))))"

abbreviation byte_vals :: "string \<Rightarrow> nat list" where
  "byte_vals s \<equiv> map of_char s"

function trim_start :: "string \<Rightarrow> string" where
  "trim_start s = (if ws_len (byte_vals s) = 0 then s else trim_start (drop (ws_len (byte_vals s)) s))"
  by pat_completeness auto
termination
proof (relation "measure length")
  fix s :: string
  assume "ws_len (byte_vals s) \<noteq> 0"
  then show "(drop (ws_len (byte_vals s)) s, s) \<in> measure length"
    by (cases s) auto
qed simp

function trim_end_rev :: "string \<Rightarrow> string" where
  "trim_end_rev s =
     (if ws_len_back (byte_vals s) = 0 then s else trim_end_rev (drop (ws_len_back (byte_vals s)) s))"
  by pat_completeness auto
termination
proof (relation "measure length")
  fix s :: string
  assume "ws_len_back (byte_vals s) \<noteq> 0"
  then show "(drop (ws_len_back (byte_vals s)) s, s) \<in> measure length"
    by (cases s) auto
qed simp

declare trim_start.simps [simp del] trim_end_rev.simps [simp del]

definition trim_end :: "string \<Rightarrow> string" where
  "trim_end s = rev (trim_end_rev (rev s))"

definition trim :: "string \<Rightarrow> string" where
  "trim s = trim_end (trim_start s)"

text \<open>Bytes above the space and below \<open>0x7F\<close> are never white space, at either end.\<close>

definition visible :: "char \<Rightarrow> bool" where
  "visible c \<longleftrightarrow> 32 < (of_char c :: nat) \<and> (of_char c :: nat) < 127"

lemma ws_len_visible: "32 < a \<Longrightarrow> a < 127 \<Longrightarrow> ws_len (a # s) = 0"
  by (cases s; cases "tl s") auto

lemma ws_len_back_visible: "32 < a \<Longrightarrow> a < 127 \<Longrightarrow> ws_len_back (a # s) = 0"
  by (cases s; cases "tl s") auto

declare ws_len.simps(2) [simp del] ws_len_back.simps(2) [simp del]

lemma trim_start_visible: "s = [] \<or> visible (hd s) \<Longrightarrow> trim_start s = s"
  by (subst trim_start.simps) (cases s, auto simp: visible_def ws_len_visible)

lemma trim_end_visible:
  assumes "s = [] \<or> visible (last s)"
  shows "trim_end s = s"
proof (cases "rev s")
  case (Cons c cs)
  then have "last s = c" by (simp add: last_conv_nth hd_rev [symmetric] hd_conv_nth)
  with Cons assms show ?thesis
    by (auto simp: trim_end_def trim_end_rev.simps [of "c # cs"] visible_def ws_len_back_visible)
qed (simp add: trim_end_def trim_end_rev.simps [of "[]"])

lemma trim_visible:
  "s = [] \<or> visible (hd s) \<and> visible (last s) \<Longrightarrow> trim s = s"
  by (auto simp: trim_def trim_start_visible trim_end_visible)

lemma trim_start_space: "trim_start (CHR '' '' # s) = trim_start s"
  by (subst trim_start.simps) (simp add: ws_len.simps(2))

text \<open>\<open>core::str::from_utf8\<close>: the well-formed byte sequences of the Unicode standard.\<close>

definition cont :: "nat \<Rightarrow> bool" where
  "cont b \<longleftrightarrow> 0x80 \<le> b \<and> b \<le> 0xBF"

fun utf8_ok :: "nat list \<Rightarrow> bool" where
  "utf8_ok [] = True"
| "utf8_ok (a # s) =
     (if a < 0x80 then utf8_ok s
      else if 0xC2 \<le> a \<and> a \<le> 0xDF then
        (case s of b # s' \<Rightarrow> cont b \<and> utf8_ok s' | _ \<Rightarrow> False)
      else if 0xE0 \<le> a \<and> a \<le> 0xEF then
        (case s of
           b # c # s' \<Rightarrow>
             (if a = 0xE0 then 0xA0 \<le> b \<and> b \<le> 0xBF
              else if a = 0xED then 0x80 \<le> b \<and> b \<le> 0x9F else cont b)
             \<and> cont c \<and> utf8_ok s'
         | _ \<Rightarrow> False)
      else if 0xF0 \<le> a \<and> a \<le> 0xF4 then
        (case s of
           b # c # d # s' \<Rightarrow>
             (if a = 0xF0 then 0x90 \<le> b \<and> b \<le> 0xBF
              else if a = 0xF4 then 0x80 \<le> b \<and> b \<le> 0x8F else cont b)
             \<and> cont c \<and> cont d \<and> utf8_ok s'
         | _ \<Rightarrow> False)
      else False)"

definition from_utf8 :: "string \<Rightarrow> unit + string" where
  "from_utf8 s = (if utf8_ok (byte_vals s) then Inr s else Inl ())"

definition ascii :: "string \<Rightarrow> bool" where
  "ascii s \<longleftrightarrow> (\<forall>c \<in> set s. (of_char c :: nat) < 128)"

lemma utf8_ok_ascii: "ascii s \<Longrightarrow> utf8_ok (byte_vals s)"
  by (induction s) (auto simp: ascii_def)

lemma from_utf8_ascii: "ascii s \<Longrightarrow> from_utf8 s = Inr s"
  by (simp add: from_utf8_def utf8_ok_ascii)

section \<open>Decimal integers\<close>

definition digit_char :: "nat \<Rightarrow> char" where
  "digit_char d = char_of (48 + d)"

fun show_nat :: "nat \<Rightarrow> string" where
  "show_nat n = (if n < 10 then [digit_char n] else show_nat (n div 10) @ [digit_char (n mod 10)])"

declare show_nat.simps [simp del]

text \<open>\<open>Display\<close> of an unsigned integer.\<close>

definition show_u64 :: "u64 \<Rightarrow> string" where
  "show_u64 w = show_nat (unat w)"

definition show_u32 :: "u32 \<Rightarrow> string" where
  "show_u32 w = show_nat (unat w)"

definition is_digit :: "char \<Rightarrow> bool" where
  "is_digit c \<longleftrightarrow> 48 \<le> (of_char c :: nat) \<and> (of_char c :: nat) \<le> 57"

definition digit_val :: "char \<Rightarrow> nat" where
  "digit_val c = of_char c - 48"

datatype int_error = Int_Empty | Int_InvalidDigit | Int_PosOverflow

text \<open>
  \<open>u64::from_str\<close>. Per byte: a non-digit is reported before an overflow at the same place.
  One leading \<open>+\<close> is accepted, a \<open>-\<close> is not, leading zeros are.
\<close>

fun parse_digits :: "nat \<Rightarrow> string \<Rightarrow> int_error + u64" where
  "parse_digits acc [] = Inr (of_nat acc)"
| "parse_digits acc (c # cs) =
     (if \<not> is_digit c then Inl Int_InvalidDigit
      else if 2 ^ 64 \<le> acc * 10 + digit_val c then Inl Int_PosOverflow
      else parse_digits (acc * 10 + digit_val c) cs)"

definition parse_u64 :: "string \<Rightarrow> int_error + u64" where
  "parse_u64 s =
     (if s = [] then Inl Int_Empty
      else if s = ''+'' \<or> s = ''-'' then Inl Int_InvalidDigit
      else (case s of c # cs \<Rightarrow> parse_digits 0 (if c = CHR ''+'' then cs else s)))"

lemma unat_of_nat64: "n < 2 ^ 64 \<Longrightarrow> unat (of_nat n :: u64) = n"
  by (simp add: unat_of_nat)

lemma unat_less64: "unat (w :: u64) < 2 ^ 64"
  by (rule order.strict_trans2 [OF unsigned_less]) simp

text \<open>\<open>u64::try_from(usize).unwrap_or(u64::MAX)\<close>.\<close>

definition u64_from_usize :: "nat \<Rightarrow> u64" where
  "u64_from_usize n = (if n < 2 ^ 64 then of_nat n else - 1)"

lemma unat_u64_from_usize: "n < 2 ^ 64 \<Longrightarrow> unat (u64_from_usize n) = n"
  by (simp add: u64_from_usize_def unat_of_nat64)

lemma of_char_digit_char: "d < 10 \<Longrightarrow> (of_char (digit_char d) :: nat) = 48 + d"
  by (simp add: digit_char_def of_char_of)

lemma digit_char_simps [simp]:
  assumes "d < 10"
  shows "is_digit (digit_char d)" "digit_val (digit_char d) = d"
  using assms by (simp_all add: is_digit_def digit_val_def of_char_digit_char)

lemma show_nat_nonempty [simp]: "show_nat n \<noteq> []"
  by (subst show_nat.simps) simp

lemma show_nat_digits: "c \<in> set (show_nat n) \<Longrightarrow> is_digit c"
proof (induction n rule: show_nat.induct)
  case (1 n)
  then show ?case by (auto simp: show_nat.simps [of n] split: if_splits)
qed

lemma parse_digits_append:
  "parse_digits acc (s @ t) = and_then (parse_digits acc s) (\<lambda>v. parse_digits (unat v) t)"
  if "acc < 2 ^ 64"
  using that
  by (induction acc s rule: parse_digits.induct) (auto simp: unat_of_nat64)

lemma parse_digits_show: "n < 2 ^ 64 \<Longrightarrow> parse_digits 0 (show_nat n) = Inr (of_nat n)"
proof (induction n rule: show_nat.induct)
  case (1 n)
  show ?case
  proof (cases "n < 10")
    case True
    then show ?thesis by (simp add: show_nat.simps [of n])
  next
    case False
    have "n div 10 < 2 ^ 64" using "1.prems" by simp
    with 1 False have "parse_digits 0 (show_nat (n div 10)) = Inr (of_nat (n div 10))" by simp
    with False \<open>n div 10 < 2 ^ 64\<close> "1.prems" show ?thesis
      by (simp add: show_nat.simps [of n] parse_digits_append unat_of_nat64)
  qed
qed

lemma is_digit_not_sign [simp]: "\<not> is_digit (CHR ''+'')" "\<not> is_digit (CHR ''-'')"
  by (simp_all add: is_digit_def)

theorem parse_show_u64 [codec_simps]: "parse_u64 (show_u64 w) = Inr w"
proof -
  obtain c cs where s: "show_nat (unat w) = c # cs"
    using show_nat_nonempty [of "unat w"] by (cases "show_nat (unat w)") auto
  then have d: "is_digit c" using show_nat_digits [of c "unat w"] by simp
  have "parse_digits 0 (show_nat (unat w)) = Inr w"
    using parse_digits_show [of "unat w"] unsigned_less [of w] by simp
  with s d show ?thesis by (auto simp: parse_u64_def show_u64_def)
qed

lemma parse_digits_value:
  "parse_digits acc s = Inr v \<Longrightarrow> acc < 2 ^ 64 \<Longrightarrow>
   unat v = fold (\<lambda>c a. a * 10 + digit_val c) s acc \<and> (\<forall>c \<in> set s. is_digit c)"
  by (induction acc s rule: parse_digits.induct) (auto simp: unat_of_nat64 split: if_splits)

lemma show_nat_inject [simp]: "show_nat m = show_nat n \<longleftrightarrow> m = n"
proof
  have val: "fold (\<lambda>c a. a * 10 + digit_val c) (show_nat k) 0 = k" for k
  proof (induction k rule: show_nat.induct)
    case (1 n)
    then show ?case by (simp add: show_nat.simps [of n])
  qed
  assume "show_nat m = show_nat n"
  then show "m = n" by (metis val)
qed simp

end
