(* ===== verification/Base32.thy ===== *)
theory Base32
  imports Text
begin

text \<open>
  Nix's base32 (\<open>crates/bincache-core/src/base32.rs\<close>): the alphabet, the digit table, \<open>encode\<close>
  and \<open>decode\<close> with the source's 16-bit windows. The lemmas read both directions as the
  little-endian bit stream of the value and show that they are inverse to each other, in both
  orders, so every value has exactly one accepted spelling.
\<close>

unbundle bit_operations_syntax

section \<open>The code\<close>

definition ALPHABET :: string where
  "ALPHABET = ''0123456789abcdfghijklmnpqrsvwxyz''"

definition DROPPED :: u8 where
  "DROPPED = 255"

definition LETTERS :: "u8 list" where
  "LETTERS =
    [10, 11, 12, 13, DROPPED, 14, 15, 16, 17, 18, 19, 20, 21, 22, DROPPED, 23, 24, 25, 26, DROPPED,
     DROPPED, 27, 28, 29, 30, 31]"

definition BITS :: nat where
  "BITS = 5"

datatype b32_error =
    B32_Length nat nat        \<comment> \<open>expected, found\<close>
  | B32_Alphabet u8           \<comment> \<open>the byte\<close>
  | B32_Overflow u8 nat       \<comment> \<open>the overflowing bits, the width\<close>

text \<open>Only called at the positive widths 20 and 32, so \<open>width * 8 - 1\<close> does not underflow.\<close>

definition text_len :: "nat \<Rightarrow> nat" where
  "text_len width = (width * 8 - 1) div BITS + 1"

text \<open>\<open>u16::from_le_bytes\<close> and \<open>u16::to_le_bytes\<close>.\<close>

definition u16_from_le_bytes :: "u8 \<Rightarrow> u8 \<Rightarrow> u16" where
  "u16_from_le_bytes low high = ucast low OR push_bit 8 (ucast high)"

definition u16_to_le_bytes :: "u16 \<Rightarrow> u8 \<times> u8" where
  "u16_to_le_bytes w = (ucast w, ucast (drop_bit 8 w))"

text \<open>One turn of the loop of \<open>encode\<close>: the character at position \<open>index\<close>.\<close>

definition encode_char :: "u8 list \<Rightarrow> nat \<Rightarrow> char" where
  "encode_char bytes index =
     (let bit = index * BITS;
          byte = bit div 8;
          shift = bit mod 8;
          low = bytes ! byte;
          high = (if byte + 1 < length bytes then bytes ! (byte + 1) else 0);
          window = drop_bit shift (u16_from_le_bytes low high)
      in ALPHABET ! unat (window AND 0x1f))"

definition encode :: "u8 list \<Rightarrow> string" where
  "encode bytes = map (encode_char bytes) (rev [0..<text_len (length bytes)])"

definition digit :: "char \<Rightarrow> b32_error + u8" where
  "digit character =
     (let c = of_char character :: u8 in
      if 48 \<le> c \<and> c \<le> 57 then Inr (c - 48)
      else if 97 \<le> c \<and> c \<le> 122 then
        (let position = LETTERS ! unat (c - 97)
         in if position \<noteq> DROPPED then Inr position else Inl (B32_Alphabet c))
      else Inl (B32_Alphabet c))"

text \<open>The loop of \<open>decode\<close>, over the characters last first, from position \<open>index\<close> on.\<close>

fun decode_loop :: "nat \<Rightarrow> nat \<Rightarrow> u8 list \<Rightarrow> string \<Rightarrow> b32_error + u8 list" where
  "decode_loop N index bytes [] = Inr bytes"
| "decode_loop N index bytes (character # rest) =
     and_then (digit character) (\<lambda>d.
       let bit = index * BITS;
           byte = bit div 8;
           shift = bit mod 8;
           (low, high) = u16_to_le_bytes (push_bit shift (ucast d));
           bytes = bytes[byte := bytes ! byte OR low]
       in if byte + 1 < N
          then decode_loop N (index + 1) (bytes[byte + 1 := bytes ! (byte + 1) OR high]) rest
          else and_then (ensure (high = 0) (B32_Overflow high N))
                 (\<lambda>_. decode_loop N (index + 1) bytes rest))"

definition decode :: "nat \<Rightarrow> string \<Rightarrow> b32_error + u8 list" where
  "decode N text =
     (let expected = text_len N in
      and_then (ensure (length text = expected) (B32_Length expected (length text)))
        (\<lambda>_. decode_loop N 0 (replicate N 0) (rev text)))"

section \<open>Digits\<close>

lemma length_ALPHABET [simp]: "length ALPHABET = 32"
  by (simp add: ALPHABET_def)

text \<open>The digit table is the inverse of the alphabet, checked on every position and letter.\<close>

lemma digit_ALPHABET: "i < 32 \<Longrightarrow> digit (ALPHABET ! i) = Inr (of_nat i)"
proof -
  assume "i < 32"
  then have "i \<in> set [0..<32]" by simp
  then show ?thesis
    by (simp add: upt_rec [of _ "numeral _"] upt_rec [of 0])
      (elim disjE; simp add: ALPHABET_def digit_def LETTERS_def DROPPED_def)
qed

lemma digit_byte:
  fixes m :: nat
  assumes "digit (char_of m) = Inr d" "m < 256"
  shows "unat d < 32 \<and> of_char (ALPHABET ! unat d) = m"
proof -
  have w: "(of_char (char_of m :: char) :: u8) = of_nat m"
    using assms(2) of_nat_of_char [of "char_of m :: char", where ?'a = u8, symmetric] by simp
  consider "m \<in> set [48..<58]" | "m \<in> set [97..<123]" | "m \<notin> set [48..<58]" "m \<notin> set [97..<123]" by blast
  then show ?thesis
  proof cases
    case 1
    then show ?thesis using assms(1) unfolding digit_def w
      by (simp add: upt_rec [of _ "numeral _"])
        (elim disjE; simp add: ALPHABET_def)
  next
    case 2
    then show ?thesis using assms(1) unfolding digit_def w
      by (simp add: upt_rec [of _ "numeral _"])
        (elim disjE; simp add: ALPHABET_def LETTERS_def DROPPED_def)
  next
    case 3
    have u: "unat (of_nat m :: u8) = m" using assms(2) by (simp add: unat_of_nat)
    have "\<not> (48 \<le> (of_nat m :: u8) \<and> (of_nat m :: u8) \<le> 57)" "\<not> (97 \<le> (of_nat m :: u8) \<and> (of_nat m :: u8) \<le> 122)"
      using 3 unfolding word_le_nat_alt u set_upt by auto
    then have "digit (char_of m) = Inl (B32_Alphabet (of_nat m))"
      unfolding digit_def w Let_def by presburger
    with assms(1) show ?thesis by simp
  qed
qed

lemma digit_InrD: "digit c = Inr d \<Longrightarrow> unat d < 32 \<and> ALPHABET ! unat d = c"
  using digit_byte [of "of_char c" d] by (simp add: of_char_eq_iff)

section \<open>The bit stream\<close>

text \<open>Bit \<open>n\<close> of a byte string read little-endian, and of a digit string of five bits each.\<close>

definition lebit :: "u8 list \<Rightarrow> nat \<Rightarrow> bool" where
  "lebit bytes n \<longleftrightarrow> n div 8 < length bytes \<and> bit (bytes ! (n div 8)) (n mod 8)"

definition dbit :: "u8 list \<Rightarrow> nat \<Rightarrow> bool" where
  "dbit ds n \<longleftrightarrow> n div 5 < length ds \<and> bit (ds ! (n div 5)) (n mod 5)"

lemma lebit_ge: "8 * length bytes \<le> n \<Longrightarrow> \<not> lebit bytes n"
proof -
  assume "8 * length bytes \<le> n"
  then have "\<not> n div 8 < length bytes" by linarith
  then show ?thesis by (simp add: lebit_def)
qed

lemma lebit_ext:
  assumes "length as = length bs" "\<And>n. n < 8 * length as \<Longrightarrow> lebit as n \<longleftrightarrow> lebit bs n"
  shows "as = bs"
proof (rule nth_equalityI)
  fix i assume i: "i < length as"
  show "as ! i = bs ! i"
  proof (rule bit_word_eqI)
    fix k :: nat assume "k < LENGTH(8)"
    then show "bit (as ! i) k = bit (bs ! i) k"
      using assms(1) assms(2) [of "8 * i + k"] i by (simp add: lebit_def)
  qed
qed (rule assms(1))

lemma dbit_Cons: "dbit (d # ds) n = (if n < 5 then bit d n else dbit ds (n - 5))"
  by (auto simp: dbit_def nth_Cons' div_if mod_if)

lemma dbit_step: "5 * (i + 1) \<le> n \<Longrightarrow> dbit (d # ds) (n - 5 * i) = dbit ds (n - 5 * (i + 1))"
proof -
  assume "5 * (i + 1) \<le> n"
  then have "\<not> n - 5 * i < 5" and "n - 5 * i - 5 = n - 5 * (i + 1)" by simp_all
  then show ?thesis by (simp only: dbit_Cons if_False)
qed

lemma bit_ge_5: "unat (d :: u8) < 32 \<Longrightarrow> 5 \<le> n \<Longrightarrow> \<not> bit d n"
proof -
  assume "unat d < 32" "5 \<le> n"
  then have "take_bit 5 (unat d) = unat d" by (simp add: take_bit_nat_eq_self_iff)
  then have "take_bit 5 d = d" by (metis unsigned_take_bit_eq word_unat_eq_iff)
  then show ?thesis using \<open>5 \<le> n\<close> by (metis bit_take_bit_iff linorder_not_less)
qed

lemma bit_u16_from_le_bytes:
  "bit (u16_from_le_bytes low high) n =
     (if n < 8 then bit low n else n < 16 \<and> bit high (n - 8))"
  by (auto simp: u16_from_le_bytes_def bit_simps dest: bit_imp_le_length)

lemma bit_u16_to_le_bytes:
  assumes "u16_to_le_bytes w = (low, high)"
  shows "bit low n = (n < 8 \<and> bit w n)" "bit high n = (n < 8 \<and> bit w (n + 8))"
  using assms by (auto simp: u16_to_le_bytes_def bit_simps add.commute)

section \<open>Encoding\<close>

definition digit_at :: "u8 list \<Rightarrow> nat \<Rightarrow> u8" where
  "digit_at bytes index = ucast
     (drop_bit (index * 5 mod 8)
       (u16_from_le_bytes (bytes ! (index * 5 div 8))
          (if index * 5 div 8 + 1 < length bytes then bytes ! (index * 5 div 8 + 1) else 0)) AND 0x1f)"

lemma unat_and_1f: "unat ((w :: u16) AND 0x1f) < 32"
proof -
  have "w AND 0x1f = take_bit 5 w"
    by (simp add: take_bit_eq_mask mask_eq_exp_minus_1)
  then show ?thesis using take_bit_nat_less_exp [of 5 "unat w"] by (simp add: unsigned_take_bit_eq)
qed

lemma unat_ucast_1f: "unat (ucast ((w :: u16) AND 0x1f) :: u8) = unat (w AND 0x1f)"
proof -
  have "unat (w AND 0x1f) < 2 ^ 8" using unat_and_1f [of w] by simp
  then show ?thesis by (simp only: unsigned_ucast_eq len_num1 len_bit0) (simp add: take_bit_nat_eq_self)
qed

lemma encode_char_digit_at: "encode_char bytes i = ALPHABET ! unat (digit_at bytes i)"
  unfolding encode_char_def digit_at_def BITS_def Let_def unat_ucast_1f ..

lemma unat_digit_at: "unat (digit_at bytes i) < 32"
  unfolding digit_at_def unat_ucast_1f by (rule unat_and_1f)

text \<open>A bit position as a byte and an offset in it.\<close>

lemma divmod8:
  obtains q r :: nat where "n = 8 * q + r" "r < 8"
  by (metis mod_less_divisor mult_div_mod_eq zero_less_numeral)

lemma lebit_at: "r < 8 \<Longrightarrow> lebit bytes (8 * q + r) \<longleftrightarrow> q < length bytes \<and> bit (bytes ! q) r"
  by (simp add: lebit_def)

lemma bit_digit_at:
  assumes "i * 5 div 8 < length bytes" "j < 5"
  shows "bit (digit_at bytes i) j = lebit bytes (5 * i + j)"
proof -
  define high where "high = (if i * 5 div 8 + 1 < length bytes then bytes ! (i * 5 div 8 + 1) else 0)"
  obtain q r where p: "5 * i = 8 * q + r" "r < 8" by (rule divmod8)
  then have qr: "i * 5 div 8 = q" "i * 5 mod 8 = r" by (simp_all add: mult.commute [of i])
  have "digit_at bytes i = ucast (take_bit 5 (drop_bit r (u16_from_le_bytes (bytes ! q) high)))"
    by (simp add: digit_at_def take_bit_eq_mask mask_eq_exp_minus_1 qr high_def)
  then have "bit (digit_at bytes i) j = bit (u16_from_le_bytes (bytes ! q) high) (r + j)"
    using assms(2) by (simp add: bit_simps)
  also have "\<dots> = lebit bytes (5 * i + j)"
  proof (cases "r + j < 8")
    case True
    then have "lebit bytes (5 * i + j) = bit (bytes ! q) (r + j)"
      using lebit_at [of "r + j" bytes q] assms(1) p by (simp add: qr ac_simps)
    with True show ?thesis by (simp add: bit_u16_from_le_bytes)
  next
    case False
    then have e1: "5 * i + j = 8 * (q + 1) + (r + j - 8)" using p by simp
    have e2: "r + j - 8 < 8" using p assms(2) by simp
    have "lebit bytes (5 * i + j) = bit high (r + j - 8)"
      unfolding e1 lebit_at [OF e2] high_def qr by simp
    with False p assms(2) show ?thesis by (simp add: bit_u16_from_le_bytes)
  qed
  finally show ?thesis .
qed

section \<open>Decoding\<close>

text \<open>What one turn of the loop writes: the five bits of \<open>d\<close>, from bit \<open>5 * index\<close> on.\<close>

lemma push_digit_bits:
  assumes "unat (d :: u8) < 32" "sh < 8"
  shows "bit (push_bit sh (ucast d :: u16)) k = (sh \<le> k \<and> k < sh + 5 \<and> bit d (k - sh))"
proof (cases "sh \<le> k \<and> k < sh + 5")
  case True
  then show ?thesis using assms(2) by (auto simp: bit_simps)
next
  case False
  then have "sh \<le> k \<Longrightarrow> \<not> bit d (k - sh)" using bit_ge_5 [OF assms(1), of "k - sh"] by simp
  with False show ?thesis by (auto simp: bit_simps)
qed

lemma lebit_update_or:
  assumes "q < length bs" "r < 8"
  shows "lebit (bs[q := bs ! q OR w]) (8 * m + r) = (lebit bs (8 * m + r) \<or> m = q \<and> bit w r)"
  using assms by (auto simp: lebit_at nth_list_update bit_simps)

lemma low_bits:
  assumes "unat (d :: u8) < 32" "u16_to_le_bytes (push_bit r (ucast d)) = (low, high)" "r < 8" "k < 8"
  shows "bit low k = (r \<le> k \<and> k < r + 5 \<and> bit d (k - r))"
  using assms(4) by (simp add: bit_u16_to_le_bytes(1) [OF assms(2)] push_digit_bits [OF assms(1,3)])

lemma high_bits:
  assumes "unat (d :: u8) < 32" "u16_to_le_bytes (push_bit r (ucast d)) = (low, high)" "r < 8" "k < 8"
  shows "bit high k = (k + 8 < r + 5 \<and> bit d (k + 8 - r))"
  using assms(3,4) by (auto simp add: bit_u16_to_le_bytes(2) [OF assms(2)] push_digit_bits [OF assms(1,3)])

lemma step_low:
  assumes d: "unat (d :: u8) < 32" and lh: "u16_to_le_bytes (push_bit r (ucast d)) = (low, high)"
    and i: "5 * i = 8 * q + r" "r < 8" and q: "q < length bs"
  shows "lebit (bs[q := bs ! q OR low]) n =
    (lebit bs n \<or> 5 * i \<le> n \<and> n < 5 * i + 5 \<and> n div 8 = q \<and> bit d (n - 5 * i))"
proof -
  obtain m k where n: "n = 8 * m + k" "k < 8" by (rule divmod8)
  have "m = q \<and> bit low k \<longleftrightarrow> 5 * i \<le> n \<and> n < 5 * i + 5 \<and> m = q \<and> bit d (n - 5 * i)"
    using n i low_bits [OF d lh i(2) n(2)] by auto
  then show ?thesis using lebit_update_or [OF q n(2)] n by simp
qed

lemma step_high:
  assumes d: "unat (d :: u8) < 32" and lh: "u16_to_le_bytes (push_bit r (ucast d)) = (low, high)"
    and i: "5 * i = 8 * q + r" "r < 8" and q: "q + 1 < length bs"
  shows "lebit (bs[q + 1 := bs ! (q + 1) OR high]) n =
    (lebit bs n \<or> 5 * i \<le> n \<and> n < 5 * i + 5 \<and> n div 8 = q + 1 \<and> bit d (n - 5 * i))"
proof -
  obtain m k where n: "n = 8 * m + k" "k < 8" by (rule divmod8)
  have "m = q + 1 \<and> bit high k \<longleftrightarrow> 5 * i \<le> n \<and> n < 5 * i + 5 \<and> m = q + 1 \<and> bit d (n - 5 * i)"
  proof (cases "m = q + 1")
    case True
    then have "5 * i \<le> n" and "n - 5 * i = k + 8 - r" and "n < 5 * i + 5 \<longleftrightarrow> k + 8 < r + 5"
      using n i by auto
    then show ?thesis using high_bits [OF d lh i(2) n(2)] True by simp
  qed simp
  then show ?thesis using lebit_update_or [OF q n(2)] n by simp
qed

text \<open>The overflow check: no bit of the digit lies past the last byte.\<close>

lemma step_overflow:
  assumes d: "unat (d :: u8) < 32" and lh: "u16_to_le_bytes (push_bit r (ucast d)) = (low, high)"
    and i: "5 * i = 8 * q + r" "r < 8"
  shows "high = 0 \<longleftrightarrow> (\<forall>n. 8 * (q + 1) \<le> n \<and> n < 5 * i + 5 \<longrightarrow> \<not> bit d (n - 5 * i))"
proof -
  have "high = 0 \<longleftrightarrow> (\<forall>k < 8. \<not> bit high k)"
    by (auto simp: bit_eq_iff dest: bit_imp_le_length)
  also have "\<dots> \<longleftrightarrow> (\<forall>k < 8. k + 8 < r + 5 \<longrightarrow> \<not> bit d (k + 8 - r))"
    by (simp add: high_bits [OF d lh i(2)])
  also have "\<dots> \<longleftrightarrow> (\<forall>n. 8 * (q + 1) \<le> n \<and> n < 5 * i + 5 \<longrightarrow> \<not> bit d (n - 5 * i))"
  proof (intro iffI allI impI)
    fix n assume a: "\<forall>k < 8. k + 8 < r + 5 \<longrightarrow> \<not> bit d (k + 8 - r)" and n: "8 * (q + 1) \<le> n \<and> n < 5 * i + 5"
    have "n - 8 * (q + 1) < 8" and "n - 8 * (q + 1) + 8 < r + 5" and "n - 8 * (q + 1) + 8 - r = n - 5 * i"
      using n i by auto
    with a show "\<not> bit d (n - 5 * i)" by metis
  next
    fix k assume a: "\<forall>n. 8 * (q + 1) \<le> n \<and> n < 5 * i + 5 \<longrightarrow> \<not> bit d (n - 5 * i)"
      and k: "k < 8" "k + 8 < r + 5"
    have "8 * (q + 1) \<le> 8 * (q + 1) + k \<and> 8 * (q + 1) + k < 5 * i + 5"
      and "8 * (q + 1) + k - 5 * i = k + 8 - r"
      using k i by auto
    with a show "\<not> bit d (k + 8 - r)" by metis
  qed
  finally show ?thesis .
qed

text \<open>
  The loop as a whole: it succeeds exactly when every character is a digit and no digit bit
  lies past the value, and then the value holds the old bits and the digit bits.
\<close>

lemma decode_loop_Inr:
  assumes "decode_loop N i bs rest = Inr out" "length bs = N" "0 < N"
    "rest \<noteq> [] \<Longrightarrow> 5 * (i + length rest - 1) < 8 * N"
  shows "\<exists>ds. map digit rest = map Inr ds \<and> length out = N \<and>
    (\<forall>n < 8 * N. lebit out n = (lebit bs n \<or> 5 * i \<le> n \<and> dbit ds (n - 5 * i))) \<and>
    (\<forall>n \<ge> 8 * N. \<not> (5 * i \<le> n \<and> dbit ds (n - 5 * i)))"
  using assms
proof (induction rest arbitrary: i bs)
  case Nil
  then show ?case by (auto simp: dbit_def intro!: exI [of _ "[]"])
next
  case (Cons c rest)
  obtain d where d: "digit c = Inr d" using Cons.prems(1) by (cases "digit c") auto
  then have d32: "unat d < 32" by (simp add: digit_InrD)
  obtain q r where p: "5 * i = 8 * q + r" "r < 8" by (rule divmod8)
  then have qr: "i * 5 div 8 = q" "i * 5 mod 8 = r" by (simp_all add: mult.commute [of i])
  obtain low high where lh: "u16_to_le_bytes (push_bit r (ucast d)) = (low, high)" by fastforce
  have qN: "q < N" using Cons.prems(4) p by simp
  define bs1 where "bs1 = bs[q := bs ! q OR low]"
  have len1: "length bs1 = N" using Cons.prems(2) by (simp add: bs1_def)
  note low = step_low [OF d32 lh p, of bs, folded bs1_def, unfolded Cons.prems(2), OF qN]
  have bound: "rest \<noteq> [] \<Longrightarrow> 5 * (i + 1 + length rest - 1) < 8 * N" using Cons.prems(4) by simp
  have dcons: "5 * i \<le> n \<and> dbit (d # ds) (n - 5 * i) \<longleftrightarrow>
      5 * i \<le> n \<and> n < 5 * i + 5 \<and> bit d (n - 5 * i) \<or> 5 * (i + 1) \<le> n \<and> dbit ds (n - 5 * (i + 1))" for n ds
    by (cases "n < 5 * i + 5") (auto simp: dbit_Cons add.commute)
  show ?case
  proof (cases "q + 1 < N")
    case True
    define bs2 where "bs2 = bs1[q + 1 := bs1 ! (q + 1) OR high]"
    have "decode_loop N (i + 1) bs2 rest = Inr out"
      using Cons.prems(1) True d lh by (simp add: BITS_def qr bs1_def bs2_def)
    from Cons.IH [OF this _ Cons.prems(3) bound] obtain ds where
      ds: "map digit rest = map Inr ds" "length out = N"
        "\<forall>n < 8 * N. lebit out n = (lebit bs2 n \<or> 5 * (i + 1) \<le> n \<and> dbit ds (n - 5 * (i + 1)))"
        "\<forall>n \<ge> 8 * N. \<not> (5 * (i + 1) \<le> n \<and> dbit ds (n - 5 * (i + 1)))"
      using len1 by (auto simp: bs2_def)
    have "lebit bs2 n = (lebit bs n \<or> 5 * i \<le> n \<and> n < 5 * i + 5 \<and> bit d (n - 5 * i))" for n
    proof -
      have "5 * i \<le> n \<and> n < 5 * i + 5 \<Longrightarrow> n div 8 = q \<or> n div 8 = q + 1" using p by linarith
      then show ?thesis
        using low [of n] step_high [OF d32 lh p, of bs1 n] True len1 by (auto simp: bs2_def)
    qed
    with d ds have "map digit (c # rest) = map Inr (d # ds) \<and> length out = N \<and>
      (\<forall>n < 8 * N. lebit out n = (lebit bs n \<or> 5 * i \<le> n \<and> dbit (d # ds) (n - 5 * i)))"
      unfolding dcons by auto
    moreover have "\<forall>n \<ge> 8 * N. \<not> (5 * i \<le> n \<and> dbit (d # ds) (n - 5 * i))"
      using ds(4) True p unfolding dcons by auto
    ultimately show ?thesis by blast
  next
    case False
    then have N: "N = q + 1" using qN by simp
    have "decode_loop N (i + 1) bs1 rest = Inr out" and h: "high = 0"
      using Cons.prems(1) False d lh by (auto simp: BITS_def qr bs1_def and_then_eq_Inr_iff)
    from Cons.IH [OF this(1) len1 Cons.prems(3) bound] obtain ds where
      ds: "map digit rest = map Inr ds" "length out = N"
        "\<forall>n < 8 * N. lebit out n = (lebit bs1 n \<or> 5 * (i + 1) \<le> n \<and> dbit ds (n - 5 * (i + 1)))"
        "\<forall>n \<ge> 8 * N. \<not> (5 * (i + 1) \<le> n \<and> dbit ds (n - 5 * (i + 1)))"
      by auto
    have "lebit bs1 n = (lebit bs n \<or> 5 * i \<le> n \<and> n < 5 * i + 5 \<and> bit d (n - 5 * i))" if "n < 8 * N" for n
    proof -
      have "5 * i \<le> n \<and> n < 5 * i + 5 \<Longrightarrow> n div 8 = q" using p that N by linarith
      then show ?thesis using low [of n] by blast
    qed
    with d ds have "map digit (c # rest) = map Inr (d # ds) \<and> length out = N \<and>
      (\<forall>n < 8 * N. lebit out n = (lebit bs n \<or> 5 * i \<le> n \<and> dbit (d # ds) (n - 5 * i)))"
      unfolding dcons by auto
    moreover have "\<forall>n \<ge> 8 * N. \<not> (5 * i \<le> n \<and> dbit (d # ds) (n - 5 * i))"
      using ds(4) step_overflow [OF d32 lh p] h unfolding dcons N by auto
    ultimately show ?thesis by blast
  qed
qed

text \<open>Conversely, digits that fit the value are accepted.\<close>

lemma decode_loop_total:
  assumes "map digit rest = map Inr ds" "length bs = N" "0 < N"
    "rest \<noteq> [] \<Longrightarrow> 5 * (i + length rest - 1) < 8 * N"
    "\<And>n. 8 * N \<le> n \<Longrightarrow> 5 * i \<le> n \<Longrightarrow> \<not> dbit ds (n - 5 * i)"
  shows "\<exists>out. decode_loop N i bs rest = Inr out"
  using assms
proof (induction rest arbitrary: i bs ds)
  case Nil
  then show ?case by simp
next
  case (Cons c rest)
  then obtain d ds' where ds: "ds = d # ds'" "digit c = Inr d" "map digit rest = map Inr ds'"
    by (cases ds) auto
  then have d32: "unat d < 32" by (simp add: digit_InrD)
  obtain q r where p: "5 * i = 8 * q + r" "r < 8" by (rule divmod8)
  then have qr: "i * 5 div 8 = q" "i * 5 mod 8 = r" by (simp_all add: mult.commute [of i])
  obtain low high where lh: "u16_to_le_bytes (push_bit r (ucast d)) = (low, high)" by fastforce
  have rest: "\<not> dbit ds' (n - 5 * (i + 1))" if "8 * N \<le> n" "5 * (i + 1) \<le> n" for n
    using Cons.prems(5) [of n] that dbit_step [of i n d ds'] by (simp add: ds(1))
  have high: "high = 0" if "\<not> q + 1 < N"
    unfolding step_overflow [OF d32 lh p]
  proof (intro allI impI)
    fix n assume n: "8 * (q + 1) \<le> n \<and> n < 5 * i + 5"
    then have "8 * N \<le> n" "5 * i \<le> n" using that p by auto
    from Cons.prems(5) [OF this] n \<open>5 * i \<le> n\<close> show "\<not> bit d (n - 5 * i)"
      by (simp add: ds(1) dbit_Cons split: if_splits)
  qed
  have "\<exists>out. decode_loop N (i + 1) b rest = Inr out" if "length b = N" for b
    using that Cons.prems(3,4) rest by (intro Cons.IH [OF ds(3)]) auto
  then show ?case using ds(2) lh high Cons.prems(2)
    by (cases "q + 1 < N") (simp_all add: BITS_def qr)
qed

section \<open>Round trips\<close>

lemma text_len_bounds:
  assumes "0 < N"
  shows "8 * N \<le> 5 * text_len N" and "5 * (text_len N - 1) < 8 * N"
  using assms by (simp_all add: text_len_def BITS_def)

lemma length_encode [simp]: "length (encode bs) = text_len (length bs)"
  by (simp add: encode_def)

lemma rev_encode: "rev (encode bs) = map (encode_char bs) [0..<text_len (length bs)]"
  by (simp add: encode_def rev_map)

lemma digit_encode_char: "digit (encode_char bs i) = Inr (digit_at bs i)"
  using digit_ALPHABET [OF unat_digit_at [of bs i]] by (simp add: encode_char_digit_at)

definition digits_of :: "u8 list \<Rightarrow> u8 list" where
  "digits_of bs = map (digit_at bs) [0..<text_len (length bs)]"

lemma dbit_digits_of:
  assumes "bs \<noteq> []"
  shows "dbit (digits_of bs) n = lebit bs n"
proof -
  have N: "0 < length bs" using assms by simp
  show ?thesis
  proof (cases "n div 5 < text_len (length bs)")
    case True
    then have "5 * (n div 5) \<le> 5 * (text_len (length bs) - 1)" by simp
    with text_len_bounds(2) [OF N] have "n div 5 * 5 div 8 < length bs" by linarith
    with True show ?thesis
      using bit_digit_at [of "n div 5" bs "n mod 5"] by (simp add: dbit_def digits_of_def)
  next
    case False
    then have "5 * text_len (length bs) \<le> n" by linarith
    with text_len_bounds(1) [OF N] have "8 * length bs \<le> n" by linarith
    with False show ?thesis by (simp add: dbit_def digits_of_def lebit_ge)
  qed
qed

lemma lebit_zeros [simp]: "\<not> lebit (replicate N 0) n"
  by (simp add: lebit_def)

lemma decode_encode: "bs \<noteq> [] \<Longrightarrow> decode (length bs) (encode bs) = Inr bs"
proof -
  assume ne: "bs \<noteq> []"
  let ?N = "length bs" and ?rest = "rev (encode bs)"
  have N: "0 < ?N" using ne by simp
  have dig: "map digit ?rest = map Inr (digits_of bs)"
    by (simp add: rev_encode digits_of_def digit_encode_char)
  have bound: "5 * (0 + length ?rest - 1) < 8 * ?N"
    using text_len_bounds(2) [OF N] by simp
  have "\<exists>out. decode_loop ?N 0 (replicate ?N 0) ?rest = Inr out"
    by (rule decode_loop_total [OF dig])
      (use N bound in \<open>auto simp: dbit_digits_of [OF ne] lebit_ge\<close>)
  then obtain out where out: "decode_loop ?N 0 (replicate ?N 0) ?rest = Inr out" ..
  from decode_loop_Inr [OF this _ N] bound obtain ds where
    ds: "map digit ?rest = map Inr ds" "length out = ?N" "\<forall>n < 8 * ?N. lebit out n = dbit ds n"
    by auto
  from ds(1) dig have "ds = digits_of bs" by (metis list.inj_map_strong sum.inject(2))
  with ds(2,3) have "out = bs" by (intro lebit_ext) (auto simp: dbit_digits_of [OF ne])
  with out show ?thesis by (simp add: decode_def)
qed

lemma decode_InrD:
  assumes "decode N s = Inr bs" "0 < N"
  shows "length bs = N" and "encode bs = s"
proof -
  let ?rest = "rev s"
  from assms(1) have len: "length s = text_len N"
    and loop: "decode_loop N 0 (replicate N 0) ?rest = Inr bs"
    by (auto simp: decode_def Let_def and_then_eq_Inr_iff)
  have bound: "5 * (0 + length ?rest - 1) < 8 * N"
    using text_len_bounds(2) [OF assms(2)] len by simp
  from decode_loop_Inr [OF loop _ assms(2)] bound obtain ds where
    ds: "map digit ?rest = map Inr ds" "length bs = N" "\<forall>n < 8 * N. lebit bs n = dbit ds n"
      "\<forall>n \<ge> 8 * N. \<not> dbit ds n"
    by auto
  show "length bs = N" by fact
  with assms(2) have ne: "bs \<noteq> []" by auto
  have eq: "lebit bs n = dbit ds n" for n
    using ds lebit_ge [of bs n] by (cases "n < 8 * N") auto
  have lds: "length ds = text_len N" using arg_cong [OF ds(1), of length] len by simp
  have "digit_at bs i = ds ! i" if i: "i < text_len N" for i
  proof (rule bit_word_eqI)
    fix k :: nat
    have di: "digit (?rest ! i) = Inr (ds ! i)"
      using arg_cong [OF ds(1), of "\<lambda>l. l ! i"] i len lds by simp
    show "bit (digit_at bs i) k = bit (ds ! i) k"
    proof (cases "k < 5")
      case True
      then have "dbit (digits_of bs) (5 * i + k) = dbit ds (5 * i + k)"
        by (simp add: dbit_digits_of [OF ne] eq)
      with True i lds ds(2) show ?thesis by (simp add: dbit_def digits_of_def)
    next
      case False
      with bit_ge_5 [OF unat_digit_at] bit_ge_5 [OF conjunct1 [OF digit_InrD [OF di]]]
      show ?thesis by (simp add: not_less)
    qed
  qed
  then have "rev (encode bs) = map (\<lambda>i. ALPHABET ! unat (ds ! i)) [0..<length ds]"
    unfolding rev_encode ds(2) lds by (simp add: encode_char_digit_at)
  also have "\<dots> = ?rest"
  proof (rule nth_equalityI)
    fix i assume "i < length (map (\<lambda>i. ALPHABET ! unat (ds ! i)) [0..<length ds])"
    then have i: "i < text_len N" by (simp add: lds)
    have "digit (?rest ! i) = Inr (ds ! i)"
      using arg_cong [OF ds(1), of "\<lambda>l. l ! i"] i len lds by simp
    with i show "map (\<lambda>i. ALPHABET ! unat (ds ! i)) [0..<length ds] ! i = ?rest ! i"
      by (simp add: lds digit_InrD)
  qed (simp add: lds len)
  finally show "encode bs = s" by simp
qed

text \<open>At the two widths the program decodes, both directions form a canonical codec.\<close>

interpretation b32_20: canonical_codec encode "decode 20" "\<lambda>bs. length bs = 20"
proof unfold_locales
  fix bs :: "u8 list" assume "length bs = 20"
  moreover from this have "bs \<noteq> []" by auto
  ultimately show "decode 20 (encode bs) = Inr bs" using decode_encode [of bs] by simp
qed (auto dest: decode_InrD)

interpretation b32_32: canonical_codec encode "decode 32" "\<lambda>bs. length bs = 32"
proof unfold_locales
  fix bs :: "u8 list" assume "length bs = 32"
  moreover from this have "bs \<noteq> []" by auto
  ultimately show "decode 32 (encode bs) = Inr bs" using decode_encode [of bs] by simp
qed (auto dest: decode_InrD)

text \<open>A text of the wrong length is refused as such, before any character is read.\<close>

lemma decode_wrong_length:
  "length s \<noteq> text_len N \<Longrightarrow> decode N s = Inl (B32_Length (text_len N) (length s))"
  by (simp add: decode_def Let_def)

lemma set_ALPHABET_alnum: "c \<in> set ALPHABET \<Longrightarrow> is_digit c \<or> CHR ''a'' \<le> c \<and> c \<le> CHR ''z''"
  by (auto simp: ALPHABET_def is_digit_def less_eq_char_def)

lemma set_encode: "set (encode bs) \<subseteq> set ALPHABET"
  using unat_digit_at by (auto simp: encode_def encode_char_digit_at)

end
