(* ===== verification/External.thy ===== *)
theory External
  imports Text
begin

text \<open>
  The pure third-party functions the core crate calls, as one record of parameters, and the
  documented behaviour the program relies on, as named predicates over that record:
  \<^item> \<open>sha2\<close>: an incremental SHA-256 state (\<open>sha_init\<close>, \<open>sha_update\<close>, \<open>sha_finalize\<close>);
  \<^item> \<open>data-encoding\<close>: \<open>BASE64\<close>, \<open>HEXLOWER_PERMISSIVE\<close>, \<open>BASE64URL_NOPAD\<close>;
  \<^item> \<open>ed25519-dalek\<close>: the public key of a seed, signing, the point check, verification;
  \<^item> \<open>subtle\<close>: comparing two byte arrays in constant time.
  Nothing below defines what these functions compute.
\<close>

record 'h ext =
  sha_init :: 'h
  sha_update :: "'h \<Rightarrow> string \<Rightarrow> 'h"
  sha_finalize :: "'h \<Rightarrow> u8 list"
  b64_encode :: "u8 list \<Rightarrow> string"
  b64_decode :: "string \<Rightarrow> ext_error + u8 list"
  hex_decode :: "string \<Rightarrow> ext_error + u8 list"
  b64url_encode :: "u8 list \<Rightarrow> string"
  ed_public :: "u8 list \<Rightarrow> u8 list"
  ed_sign :: "u8 list \<Rightarrow> string \<Rightarrow> u8 list"
  ed_point :: "u8 list \<Rightarrow> ext_error + unit"
  ed_verify :: "u8 list \<Rightarrow> string \<Rightarrow> u8 list \<Rightarrow> ext_error + unit"
  ct_eq :: "u8 list \<Rightarrow> u8 list \<Rightarrow> bool"

text \<open>
  \<open>Digest::update\<close> absorbs a stream: how it is cut into calls does not matter, and a digest
  is 32 bytes.
\<close>

definition sha_laws :: "'h ext \<Rightarrow> bool" where
  "sha_laws X \<longleftrightarrow>
     (\<forall>h. sha_update X h [] = h) \<and>
     (\<forall>h a b. sha_update X (sha_update X h a) b = sha_update X h (a @ b)) \<and>
     (\<forall>h. length (sha_finalize X h) = 32)"

text \<open>The characters of padded standard base64.\<close>

definition b64_char :: "char \<Rightarrow> bool" where
  "b64_char c \<longleftrightarrow> c \<in> set ''ABCDEFGHIJKLMNOPQRSTUVWXYZabcdefghijklmnopqrstuvwxyz0123456789+/=''"

definition b64_laws :: "'h ext \<Rightarrow> bool" where
  "b64_laws X \<longleftrightarrow>
     (\<forall>bs. b64_decode X (b64_encode X bs) = Inr bs) \<and>
     (\<forall>bs. length (b64_encode X bs) = 4 * ((length bs + 2) div 3)) \<and>
     (\<forall>bs. \<forall>c \<in> set (b64_encode X bs). b64_char c) \<and>
     (\<forall>s. (\<exists>c \<in> set s. \<not> b64_char c) \<longrightarrow> (\<exists>e. b64_decode X s = Inl e))"

definition hex_digit :: "nat \<Rightarrow> char" where
  "hex_digit n = ''0123456789abcdef'' ! n"

definition hex_lower :: "u8 list \<Rightarrow> string" where
  "hex_lower bs = concat (map (\<lambda>b. [hex_digit (unat b div 16), hex_digit (unat b mod 16)]) bs)"

definition hex_laws :: "'h ext \<Rightarrow> bool" where
  "hex_laws X \<longleftrightarrow> (\<forall>bs. hex_decode X (hex_lower bs) = Inr bs)"

text \<open>What a signing key signs, its public half verifies; the widths are ed25519's.\<close>

definition ed_laws :: "'h ext \<Rightarrow> bool" where
  "ed_laws X \<longleftrightarrow>
     (\<forall>seed. length seed = 32 \<longrightarrow>
        length (ed_public X seed) = 32 \<and> ed_point X (ed_public X seed) = Inr () \<and>
        (\<forall>m. length (ed_sign X seed m) = 64 \<and>
             ed_verify X (ed_public X seed) m (ed_sign X seed m) = Inr ()))"

text \<open>\<open>ct_eq\<close> decides equality of arrays of one width.\<close>

definition ct_laws :: "'h ext \<Rightarrow> bool" where
  "ct_laws X \<longleftrightarrow> (\<forall>a b. length a = length b \<longrightarrow> (ct_eq X a b \<longleftrightarrow> a = b))"

lemma sha_update_concat:
  "sha_laws X \<Longrightarrow> fold (\<lambda>c h. sha_update X h c) cs h = sha_update X h (concat cs)"
  by (induction cs arbitrary: h) (auto simp: sha_laws_def)

lemma sha_finalize_length [simp]: "sha_laws X \<Longrightarrow> length (sha_finalize X h) = 32"
  by (simp add: sha_laws_def)

lemma b64_roundtrip [simp]: "b64_laws X \<Longrightarrow> b64_decode X (b64_encode X bs) = Inr bs"
  by (simp add: b64_laws_def)

lemma b64_length: "b64_laws X \<Longrightarrow> length (b64_encode X bs) = 4 * ((length bs + 2) div 3)"
  by (simp add: b64_laws_def)

lemma b64_chars: "b64_laws X \<Longrightarrow> c \<in> set (b64_encode X bs) \<Longrightarrow> b64_char c"
  by (simp add: b64_laws_def)

lemma b64_char_visible: "b64_char c \<Longrightarrow> visible c"
  by (auto simp: b64_char_def visible_def)

lemma b64_char_sep [simp]: "\<not> b64_char colon" "\<not> b64_char nl" "\<not> b64_char cr" "\<not> b64_char (CHR '' '')"
  by (auto simp: b64_char_def)

lemma b64_reject: "b64_laws X \<Longrightarrow> c \<in> set s \<Longrightarrow> \<not> b64_char c \<Longrightarrow> \<exists>e. b64_decode X s = Inl e"
  by (auto simp: b64_laws_def)

lemma length_hex_lower: "length (hex_lower bs) = 2 * length bs"
  by (induction bs) (auto simp: hex_lower_def)

end
