(* ===== verification/Hash.thy ===== *)
theory Hash
  imports Base32 External
begin

text \<open>
  SHA-256 digests (\<open>crates/bincache-core/src/hash.rs\<close>): the digest type, its base32 and
  display spellings, the parser of every spelling a client may send, and the incremental
  hasher. The lemmas show that each spelling of a digest parses to that digest and that a
  digest does not depend on how the stream was cut.
\<close>

section \<open>The code\<close>

definition WIDTH :: nat where "WIDTH = 32"
definition TEXT_LEN :: nat where "TEXT_LEN = text_len WIDTH"
definition HEX_LEN :: nat where "HEX_LEN = WIDTH * 2"
definition BASE64_LEN :: nat where "BASE64_LEN = 44"

datatype sha256 = Sha256 (sha_bytes: "u8 list")

datatype hash_error =
    Hash_Base32 b32_error
  | Hash_Hex ext_error
  | Hash_Base64 ext_error
  | Hash_Width
  | Hash_Encoding nat

definition sha_base32 :: "sha256 \<Rightarrow> string" where
  "sha_base32 h = encode (sha_bytes h)"

definition sha_from_slice :: "u8 list \<Rightarrow> hash_error + sha256" where
  "sha_from_slice bytes = and_then (ensure (length bytes = WIDTH) Hash_Width) (\<lambda>_. Inr (Sha256 bytes))"

definition sha_body :: "string \<Rightarrow> string" where
  "sha_body text =
     (case strip_prefix ''sha256:'' text of
        Some b \<Rightarrow> b
      | None \<Rightarrow> (case strip_prefix ''sha256-'' text of Some b \<Rightarrow> b | None \<Rightarrow> text))"

definition sha_parse :: "'h ext \<Rightarrow> string \<Rightarrow> hash_error + sha256" where
  "sha_parse X text =
     (let body = sha_body text; n = length body in
      if n = TEXT_LEN then
        and_then (ctx Hash_Base32 (decode WIDTH body)) (\<lambda>bytes. Inr (Sha256 bytes))
      else if n = HEX_LEN then and_then (ctx Hash_Hex (hex_decode X body)) sha_from_slice
      else if n = BASE64_LEN then and_then (ctx Hash_Base64 (b64_decode X body)) sha_from_slice
      else Inl (Hash_Encoding n))"

definition sha_display :: "sha256 \<Rightarrow> string" where
  "sha_display h = ''sha256:'' @ sha_base32 h"

text \<open>The incremental hasher and the one-shot digest built on it.\<close>

definition hasher_default :: "'h ext \<Rightarrow> 'h" where
  "hasher_default X = sha_init X"

definition hasher_update :: "'h ext \<Rightarrow> 'h \<Rightarrow> string \<Rightarrow> 'h" where
  "hasher_update X h bytes = sha_update X h bytes"

definition hasher_finish :: "'h ext \<Rightarrow> 'h \<Rightarrow> sha256" where
  "hasher_finish X h = Sha256 (sha_finalize X h)"

definition digest :: "'h ext \<Rightarrow> string \<Rightarrow> sha256" where
  "digest X bytes = hasher_finish X (hasher_update X (hasher_default X) bytes)"

section \<open>Well-formed digests\<close>

definition sha_ok :: "sha256 \<Rightarrow> bool" where
  "sha_ok h \<longleftrightarrow> length (sha_bytes h) = WIDTH"

lemma widths [simp]: "TEXT_LEN = 52" "HEX_LEN = 64" "WIDTH = 32" "BASE64_LEN = 44"
  by (simp_all add: TEXT_LEN_def HEX_LEN_def WIDTH_def BASE64_LEN_def text_len_def BITS_def)

lemma sha_ok_finish [wf_intros]: "sha_laws X \<Longrightarrow> sha_ok (hasher_finish X h)"
  by (simp add: sha_ok_def hasher_finish_def)

lemma sha_ok_digest [wf_intros]: "sha_laws X \<Longrightarrow> sha_ok (digest X bs)"
  by (simp add: digest_def sha_ok_finish)

lemma sha_parse_ok: "sha_parse X s = Inr h \<Longrightarrow> sha_ok h"
  by (auto simp: sha_parse_def sha_from_slice_def sha_ok_def Let_def result_iffs
      dest: decode_InrD split: if_splits)

text \<open>The characters of a base32 text are none of the separators of the protocol.\<close>

definition plain :: "char \<Rightarrow> bool" where
  "plain c \<longleftrightarrow> visible c \<and> c \<notin> set '':-/.;,?#''"

lemma alphabet_plain: "list_all plain ALPHABET"
  by (simp add: ALPHABET_def plain_def visible_def)

lemma encode_plain: "c \<in> set (encode bs) \<Longrightarrow> plain c"
  using set_encode [of bs] alphabet_plain by (auto simp: list_all_iff)

lemma plain_neq:
  "plain c \<Longrightarrow> c \<noteq> colon \<and> c \<noteq> dash \<and> c \<noteq> slash \<and> c \<noteq> CHR ''.'' \<and> c \<noteq> nl \<and> c \<noteq> cr
     \<and> c \<noteq> CHR '' '' \<and> c \<noteq> CHR '';'' \<and> c \<noteq> CHR '','' \<and> c \<noteq> CHR ''?'' \<and> c \<noteq> CHR ''#''"
  by (intro conjI notI) (simp_all add: plain_def visible_def)

lemma plain_visible: "plain c \<Longrightarrow> visible c"
  by (simp add: plain_def)

section \<open>Every spelling parses\<close>

lemma sha_body_prefix [simp]: "sha_body (''sha256:'' @ b) = b" "sha_body (''sha256-'' @ b) = b"
  by (simp_all add: sha_body_def)

lemma sha_body_none:
  assumes "\<And>r. b \<noteq> ''sha256:'' @ r" "\<And>r. b \<noteq> ''sha256-'' @ r"
  shows "sha_body b = b"
proof -
  have "strip_prefix ''sha256:'' b = None" "strip_prefix ''sha256-'' b = None"
    using assms unfolding strip_prefix_eq_None by blast+
  then show ?thesis by (simp add: sha_body_def)
qed

lemma sha_body_plain: "colon \<notin> set b \<Longrightarrow> dash \<notin> set b \<Longrightarrow> sha_body b = b"
  by (rule sha_body_none) auto

lemma sha_parse_body32:
  "sha_body t = sha_base32 h \<Longrightarrow> sha_ok h \<Longrightarrow> sha_parse X t = Inr h"
  by (cases h)
    (simp add: sha_parse_def sha_base32_def sha_ok_def Let_def text_len_def BITS_def b32_32.parse_print)

lemma sha_parse_base32 [codec_simps]: "sha_ok h \<Longrightarrow> sha_parse X (sha_base32 h) = Inr h"
  by (rule sha_parse_body32, rule sha_body_plain) (auto simp: sha_base32_def dest!: encode_plain dest: plain_neq)

lemma sha_parse_display [codec_simps]: "sha_ok h \<Longrightarrow> sha_parse X (sha_display h) = Inr h"
  by (rule sha_parse_body32) (simp_all add: sha_display_def del: append_Cons)

interpretation sha_bare: codec sha_base32 "sha_parse X" sha_ok for X
  by unfold_locales (rule sha_parse_base32)

interpretation sha_wire: codec sha_display "sha_parse X" sha_ok for X
  by unfold_locales (rule sha_parse_display)

lemma sha_parse_hex:
  assumes "hex_laws X" "sha_ok h" "sha_body t = hex_lower (sha_bytes h)"
  shows "sha_parse X t = Inr h"
  using assms by (cases h)
    (simp add: sha_parse_def sha_ok_def hex_laws_def length_hex_lower sha_from_slice_def Let_def)

lemma sha_parse_b64:
  assumes "b64_laws X" "sha_ok h" "sha_body t = b64_encode X (sha_bytes h)"
  shows "sha_parse X t = Inr h"
  using assms by (cases h)
    (simp add: sha_parse_def sha_ok_def b64_length sha_from_slice_def Let_def)

lemma hex_digit_in: "n < 16 \<Longrightarrow> hex_digit n \<in> set ''0123456789abcdef''"
  unfolding hex_digit_def by (rule nth_mem) simp

lemma hex_lower_plain: "c \<in> set (hex_lower bs) \<Longrightarrow> c \<in> set ''0123456789abcdef''"
proof -
  have b: "unat (b :: u8) div 16 < 16" for b
    using unsigned_less [of b, where ?'a = nat] by simp
  assume "c \<in> set (hex_lower bs)"
  then obtain b where "c = hex_digit (unat (b :: u8) div 16) \<or> c = hex_digit (unat b mod 16)"
    unfolding hex_lower_def by auto
  then show ?thesis using hex_digit_in [OF b [of b]] hex_digit_in [of "unat b mod 16"] by auto
qed

lemma sha_body_spellings:
  assumes "colon \<notin> set b" "dash \<notin> set b" "p \<in> {[], ''sha256:'', ''sha256-''}"
  shows "sha_body (p @ b) = b"
proof -
  consider "p = []" | "p = ''sha256:''" | "p = ''sha256-''" using assms(3) by blast
  then show ?thesis
    by cases (simp_all only: sha_body_prefix append_Nil sha_body_plain [OF assms(1,2)])
qed

lemma hasher_chunks:
  assumes "sha_laws X"
  shows "hasher_finish X (fold (\<lambda>c h. hasher_update X h c) cs (hasher_default X)) = digest X (concat cs)"
  using sha_update_concat [OF assms]
  by (simp add: digest_def hasher_update_def)

end
