(* ===== verification/Sign.thy ===== *)
theory Sign
  imports External
begin

text \<open>
  Keys and signatures in Nix's \<open><name>:<base64>\<close> spelling
  (\<open>crates/bincache-core/src/sign.rs\<close>). The ed25519 and base64 functions are the parameter \<open>X\<close>; a
  signing key is its 32-byte seed, a verifying key its 32 bytes. The lemmas show which key
  names survive a round trip, and that a signature verifies under the signer's public half.
\<close>

section \<open>The code\<close>

definition SIGNATURE_WIDTH :: nat where "SIGNATURE_WIDTH = 64"
definition KEY_WIDTH :: nat where "KEY_WIDTH = 32"

record signature =
  sig_name :: string
  sig_bytes :: "u8 list"

record secret_key =
  sk_name :: string
  sk_seed :: "u8 list"

record public_key =
  pk_name :: string
  pk_key :: "u8 list"

datatype sign_error =
    Sign_Separator string
  | Sign_NameEmpty
  | Sign_Base64 ext_error
  | Sign_Width
  | Sign_Point ext_error
  | Sign_KeyMismatch string
  | Sign_Invalid string ext_error

definition split :: "'h ext \<Rightarrow> string \<Rightarrow> sign_error + (string \<times> u8 list)" where
  "split X text =
     and_then (or_err (Sign_Separator text) (split_once [colon] text)) (\<lambda>(name, encoded).
     and_then (ensure (name \<noteq> []) Sign_NameEmpty) (\<lambda>_.
     and_then (ctx Sign_Base64 (b64_decode X encoded)) (\<lambda>bytes.
     Inr (name, bytes))))"

definition render_key :: "'h ext \<Rightarrow> string \<Rightarrow> u8 list \<Rightarrow> string" where
  "render_key X name bytes = name @ [colon] @ b64_encode X bytes"

definition signature_parse :: "'h ext \<Rightarrow> string \<Rightarrow> sign_error + signature" where
  "signature_parse X text =
     and_then (split X text) (\<lambda>(name, bytes).
     and_then (ensure (length bytes = SIGNATURE_WIDTH) Sign_Width) (\<lambda>_.
     Inr \<lparr>sig_name = name, sig_bytes = bytes\<rparr>))"

definition signature_display :: "'h ext \<Rightarrow> signature \<Rightarrow> string" where
  "signature_display X s = render_key X (sig_name s) (sig_bytes s)"

definition secret_parse :: "'h ext \<Rightarrow> string \<Rightarrow> sign_error + secret_key" where
  "secret_parse X text =
     and_then (split X (trim text)) (\<lambda>(name, bytes).
     and_then (ensure (length bytes = KEY_WIDTH * 2) Sign_Width) (\<lambda>_.
     Inr \<lparr>sk_name = name, sk_seed = take KEY_WIDTH bytes\<rparr>))"

text \<open>\<open>generate\<close> takes the seed the random number generator filled.\<close>

definition secret_generate :: "string \<Rightarrow> u8 list \<Rightarrow> secret_key" where
  "secret_generate name seed = \<lparr>sk_name = name, sk_seed = seed\<rparr>"

definition secret_public :: "'h ext \<Rightarrow> secret_key \<Rightarrow> public_key" where
  "secret_public X k = \<lparr>pk_name = sk_name k, pk_key = ed_public X (sk_seed k)\<rparr>"

definition secret_render :: "'h ext \<Rightarrow> secret_key \<Rightarrow> string" where
  "secret_render X k = render_key X (sk_name k) (sk_seed k @ ed_public X (sk_seed k))"

definition sign :: "'h ext \<Rightarrow> secret_key \<Rightarrow> string \<Rightarrow> signature" where
  "sign X k fingerprint = \<lparr>sig_name = sk_name k, sig_bytes = ed_sign X (sk_seed k) fingerprint\<rparr>"

definition public_parse :: "'h ext \<Rightarrow> string \<Rightarrow> sign_error + public_key" where
  "public_parse X text =
     and_then (split X (trim text)) (\<lambda>(name, bytes).
     and_then (ensure (length bytes = KEY_WIDTH) Sign_Width) (\<lambda>_.
     and_then (ctx Sign_Point (ed_point X bytes)) (\<lambda>_.
     Inr \<lparr>pk_name = name, pk_key = bytes\<rparr>)))"

definition public_render :: "'h ext \<Rightarrow> public_key \<Rightarrow> string" where
  "public_render X k = render_key X (pk_name k) (pk_key k)"

definition verify :: "'h ext \<Rightarrow> public_key \<Rightarrow> string \<Rightarrow> signature \<Rightarrow> sign_error + unit" where
  "verify X k fingerprint s =
     and_then (ensure (sig_name s = pk_name k) (Sign_KeyMismatch (pk_name k))) (\<lambda>_.
     ctx (Sign_Invalid (pk_name k)) (ed_verify X (pk_key k) fingerprint (sig_bytes s)))"

section \<open>Round trips\<close>

lemma sign_widths [simp]: "SIGNATURE_WIDTH = 64" "KEY_WIDTH = 32"
  by (simp_all add: SIGNATURE_WIDTH_def KEY_WIDTH_def)

text \<open>A key name that a rendered key can carry.\<close>

definition key_name_ok :: "string \<Rightarrow> bool" where
  "key_name_ok n \<longleftrightarrow> n \<noteq> [] \<and> colon \<notin> set n"

lemma split_render: "b64_laws X \<Longrightarrow> key_name_ok n \<Longrightarrow> split X (render_key X n bs) = Inr (n, bs)"
  by (simp add: split_def render_key_def key_name_ok_def split_once_char)

lemma split_InrD: "split X s = Inr (n, bs) \<Longrightarrow> key_name_ok n \<and> (\<exists>e. s = n @ colon # e \<and> b64_decode X e = Inr bs)"
  by (auto simp: split_def key_name_ok_def result_iffs split_once_char_eq_Some)

definition sig_ok :: "signature \<Rightarrow> bool" where
  "sig_ok s \<longleftrightarrow> key_name_ok (sig_name s) \<and> length (sig_bytes s) = 64"

lemma signature_parse_display [codec_simps]:
  "b64_laws X \<Longrightarrow> sig_ok s \<Longrightarrow> signature_parse X (signature_display X s) = Inr s"
  by (simp add: signature_parse_def signature_display_def split_render sig_ok_def)

lemma signature_parse_ok: "signature_parse X s = Inr g \<Longrightarrow> sig_ok g"
  by (auto simp: signature_parse_def sig_ok_def result_iffs dest: split_InrD)

text \<open>
  The signature codec under the base64 laws: the laws are part of \<open>valid\<close>, so the interface
  holds of the code's functions for every parameter.
\<close>

interpretation signature_codec: codec "signature_display X" "signature_parse X"
    "\<lambda>s. b64_laws X \<and> sig_ok s" for X
  by unfold_locales (simp add: signature_parse_display)

lemma trim_render:
  assumes "b64_laws X" "n \<noteq> []" "visible (hd n)" "bs \<noteq> []"
  shows "trim (render_key X n bs) = render_key X n bs"
proof -
  have "length (b64_encode X bs) \<noteq> 0"
    using assms(4) by (cases bs) (simp_all add: b64_length [OF assms(1)])
  then have ne: "b64_encode X bs \<noteq> []" by auto
  then have "visible (last (b64_encode X bs))"
    using b64_chars [OF assms(1)] b64_char_visible last_in_set by blast
  then show ?thesis
    using assms(2,3) ne by (intro trim_visible) (simp add: render_key_def)
qed

definition secret_ok :: "secret_key \<Rightarrow> bool" where
  "secret_ok k \<longleftrightarrow> key_name_ok (sk_name k) \<and> visible (hd (sk_name k)) \<and> length (sk_seed k) = 32"

lemma secret_parse_render [codec_simps]:
  assumes "b64_laws X" "ed_laws X" "secret_ok k"
  shows "secret_parse X (secret_render X k) = Inr k"
proof -
  have "sk_seed k \<noteq> []" using assms(3) by (auto simp: secret_ok_def)
  then show ?thesis
    using assms by (simp add: secret_parse_def secret_render_def trim_render split_render
        secret_ok_def key_name_ok_def ed_laws_def)
qed

lemma public_parse_render [codec_simps]:
  assumes "b64_laws X" "ed_laws X" "secret_ok k"
  shows "public_parse X (public_render X (secret_public X k)) = Inr (secret_public X k)"
proof -
  have "length (ed_public X (sk_seed k)) = 32" using assms by (simp add: ed_laws_def secret_ok_def)
  then have "ed_public X (sk_seed k) \<noteq> []" by auto
  then show ?thesis
    using assms by (simp add: public_parse_def public_render_def secret_public_def trim_render split_render
        secret_ok_def key_name_ok_def ed_laws_def)
qed

lemma verify_sign:
  "ed_laws X \<Longrightarrow> length (sk_seed k) = 32 \<Longrightarrow> verify X (secret_public X k) m (sign X k m) = Inr ()"
  by (simp add: verify_def secret_public_def sign_def ed_laws_def)

lemma sig_ok_sign: "ed_laws X \<Longrightarrow> secret_ok k \<Longrightarrow> sig_ok (sign X k m)"
  by (simp add: sig_ok_def sign_def secret_ok_def ed_laws_def)

text \<open>
  \<open>generate\<close> checks nothing about the name, so \<open>keygen\<close> can print a key the parser refuses: a
  colon in the name moves the separator.
\<close>

lemma split_render_colon:
  assumes "b64_laws X" "colon \<in> set n" "hd n \<noteq> colon"
  shows "\<exists>e. split X (render_key X n bs) = Inl (Sign_Base64 e)"
proof -
  obtain a b where n: "n = a @ colon # b" "colon \<notin> set a" using split_list_first [OF assms(2)] by blast
  have "split_once [colon] (render_key X n bs) = Some (a, b @ colon # b64_encode X bs)"
    using n by (simp add: render_key_def split_once_char)
  moreover have "a \<noteq> []" using n assms(3) by auto
  moreover obtain e where "b64_decode X (b @ colon # b64_encode X bs) = Inl e"
    using b64_reject [OF assms(1), of colon "b @ colon # b64_encode X bs"] by auto
  ultimately show ?thesis by (simp add: split_def)
qed

end
