(* ===== verification/Sample.thy ===== *)
theory Sample
  imports Hash Sign
begin

text \<open>
  A concrete instance of the third-party parameters, on which the witnesses evaluate: real
  padded base64 and lower-case hex, and stand-ins for SHA-256 and ed25519 that have the
  documented widths and laws but no cryptographic strength. No property is about these
  definitions; they show that the laws of \<open>External\<close> can hold together.
\<close>

section \<open>Base64 and hex\<close>

definition B64 :: string where
  "B64 = ''ABCDEFGHIJKLMNOPQRSTUVWXYZabcdefghijklmnopqrstuvwxyz0123456789+/''"

definition b64_chr :: "nat \<Rightarrow> char" where
  "b64_chr n = B64 ! n"

definition position :: "string \<Rightarrow> char \<Rightarrow> nat" where
  "position cs c = length (takeWhile (\<lambda>d. d \<noteq> c) cs)"

definition b64_val :: "char \<Rightarrow> nat" where
  "b64_val c = position B64 c"

fun sample_b64 :: "u8 list \<Rightarrow> string" where
  "sample_b64 [] = []"
| "sample_b64 [a] = [b64_chr (unat a div 4), b64_chr (unat a mod 4 * 16), CHR ''='', CHR ''='']"
| "sample_b64 [a, b] =
     [b64_chr (unat a div 4), b64_chr (unat a mod 4 * 16 + unat b div 16),
      b64_chr (unat b mod 16 * 4), CHR ''='']"
| "sample_b64 (a # b # c # r) =
     [b64_chr (unat a div 4), b64_chr (unat a mod 4 * 16 + unat b div 16),
      b64_chr (unat b mod 16 * 4 + unat c div 64), b64_chr (unat c mod 64)] @ sample_b64 r"

fun sample_unb64 :: "string \<Rightarrow> u8 list option" where
  "sample_unb64 [] = Some []"
| "sample_unb64 (p # q # r # s # t) =
     (let x = of_nat (b64_val p * 4 + b64_val q div 16);
          y = of_nat (b64_val q mod 16 * 16 + b64_val r div 4);
          z = of_nat (b64_val r mod 4 * 64 + b64_val s)
      in if r = CHR ''='' then (if s = CHR ''='' \<and> t = [] then Some [x] else None)
         else if s = CHR ''='' then (if t = [] then Some [x, y] else None)
         else map_option (\<lambda>bs. x # y # z # bs) (sample_unb64 t))"
| "sample_unb64 s = None"

definition sample_b64_decode :: "string \<Rightarrow> ext_error + u8 list" where
  "sample_b64_decode s =
     (if list_all b64_char s then or_err ''length'' (sample_unb64 s) else Inl ''symbol'')"

definition hex_val :: "char \<Rightarrow> nat" where
  "hex_val c = position ''0123456789abcdef'' c"

fun sample_unhex :: "string \<Rightarrow> ext_error + u8 list" where
  "sample_unhex [] = Inr []"
| "sample_unhex [c] = Inl ''length''"
| "sample_unhex (c # d # s) =
     and_then (sample_unhex s) (\<lambda>bs. Inr (of_nat (hex_val c * 16 + hex_val d) # bs))"

lemma position_nth: "distinct cs \<Longrightarrow> n < length cs \<Longrightarrow> position cs (cs ! n) = n"
proof (induction cs arbitrary: n)
  case (Cons c cs)
  then show ?case by (cases n) (auto simp: position_def)
qed (simp add: position_def)

lemma B64_facts: "distinct B64" "length B64 = 64" "CHR ''='' \<notin> set B64" "list_all b64_char B64"
  by (simp_all add: B64_def b64_char_def)

lemma b64_chr_val [simp]: "n < 64 \<Longrightarrow> b64_val (b64_chr n) = n"
  by (simp add: b64_val_def b64_chr_def position_nth B64_facts)

lemma b64_chr_in: "n < 64 \<Longrightarrow> b64_chr n \<in> set B64"
  by (simp add: b64_chr_def B64_facts)

lemma b64_chr_pad [simp]: "n < 64 \<Longrightarrow> b64_chr n \<noteq> CHR ''=''"
  using b64_chr_in [of n] B64_facts(3) by auto

lemma b64_chr_char [simp]: "n < 64 \<Longrightarrow> b64_char (b64_chr n)"
  using b64_chr_in [of n] B64_facts(4) by (simp add: list_all_iff)

lemma hex_digit_val [simp]: "n < 16 \<Longrightarrow> hex_val (hex_digit n) = n"
  by (simp add: hex_val_def hex_digit_def position_nth)

lemma unat_u8: "unat (b :: u8) < 256"
  using unsigned_less [of b] by simp

lemma six_bits [simp]:
  fixes a b c :: u8
  shows "unat a div 4 < 64" "unat a mod 4 * 16 < 64" "unat a mod 4 * 16 + unat b div 16 < 64"
    "unat b mod 16 * 4 < 64" "unat b mod 16 * 4 + unat c div 64 < 64" "unat c mod 64 < 64"
proof -
  have *: "unat a div 4 < 64" "unat b div 16 < 16" "unat c div 64 < 4"
    "unat a mod 4 < 4" "unat b mod 16 < 16"
    using unat_u8 [of a] unat_u8 [of b] unat_u8 [of c] by auto
  show "unat a div 4 < 64" "unat a mod 4 * 16 < 64" "unat a mod 4 * 16 + unat b div 16 < 64"
    "unat b mod 16 * 4 < 64" "unat b mod 16 * 4 + unat c div 64 < 64" "unat c mod 64 < 64"
    using * by simp_all
qed

lemma byte_high_bits [simp]:
  fixes b :: u8
  shows "unat b div 16 div 16 = 0" "unat b div 16 mod 16 = unat b div 16"
    "unat b div 64 div 4 = 0" "unat b div 64 mod 4 = unat b div 64"
proof -
  have "unat b div 16 < 16" "unat b div 64 < 4" using unat_u8 [of b] by auto
  then show "unat b div 16 div 16 = 0" "unat b div 16 mod 16 = unat b div 16"
    "unat b div 64 div 4 = 0" "unat b div 64 mod 4 = unat b div 64"
    by simp_all
qed

lemma sample_unb64_b64: "sample_unb64 (sample_b64 bs) = Some bs"
  by (induction bs rule: sample_b64.induct) 
    (simp_all add: Let_def div_mult_mod_eq del: of_nat_add of_nat_mult div_mult2_eq)

lemma sample_b64_chars: "list_all b64_char (sample_b64 bs)"
  by (induction bs rule: sample_b64.induct) (simp_all, simp_all add: b64_char_def)

lemma sample_b64_length: "length (sample_b64 bs) = 4 * ((length bs + 2) div 3)"
proof (induction bs rule: sample_b64.induct)
  case (4 a b c r)
  have "length (a # b # c # r) + 2 = (length r + 2) + 3" by simp
  then have "(length (a # b # c # r) + 2) div 3 = (length r + 2) div 3 + 1" by simp
  with 4 show ?case by (simp del: length_Cons add: length_append)
qed auto

lemma sample_unhex_hex: "sample_unhex (hex_lower bs) = Inr bs"
proof (induction bs)
  case (Cons b bs)
  have "unat b div 16 < 16" using unat_u8 [of b] by auto
  then show ?case using Cons by (simp add: hex_lower_def div_mult_mod_eq del: of_nat_add of_nat_mult)
qed (simp add: hex_lower_def)

section \<open>The instance\<close>

definition fit :: "nat \<Rightarrow> u8 list \<Rightarrow> u8 list" where
  "fit n bs = take n (bs @ replicate n 0)"

definition sample_sign :: "u8 list \<Rightarrow> string \<Rightarrow> u8 list" where
  "sample_sign key m = fit 64 (key @ map of_char m)"

definition sample :: "string ext" where
  "sample = \<lparr>
     sha_init = [],
     sha_update = (\<lambda>h s. h @ s),
     sha_finalize = (\<lambda>h. fit 32 (map of_char h)),
     b64_encode = sample_b64,
     b64_decode = sample_b64_decode,
     hex_decode = sample_unhex,
     b64url_encode = hex_lower,
     ed_public = (\<lambda>seed. fit 32 (rev seed)),
     ed_sign = (\<lambda>seed m. sample_sign (fit 32 (rev seed)) m),
     ed_point = (\<lambda>_. Inr ()),
     ed_verify = (\<lambda>key m s. ensure (s = sample_sign key m) ''signature''),
     ct_eq = (\<lambda>a b. a = b)\<rparr>"

lemma length_fit [simp]: "length (fit n bs) = n"
  by (simp add: fit_def)

lemma sample_sha_laws: "sha_laws sample"
  by (simp add: sha_laws_def sample_def)

lemma sample_b64_laws: "b64_laws sample"
  using sample_b64_chars
  by (auto simp: b64_laws_def sample_def sample_b64_decode_def sample_unb64_b64 sample_b64_length list_all_iff)

lemma sample_hex_laws: "hex_laws sample"
  by (simp add: hex_laws_def sample_def sample_unhex_hex)

lemma sample_ed_laws: "ed_laws sample"
  by (simp add: ed_laws_def sample_def sample_sign_def)

lemma sample_ct_laws: "ct_laws sample"
  by (simp add: ct_laws_def sample_def)

lemmas sample_laws = sample_ct_laws sample_sha_laws sample_b64_laws sample_hex_laws sample_ed_laws

end
