(* ===== verification/Storepath.thy ===== *)
theory Storepath
  imports Hash
begin

text \<open>
  Store paths (\<open>crates/bincache-core/src/storepath.rs\<close>): the 20-byte hash, the name with its
  legality rules, the base name \<open><hash>-<name>\<close> and the store directory that prefixes it. Each
  of the four is a canonical codec: its parser accepts exactly what its printer writes.
\<close>

section \<open>The code\<close>

definition HASH_WIDTH :: nat where "HASH_WIDTH = 20"
definition HASH_TEXT_LEN :: nat where "HASH_TEXT_LEN = text_len HASH_WIDTH"
definition NAME_LEN_MAX :: nat where "NAME_LEN_MAX = 211"
definition DIR_DEFAULT :: string where "DIR_DEFAULT = ''/nix/store''"

datatype sp_hash = SpHash (sp_bytes: "u8 list")
datatype sp_name = SpName (sp_str: string)
datatype sp_path = SpPath (sp_hash: sp_hash) (sp_name: sp_name)
datatype dir = Dir (dir_str: string)

datatype sp_error =
    SP_HashText b32_error
  | SP_Separator string
  | SP_NameEmpty
  | SP_NameLength nat
  | SP_NameLeadingDot
  | SP_NameCharacter u8
  | SP_DirRelative string
  | SP_DirTrailingSlash string
  | SP_DirPrefix string string     \<comment> \<open>the text, the directory\<close>

definition hash_parse :: "string \<Rightarrow> sp_error + sp_hash" where
  "hash_parse text = and_then (ctx SP_HashText (decode HASH_WIDTH text)) (\<lambda>bytes. Inr (SpHash bytes))"

definition hash_display :: "sp_hash \<Rightarrow> string" where
  "hash_display h = encode (sp_bytes h)"

text \<open>\<open>byte.is_ascii_alphanumeric() || matches!(byte, b'+' | b'-' | b'.' | b'_' | b'?' | b'=')\<close>.\<close>

definition name_char :: "char \<Rightarrow> bool" where
  "name_char c \<longleftrightarrow>
     (let n = of_char c :: nat in
      48 \<le> n \<and> n \<le> 57 \<or> 65 \<le> n \<and> n \<le> 90 \<or> 97 \<le> n \<and> n \<le> 122
      \<or> c = CHR ''+'' \<or> c = CHR ''-'' \<or> c = CHR ''.'' \<or> c = CHR ''_'' \<or> c = CHR ''?'' \<or> c = CHR ''='')"

fun name_bytes :: "string \<Rightarrow> sp_error + unit" where
  "name_bytes [] = Inr ()"
| "name_bytes (c # cs) =
     and_then (ensure (name_char c) (SP_NameCharacter (of_char c))) (\<lambda>_. name_bytes cs)"

definition name_new :: "string \<Rightarrow> sp_error + sp_name" where
  "name_new text =
     and_then (ensure (text \<noteq> []) SP_NameEmpty) (\<lambda>_.
     and_then (ensure (length text \<le> NAME_LEN_MAX) (SP_NameLength (length text))) (\<lambda>_.
     and_then (ensure (hd text \<noteq> CHR ''.'') SP_NameLeadingDot) (\<lambda>_.
     and_then (name_bytes text) (\<lambda>_. Inr (SpName text)))))"

definition path_parse :: "string \<Rightarrow> sp_error + sp_path" where
  "path_parse text =
     and_then (ensure (length text > HASH_TEXT_LEN \<and> text ! HASH_TEXT_LEN = dash) (SP_Separator text)) (\<lambda>_.
     let hash = take HASH_TEXT_LEN text; rest = drop HASH_TEXT_LEN text in
     and_then (hash_parse hash) (\<lambda>h.
     and_then (name_new (drop 1 rest)) (\<lambda>n. Inr (SpPath h n))))"

definition path_display :: "sp_path \<Rightarrow> string" where
  "path_display p = hash_display (sp_hash p) @ [dash] @ sp_str (sp_name p)"

definition dir_new :: "string \<Rightarrow> sp_error + dir" where
  "dir_new text =
     and_then (ensure (text \<noteq> [] \<and> hd text = slash) (SP_DirRelative text)) (\<lambda>_.
     and_then (ensure (\<not> (text \<noteq> [] \<and> last text = slash)) (SP_DirTrailingSlash text)) (\<lambda>_.
     Inr (Dir text)))"

definition dir_print :: "dir \<Rightarrow> sp_path \<Rightarrow> string" where
  "dir_print d p = dir_str d @ [slash] @ path_display p"

definition dir_parse :: "dir \<Rightarrow> string \<Rightarrow> sp_error + sp_path" where
  "dir_parse d text =
     and_then (or_err (SP_DirPrefix text (dir_str d))
         (Option.bind (strip_prefix (dir_str d) text) (strip_prefix [slash])))
       path_parse"

section \<open>Legal values\<close>

definition hash_ok :: "sp_hash \<Rightarrow> bool" where
  "hash_ok h \<longleftrightarrow> length (sp_bytes h) = HASH_WIDTH"

definition name_ok :: "sp_name \<Rightarrow> bool" where
  "name_ok n \<longleftrightarrow> sp_str n \<noteq> [] \<and> length (sp_str n) \<le> NAME_LEN_MAX \<and> hd (sp_str n) \<noteq> CHR ''.''
     \<and> list_all name_char (sp_str n)"

definition path_ok :: "sp_path \<Rightarrow> bool" where
  "path_ok p \<longleftrightarrow> hash_ok (sp_hash p) \<and> name_ok (sp_name p)"

definition dir_ok :: "dir \<Rightarrow> bool" where
  "dir_ok d \<longleftrightarrow> dir_str d \<noteq> [] \<and> hd (dir_str d) = slash \<and> last (dir_str d) \<noteq> slash"

lemma sp_widths [simp]: "HASH_WIDTH = 20" "HASH_TEXT_LEN = 32" "NAME_LEN_MAX = 211"
  by (simp_all add: HASH_WIDTH_def HASH_TEXT_LEN_def NAME_LEN_MAX_def text_len_def BITS_def)

lemma name_bytes_Inr [simp]: "name_bytes s = Inr () \<longleftrightarrow> list_all name_char s"
  by (induction s) (auto simp: and_then_eq_Inr_iff)

lemma name_new_Inr: "name_new s = Inr n \<longleftrightarrow> n = SpName s \<and> name_ok (SpName s)"
  by (auto simp: name_new_def name_ok_def result_iffs)

lemma dir_new_Inr: "dir_new s = Inr d \<longleftrightarrow> d = Dir s \<and> dir_ok (Dir s)"
  by (auto simp: dir_new_def dir_ok_def result_iffs)

lemma hash_display_length [simp]: "hash_ok h \<Longrightarrow> length (hash_display h) = 32"
  by (simp add: hash_ok_def hash_display_def text_len_def BITS_def)

section \<open>The canonical codecs\<close>

interpretation sp_hash_codec: canonical_codec hash_display hash_parse hash_ok
proof unfold_locales
  fix h assume "hash_ok h"
  then show "hash_parse (hash_display h) = Inr h"
    by (cases h) (simp add: hash_ok_def hash_parse_def hash_display_def b32_20.parse_print)
qed (auto simp: hash_parse_def hash_ok_def hash_display_def result_iffs b32_20.parse_eq_iff)

interpretation sp_name_codec: canonical_codec sp_str name_new name_ok
  by unfold_locales (auto simp: name_new_Inr)

interpretation dir_codec: canonical_codec dir_str dir_new dir_ok
  by unfold_locales (auto simp: dir_new_Inr)

lemma path_display_split:
  assumes "hash_ok (sp_hash p)"
  shows "take 32 (path_display p) = hash_display (sp_hash p)"
    and "path_display p ! 32 = dash"
    and "drop 32 (path_display p) = dash # sp_str (sp_name p)"
    and "32 < length (path_display p)"
  using hash_display_length [OF assms] by (simp_all add: path_display_def nth_append)

lemma path_parse_display [codec_simps]: "path_ok p \<Longrightarrow> path_parse (path_display p) = Inr p"
  by (cases p)
    (simp add: path_parse_def path_ok_def path_display_split sp_hash_codec.parse_print
      sp_name_codec.parse_print Let_def)

lemma path_parse_InrD:
  assumes "path_parse s = Inr p"
  shows "path_ok p \<and> path_display p = s"
proof -
  from assms have len: "32 < length s" and d: "s ! 32 = dash"
    and h: "hash_parse (take 32 s) = Inr (sp_hash p)" and n: "name_new (drop 1 (drop 32 s)) = Inr (sp_name p)"
    by (auto simp: path_parse_def Let_def result_iffs)
  have "s = take 32 s @ s ! 32 # drop 33 s"
    using id_take_nth_drop [OF len] by simp
  with d h n show ?thesis
    by (simp add: path_ok_def path_display_def sp_hash_codec.parse_eq_iff sp_name_codec.parse_eq_iff)
qed

interpretation sp_path_codec: canonical_codec path_display path_parse path_ok
  by unfold_locales (auto simp: path_parse_display dest: path_parse_InrD)

lemma dir_parse_Inr: "dir_parse d s = Inr p \<longleftrightarrow> path_ok p \<and> s = dir_print d p"
  by (auto simp: dir_parse_def dir_print_def result_iffs strip_prefix_eq_Some
      sp_path_codec.parse_eq_iff Option.bind_eq_Some_conv)

interpretation sp_dir_codec: canonical_codec "dir_print d" "dir_parse d" path_ok for d
  by unfold_locales (auto simp: dir_parse_Inr)

section \<open>Separators never occur inside a path\<close>

lemma name_char_neq:
  "name_char c \<Longrightarrow> c \<noteq> slash \<and> c \<noteq> CHR '';'' \<and> c \<noteq> CHR '','' \<and> c \<noteq> CHR '' '' \<and> c \<noteq> nl \<and> c \<noteq> cr \<and> c \<noteq> colon"
  by (intro conjI notI) (simp_all add: name_char_def)

lemma path_display_chars:
  assumes "path_ok p" "c \<in> set (path_display p)"
  shows "c \<noteq> slash \<and> c \<noteq> CHR '';'' \<and> c \<noteq> CHR '','' \<and> c \<noteq> CHR '' '' \<and> c \<noteq> nl \<and> c \<noteq> cr \<and> c \<noteq> colon"
proof -
  consider "c \<in> set (hash_display (sp_hash p))" | "c = dash" | "c \<in> set (sp_str (sp_name p))"
    using assms(2) by (auto simp: path_display_def)
  then show ?thesis
  proof cases
    case 1
    then show ?thesis using encode_plain [of c] plain_neq [of c] by (simp add: hash_display_def)
  next
    case 2
    then show ?thesis by simp
  next
    case 3
    then show ?thesis using assms(1) name_char_neq [of c] by (auto simp: path_ok_def name_ok_def list_all_iff)
  qed
qed

lemma path_display_nonempty [simp]: "path_display p \<noteq> []"
  by (simp add: path_display_def)

text \<open>The derived order of \<open>Hash\<close>: lexicographic on the bytes.\<close>

instantiation sp_hash :: linorder
begin

definition less_eq_sp_hash :: "sp_hash \<Rightarrow> sp_hash \<Rightarrow> bool" where
  "less_eq_sp_hash a b \<longleftrightarrow> sp_bytes a \<le> sp_bytes b"

definition less_sp_hash :: "sp_hash \<Rightarrow> sp_hash \<Rightarrow> bool" where
  "less_sp_hash a b \<longleftrightarrow> sp_bytes a < sp_bytes b"

instance
  by intro_classes (auto simp: less_eq_sp_hash_def less_sp_hash_def sp_hash.expand)

end

end
