(* ===== verification/Narurl.thy ===== *)
theory Narurl
  imports Hash
begin

text \<open>
  The \<open>Compression\<close> field and the \<open>nar/<file hash>.nar<ext>\<close> naming convention
  (\<open>crates/bincache-core/src/compression.rs\<close>, \<open>narurl.rs\<close>). The name of an artifact parses back
  to the artifact, and it is a single path component.
\<close>

section \<open>Compression\<close>

datatype compression = NoCompression | Zstd | Xz | Bzip2 | Br

text \<open>\<open>strum\<close>'s \<open>VARIANTS\<close>, and its lower-case \<open>Display\<close> and \<open>EnumString\<close>, from the derives.\<close>

definition VARIANTS :: "compression list" where
  "VARIANTS = [NoCompression, Zstd, Xz, Bzip2, Br]"

fun compression_display :: "compression \<Rightarrow> string" where
  "compression_display NoCompression = ''none''"
| "compression_display Zstd = ''zstd''"
| "compression_display Xz = ''xz''"
| "compression_display Bzip2 = ''bzip2''"
| "compression_display Br = ''br''"

definition compression_from_str :: "string \<Rightarrow> unit + compression" where
  "compression_from_str s = or_err () (find (\<lambda>c. compression_display c = s) VARIANTS)"

fun extension :: "compression \<Rightarrow> string" where
  "extension NoCompression = ''''"
| "extension Zstd = ''.zst''"
| "extension Xz = ''.xz''"
| "extension Bzip2 = ''.bz2''"
| "extension Br = ''.br''"

definition from_extension :: "string \<Rightarrow> compression option" where
  "from_extension e = find (\<lambda>candidate. extension candidate = e) VARIANTS"

lemma find_VARIANTS:
  assumes "inj f"
  shows "find (\<lambda>c. f c = s) VARIANTS = Some c \<longleftrightarrow> f c = s"
proof
  assume "f c = s"
  then have "find (\<lambda>x. f x = s) VARIANTS = find (\<lambda>x. x = c) VARIANTS"
    using assms by (auto simp: inj_eq intro: arg_cong2 [of _ _ _ _ find])
  also have "\<dots> = Some c" by (cases c) (simp_all add: VARIANTS_def)
  finally show "find (\<lambda>x. f x = s) VARIANTS = Some c" .
next
  assume "find (\<lambda>x. f x = s) VARIANTS = Some c"
  then show "f c = s" by (auto simp: find_Some_iff)
qed

lemma inj_compression_display: "inj compression_display"
proof (rule injI)
  fix a b show "compression_display a = compression_display b \<Longrightarrow> a = b"
    by (cases a; cases b) simp_all
qed

lemma inj_extension: "inj extension"
proof (rule injI)
  fix a b show "extension a = extension b \<Longrightarrow> a = b" by (cases a; cases b) simp_all
qed

lemma from_extension_Some: "from_extension e = Some c \<longleftrightarrow> e = extension c"
  using find_VARIANTS [OF inj_extension, of e c] by (auto simp: from_extension_def)

interpretation compression_codec:
  canonical_codec compression_display compression_from_str "\<lambda>_. True"
  using find_VARIANTS [OF inj_compression_display]
  by unfold_locales (auto simp: compression_from_str_def)

interpretation extension_codec:
  canonical_codec extension "\<lambda>e. or_err () (from_extension e)" "\<lambda>_. True"
  by unfold_locales (auto simp: from_extension_Some)

section \<open>NAR URLs\<close>

definition PREFIX :: string where "PREFIX = ''nar/''"
definition NAR_CONTENT_TYPE :: string where "NAR_CONTENT_TYPE = ''application/x-nix-nar''"

record narurl =
  file_hash :: sha256
  compression :: compression

datatype narurl_error =
    NU_Suffix string
  | NU_Extension string
  | NU_Digest hash_error

definition nar_name :: "narurl \<Rightarrow> string" where
  "nar_name u = sha_base32 (file_hash u) @ ''.nar'' @ extension (compression u)"

definition nar_url :: "narurl \<Rightarrow> string" where
  "nar_url u = PREFIX @ nar_name u"

definition narurl_parse :: "'h ext \<Rightarrow> string \<Rightarrow> narurl_error + narurl" where
  "narurl_parse X name =
     and_then (or_err (NU_Suffix name) (split_once ''.nar'' name)) (\<lambda>(digest, ext).
     and_then (or_err (NU_Extension ext) (from_extension ext)) (\<lambda>c.
     and_then (ctx NU_Digest (sha_parse X digest)) (\<lambda>h.
     Inr \<lparr>file_hash = h, compression = c\<rparr>)))"

definition narurl_ok :: "narurl \<Rightarrow> bool" where
  "narurl_ok u \<longleftrightarrow> sha_ok (file_hash u)"

lemma narurl_parse_name [codec_simps]: "narurl_ok u \<Longrightarrow> narurl_parse X (nar_name u) = Inr u"
proof -
  assume ok: "narurl_ok u"
  have "CHR ''.'' \<notin> set (sha_base32 (file_hash u))"
    using encode_plain plain_neq by (auto simp: sha_base32_def)
  then have "split_once ''.nar'' (nar_name u) = Some (sha_base32 (file_hash u), extension (compression u))"
    unfolding nar_name_def by (intro split_once_append) auto
  then show ?thesis using ok sha_parse_base32 [of "file_hash u" X]
    by (simp add: narurl_parse_def narurl_ok_def from_extension_Some [THEN iffD2])
qed

lemma narurl_parse_ok: "narurl_parse X s = Inr u \<Longrightarrow> narurl_ok u"
  by (auto simp: narurl_parse_def narurl_ok_def result_iffs dest: sha_parse_ok)

interpretation narurl_codec: codec nar_name "narurl_parse X" narurl_ok for X
  by unfold_locales (rule narurl_parse_name)

text \<open>A name is one path component of at least two characters that is not a dot file.\<close>

lemma set_extension: "c \<in> set (extension e) \<Longrightarrow> c = CHR ''.'' \<or> plain c"
  by (cases e) (auto simp: plain_def visible_def)

lemma nar_name_chars: "c \<in> set (nar_name u) \<Longrightarrow> c = CHR ''.'' \<or> plain c"
  using encode_plain set_extension
  by (fastforce simp: nar_name_def sha_base32_def plain_def visible_def)

lemma nar_name_take2:
  assumes "narurl_ok u"
  shows "take 2 (nar_name u) = take 2 (sha_base32 (file_hash u))"
    and "length (take 2 (nar_name u)) = 2"
    and "c \<in> set (take 2 (nar_name u)) \<Longrightarrow> plain c"
proof -
  have len: "length (sha_base32 (file_hash u)) = 52"
    using assms by (simp add: narurl_ok_def sha_ok_def sha_base32_def text_len_def BITS_def)
  then show t: "take 2 (nar_name u) = take 2 (sha_base32 (file_hash u))"
    by (simp add: nar_name_def)
  with len show "length (take 2 (nar_name u)) = 2" by simp
  show "c \<in> set (take 2 (nar_name u)) \<Longrightarrow> plain c"
    unfolding t using in_set_takeD encode_plain by (fastforce simp: sha_base32_def)
qed

end
