(* ===== verification/Narinfo.thy ===== *)
theory Narinfo
  imports Storepath Narurl Sign
begin

text \<open>
  The narinfo record (\<open>crates/bincache-core/src/narinfo.rs\<close>): its fields, the URL it implies, the
  fingerprint ed25519 signs, re-signing and rendering. The lemmas show that the fingerprint
  fixes the signed fields, does not depend on the order of the references, and that
  re-signing leaves exactly one signature, which verifies.
\<close>

section \<open>The code\<close>

definition NARINFO_CONTENT_TYPE :: string where "NARINFO_CONTENT_TYPE = ''text/x-nix-narinfo''"
definition NARINFO_SUFFIX :: string where "NARINFO_SUFFIX = ''.narinfo''"

record narinfo =
  ni_store_path :: sp_path
  ni_compression :: compression
  ni_file_hash :: sha256
  ni_file_size :: u64
  ni_nar_hash :: sha256
  ni_nar_size :: u64                \<comment> \<open>\<open>NonZeroU64\<close>\<close>
  ni_references :: "sp_path list"
  ni_deriver :: "sp_path option"
  ni_sigs :: "signature list"
  ni_ca :: "string option"

definition ni_nar :: "narinfo \<Rightarrow> narurl" where
  "ni_nar r = \<lparr>file_hash = ni_file_hash r, compression = ni_compression r\<rparr>"

definition fingerprint :: "narinfo \<Rightarrow> dir \<Rightarrow> string" where
  "fingerprint r d =
     (let sorted = sort (map (dir_print d) (ni_references r)) in
      ''1;'' @ dir_print d (ni_store_path r) @ '';''
      @ sha_display (ni_nar_hash r) @ '';'' @ show_u64 (ni_nar_size r) @ '';''
      @ join '','' sorted)"

definition resign :: "'h ext \<Rightarrow> dir \<Rightarrow> secret_key \<Rightarrow> narinfo \<Rightarrow> narinfo" where
  "resign X d key r = r\<lparr>ni_sigs := [sign X key (fingerprint r d)]\<rparr>"

definition render :: "'h ext \<Rightarrow> dir \<Rightarrow> narinfo \<Rightarrow> string" where
  "render X d r =
     ''StorePath: '' @ dir_print d (ni_store_path r) @ [nl] @
     ''URL: '' @ nar_url (ni_nar r) @ [nl] @
     ''Compression: '' @ compression_display (ni_compression r) @ [nl] @
     ''FileHash: '' @ sha_display (ni_file_hash r) @ [nl] @
     ''FileSize: '' @ show_u64 (ni_file_size r) @ [nl] @
     ''NarHash: '' @ sha_display (ni_nar_hash r) @ [nl] @
     ''NarSize: '' @ show_u64 (ni_nar_size r) @ [nl] @
     ''References: '' @
       (case ni_references r of
          [] \<Rightarrow> []
        | first # rest \<Rightarrow> path_display first @ concat (map (\<lambda>p. '' '' @ path_display p) rest)) @ [nl] @
     (case ni_deriver r of None \<Rightarrow> [] | Some p \<Rightarrow> ''Deriver: '' @ path_display p @ [nl]) @
     concat (map (\<lambda>s. ''Sig: '' @ signature_display X s @ [nl]) (ni_sigs r)) @
     (case ni_ca r of None \<Rightarrow> [] | Some ca \<Rightarrow> ''CA: '' @ ca @ [nl])"

section \<open>The fingerprint\<close>

text \<open>What the types of the record guarantee.\<close>

definition core_ok :: "narinfo \<Rightarrow> bool" where
  "core_ok r \<longleftrightarrow> path_ok (ni_store_path r) \<and> sha_ok (ni_file_hash r) \<and> sha_ok (ni_nar_hash r)
     \<and> ni_nar_size r \<noteq> 0 \<and> list_all path_ok (ni_references r) \<and> pred_option path_ok (ni_deriver r)"

lemma split_at_tail:
  assumes "c \<notin> set a" "c \<notin> set b" "s = [] \<or> hd s = c" "t = [] \<or> hd t = c" "a @ s = b @ t"
  shows "a = b \<and> s = t"
proof -
  have tw: "takeWhile (\<lambda>x. x \<noteq> c) (xs @ ys) = xs" if "c \<notin> set xs" "ys = [] \<or> hd ys = c" for xs ys
    using that by (cases ys) (auto simp: takeWhile_append)
  have "a = b" using tw [OF assms(1,3)] tw [OF assms(2,4)] assms(5) by simp
  with assms(5) show ?thesis by simp
qed

lemma split_at_sep: "c \<notin> set a \<Longrightarrow> c \<notin> set b \<Longrightarrow> a @ c # s = b @ c # t \<Longrightarrow> a = b \<and> s = t"
  using split_at_tail [of c a b "c # s" "c # t"] by simp

lemma sha_display_chars: "c \<in> set (sha_display h) \<Longrightarrow> c \<noteq> CHR '';'' \<and> c \<noteq> nl \<and> c \<noteq> cr \<and> visible c"
proof -
  assume "c \<in> set (sha_display h)"
  then consider "c \<in> set ''sha256:''" | "c \<in> set (encode (sha_bytes h))"
    by (auto simp: sha_display_def sha_base32_def)
  then show ?thesis
  proof cases
    case 1
    then show ?thesis by (auto simp: visible_def)
  next
    case 2
    then show ?thesis using encode_plain [of c] plain_neq [of c] plain_visible [of c] by simp
  qed
qed

lemma show_u64_chars: "c \<in> set (show_u64 w) \<Longrightarrow> c \<noteq> CHR '';'' \<and> c \<noteq> nl \<and> c \<noteq> cr"
  using show_nat_digits [of c "unat w"] by (auto simp: show_u64_def is_digit_def)

lemma show_u64_inject [simp]: "show_u64 a = show_u64 b \<longleftrightarrow> a = b"
  by (simp add: show_u64_def word_unat_eq_iff)

lemma join_comma_inject:
  assumes "list_all path_ok as" "list_all path_ok bs"
    "join '','' (map (dir_print d) as) = join '','' (map (dir_print d) bs)"
  shows "as = bs"
  using assms
proof (induction as arbitrary: bs)
  case Nil
  then show ?case
    by (cases bs rule: list.exhaust [of "map (dir_print d) bs" for bs]; cases "tl bs")
      (auto simp: dir_print_def)
next
  case (Cons a as)
  obtain b bs' where bs: "bs = b # bs'"
    using Cons.prems(3) by (cases bs; cases as) (auto simp: dir_print_def)
  define tail where "tail ps = (if ps = [] then [] else '','' @ join '','' (map (dir_print d) ps))" for ps
  have join: "join '','' (map (dir_print d) (p # ps)) = dir_str d @ [slash] @ path_display p @ tail ps" for p ps
    by (cases ps) (simp_all add: dir_print_def tail_def)
  have eq: "path_display a @ tail as = path_display b @ tail bs'"
    using Cons.prems(3) unfolding bs join by simp
  have "CHR '','' \<notin> set (path_display a)" "CHR '','' \<notin> set (path_display b)"
    using Cons.prems(1,2) path_display_chars unfolding bs by auto
  moreover have "tail ps = [] \<or> hd (tail ps) = CHR '',''" for ps by (simp add: tail_def)
  ultimately have "path_display a = path_display b \<and> tail as = tail bs'"
    using eq by (intro split_at_tail)
  then have "a = b" and t: "tail as = tail bs'"
    using Cons.prems(1,2) sp_path_codec.print_inject by (auto simp: bs)
  from t have "join '','' (map (dir_print d) as) = join '','' (map (dir_print d) bs')"
    by (cases "as = []"; cases "bs' = []") (auto simp: tail_def)
  with Cons have "as = bs'" by (auto simp: bs)
  with \<open>a = b\<close> show ?case by (simp add: bs)
qed

lemma sort_map: "sort (map f xs) = map f (sort_key f xs)"
  by (rule properties_for_sort) simp_all

lemma fingerprint_eq:
  "fingerprint r d = ''1;'' @ dir_str d @ [slash] @ path_display (ni_store_path r) @ '';''
     @ sha_display (ni_nar_hash r) @ '';'' @ show_u64 (ni_nar_size r) @ '';''
     @ join '','' (map (dir_print d) (sort_key (dir_print d) (ni_references r)))"
  by (simp add: fingerprint_def dir_print_def sort_map)

text \<open>The signed string determines what it is about: equal fingerprints, equal signed fields.\<close>

lemma fingerprint_inject:
  assumes ok: "core_ok r" "core_ok r'" and eq: "fingerprint r d = fingerprint r' d"
  shows "ni_store_path r = ni_store_path r'" "ni_nar_hash r = ni_nar_hash r'"
    "ni_nar_size r = ni_nar_size r'" "mset (ni_references r) = mset (ni_references r')"
proof -
  let ?refs = "\<lambda>r. join '','' (map (dir_print d) (sort_key (dir_print d) (ni_references r)))"
  have np: "CHR '';'' \<notin> set (path_display (ni_store_path x))" if "core_ok x" for x
    using that path_display_chars by (auto simp: core_ok_def)
  have nh: "CHR '';'' \<notin> set (sha_display h)" and nz: "CHR '';'' \<notin> set (show_u64 z)" for h z
    using sha_display_chars show_u64_chars by blast+
  from eq have "path_display (ni_store_path r) @ CHR '';'' # sha_display (ni_nar_hash r) @ CHR '';''
        # show_u64 (ni_nar_size r) @ CHR '';'' # ?refs r
      = path_display (ni_store_path r') @ CHR '';'' # sha_display (ni_nar_hash r') @ CHR '';''
        # show_u64 (ni_nar_size r') @ CHR '';'' # ?refs r'"
    by (simp add: fingerprint_eq)
  from split_at_sep [OF np [OF ok(1)] np [OF ok(2)] this]
  have p: "path_display (ni_store_path r) = path_display (ni_store_path r')"
    and "sha_display (ni_nar_hash r) @ CHR '';'' # show_u64 (ni_nar_size r) @ CHR '';'' # ?refs r
      = sha_display (ni_nar_hash r') @ CHR '';'' # show_u64 (ni_nar_size r') @ CHR '';'' # ?refs r'"
    by auto
  from split_at_sep [OF nh nh this(2)]
  have h: "sha_display (ni_nar_hash r) = sha_display (ni_nar_hash r')"
    and "show_u64 (ni_nar_size r) @ CHR '';'' # ?refs r = show_u64 (ni_nar_size r') @ CHR '';'' # ?refs r'"
    by auto
  from split_at_sep [OF nz nz this(2)]
  have z: "show_u64 (ni_nar_size r) = show_u64 (ni_nar_size r')" and refs: "?refs r = ?refs r'"
    by auto
  show "ni_store_path r = ni_store_path r'"
    using p ok sp_path_codec.print_inject by (auto simp: core_ok_def)
  show "ni_nar_hash r = ni_nar_hash r'"
    using h ok sha_wire.print_inject by (auto simp: core_ok_def)
  show "ni_nar_size r = ni_nar_size r'" using z by simp
  have "list_all path_ok (sort_key (dir_print d) (ni_references x))" if "core_ok x" for x
    using that by (simp add: core_ok_def list_all_iff)
  with refs ok have "sort_key (dir_print d) (ni_references r) = sort_key (dir_print d) (ni_references r')"
    by (intro join_comma_inject)
  then show "mset (ni_references r) = mset (ni_references r')" by (metis mset_sort)
qed

lemma sort_print_cong: "mset ps = mset qs \<Longrightarrow> sort (map f ps) = sort (map f qs)"
  by (rule properties_for_sort) simp_all

lemma fingerprint_perm:
  "mset (ni_references r) = mset refs \<Longrightarrow> fingerprint (r\<lparr>ni_references := refs\<rparr>) d = fingerprint r d"
  using sort_print_cong [of refs "ni_references r" "dir_print d"] by (simp add: fingerprint_def)

text \<open>The fingerprint reads none of the fields the server fills in.\<close>

lemma fingerprint_frame [simp]:
  "fingerprint (r\<lparr>ni_sigs := s\<rparr>) d = fingerprint r d"
  "fingerprint (r\<lparr>ni_file_hash := h\<rparr>) d = fingerprint r d"
  "fingerprint (r\<lparr>ni_file_size := z\<rparr>) d = fingerprint r d"
  "fingerprint (r\<lparr>ni_compression := c\<rparr>) d = fingerprint r d"
  by (simp_all add: fingerprint_def)

section \<open>Re-signing\<close>

definition signed_by :: "'h ext \<Rightarrow> dir \<Rightarrow> public_key \<Rightarrow> narinfo \<Rightarrow> bool" where
  "signed_by X d k r \<longleftrightarrow> (\<exists>s. ni_sigs r = [s] \<and> verify X k (fingerprint r d) s = Inr ())"

lemma resign_signed:
  assumes "ed_laws X" "length (sk_seed key) = 32"
  shows "signed_by X d (secret_public X key) (resign X d key r)"
  using assms by (simp add: signed_by_def resign_def verify_sign)

lemma resign_frame [simp]:
  "ni_store_path (resign X d key r) = ni_store_path r"
  "ni_compression (resign X d key r) = ni_compression r"
  "ni_file_hash (resign X d key r) = ni_file_hash r"
  "ni_file_size (resign X d key r) = ni_file_size r"
  "ni_nar_hash (resign X d key r) = ni_nar_hash r"
  "ni_nar_size (resign X d key r) = ni_nar_size r"
  "ni_references (resign X d key r) = ni_references r"
  "ni_deriver (resign X d key r) = ni_deriver r"
  "ni_ca (resign X d key r) = ni_ca r"
  "ni_nar (resign X d key r) = ni_nar r"
  "fingerprint (resign X d key r) d' = fingerprint r d'"
  "core_ok (resign X d key r) = core_ok r"
  by (simp_all add: resign_def ni_nar_def core_ok_def)

lemma resign_idem: "resign X d key (resign X d key' r) = resign X d key r"
  by (simp add: resign_def)

end
