(* ===== verification/NarinfoParse.thy ===== *)
theory NarinfoParse
  imports Narinfo
begin

text \<open>
  Reading a narinfo body back (\<open>crates/bincache-core/src/narinfo/parse.rs\<close>): the keys, the
  draft, one step per line, the required-field check. The lemmas show the round trip with
  \<open>render\<close>, that unknown keys change nothing, and which error a missing field gives.
\<close>

section \<open>The code\<close>

datatype field =
    F_StorePath | F_Url | F_Compression | F_FileHash | F_FileSize | F_NarHash | F_NarSize
  | F_References | F_Deriver | F_Sig | F_Ca

fun field_display :: "field \<Rightarrow> string" where
  "field_display F_StorePath = ''StorePath''"
| "field_display F_Url = ''URL''"
| "field_display F_Compression = ''Compression''"
| "field_display F_FileHash = ''FileHash''"
| "field_display F_FileSize = ''FileSize''"
| "field_display F_NarHash = ''NarHash''"
| "field_display F_NarSize = ''NarSize''"
| "field_display F_References = ''References''"
| "field_display F_Deriver = ''Deriver''"
| "field_display F_Sig = ''Sig''"
| "field_display F_Ca = ''CA''"

text \<open>The derived \<open>FromStr\<close>: the exact wire spelling, nothing else.\<close>

definition field_from_str :: "string \<Rightarrow> field option" where
  "field_from_str key = find (\<lambda>f. field_display f = key)
     [F_StorePath, F_Url, F_Compression, F_FileHash, F_FileSize, F_NarHash, F_NarSize,
      F_References, F_Deriver, F_Sig, F_Ca]"

definition DERIVER_UNKNOWN :: string where "DERIVER_UNKNOWN = ''unknown-deriver''"

datatype parse_error =
    NP_Line string
  | NP_Missing field
  | NP_Path field sp_error
  | NP_Digest field hash_error
  | NP_Number field int_error
  | NP_NarSizeZero
  | NP_Algorithm
  | NP_Signature sign_error

record draft =
  d_store_path :: "sp_path option"
  d_url :: "string option"
  d_compression :: "compression option"
  d_file_hash :: "sha256 option"
  d_file_size :: "u64 option"
  d_nar_hash :: "sha256 option"
  d_nar_size :: "u64 option"
  d_references :: "sp_path list"
  d_deriver :: "sp_path option"
  d_sigs :: "signature list"
  d_ca :: "string option"

definition draft_default :: draft where
  "draft_default = \<lparr>d_store_path = None, d_url = None, d_compression = None, d_file_hash = None,
     d_file_size = None, d_nar_hash = None, d_nar_size = None, d_references = [], d_deriver = None,
     d_sigs = [], d_ca = None\<rparr>"

text \<open>The loop over the names of a \<open>References\<close> value.\<close>

fun push_references :: "string list \<Rightarrow> draft \<Rightarrow> parse_error + draft" where
  "push_references [] d = Inr d"
| "push_references (name # names) d =
     and_then (ctx (NP_Path F_References) (path_parse name)) (\<lambda>r.
     push_references names (d\<lparr>d_references := d_references d @ [r]\<rparr>))"

fun absorb :: "'h ext \<Rightarrow> dir \<Rightarrow> draft \<Rightarrow> field \<Rightarrow> string \<Rightarrow> parse_error + draft" where
  "absorb X dr d F_StorePath value =
     and_then (ctx (NP_Path F_StorePath) (dir_parse dr value)) (\<lambda>p. Inr (d\<lparr>d_store_path := Some p\<rparr>))"
| "absorb X dr d F_Url value = Inr (d\<lparr>d_url := Some value\<rparr>)"
| "absorb X dr d F_Compression value =
     and_then (ctx (\<lambda>_. NP_Algorithm) (compression_from_str value)) (\<lambda>c. Inr (d\<lparr>d_compression := Some c\<rparr>))"
| "absorb X dr d F_FileHash value =
     and_then (ctx (NP_Digest F_FileHash) (sha_parse X value)) (\<lambda>h. Inr (d\<lparr>d_file_hash := Some h\<rparr>))"
| "absorb X dr d F_FileSize value =
     and_then (ctx (NP_Number F_FileSize) (parse_u64 value)) (\<lambda>n. Inr (d\<lparr>d_file_size := Some n\<rparr>))"
| "absorb X dr d F_NarHash value =
     and_then (ctx (NP_Digest F_NarHash) (sha_parse X value)) (\<lambda>h. Inr (d\<lparr>d_nar_hash := Some h\<rparr>))"
| "absorb X dr d F_NarSize value =
     and_then (ctx (NP_Number F_NarSize) (parse_u64 value)) (\<lambda>n. Inr (d\<lparr>d_nar_size := Some n\<rparr>))"
| "absorb X dr d F_References value =
     push_references (filter (\<lambda>n. n \<noteq> []) (split_on (\<lambda>c. c = CHR '' '') value)) d"
| "absorb X dr d F_Deriver value =
     (if value \<noteq> DERIVER_UNKNOWN
      then and_then (ctx (NP_Path F_Deriver) (path_parse value)) (\<lambda>p. Inr (d\<lparr>d_deriver := Some p\<rparr>))
      else Inr d)"
| "absorb X dr d F_Sig value =
     and_then (ctx NP_Signature (signature_parse X value)) (\<lambda>s. Inr (d\<lparr>d_sigs := d_sigs d @ [s]\<rparr>))"
| "absorb X dr d F_Ca value = Inr (d\<lparr>d_ca := Some value\<rparr>)"

definition split_line :: "string \<Rightarrow> parse_error + (string \<times> string)" where
  "split_line line =
     (case split_once '': '' line of
        Some (key, value) \<Rightarrow> Inr (key, value)
      | None \<Rightarrow> and_then (or_err (NP_Line line) (strip_suffix [colon] line)) (\<lambda>key. Inr (key, [])))"

fun parse_lines :: "'h ext \<Rightarrow> dir \<Rightarrow> string list \<Rightarrow> draft \<Rightarrow> parse_error + draft" where
  "parse_lines X dr [] d = Inr d"
| "parse_lines X dr (line # rest) d =
     (if line = [] then parse_lines X dr rest d
      else and_then (split_line line) (\<lambda>(key, value).
        case field_from_str key of
          None \<Rightarrow> parse_lines X dr rest d
        | Some field \<Rightarrow> and_then (absorb X dr d field value) (parse_lines X dr rest)))"

definition finish :: "draft \<Rightarrow> parse_error + narinfo" where
  "finish d =
     and_then (or_err (NP_Missing F_NarSize) (d_nar_size d)) (\<lambda>nar_size.
     and_then (or_err (NP_Missing F_Url)
       (Option.bind (d_url d) (\<lambda>url. if url \<noteq> [] then Some url else None))) (\<lambda>_.
     and_then (or_err (NP_Missing F_StorePath) (d_store_path d)) (\<lambda>store_path.
     let compression = (case d_compression d of None \<Rightarrow> Bzip2 | Some c \<Rightarrow> c) in
     and_then (or_err (NP_Missing F_FileHash) (d_file_hash d)) (\<lambda>file_hash.
     and_then (or_err (NP_Missing F_FileSize) (d_file_size d)) (\<lambda>file_size.
     and_then (or_err (NP_Missing F_NarHash) (d_nar_hash d)) (\<lambda>nar_hash.
     and_then (ensure (nar_size \<noteq> 0) NP_NarSizeZero) (\<lambda>_.
     Inr \<lparr>ni_store_path = store_path, ni_compression = compression, ni_file_hash = file_hash,
       ni_file_size = file_size, ni_nar_hash = nar_hash, ni_nar_size = nar_size,
       ni_references = d_references d, ni_deriver = d_deriver d, ni_sigs = d_sigs d,
       ni_ca = d_ca d\<rparr>)))))))"

definition parse :: "'h ext \<Rightarrow> string \<Rightarrow> dir \<Rightarrow> parse_error + narinfo" where
  "parse X body dr = and_then (parse_lines X dr (lines body) draft_default) finish"

section \<open>Lines\<close>

lemma field_from_str_display [simp]: "field_from_str (field_display f) = Some f"
  by (cases f) (simp_all add: field_from_str_def)

lemma field_from_str_Some: "field_from_str key = Some f \<longleftrightarrow> key = field_display f"
  by (metis (mono_tags, lifting) field_from_str_def field_from_str_display find_Some_iff)

lemma field_display_chars: "colon \<notin> set (field_display f)" "nl \<notin> set (field_display f)"
  "field_display f \<noteq> []"
  by (cases f; simp)+

definition field_line :: "field \<Rightarrow> string \<Rightarrow> string" where
  "field_line f value = field_display f @ '': '' @ value"

lemma split_line_field [simp]: "split_line (field_line f v) = Inr (field_display f, v)"
  using split_once_append [of "'': ''" "field_display f" v] field_display_chars(1)
  by (simp add: split_line_def field_line_def)

lemma parse_lines_field [simp]:
  "parse_lines X dr (field_line f v # rest) d = and_then (absorb X dr d f v) (parse_lines X dr rest)"
proof -
  have "field_line f v \<noteq> []" by (simp add: field_line_def)
  then show ?thesis by simp
qed

declare parse_lines.simps(2) [simp del]

lemma parse_lines_append:
  "parse_lines X dr (as @ bs) d = and_then (parse_lines X dr as d) (parse_lines X dr bs)"
proof (induction as arbitrary: d)
  case (Cons a as)
  then show ?case
    by (cases "split_line a"; cases "absorb X dr d (the (field_from_str (fst (projr (split_line a))))) (snd (projr (split_line a)))")
      (auto simp: parse_lines.simps(2) split: option.splits prod.splits)
qed simp

text \<open>A line whose key the protocol does not know leaves the draft alone.\<close>

lemma parse_lines_unknown:
  "split_line l = Inr (k, v) \<Longrightarrow> field_from_str k = None \<Longrightarrow> parse_lines X dr (l # ls) d = parse_lines X dr ls d"
  by (simp add: parse_lines.simps(2))

lemma parse_lines_bad:
  "l \<noteq> [] \<Longrightarrow> split_line l = Inl e \<Longrightarrow> parse_lines X dr (l # ls) d = Inl e"
  by (simp add: parse_lines.simps(2))

lemma split_line_bad:
  "(\<forall>a b. l \<noteq> a @ '': '' @ b) \<Longrightarrow> (\<forall>a. l \<noteq> a @ [colon]) \<Longrightarrow> split_line l = Inl (NP_Line l)"
proof -
  assume "\<forall>a b. l \<noteq> a @ '': '' @ b" "\<forall>a. l \<noteq> a @ [colon]"
  then have "split_once '': '' l = None" "strip_suffix [colon] l = None"
    using split_once_eq_None [of "'': ''" l] strip_suffix_eq_None [of "[colon]" l] by blast+
  then show ?thesis by (simp add: split_line_def)
qed

section \<open>The round trip\<close>

text \<open>
  The records that survive a round trip: the types' invariants, signatures a \<open>Sig\<close> line can
  carry, and a \<open>CA\<close> value that is a line.
\<close>

definition narinfo_ok :: "narinfo \<Rightarrow> bool" where
  "narinfo_ok r \<longleftrightarrow> core_ok r \<and> list_all (\<lambda>s. sig_ok s \<and> nl \<notin> set (sig_name s)) (ni_sigs r)
     \<and> pred_option (\<lambda>ca. line_ok (''CA: '' @ ca)) (ni_ca r)"

definition render_lines :: "'h ext \<Rightarrow> dir \<Rightarrow> narinfo \<Rightarrow> string list" where
  "render_lines X d r =
     [field_line F_StorePath (dir_print d (ni_store_path r)),
      field_line F_Url (nar_url (ni_nar r)),
      field_line F_Compression (compression_display (ni_compression r)),
      field_line F_FileHash (sha_display (ni_file_hash r)),
      field_line F_FileSize (show_u64 (ni_file_size r)),
      field_line F_NarHash (sha_display (ni_nar_hash r)),
      field_line F_NarSize (show_u64 (ni_nar_size r)),
      field_line F_References (join '' '' (map path_display (ni_references r)))]
     @ (case ni_deriver r of None \<Rightarrow> [] | Some p \<Rightarrow> [field_line F_Deriver (path_display p)])
     @ map (\<lambda>s. field_line F_Sig (signature_display X s)) (ni_sigs r)
     @ (case ni_ca r of None \<Rightarrow> [] | Some ca \<Rightarrow> [field_line F_Ca ca])"

lemma join_space:
  "join '' '' (map path_display ps) =
     (case ps of [] \<Rightarrow> [] | p # qs \<Rightarrow> path_display p @ concat (map (\<lambda>q. '' '' @ path_display q) qs))"
proof (induction ps)
  case (Cons p ps)
  then show ?case by (cases ps) simp_all
qed simp

lemma unlines_map: "unlines (map f xs) = concat (map (\<lambda>x. f x @ [nl]) xs)"
  by (simp add: unlines_def comp_def)

lemma render_unlines: "render X d r = unlines (render_lines X d r)"
  by (simp add: render_def render_lines_def field_line_def join_space unlines_map
      split: option.split)

lemma path_display_line [simp]: "path_ok p \<Longrightarrow> nl \<notin> set (path_display p)" "path_ok p \<Longrightarrow> cr \<notin> set (path_display p)"
  using path_display_chars by blast+

lemma set_join: "c \<in> set (join sep xs) \<Longrightarrow> c \<in> set sep \<or> (\<exists>x \<in> set xs. c \<in> set x)"
  by (induction sep xs rule: join.induct) auto

lemma line_ok_field: "nl \<notin> set v \<Longrightarrow> v = [] \<or> last v \<noteq> cr \<Longrightarrow> line_ok (field_line f v)"
  using field_display_chars(2) [of f] by (auto simp: line_ok_def field_line_def)

lemma line_ok_field_plain: "nl \<notin> set v \<Longrightarrow> cr \<notin> set v \<Longrightarrow> line_ok (field_line f v)"
  using line_ok_field last_in_set by metis

lemma line_ok_sig:
  assumes "b64_laws X" "sig_ok s" "nl \<notin> set (sig_name s)"
  shows "line_ok (field_line F_Sig (signature_display X s))"
proof (rule line_ok_field)
  have "length (b64_encode X (sig_bytes s)) \<noteq> 0"
    using assms(2) by (simp add: b64_length [OF assms(1)] sig_ok_def)
  then have ne: "b64_encode X (sig_bytes s) \<noteq> []" by auto
  then show "signature_display X s = [] \<or> last (signature_display X s) \<noteq> cr"
    using b64_chars [OF assms(1), of "last (b64_encode X (sig_bytes s))" "sig_bytes s"]
    by (auto simp: signature_display_def render_key_def)
  show "nl \<notin> set (signature_display X s)"
    using assms(3) b64_chars [OF assms(1), of nl "sig_bytes s"]
    by (auto simp: signature_display_def render_key_def)
qed

lemma nar_url_plain: "nl \<notin> set (nar_url u)" "cr \<notin> set (nar_url u)" "nar_url u \<noteq> []"
  using nar_name_chars [of nl u] nar_name_chars [of cr u] plain_neq [of nl] plain_neq [of cr]
  by (auto simp: nar_url_def PREFIX_def)

lemma render_lines_ok:
  assumes "b64_laws X" "narinfo_ok r" "nl \<notin> set (dir_str d)" "cr \<notin> set (dir_str d)"
  shows "list_all line_ok (render_lines X d r)"
proof -
  have core: "path_ok (ni_store_path r)" "list_all path_ok (ni_references r)" "pred_option path_ok (ni_deriver r)"
    using assms(2) by (auto simp: narinfo_ok_def core_ok_def)
  have cd: "nl \<notin> set (compression_display c)" "cr \<notin> set (compression_display c)" for c by (cases c; simp)+
  have sd: "nl \<notin> set (sha_display h)" "cr \<notin> set (sha_display h)" for h
    using sha_display_chars [of nl h] sha_display_chars [of cr h] by blast+
  have sn: "nl \<notin> set (show_u64 w)" "cr \<notin> set (show_u64 w)" for w
    using show_u64_chars [of nl w] show_u64_chars [of cr w] by blast+
  have rf: "nl \<notin> set (join '' '' (map path_display (ni_references r)))"
    "cr \<notin> set (join '' '' (map path_display (ni_references r)))"
    using core(2) by (auto dest!: set_join simp: list_all_iff)
  have dp: "nl \<notin> set (dir_print d (ni_store_path r))" "cr \<notin> set (dir_print d (ni_store_path r))"
    using core(1) assms(3,4) by (auto simp: dir_print_def)
  have sg: "list_all (\<lambda>s. line_ok (field_line F_Sig (signature_display X s))) (ni_sigs r)"
    using assms(1,2) by (auto simp: narinfo_ok_def list_all_iff intro: line_ok_sig)
  have ca: "ni_ca r = Some c \<Longrightarrow> line_ok (field_line F_Ca c)" for c
    using assms(2) by (simp add: narinfo_ok_def field_line_def)
  show ?thesis
    using core(3) sg ca unfolding render_lines_def
    by (auto simp: list.pred_map comp_def cd sd sn rf dp nar_url_plain intro!: line_ok_field_plain
        split: option.split)
qed

lemma push_references_display:
  "list_all path_ok ps \<Longrightarrow>
   push_references (map path_display ps) d = Inr (d\<lparr>d_references := d_references d @ ps\<rparr>)"
  by (induction ps arbitrary: d) (simp_all add: path_parse_display)

lemma absorb_references:
  assumes "list_all path_ok ps"
  shows "absorb X dr d F_References (join '' '' (map path_display ps))
    = Inr (d\<lparr>d_references := d_references d @ ps\<rparr>)"
proof (cases "ps = []")
  case False
  have "split_on (\<lambda>c. c = CHR '' '') (join '' '' (map path_display ps)) = map path_display ps"
    using assms False path_display_chars by (intro split_on_join) (auto simp: list_all_iff)
  then show ?thesis using push_references_display [OF assms] by (simp add: filter_map comp_def)
qed simp

lemma absorb_deriver:
  assumes "path_ok p"
  shows "absorb X dr d F_Deriver (path_display p) = Inr (d\<lparr>d_deriver := Some p\<rparr>)"
proof -
  have "path_display p \<noteq> DERIVER_UNKNOWN"
    using path_display_split(4) [of p] assms by (auto simp: path_ok_def DERIVER_UNKNOWN_def)
  then show ?thesis by (simp add: path_parse_display assms)
qed

lemma parse_lines_sigs:
  assumes "b64_laws X" "list_all sig_ok ss"
  shows "parse_lines X dr (map (\<lambda>s. field_line F_Sig (signature_display X s)) ss @ rest) d
    = parse_lines X dr rest (d\<lparr>d_sigs := d_sigs d @ ss\<rparr>)"
  using assms(2) by (induction ss arbitrary: d) (simp_all add: signature_parse_display [OF assms(1)])

lemma parse_lines_render:
  assumes "b64_laws X" "narinfo_ok r"
  shows "parse_lines X dr (render_lines X dr r) draft_default =
    Inr \<lparr>d_store_path = Some (ni_store_path r), d_url = Some (nar_url (ni_nar r)),
      d_compression = Some (ni_compression r), d_file_hash = Some (ni_file_hash r),
      d_file_size = Some (ni_file_size r), d_nar_hash = Some (ni_nar_hash r),
      d_nar_size = Some (ni_nar_size r), d_references = ni_references r,
      d_deriver = ni_deriver r, d_sigs = ni_sigs r, d_ca = ni_ca r\<rparr>"
proof -
  have sigs: "list_all sig_ok (ni_sigs r)"
    using assms(2) by (auto simp: narinfo_ok_def list_all_iff)
  have core: "path_ok (ni_store_path r)" "sha_ok (ni_file_hash r)" "sha_ok (ni_nar_hash r)"
    "list_all path_ok (ni_references r)" "pred_option path_ok (ni_deriver r)"
    using assms(2) by (auto simp: narinfo_ok_def core_ok_def)
  have dp: "dir_parse dr (dir_print dr (ni_store_path r)) = Inr (ni_store_path r)"
    by (rule sp_dir_codec.parse_print [OF core(1)])
  have sp: "sha_parse X (sha_display (ni_file_hash r)) = Inr (ni_file_hash r)"
    "sha_parse X (sha_display (ni_nar_hash r)) = Inr (ni_nar_hash r)"
    using core by (simp_all add: sha_parse_display)
  show ?thesis
    using core(5) unfolding render_lines_def draft_default_def
    by (cases "ni_deriver r"; cases "ni_ca r")
      (simp_all add: dp sp compression_codec.parse_print parse_show_u64
        absorb_references [OF core(4)] absorb_deriver parse_lines_sigs [OF assms(1) sigs]
        parse_lines_sigs [OF assms(1) sigs, of dr "[]", simplified] del: absorb.simps(8,9))
qed

lemma parse_render:
  assumes "b64_laws X" "narinfo_ok r" "nl \<notin> set (dir_str d)" "cr \<notin> set (dir_str d)"
  shows "parse X (render X d r) d = Inr r"
proof -
  have "lines (render X d r) = render_lines X d r"
    unfolding render_unlines by (rule lines_unlines) (rule render_lines_ok [OF assms])
  moreover have "ni_nar_size r \<noteq> 0" using assms(2) by (simp add: narinfo_ok_def core_ok_def)
  ultimately show ?thesis
    by (simp add: parse_def parse_lines_render [OF assms(1,2)] finish_def nar_url_plain(3) Let_def)
qed

section \<open>What a parsed record is\<close>

definition draft_ok :: "draft \<Rightarrow> bool" where
  "draft_ok d \<longleftrightarrow> pred_option path_ok (d_store_path d) \<and> pred_option sha_ok (d_file_hash d)
     \<and> pred_option sha_ok (d_nar_hash d) \<and> list_all path_ok (d_references d)
     \<and> pred_option path_ok (d_deriver d) \<and> list_all sig_ok (d_sigs d)"

lemma draft_ok_default: "draft_ok draft_default"
  by (simp add: draft_ok_def draft_default_def)

lemma push_references_ok: "push_references ns d = Inr d' \<Longrightarrow> draft_ok d \<Longrightarrow> draft_ok d'"
  by (induction ns arbitrary: d)
    (auto simp: result_iffs draft_ok_def dest: sp_path_codec.parse_valid)

lemma absorb_ok: "absorb X dr d f v = Inr d' \<Longrightarrow> draft_ok d \<Longrightarrow> draft_ok d'"
proof (cases f)
  case F_References
  then show "absorb X dr d f v = Inr d' \<Longrightarrow> draft_ok d \<Longrightarrow> draft_ok d'"
    by (auto intro: push_references_ok)
qed (auto simp: result_iffs draft_ok_def split: if_splits
    dest: sp_dir_codec.parse_valid sp_path_codec.parse_valid sha_parse_ok signature_parse_ok)

lemma parse_lines_Cons_cases:
  assumes "parse_lines X dr (l # ls) d = Inr d'"
  obtains "parse_lines X dr ls d = Inr d'"
  | f v d'' where "split_line l = Inr (field_display f, v)" "absorb X dr d f v = Inr d''"
      "parse_lines X dr ls d'' = Inr d'"
  using assms by (auto simp: parse_lines.simps(2) result_iffs field_from_str_Some split: if_splits option.splits)

lemma parse_lines_ok: "parse_lines X dr ls d = Inr d' \<Longrightarrow> draft_ok d \<Longrightarrow> draft_ok d'"
proof (induction ls arbitrary: d)
  case (Cons l ls)
  from Cons.prems(1) show ?case
    by (rule parse_lines_Cons_cases) (use Cons absorb_ok in blast)+
qed simp

lemma parse_core_ok:
  assumes "parse X body dr = Inr r"
  shows "core_ok r" and "list_all sig_ok (ni_sigs r)"
proof -
  from assms obtain d where d: "parse_lines X dr (lines body) draft_default = Inr d" "finish d = Inr r"
    by (auto simp: parse_def result_iffs)
  have "draft_ok d" by (rule parse_lines_ok [OF d(1) draft_ok_default])
  with d(2) show "core_ok r" "list_all sig_ok (ni_sigs r)"
    by (auto simp: finish_def draft_ok_def core_ok_def result_iffs Let_def)
qed

text \<open>A required field is in the draft only if a line of the body carried its key.\<close>

fun draft_has :: "draft \<Rightarrow> field \<Rightarrow> bool" where
  "draft_has d F_StorePath = (d_store_path d \<noteq> None)"
| "draft_has d F_Url = (d_url d \<noteq> None)"
| "draft_has d F_FileHash = (d_file_hash d \<noteq> None)"
| "draft_has d F_FileSize = (d_file_size d \<noteq> None)"
| "draft_has d F_NarHash = (d_nar_hash d \<noteq> None)"
| "draft_has d F_NarSize = (d_nar_size d \<noteq> None)"
| "draft_has d _ = True"

definition required :: "field set" where
  "required = {F_StorePath, F_Url, F_FileHash, F_FileSize, F_NarHash, F_NarSize}"

lemma push_references_has: "push_references ns d = Inr d' \<Longrightarrow> draft_has d' f = draft_has d f"
  by (induction ns arbitrary: d) (auto simp: result_iffs, (cases f; fastforce)+)

lemma absorb_has: "absorb X dr d g v = Inr d' \<Longrightarrow> draft_has d' f \<Longrightarrow> draft_has d f \<or> f = g"
proof (cases g)
  case F_References
  then show "absorb X dr d g v = Inr d' \<Longrightarrow> draft_has d' f \<Longrightarrow> draft_has d f \<or> f = g"
    using push_references_has by auto
qed (cases f; auto simp: result_iffs split: if_splits)+

lemma parse_lines_has:
  "parse_lines X dr ls d = Inr d' \<Longrightarrow> draft_has d' f \<Longrightarrow>
   draft_has d f \<or> (\<exists>l \<in> set ls. \<exists>v. split_line l = Inr (field_display f, v))"
proof (induction ls arbitrary: d)
  case (Cons l ls)
  from Cons.prems(1) show ?case
  proof (rule parse_lines_Cons_cases)
    assume "parse_lines X dr ls d = Inr d'"
    from Cons.IH [OF this Cons.prems(2)] show ?thesis by auto
  next
    fix g v d''
    assume g: "split_line l = Inr (field_display g, v)" "absorb X dr d g v = Inr d''"
      and "parse_lines X dr ls d'' = Inr d'"
    from Cons.IH [OF this(3) Cons.prems(2)] absorb_has [OF g(2), of f] g(1) show ?thesis by auto
  qed
qed simp

lemma parse_required:
  assumes "parse X body dr = Inr r" "f \<in> required"
  shows "\<exists>l \<in> set (lines body). \<exists>v. split_line l = Inr (field_display f, v)"
proof -
  from assms(1) obtain d where d: "parse_lines X dr (lines body) draft_default = Inr d" "finish d = Inr r"
    by (auto simp: parse_def result_iffs)
  have "draft_has d f" using d(2) assms(2) by (auto simp: finish_def required_def result_iffs Let_def Option.bind_eq_Some_conv)
  moreover have "\<not> draft_has draft_default f" using assms(2) by (auto simp: required_def draft_default_def)
  ultimately show ?thesis using parse_lines_has [OF d(1)] by blast
qed

text \<open>An unknown line anywhere in a body of whole lines is ignored.\<close>

lemma parse_ignores_unknown:
  assumes "list_all line_ok (as @ l # bs)" "split_line l = Inr (k, v)" "field_from_str k = None"
  shows "parse X (unlines (as @ l # bs)) dr = parse X (unlines (as @ bs)) dr"
proof -
  have skip: "parse_lines X dr (l # bs) = parse_lines X dr bs"
    by (rule ext) (rule parse_lines_unknown [OF assms(2,3)])
  have "list_all line_ok (as @ bs)" using assms(1) by simp
  then show ?thesis
    unfolding parse_def lines_unlines [OF assms(1)] lines_unlines [OF \<open>list_all line_ok (as @ bs)\<close>]
    by (simp add: parse_lines_append skip)
qed

end
