(* ===== verification/CoreSpec.thy ===== *)
theory CoreSpec
  imports Sample Storepath Narurl NarinfoParse
begin

text \<open>
  The properties of the core crate: the names of the protocol, keys and signatures, and the
  narinfo record. Each is followed by a concrete instance where it has hypotheses.
\<close>

section \<open>Names\<close>

text \<open>
  C28. The base32 decoder accepts, at the two widths the program uses, exactly the encoder's
  output: every value has one spelling and every other text is refused.
\<close>

theorem base32_canonical:
  "(decode 20 s = Inr bs \<longleftrightarrow> length bs = 20 \<and> s = encode bs) \<and>
   (decode 32 s = Inr bs \<longleftrightarrow> length bs = 32 \<and> s = encode bs)"
  using b32_20.parse_eq_iff b32_32.parse_eq_iff by blast

text \<open>
  A SHA-256 parses from each of the nine spellings a client may send: an optional
  \<open>sha256:\<close> or SRI \<open>sha256-\<close> prefix in front of nix base32, hex, or padded base64.
\<close>

lemma sha_parse_spellings:
  assumes "hex_laws X" "b64_laws X" "sha_ok h"
    and "p \<in> {[], ''sha256:'', ''sha256-''}"
    and "body \<in> {sha_base32 h, hex_lower (sha_bytes h), b64_encode X (sha_bytes h)}"
  shows "sha_parse X (p @ body) = Inr h"
proof -
  from assms(5) consider "body = sha_base32 h" | "body = hex_lower (sha_bytes h)"
    | "body = b64_encode X (sha_bytes h)" by blast
  then show ?thesis
  proof cases
    case 1
    then have "colon \<notin> set body" "dash \<notin> set body"
      by (auto simp: sha_base32_def dest!: encode_plain dest: plain_neq)
    then have "sha_body (p @ body) = sha_base32 h" using 1 sha_body_spellings assms(4) by metis
    then show ?thesis using assms(3) by (rule sha_parse_body32)
  next
    case 2
    have "colon \<notin> set ''0123456789abcdef''" "dash \<notin> set ''0123456789abcdef''" by simp_all
    then have "colon \<notin> set body" "dash \<notin> set body" using hex_lower_plain 2 by metis+
    then show ?thesis using sha_parse_hex [OF assms(1,3)] sha_body_spellings assms(4) 2 by metis
  next
    case 3
    then have "colon \<notin> set body" "dash \<notin> set body"
      using b64_chars [OF assms(2)] by (auto simp: b64_char_def)
    then show ?thesis using sha_parse_b64 [OF assms(2,3)] sha_body_spellings assms(4) 3 by metis
  qed
qed

definition sample_hash :: sha256 where
  "sample_hash = Sha256 (map of_nat [0..<32])"

lemma sample_hash_ok: "sha_ok sample_hash"
  by (simp add: sample_hash_def sha_ok_def)

lemma sha_parse_spellings_witness:
  "sha_parse sample (''sha256-'' @ sample_b64 (sha_bytes sample_hash)) = Inr sample_hash"
  by (rule sha_parse_spellings [OF sample_hex_laws sample_b64_laws sample_hash_ok])
    (simp_all add: sample_def)

text \<open>
  C35. A full store path has one spelling: a text parses under a store directory exactly when
  it is the directory, a slash and the rendering of a well-formed path.
\<close>

theorem store_path_canonical:
  "dir_parse d s = Inr p \<longleftrightarrow> path_ok p \<and> s = dir_str d @ [slash] @ path_display p"
  using dir_parse_Inr [of d s p] by (simp add: dir_print_def)

text \<open>
  C33. The artifact name is a safe file name and a faithful one: it parses back to the hash
  and compression it was built from, it contains no slash, it is not hidden, and it is not
  the parent directory, so the store path built from it stays inside its shard.
\<close>

theorem nar_name_faithful:
  assumes "narurl_ok u"
  shows "narurl_parse X (nar_name u) = Inr u \<and> slash \<notin> set (nar_name u) \<and>
    2 \<le> length (nar_name u) \<and> hd (nar_name u) \<noteq> CHR ''.''"
proof -
  have len: "length (sha_base32 (file_hash u)) = 52"
    using assms by (simp add: sha_base32_def narurl_ok_def sha_ok_def text_len_def BITS_def)
  then have ne: "sha_base32 (file_hash u) \<noteq> []" by auto
  then have "hd (nar_name u) \<in> set (encode (sha_bytes (file_hash u)))"
    by (simp add: nar_name_def sha_base32_def)
  then have "hd (nar_name u) \<noteq> CHR ''.''" using encode_plain plain_neq by blast
  moreover have "slash \<notin> set (nar_name u)"
    using nar_name_chars [of slash u] plain_neq [of slash] by auto
  ultimately show ?thesis using len narurl_parse_name [OF assms] by (simp add: nar_name_def)
qed

definition sample_url :: narurl where
  "sample_url = \<lparr>file_hash = sample_hash, compression = Zstd\<rparr>"

lemma sample_url_ok: "narurl_ok sample_url"
  by (simp add: narurl_ok_def sample_url_def sample_hash_ok)

theorem nar_name_faithful_witness:
  "narurl_parse sample (nar_name sample_url) = Inr sample_url \<and> slash \<notin> set (nar_name sample_url)"
  using nar_name_faithful [OF sample_url_ok, of sample] by simp

section \<open>Keys\<close>

text \<open>
  C34. A secret key and its public half survive being written and read back, for every name
  that is non-empty, has no colon and does not start with whitespace, and what the secret
  key signs verifies under the public key that was read back.
\<close>

theorem key_files_roundtrip:
  assumes "b64_laws X" "ed_laws X" "secret_ok k"
  shows "secret_parse X (secret_render X k) = Inr k \<and>
    public_parse X (public_render X (secret_public X k)) = Inr (secret_public X k) \<and>
    verify X (secret_public X k) m (sign X k m) = Inr () \<and>
    signature_parse X (signature_display X (sign X k m)) = Inr (sign X k m)"
proof -
  have "length (sk_seed k) = 32" using assms(3) by (simp add: secret_ok_def)
  then show ?thesis
    using secret_parse_render [OF assms] public_parse_render [OF assms] verify_sign [OF assms(2)]
      signature_parse_display [OF assms(1) sig_ok_sign [OF assms(2,3)]] by blast
qed

definition sample_key :: secret_key where
  "sample_key = \<lparr>sk_name = ''cache-1'', sk_seed = replicate 32 7\<rparr>"

lemma sample_key_ok: "secret_ok sample_key"
  by (simp add: secret_ok_def sample_key_def key_name_ok_def visible_def)

theorem key_files_roundtrip_witness:
  "secret_parse sample (secret_render sample sample_key) = Inr sample_key"
  using key_files_roundtrip [OF sample_b64_laws sample_ed_laws sample_key_ok] by blast

text \<open>
  C37. \<open>generate\<close> checks nothing about the name: with a colon in it, the key that is printed is
  refused by the parser, since what follows the first colon is not base64.
\<close>

theorem keygen_colon_refused:
  assumes "b64_laws X" "colon \<in> set n" "visible (hd n)" "hd n \<noteq> colon" "length seed = 32"
  shows "\<exists>e. secret_parse X (secret_render X (secret_generate n seed)) = Inl (Sign_Base64 e)"
proof -
  let ?bs = "seed @ ed_public X seed"
  have "n \<noteq> []" "?bs \<noteq> []" using assms(2,5) by auto
  then have "trim (render_key X n ?bs) = render_key X n ?bs" using assms(1,3) by (intro trim_render)
  moreover obtain e where "split X (render_key X n ?bs) = Inl (Sign_Base64 e)"
    using split_render_colon [OF assms(1,2,4)] by blast
  ultimately show ?thesis by (simp add: secret_parse_def secret_render_def secret_generate_def)
qed

theorem keygen_colon_refused_witness:
  "\<exists>e. secret_parse sample (secret_render sample (secret_generate ''a:b'' (replicate 32 1))) =
     Inl (Sign_Base64 e)"
  by (rule keygen_colon_refused [OF sample_b64_laws]) (simp_all add: visible_def)

section \<open>Fingerprints and signatures of records\<close>

text \<open>
  C20. The signed string determines what is signed: two well-formed records with the same
  fingerprint have the same store path, NAR hash, NAR size and the same references, so a
  signature cannot be moved to another path or other contents.
\<close>

theorem fingerprint_binds:
  assumes "core_ok r" "core_ok r'" "fingerprint r d = fingerprint r' d"
  shows "ni_store_path r = ni_store_path r' \<and> ni_nar_hash r = ni_nar_hash r' \<and>
    ni_nar_size r = ni_nar_size r' \<and> mset (ni_references r) = mset (ni_references r')"
  using fingerprint_inject [OF assms] by blast

definition sample_path :: "string \<Rightarrow> sp_path" where
  "sample_path n = SpPath (SpHash (replicate 20 5)) (SpName n)"

lemma sample_path_ok: "path_ok (sample_path ''hello'')"
  by (simp add: sample_path_def path_ok_def hash_ok_def name_ok_def name_char_def)

definition sample_record :: narinfo where
  "sample_record = \<lparr>ni_store_path = sample_path ''hello'', ni_compression = Zstd,
     ni_file_hash = sample_hash, ni_file_size = 10, ni_nar_hash = sample_hash, ni_nar_size = 20,
     ni_references = [sample_path ''hello'', sample_path ''hello''], ni_deriver = None,
     ni_sigs = [], ni_ca = None\<rparr>"

lemma sample_record_ok: "core_ok sample_record"
  by (simp add: core_ok_def sample_record_def sample_path_ok sample_hash_ok)

theorem fingerprint_binds_witness:
  "ni_store_path sample_record = ni_store_path (sample_record\<lparr>ni_file_size := 11\<rparr>)"
proof -
  have "core_ok (sample_record\<lparr>ni_file_size := 11\<rparr>)"
    using sample_record_ok by (simp add: core_ok_def)
  from fingerprint_binds [OF sample_record_ok this, of "Dir ''/nix/store''"] show ?thesis by simp
qed

text \<open>
  C36. The order in which a client lists the references does not change the signed string,
  but their number does: two well-formed records that differ only by a repeated reference
  have different fingerprints, where a set of references would make them equal.
\<close>

theorem fingerprint_references:
  "(mset refs = mset (ni_references r) \<longrightarrow> fingerprint (r\<lparr>ni_references := refs\<rparr>) d = fingerprint r d) \<and>
   (core_ok r \<and> p \<in> set (ni_references r) \<longrightarrow>
      fingerprint (r\<lparr>ni_references := p # ni_references r\<rparr>) d \<noteq> fingerprint r d)"
proof (intro conjI impI)
  assume "mset refs = mset (ni_references r)"
  then show "fingerprint (r\<lparr>ni_references := refs\<rparr>) d = fingerprint r d"
    by (intro fingerprint_perm) simp
next
  assume a: "core_ok r \<and> p \<in> set (ni_references r)"
  let ?r = "r\<lparr>ni_references := p # ni_references r\<rparr>"
  have "core_ok ?r" using a by (auto simp: core_ok_def list_all_iff)
  with a fingerprint_inject(4) [of ?r r d] show "fingerprint ?r d \<noteq> fingerprint r d" by auto
qed

theorem fingerprint_references_witness:
  "fingerprint (sample_record\<lparr>ni_references := sample_path ''hello'' # ni_references sample_record\<rparr>)
     (Dir ''/nix/store'') \<noteq> fingerprint sample_record (Dir ''/nix/store'')"
  using fingerprint_references [of "[]" sample_record "Dir ''/nix/store''" "sample_path ''hello''"]
    sample_record_ok by (simp add: sample_record_def [THEN arg_cong [where f = ni_references]])

text \<open>
  C30. Re-signing leaves one signature, which verifies under the server's public key over the
  record's own fingerprint, replaces whatever signatures the client sent, and changes no
  other field.
\<close>

theorem resign_correct:
  assumes "ed_laws X" "length (sk_seed key) = 32"
  shows "signed_by X d (secret_public X key) (resign X d key r) \<and>
    (resign X d key r)\<lparr>ni_sigs := ni_sigs r\<rparr> = r \<and>
    resign X d key (r\<lparr>ni_sigs := sigs\<rparr>) = resign X d key r"
  using resign_signed [OF assms] by (simp add: resign_def)

theorem resign_correct_witness:
  "signed_by sample (Dir ''/s'') (secret_public sample sample_key) (resign sample (Dir ''/s'') sample_key sample_record)"
  using resign_correct [OF sample_ed_laws, of sample_key] by (simp add: sample_key_def)

section \<open>The narinfo text\<close>

text \<open>
  C21. What the server renders it parses back to the same record, for every record whose
  fields can be lines of text.
\<close>

theorem narinfo_roundtrip:
  assumes "b64_laws X" "narinfo_ok r" "nl \<notin> set (dir_str d)" "cr \<notin> set (dir_str d)"
  shows "NarinfoParse.parse X (Narinfo.render X d r) d = Inr r"
  by (rule parse_render [OF assms])

theorem narinfo_roundtrip_witness:
  "NarinfoParse.parse sample (Narinfo.render sample (Dir ''/nix/store'') sample_record) (Dir ''/nix/store'')
     = Inr sample_record"
  by (rule narinfo_roundtrip [OF sample_b64_laws])
    (simp_all add: narinfo_ok_def sample_record_ok, simp_all add: sample_record_def)

text \<open>
  C31. Whatever body a client sends, a record that comes out of the parser is well formed
  (paths, hashes, a non-zero NAR size, well-formed signatures), and each required field was
  written on a line of the body.
\<close>

theorem narinfo_parse_sound:
  assumes "NarinfoParse.parse X body d = Inr r"
  shows "core_ok r \<and> list_all sig_ok (ni_sigs r) \<and>
    (\<forall>f \<in> required. \<exists>l \<in> set (lines body). \<exists>v. split_line l = Inr (field_display f, v))"
  using parse_core_ok [OF assms] parse_required [OF assms] by blast

theorem narinfo_parse_sound_witness:
  "core_ok sample_record"
proof -
  have "NarinfoParse.parse sample (Narinfo.render sample (Dir ''/nix/store'') sample_record) (Dir ''/nix/store'')
     = Inr sample_record"
    by (rule parse_render [OF sample_b64_laws])
      (simp_all add: narinfo_ok_def sample_record_ok, simp_all add: sample_record_def)
  from narinfo_parse_sound [OF this] show ?thesis by blast
qed

text \<open>
  A line whose key the parser does not know is ignored wherever it stands: the result,
  value or error, is the one of the body without it.
\<close>

lemma narinfo_unknown_ignored:
  assumes "list_all line_ok (as @ l # bs)" "split_line l = Inr (k, v)" "field_from_str k = None"
  shows "NarinfoParse.parse X (unlines (as @ l # bs)) d = NarinfoParse.parse X (unlines (as @ bs)) d"
  by (rule parse_ignores_unknown [OF assms])

lemma narinfo_unknown_ignored_witness:
  "NarinfoParse.parse sample (unlines [''System: x86'', ''NarSize: 1'']) (Dir ''/s'') =
   NarinfoParse.parse sample (unlines [''NarSize: 1'']) (Dir ''/s'')"
  using narinfo_unknown_ignored [of "[]" "''System: x86''" "[''NarSize: 1'']" "''System''" "''x86''" sample "Dir ''/s''"]
  by (simp add: line_ok_def split_line_def field_from_str_def)

end
