(* ===== verification/Range.thy ===== *)
theory Range
  imports Text
begin

text \<open>
  \<open>Range\<close> requests on the payload plane (\<open>crates/bincache-serve/src/range.rs\<close>), on 64-bit
  words. The lemmas give the answer for each of the three forms and show that a span that is
  answered always lies inside the artifact.
\<close>

section \<open>The code\<close>

record span =
  first :: u64
  last_byte :: u64

datatype requested = Whole | Partial span | Unsatisfiable

definition span_len :: "span \<Rightarrow> u64" where
  "span_len s = last_byte s - first s + 1"

text \<open>\<open>saturating_sub\<close>.\<close>

definition saturating_sub :: "u64 \<Rightarrow> u64 \<Rightarrow> u64" where
  "saturating_sub a b = (if b \<le> a then a - b else 0)"

definition suffix_range :: "string \<Rightarrow> u64 \<Rightarrow> requested" where
  "suffix_range text len =
     (case parse_u64 text of
        Inl _ \<Rightarrow> Whole
      | Inr wanted \<Rightarrow>
          (if wanted = 0 then Unsatisfiable
           else Partial \<lparr>first = saturating_sub len wanted, last_byte = len - 1\<rparr>))"

definition range_resolve :: "string option \<Rightarrow> u64 \<Rightarrow> requested" where
  "range_resolve header len =
     (case header of
        None \<Rightarrow> Whole
      | Some header \<Rightarrow>
     (case strip_prefix ''bytes='' (trim header) of
        None \<Rightarrow> Whole
      | Some set' \<Rightarrow>
     (if CHR '','' \<in> set set' then Whole
      else (case split_once [dash] set' of
        None \<Rightarrow> Whole
      | Some (first_text, last_text) \<Rightarrow>
     (if first_text = [] then suffix_range last_text len
      else (case parse_u64 first_text of
        Inl _ \<Rightarrow> Whole
      | Inr f \<Rightarrow>
     (if len \<le> f then Unsatisfiable
      else (case (if last_text = [] then Inr (len - 1)
                  else (case parse_u64 last_text of Inl e \<Rightarrow> Inl e | Inr l \<Rightarrow> Inr (min l (len - 1)))) of
        Inl _ \<Rightarrow> Whole
      | Inr l \<Rightarrow> (if l < f then Unsatisfiable else Partial \<lparr>first = f, last_byte = l\<rparr>)))))))))"

section \<open>Spans lie inside the artifact\<close>

definition span_in :: "span \<Rightarrow> u64 \<Rightarrow> bool" where
  "span_in s len \<longleftrightarrow> first s \<le> last_byte s \<and> last_byte s < len"

lemma pred_less: "(len :: u64) \<noteq> 0 \<Longrightarrow> len - 1 < len"
  by uint_arith

lemma unat_pred: "(len :: u64) \<noteq> 0 \<Longrightarrow> unat (len - 1) = unat len - 1"
  by (simp add: unat_minus_one)

lemma min_pred_less: "(len :: u64) \<noteq> 0 \<Longrightarrow> min l (len - 1) < len"
  using pred_less [of len] by (simp add: min_less_iff_disj)

lemma suffix_range_in:
  assumes "suffix_range t len = Partial s" "len \<noteq> 0"
  shows "span_in s len"
proof -
  obtain w where w: "w \<noteq> 0" "s = \<lparr>first = saturating_sub len w, last_byte = len - 1\<rparr>"
    using assms(1) by (auto simp: suffix_range_def split: sum.splits if_splits)
  have "saturating_sub len w \<le> len - 1"
    using w(1) assms(2) unfolding saturating_sub_def by uint_arith
  with w pred_less [OF assms(2)] show ?thesis by (simp add: span_in_def)
qed

lemma range_resolve_in:
  assumes "range_resolve h len = Partial s" "len \<noteq> 0"
  shows "span_in s len"
  using assms min_pred_less [OF assms(2)] pred_less [OF assms(2)]
  by (auto simp: range_resolve_def span_in_def not_less min_def
      dest: suffix_range_in [unfolded span_in_def] split: option.splits prod.splits if_splits sum.splits)

lemma unat_span_len:
  assumes "span_in s len"
  shows "unat (span_len s) = unat (last_byte s) - unat (first s) + 1" "unat (span_len s) \<le> unat len"
    "span_len s \<noteq> 0"
proof -
  have le: "unat (first s) \<le> unat (last_byte s)" "unat (last_byte s) < unat len"
    using assms by (simp_all add: span_in_def word_le_nat_alt word_less_nat_alt)
  have "unat (last_byte s - first s) = unat (last_byte s) - unat (first s)"
    using assms by (simp add: span_in_def unat_sub)
  moreover have "unat (last_byte s) - unat (first s) + 1 < 2 ^ 64"
    using le unsigned_less [of len, where ?'a = nat] by simp
  ultimately show e: "unat (span_len s) = unat (last_byte s) - unat (first s) + 1"
    unfolding span_len_def by (simp add: unat_word_ariths)
  show "unat (span_len s) \<le> unat len" using e le by linarith
  show "span_len s \<noteq> 0" using e by auto
qed

section \<open>The three forms\<close>

lemma digits_no_sep:
  "c \<in> set (show_u64 n) \<Longrightarrow> c \<noteq> dash \<and> c \<noteq> CHR '','' \<and> visible c"
  using show_nat_digits [of c "unat n"] by (auto simp: show_u64_def is_digit_def visible_def)

lemma trim_bytes:
  assumes "s \<noteq> []" "visible (last s)"
  shows "trim (''bytes='' @ s) = ''bytes='' @ s"
  using assms by (intro trim_visible) (simp add: visible_def)

lemma split_first_last:
  "split_once [dash] (show_u64 n @ dash # t) = Some (show_u64 n, t)"
  using digits_no_sep by (intro split_once_char) blast

lemma show_u64_nonempty [simp]: "show_u64 n \<noteq> []"
  by (simp add: show_u64_def)

lemma visible_last_digits: "visible (last (show_u64 n))"
  using digits_no_sep last_in_set show_u64_nonempty by blast

lemma visible_dash [simp]: "visible dash"
  by (simp add: visible_def)

text \<open>\<open>bytes=N-\<close>, the form a resumed download sends.\<close>

lemma range_resolve_open:
  "range_resolve (Some (''bytes='' @ show_u64 n @ [dash])) len =
     (if len \<le> n then Unsatisfiable else Partial \<lparr>first = n, last_byte = len - 1\<rparr>)"
proof -
  let ?t = "show_u64 n @ [dash]"
  have "trim (''bytes='' @ ?t) = ''bytes='' @ ?t" by (rule trim_bytes) simp_all
  moreover have "CHR '','' \<notin> set ?t" using digits_no_sep by auto
  moreover have "\<not> len - 1 < n" if "\<not> len \<le> n" using that by uint_arith
  ultimately show ?thesis
    using split_first_last [of n "[]"] unfolding range_resolve_def
    by (simp del: append_Cons add: parse_show_u64)
qed

text \<open>\<open>bytes=N-M\<close>: a last byte past the end is clamped.\<close>

lemma range_resolve_closed:
  "range_resolve (Some (''bytes='' @ show_u64 n @ [dash] @ show_u64 m)) len =
     (if len \<le> n \<or> m < n then Unsatisfiable
      else Partial \<lparr>first = n, last_byte = min m (len - 1)\<rparr>)"
proof -
  let ?t = "show_u64 n @ [dash] @ show_u64 m"
  have "trim (''bytes='' @ ?t) = ''bytes='' @ ?t"
    using visible_last_digits [of m] by (intro trim_bytes) simp_all
  moreover have "CHR '','' \<notin> set ?t" using digits_no_sep by auto
  moreover have "min m (len - 1) < n \<longleftrightarrow> m < n" if "\<not> len \<le> n"
    using that unfolding min_def by (cases "m \<le> len - 1"; simp; uint_arith)
  moreover have "split_once [dash] ?t = Some (show_u64 n, show_u64 m)"
    using split_first_last [of n "show_u64 m"] by simp
  ultimately show ?thesis
    unfolding range_resolve_def
    by (simp del: append_Cons split_once.simps add: parse_show_u64)
qed

text \<open>\<open>bytes=-N\<close>: the last \<open>N\<close> bytes, the whole artifact if it is shorter.\<close>

lemma range_resolve_suffix:
  "range_resolve (Some (''bytes='' @ [dash] @ show_u64 n)) len =
     (if n = 0 then Unsatisfiable
      else Partial \<lparr>first = (if n \<le> len then len - n else 0), last_byte = len - 1\<rparr>)"
proof -
  let ?t = "[dash] @ show_u64 n"
  have "trim (''bytes='' @ ?t) = ''bytes='' @ ?t"
    using visible_last_digits [of n] by (intro trim_bytes) simp_all
  moreover have "CHR '','' \<notin> set ?t" using digits_no_sep by auto
  moreover have "split_once [dash] ?t = Some ([], show_u64 n)"
    using split_once_char [of dash "[]" "show_u64 n"] by simp
  ultimately show ?thesis
    unfolding range_resolve_def
    by (simp del: append_Cons split_once.simps add: parse_show_u64 suffix_range_def saturating_sub_def)
qed

end
