(* ===== verification/Http.thy ===== *)
theory Http
  imports Text
begin

text \<open>
  The hand-rolled HTTP/1.1 request head (\<open>crates/bincache-serve/src/http.rs\<close>): finding its end,
  parsing the request line and the headers, and the two questions about the body. The lemmas
  show that the measured head is the first complete one and is stable as bytes arrive, and
  how the two body framings exclude each other.
\<close>

section \<open>The code\<close>

definition HEAD_LEN_MAX :: nat where "HEAD_LEN_MAX = 16 * 1024"
definition METADATA_BODY_MAX :: u64 where "METADATA_BODY_MAX = 1024 * 1024"
definition HEAD_END :: string where "HEAD_END = [cr, nl, cr, nl]"

abbreviation crlf :: string where "crlf \<equiv> [cr, nl]"

datatype http_method = Get | Head | Put
datatype keep_alive = Keep | Close
datatype expectation = ExpectContinue | ExpectNone
datatype framing = FrameEmpty | FrameLength u64 | FrameChunked

datatype http_error =
    HTTP_Encoding
  | HTTP_RequestLine
  | HTTP_Method string
  | HTTP_Version string
  | HTTP_Header string
  | HTTP_Length int_error
  | HTTP_ConflictingFraming

record request =
  rq_method :: http_method
  rq_target :: string
  rq_framing :: framing
  rq_keep_alive :: keep_alive
  rq_expectation :: expectation
  rq_range :: "string option"
  rq_authorization :: "string option"

text \<open>\<open>windows(4).position(...)\<close>: the first place where the blank line starts.\<close>

fun head_position :: "string \<Rightarrow> nat option" where
  "head_position [] = None"
| "head_position (c # cs) =
     (if take (length HEAD_END) (c # cs) = HEAD_END then Some 0 else map_option Suc (head_position cs))"

definition head_len :: "string \<Rightarrow> nat option" where
  "head_len buffer = map_option (\<lambda>at. at + length HEAD_END) (head_position buffer)"

text \<open>The derived upper-case \<open>FromStr\<close> of \<open>Method\<close>.\<close>

definition method_from_str :: "string \<Rightarrow> http_method option" where
  "method_from_str s =
     (if s = ''GET'' then Some Get else if s = ''HEAD'' then Some Head
      else if s = ''PUT'' then Some Put else None)"

function split_crlf :: "string \<Rightarrow> string list" where
  "split_crlf s = (case split_once crlf s of None \<Rightarrow> [s] | Some (a, b) \<Rightarrow> a # split_crlf b)"
  by pat_completeness auto
termination
proof (relation "measure length")
  fix s x a b assume "split_once crlf s = Some x" "(a, b) = x"
  then have "s = a @ crlf @ b" by (auto dest: split_once_SomeD)
  then show "(b, s) \<in> measure length" by simp
qed simp

declare split_crlf.simps [simp del]

definition split_terminator :: "string \<Rightarrow> string list" where
  "split_terminator s = (let ps = split_crlf s in if last ps = [] then butlast ps else ps)"

definition absorb_header :: "request \<Rightarrow> string \<Rightarrow> http_error + request" where
  "absorb_header r line =
     and_then (or_err (HTTP_Header line) (split_once [colon] line)) (\<lambda>(name, value).
     let value = trim value in
     if eq_ignore_ascii_case name ''content-length'' then
       and_then (ensure (rq_framing r \<noteq> FrameChunked) HTTP_ConflictingFraming) (\<lambda>_.
       and_then (ctx HTTP_Length (parse_u64 value)) (\<lambda>n. Inr (r\<lparr>rq_framing := FrameLength n\<rparr>)))
     else if eq_ignore_ascii_case name ''transfer-encoding'' then
       and_then (ensure (\<not> (case rq_framing r of FrameLength _ \<Rightarrow> True | _ \<Rightarrow> False)) HTTP_ConflictingFraming) (\<lambda>_.
       Inr (r\<lparr>rq_framing := FrameChunked\<rparr>))
     else if eq_ignore_ascii_case name ''connection'' then
       Inr (r\<lparr>rq_keep_alive := (if eq_ignore_ascii_case value ''close'' then Close else Keep)\<rparr>)
     else if eq_ignore_ascii_case name ''expect'' then
       Inr (r\<lparr>rq_expectation :=
         (if eq_ignore_ascii_case value ''100-continue'' then ExpectContinue else ExpectNone)\<rparr>)
     else if eq_ignore_ascii_case name ''range'' then Inr (r\<lparr>rq_range := Some value\<rparr>)
     else if eq_ignore_ascii_case name ''authorization'' then Inr (r\<lparr>rq_authorization := Some value\<rparr>)
     else Inr r)"

fun absorb_headers :: "string list \<Rightarrow> request \<Rightarrow> http_error + request" where
  "absorb_headers [] r = Inr r"
| "absorb_headers (line # rest) r =
     (if line = [] then absorb_headers rest r
      else and_then (absorb_header r line) (absorb_headers rest))"

definition request_line :: "string \<Rightarrow> http_error + request" where
  "request_line line =
     (case split_on (\<lambda>c. c = CHR '' '') line of
        [m, target, version] \<Rightarrow>
          and_then (ensure (strip_prefix ''HTTP/1.'' version \<noteq> None) (HTTP_Version version)) (\<lambda>_.
          and_then (or_err (HTTP_Method m) (method_from_str m)) (\<lambda>m'.
          Inr \<lparr>rq_method = m', rq_target = target, rq_framing = FrameEmpty, rq_keep_alive = Keep,
            rq_expectation = ExpectNone, rq_range = None, rq_authorization = None\<rparr>))
      | _ \<Rightarrow> Inl HTTP_RequestLine)"

definition http_parse :: "string \<Rightarrow> http_error + request" where
  "http_parse head =
     and_then (ctx (\<lambda>_. HTTP_Encoding) (from_utf8 head)) (\<lambda>text.
     case split_terminator text of
       [] \<Rightarrow> Inl HTTP_RequestLine
     | line # rest \<Rightarrow> and_then (request_line line) (absorb_headers rest))"

definition body_len :: "request \<Rightarrow> u64" where
  "body_len r = (case rq_framing r of FrameLength n \<Rightarrow> n | FrameEmpty \<Rightarrow> 0 | FrameChunked \<Rightarrow> 0)"

definition carries_body :: "request \<Rightarrow> bool" where
  "carries_body r =
     (case rq_framing r of FrameEmpty \<Rightarrow> False | FrameLength n \<Rightarrow> n > 0 | FrameChunked \<Rightarrow> True)"

section \<open>The end of the head\<close>

lemma length_HEAD_END [simp]: "length HEAD_END = 4"
  by (simp add: HEAD_END_def)

lemma head_position_Some:
  "head_position s = Some n \<longleftrightarrow>
     take 4 (drop n s) = HEAD_END \<and> (\<forall>m < n. take 4 (drop m s) \<noteq> HEAD_END)"
proof (induction s arbitrary: n)
  case Nil
  then show ?case by (auto simp: HEAD_END_def)
next
  case (Cons c cs)
  show ?case
  proof (cases "take 4 (c # cs) = HEAD_END")
    case True
    then show ?thesis by (cases n) (auto simp del: take_Cons_numeral)
  next
    case False
    show ?thesis
    proof (cases n)
      case 0
      with False show ?thesis by (auto simp del: take_Cons_numeral)
    next
      case (Suc k)
      have "(\<forall>m < Suc k. take 4 (drop m (c # cs)) \<noteq> HEAD_END) \<longleftrightarrow> (\<forall>m < k. take 4 (drop m cs) \<noteq> HEAD_END)"
        using False by (auto simp: less_Suc_eq_0_disj simp del: take_Cons_numeral)
      with Suc False Cons.IH [of k] show ?thesis by (auto simp del: take_Cons_numeral)
    qed
  qed
qed

lemma head_len_Some:
  assumes "head_len s = Some n"
  shows "4 \<le> n" "n \<le> length s" "take 4 (drop (n - 4) s) = HEAD_END"
    "\<And>m. take 4 (drop m s) = HEAD_END \<Longrightarrow> n \<le> m + 4"
proof -
  from assms obtain k where k: "head_position s = Some k" "n = k + 4" by (auto simp: head_len_def)
  then have at: "take 4 (drop k s) = HEAD_END" and min: "\<forall>m < k. take 4 (drop m s) \<noteq> HEAD_END"
    by (simp_all add: head_position_Some)
  show "4 \<le> n" by (simp add: k)
  show "n \<le> length s" using arg_cong [OF at, of length] by (simp add: k)
  show "take 4 (drop (n - 4) s) = HEAD_END" using at by (simp add: k)
  show "take 4 (drop m s) = HEAD_END \<Longrightarrow> n \<le> m + 4" for m
    using min by (force simp: k not_less [symmetric])
qed

lemma head_position_None: "head_position s = None \<Longrightarrow> take 4 (drop m s) \<noteq> HEAD_END"
proof (induction s arbitrary: m)
  case Nil
  then show ?case by (simp add: HEAD_END_def)
next
  case (Cons c cs)
  then show ?case by (cases m) (auto split: if_splits simp del: take_Cons_numeral)
qed

lemma head_len_None: "head_len s = None \<longleftrightarrow> (\<forall>m. take 4 (drop m s) \<noteq> HEAD_END)"
proof
  assume "head_len s = None"
  then show "\<forall>m. take 4 (drop m s) \<noteq> HEAD_END" using head_position_None by (auto simp: head_len_def)
next
  assume "\<forall>m. take 4 (drop m s) \<noteq> HEAD_END"
  then show "head_len s = None"
    by (cases "head_position s") (auto simp: head_len_def head_position_Some)
qed

text \<open>Bytes that arrive later do not move a head that is complete.\<close>

lemma head_len_append: "head_len s = Some n \<Longrightarrow> head_len (s @ t) = Some n"
proof -
  assume n: "head_len s = Some n"
  note at = head_len_Some [OF n]
  have pre: "take 4 (drop m (s @ t)) = take 4 (drop m s)" if "m + 4 \<le> length s" for m
    using that by simp
  have "take 4 (drop (n - 4) (s @ t)) = HEAD_END" using at pre [of "n - 4"] by simp
  moreover have "take 4 (drop m (s @ t)) \<noteq> HEAD_END" if "m < n - 4" for m
  proof
    have "m + 4 \<le> length s" using that at(2) by linarith
    moreover assume "take 4 (drop m (s @ t)) = HEAD_END"
    ultimately have "n \<le> m + 4" using pre at(4) by simp
    with that show False by linarith
  qed
  ultimately have "head_position (s @ t) = Some (n - 4)" by (simp add: head_position_Some)
  with at(1) show ?thesis by (simp add: head_len_def)
qed

section \<open>Heads made of lines\<close>

text \<open>The bytes of a head: each line with its CRLF, then the blank line.\<close>

definition crlf_lines :: "string list \<Rightarrow> string" where
  "crlf_lines ls = concat (map (\<lambda>l. l @ crlf) ls)"

definition head_text :: "string list \<Rightarrow> string" where
  "head_text ls = crlf_lines ls @ crlf"

lemma crlf_lines_simps [simp]:
  "crlf_lines [] = []" "crlf_lines (l # ls) = l @ crlf @ crlf_lines ls"
  "crlf_lines (ls @ ms) = crlf_lines ls @ crlf_lines ms"
  by (simp_all add: crlf_lines_def)

lemma split_crlf_line: "cr \<notin> set l \<Longrightarrow> split_crlf (l @ crlf @ rest) = l # split_crlf rest"
  by (subst split_crlf.simps) (simp add: split_once_append del: append_Cons)

lemma split_crlf_Nil: "split_crlf [] = [[]]"
  by (simp add: split_crlf.simps)

lemma split_crlf_lines: "list_all (\<lambda>l. cr \<notin> set l) ls \<Longrightarrow> split_crlf (crlf_lines ls) = ls @ [[]]"
  by (induction ls) (simp_all add: split_crlf_Nil split_crlf_line del: append_Cons)

lemma split_terminator_head:
  "list_all (\<lambda>l. cr \<notin> set l) ls \<Longrightarrow> split_terminator (head_text ls) = ls @ [[]]"
  using split_crlf_lines [of "ls @ [[]]"]
  by (simp add: split_terminator_def head_text_def butlast_append)

lemma absorb_headers_append:
  "absorb_headers (as @ bs) r = and_then (absorb_headers as r) (absorb_headers bs)"
proof (induction as arbitrary: r)
  case (Cons a as)
  then show ?case by (cases "absorb_header r a") auto
qed simp

lemma http_parse_head:
  assumes "list_all (\<lambda>l. cr \<notin> set l) (l # ls)" "list_all ascii (l # ls)"
  shows "http_parse (head_text (l # ls)) = and_then (request_line l) (absorb_headers ls)"
proof -
  have "ascii (crlf_lines (l # ls))" using assms(2) by (induction "l # ls" arbitrary: l ls) (auto simp: ascii_def crlf_lines_def list_all_iff)
  then have "from_utf8 (head_text (l # ls)) = Inr (head_text (l # ls))"
    by (intro from_utf8_ascii) (simp add: head_text_def ascii_def)
  moreover have "absorb_headers (ls @ [[]]) = absorb_headers ls"
    by (rule ext) (auto simp: absorb_headers_append and_then_def split: sum.split)
  ultimately show ?thesis
    using split_terminator_head [OF assms(1)] by (simp add: http_parse_def)
qed

text \<open>The head of such lines ends where its text ends, whatever follows it.\<close>

lemma head_position_line:
  "cr \<notin> set l \<Longrightarrow> head_position (l @ crlf @ rest) =
     (if take 2 rest = crlf then Some (length l)
      else map_option (\<lambda>k. Suc (Suc (k + length l))) (head_position rest))"
proof (induction l)
  case Nil
  have "take 4 (cr # nl # rest) = HEAD_END \<longleftrightarrow> take 2 rest = crlf"
    by (simp add: HEAD_END_def numeral_eq_Suc)
  moreover have "take 4 (nl # rest) \<noteq> HEAD_END" by (simp add: HEAD_END_def numeral_eq_Suc)
  ultimately show ?case
    by (simp add: option.map_comp comp_def del: take_Cons_numeral)
next
  case (Cons c l)
  then have "take 4 (c # l @ crlf @ rest) \<noteq> HEAD_END" by (auto simp: HEAD_END_def numeral_eq_Suc)
  with Cons show ?case
    by (auto simp: option.map_comp comp_def simp del: take_Cons_numeral append_Cons
        simp: append_Cons [of c] intro: option.map_cong)
qed

definition plain_line :: "string \<Rightarrow> bool" where
  "plain_line l \<longleftrightarrow> l \<noteq> [] \<and> cr \<notin> set l \<and> ascii l"

lemma take2_head_text: "list_all plain_line ls \<Longrightarrow> take 2 (head_text ls @ t) = crlf \<longleftrightarrow> ls = []"
proof (cases ls)
  case (Cons l ms)
  assume "list_all plain_line ls"
  then have "l \<noteq> []" "cr \<notin> set l" by (simp_all add: Cons plain_line_def)
  then show ?thesis by (cases l) (auto simp: Cons head_text_def numeral_eq_Suc)
qed (simp add: head_text_def numeral_eq_Suc)

lemma head_position_head_text:
  "list_all plain_line ls \<Longrightarrow> ls \<noteq> [] \<Longrightarrow>
     head_position (head_text ls @ t) = Some (length (crlf_lines ls) - 2)"
proof (induction ls)
  case (Cons l ls)
  have l: "cr \<notin> set l" using Cons.prems by (simp add: plain_line_def)
  have *: "head_text (l # ls) @ t = l @ crlf @ (head_text ls @ t)" by (simp add: head_text_def)
  show ?case
  proof (cases "ls = []")
    case True
    then show ?thesis unfolding * head_position_line [OF l] by (simp add: head_text_def numeral_eq_Suc)
  next
    case False
    then have "2 \<le> length (crlf_lines ls)" by (cases ls) simp_all
    with False show ?thesis unfolding * head_position_line [OF l]
      using Cons take2_head_text [of ls t] by simp
  qed
qed simp

lemma head_len_head_text:
  "list_all plain_line ls \<Longrightarrow> ls \<noteq> [] \<Longrightarrow> head_len (head_text ls @ t) = Some (length (head_text ls))"
  by (cases ls) (simp_all add: head_len_def head_position_head_text, simp add: head_text_def)

section \<open>Framing\<close>

definition header_is :: "string \<Rightarrow> string \<Rightarrow> bool" where
  "header_is name line \<longleftrightarrow>
     (case split_once [colon] line of None \<Rightarrow> False | Some (n, _) \<Rightarrow> eq_ignore_ascii_case n name)"

text \<open>A header name is one name: two spellings that differ after lower-casing never both match.\<close>

lemma header_is_unique:
  "header_is a line \<Longrightarrow> header_is b line \<Longrightarrow> map ascii_lower a = map ascii_lower b"
  by (auto simp: header_is_def eq_ignore_ascii_case_def split: option.splits)

lemma header_names_differ:
  "header_is ''content-length'' line \<Longrightarrow> \<not> header_is ''transfer-encoding'' line"
  using header_is_unique [of "''content-length''" line "''transfer-encoding''"]
  by (auto simp: ascii_lower_def)

lemma transfer_encoding_not_length:
  "eq_ignore_ascii_case n ''transfer-encoding'' \<Longrightarrow> \<not> eq_ignore_ascii_case n ''content-length''"
  by (auto simp: eq_ignore_ascii_case_def ascii_lower_def)

abbreviation is_length :: "framing \<Rightarrow> bool" where
  "is_length f \<equiv> (case f of FrameLength _ \<Rightarrow> True | _ \<Rightarrow> False)"

text \<open>One header: what it does to the framing.\<close>

lemma absorb_header_length:
  "header_is ''content-length'' line \<Longrightarrow> absorb_header r line = Inr r' \<Longrightarrow>
     rq_framing r \<noteq> FrameChunked \<and> is_length (rq_framing r')"
  by (auto simp: absorb_header_def header_is_def result_iffs Let_def split: option.splits)

lemma absorb_header_chunked:
  "header_is ''transfer-encoding'' line \<Longrightarrow> absorb_header r line = Inr r' \<Longrightarrow>
     \<not> is_length (rq_framing r) \<and> rq_framing r' = FrameChunked"
  by (auto simp: absorb_header_def header_is_def result_iffs Let_def transfer_encoding_not_length
      split: option.splits framing.splits)

lemma absorb_header_other:
  "\<not> header_is ''content-length'' line \<Longrightarrow> \<not> header_is ''transfer-encoding'' line \<Longrightarrow>
     absorb_header r line = Inr r' \<Longrightarrow> rq_framing r' = rq_framing r"
  by (auto simp: absorb_header_def header_is_def result_iffs Let_def split: option.splits if_splits)

lemmas absorb_header_framing = absorb_header_length absorb_header_chunked absorb_header_other

lemma header_is_Nil [simp]: "\<not> header_is n []"
  by (simp add: header_is_def)

text \<open>
  The framing as a function of the two header names: a head that parses has at most one of
  them (unless the framing it started from says otherwise), and the framing tells which.
\<close>

definition framing_tag :: "framing \<Rightarrow> bool \<times> bool" where
  "framing_tag f = (is_length f, f = FrameChunked)"

lemma absorb_header_tag:
  "absorb_header r l = Inr r' \<Longrightarrow> framing_tag (rq_framing r') =
     (fst (framing_tag (rq_framing r)) \<or> header_is ''content-length'' l,
      snd (framing_tag (rq_framing r)) \<or> header_is ''transfer-encoding'' l)"
  using absorb_header_framing [of l r r'] header_names_differ [of l]
  by (cases "header_is ''content-length'' l"; cases "header_is ''transfer-encoding'' l")
     (auto simp: framing_tag_def split: framing.splits)

lemma absorb_headers_tag:
  "absorb_headers ls r = Inr r' \<Longrightarrow> framing_tag (rq_framing r') =
     (fst (framing_tag (rq_framing r)) \<or> list_ex (header_is ''content-length'') ls,
      snd (framing_tag (rq_framing r)) \<or> list_ex (header_is ''transfer-encoding'') ls)"
proof (induction ls arbitrary: r)
  case Nil
  then show ?case by simp
next
  case (Cons l ls)
  then show ?case
    by (auto simp: and_then_eq_Inr_iff absorb_header_tag split: if_splits)
qed

end
