(* ===== verification/Response.thy ===== *)
theory Response
  imports Http
begin

text \<open>
  Building a response head (\<open>crates/bincache-serve/src/http/response.rs\<close>). The lemmas read a
  response the way a client does: the head ends at the first blank line, which is the one
  \<open>finish\<close> writes, the body is what follows, and \<open>Content-Length\<close> counts it.
\<close>

section \<open>The code\<close>

definition SERVER :: string where "SERVER = ''bincache''"

datatype status =
    S_Continue | S_Ok | S_Created | S_NoContent | S_PartialContent | S_BadRequest | S_Unauthorized
  | S_NotFound | S_MethodNotAllowed | S_LengthRequired | S_ContentTooLarge | S_RangeNotSatisfiable
  | S_ServerError | S_NotImplemented

fun status_line :: "status \<Rightarrow> u16 \<times> string" where
  "status_line S_Continue = (100, ''Continue'')"
| "status_line S_Ok = (200, ''OK'')"
| "status_line S_Created = (201, ''Created'')"
| "status_line S_NoContent = (204, ''No Content'')"
| "status_line S_PartialContent = (206, ''Partial Content'')"
| "status_line S_BadRequest = (400, ''Bad Request'')"
| "status_line S_Unauthorized = (401, ''Unauthorized'')"
| "status_line S_NotFound = (404, ''Not Found'')"
| "status_line S_MethodNotAllowed = (405, ''Method Not Allowed'')"
| "status_line S_LengthRequired = (411, ''Length Required'')"
| "status_line S_ContentTooLarge = (413, ''Content Too Large'')"
| "status_line S_RangeNotSatisfiable = (416, ''Range Not Satisfiable'')"
| "status_line S_ServerError = (500, ''Internal Server Error'')"
| "status_line S_NotImplemented = (501, ''Not Implemented'')"

definition code :: "status \<Rightarrow> u16" where "code s = fst (status_line s)"
definition reason :: "status \<Rightarrow> string" where "reason s = snd (status_line s)"

text \<open>A head under construction: the text so far, without the blank line.\<close>

record head =
  hd_text :: string

definition head_new :: "status \<Rightarrow> keep_alive \<Rightarrow> head" where
  "head_new status keep =
     \<lparr>hd_text =
        ''HTTP/1.1 '' @ show_nat (unat (code status)) @ '' '' @ reason status @ crlf @
        ''Server: '' @ SERVER @ crlf @
        ''Connection: '' @ (case keep of Keep \<Rightarrow> ''keep-alive'' | Close \<Rightarrow> ''close'') @ crlf\<rparr>"

definition head_header :: "head \<Rightarrow> string \<Rightarrow> string \<Rightarrow> head" where
  "head_header h name value = h\<lparr>hd_text := hd_text h @ name @ '': '' @ value @ crlf\<rparr>"

definition head_length :: "head \<Rightarrow> u64 \<Rightarrow> head" where
  "head_length h bytes = head_header h ''Content-Length'' (show_u64 bytes)"

definition head_finish :: "head \<Rightarrow> string" where
  "head_finish h = hd_text h @ crlf"

definition with_body :: "head \<Rightarrow> string \<Rightarrow> string" where
  "with_body h body = head_finish (head_length h (u64_from_usize (length body))) @ body"

definition bare :: "status \<Rightarrow> keep_alive \<Rightarrow> u64 \<Rightarrow> string" where
  "bare status keep len = head_finish (head_length (head_new status keep) len)"

section \<open>Heads under construction are lines\<close>

text \<open>The invariant of the builder: non-empty ASCII lines, each ended by its CRLF.\<close>

definition head_wf :: "head \<Rightarrow> bool" where
  "head_wf h \<longleftrightarrow> (\<exists>ls. ls \<noteq> [] \<and> list_all plain_line ls \<and> hd_text h = crlf_lines ls)"

definition head_of_lines :: "string list \<Rightarrow> head" where
  "head_of_lines ls = \<lparr>hd_text = crlf_lines ls\<rparr>"

definition status_lines :: "status \<Rightarrow> keep_alive \<Rightarrow> string list" where
  "status_lines status keep =
     [''HTTP/1.1 '' @ show_nat (unat (code status)) @ '' '' @ reason status,
      ''Server: '' @ SERVER,
      ''Connection: '' @ (case keep of Keep \<Rightarrow> ''keep-alive'' | Close \<Rightarrow> ''close'')]"

lemma head_new_lines: "head_new status keep = head_of_lines (status_lines status keep)"
  by (simp add: head_new_def head_of_lines_def status_lines_def)

lemma head_header_lines: "head_header (head_of_lines ls) n v = head_of_lines (ls @ [n @ '': '' @ v])"
  by (simp add: head_header_def head_of_lines_def)

lemma head_finish_lines: "head_finish (head_of_lines ls) = head_text ls"
  by (simp add: head_finish_def head_of_lines_def head_text_def)

lemma show_nat_plain: "cr \<notin> set (show_nat n)" "ascii (show_nat n)"
  using show_nat_digits [of _ n] by (fastforce simp: is_digit_def ascii_def)+

lemma show_u64_plain: "cr \<notin> set (show_u64 n)" "ascii (show_u64 n)"
  by (simp_all add: show_u64_def show_nat_plain)

lemma ascii_simps [simp]:
  "ascii []" "ascii (c # cs) \<longleftrightarrow> (of_char c :: nat) < 128 \<and> ascii cs"
  "ascii (as @ bs) \<longleftrightarrow> ascii as \<and> ascii bs"
  by (auto simp: ascii_def)

lemma reason_plain: "cr \<notin> set (reason s)" "ascii (reason s)"
  by (cases s; simp add: reason_def)+

lemma status_lines_plain: "list_all plain_line (status_lines status keep)"
  by (cases keep) (simp_all add: status_lines_def plain_line_def SERVER_def show_nat_plain reason_plain)

lemma head_wf_new [wf_intros]: "head_wf (head_new status keep)"
  unfolding head_wf_def head_new_lines
  using status_lines_plain by (intro exI [of _ "status_lines status keep"])
    (simp add: head_of_lines_def status_lines_def)

lemma head_wf_iff: "head_wf h \<longleftrightarrow> (\<exists>ls. ls \<noteq> [] \<and> list_all plain_line ls \<and> h = head_of_lines ls)"
  by (cases h) (auto simp: head_wf_def head_of_lines_def)

lemma head_wf_header [wf_intros]:
  "head_wf h \<Longrightarrow> cr \<notin> set n \<Longrightarrow> ascii n \<Longrightarrow> cr \<notin> set v \<Longrightarrow> ascii v \<Longrightarrow> head_wf (head_header h n v)"
  unfolding head_wf_iff
  by (elim exE conjE, rule_tac x = "ls @ [n @ '': '' @ v]" in exI)
    (auto simp: head_header_lines plain_line_def)

lemma head_wf_length [wf_intros]: "head_wf h \<Longrightarrow> head_wf (head_length h n)"
  unfolding head_length_def by (rule head_wf_header) (simp_all add: show_u64_plain)

lemma head_len_finish: "head_wf h \<Longrightarrow> head_len (head_finish h @ body) = Some (length (head_finish h))"
  by (auto simp: head_wf_iff head_finish_lines head_len_head_text)

lemma bare_split:
  "head_len (bare status keep n @ rest) = Some (length (bare status keep n))"
  unfolding bare_def by (intro head_len_finish wf_intros)

text \<open>A complete response, as the client splits it.\<close>

lemma with_body_split:
  assumes "head_wf h" "length body < 2 ^ 64"
  defines "h0 \<equiv> head_finish (head_length h (u64_from_usize (length body)))"
  shows "head_len (with_body h body) = Some (length h0)"
    and "drop (length h0) (with_body h body) = body"
    and "h0 = hd_text h @ ''Content-Length: '' @ show_nat (length body) @ crlf @ crlf"
proof -
  have body: "with_body h body = h0 @ body" by (simp add: h0_def with_body_def)
  show "head_len (with_body h body) = Some (length h0)"
    unfolding body unfolding h0_def by (intro head_len_finish wf_intros assms)
  show "drop (length h0) (with_body h body) = body" by (simp add: body)
  show "h0 = hd_text h @ ''Content-Length: '' @ show_nat (length body) @ crlf @ crlf"
    using assms(2) by (simp add: h0_def head_finish_def head_length_def head_header_def show_u64_def
        unat_u64_from_usize)
qed

lemma status_code_inject: "code s = code t \<longleftrightarrow> s = t"
  by (cases s; cases t) (simp_all add: code_def)

end
