(* ===== verification/Route.thy ===== *)
theory Route
  imports Narurl Narinfo
begin

text \<open>
  The request target (\<open>crates/bincache-serve/src/route.rs\<close>): decoded into a typed route, or
  refused, before anything downstream runs.
\<close>

definition CACHE_INFO :: string where "CACHE_INFO = ''/nix-cache-info''"
definition METRICS :: string where "METRICS = ''/metrics''"

datatype route =
    R_CacheInfo
  | R_Metrics
  | R_Narinfo sp_hash
  | R_Nar narurl

datatype route_error =
    RE_Relative string
  | RE_Unknown string
  | RE_Key sp_error
  | RE_Nar narurl_error

definition trim_slashes :: "string \<Rightarrow> string" where
  "trim_slashes s = dropWhile (\<lambda>c. c = slash) s"

definition route_path :: "string \<Rightarrow> string" where
  "route_path target = hd (split_on (\<lambda>c. c = CHR ''?'' \<or> c = CHR ''#'') target)"

definition route_resolve :: "'h ext \<Rightarrow> string \<Rightarrow> route_error + route" where
  "route_resolve X target =
     and_then (or_err (RE_Relative target) (strip_prefix [slash] (route_path target))) (\<lambda>path.
     if path = trim_slashes CACHE_INFO then Inr R_CacheInfo
     else if path = trim_slashes METRICS then Inr R_Metrics
     else case strip_prefix PREFIX path of
       Some name \<Rightarrow> and_then (ctx RE_Nar (narurl_parse X name)) (\<lambda>url. Inr (R_Nar url))
     | None \<Rightarrow>
        (case strip_suffix NARINFO_SUFFIX path of
           Some key \<Rightarrow> and_then (ctx RE_Key (hash_parse key)) (\<lambda>hash. Inr (R_Narinfo hash))
         | None \<Rightarrow> Inl (RE_Unknown target)))"

section \<open>The path is the target up to the query\<close>

definition query :: "string \<Rightarrow> bool" where
  "query q \<longleftrightarrow> q = [] \<or> hd q = CHR ''?'' \<or> hd q = CHR ''#''"

lemma route_path_query:
  assumes "CHR ''?'' \<notin> set p" "CHR ''#'' \<notin> set p" "query q"
  shows "route_path (p @ q) = p"
proof -
  let ?f = "\<lambda>c. c = CHR ''?'' \<or> c = CHR ''#''"
  have p: "\<not> ?f c" if "c \<in> set p" for c using assms(1,2) that by metis
  show ?thesis
  proof (cases q)
    case Nil
    then show ?thesis using split_on_notin [of p ?f, OF p] by (simp only: route_path_def append_Nil2 list.sel)
  next
    case (Cons c cs)
    then have c: "?f c" using assms(3) by (simp add: query_def)
    have "split_on ?f (p @ c # cs) = p # split_on ?f cs"
      by (rule split_on_append [where f = ?f]) (fact p, fact c)
    then show ?thesis by (simp only: Cons route_path_def list.sel)
  qed
qed

lemma trim_slashes_consts [simp]: "trim_slashes CACHE_INFO = ''nix-cache-info''" "trim_slashes METRICS = ''metrics''"
  by (simp_all add: trim_slashes_def CACHE_INFO_def METRICS_def)

lemma route_resolve_path:
  assumes "CHR ''?'' \<notin> set p" "CHR ''#'' \<notin> set p" "query q"
  shows "route_resolve X (slash # p @ q) =
     (if p = ''nix-cache-info'' then Inr R_CacheInfo
      else if p = ''metrics'' then Inr R_Metrics
      else case strip_prefix PREFIX p of
        Some name \<Rightarrow> and_then (ctx RE_Nar (narurl_parse X name)) (\<lambda>url. Inr (R_Nar url))
      | None \<Rightarrow>
         (case strip_suffix NARINFO_SUFFIX p of
            Some key \<Rightarrow> and_then (ctx RE_Key (hash_parse key)) (\<lambda>hash. Inr (R_Narinfo hash))
          | None \<Rightarrow> Inl (RE_Unknown (slash # p @ q))))"
proof -
  have "route_path ((slash # p) @ q) = slash # p" using assms by (intro route_path_query) auto
  then show ?thesis by (simp add: route_resolve_def)
qed

lemma nar_name_no_query: "CHR ''?'' \<notin> set (nar_name u)" "CHR ''#'' \<notin> set (nar_name u)"
proof -
  have "c \<noteq> CHR ''?'' \<and> c \<noteq> CHR ''#''" if "c \<in> set (nar_name u)" for c
    using nar_name_chars [OF that]
  proof
    assume "plain c" from plain_neq [OF this] show ?thesis by (intro conjI; elim conjE)
  next
    assume "c = CHR ''.''" then show ?thesis by (simp only:) simp
  qed
  then show "CHR ''?'' \<notin> set (nar_name u)" "CHR ''#'' \<notin> set (nar_name u)" by blast+
qed

text \<open>The URL a record names is the URL that the route decodes to that NAR.\<close>

lemma route_resolve_nar:
  assumes "narurl_ok u" "query q"
  shows "route_resolve X (slash # nar_url u @ q) = Inr (R_Nar u)"
proof -
  have "CHR ''?'' \<notin> set (nar_url u)" "CHR ''#'' \<notin> set (nar_url u)"
    using nar_name_no_query by (auto simp: nar_url_def PREFIX_def)
  moreover have "nar_url u \<noteq> ''nix-cache-info''" "nar_url u \<noteq> ''metrics''"
    by (simp_all add: nar_url_def PREFIX_def)
  ultimately show ?thesis using assms
    by (simp add: route_resolve_path) (simp add: nar_url_def narurl_parse_name)
qed

lemma hash_display_plain: "c \<in> set (hash_display h) \<Longrightarrow> plain c"
  by (simp add: hash_display_def encode_plain)

lemma strip_prefix_nar_plain:
  assumes "slash \<notin> set p"
  shows "strip_prefix PREFIX p = None"
  using assms by (auto simp: strip_prefix_eq_None PREFIX_def)

lemma hash_key_chars:
  assumes "c \<in> set (hash_display h @ NARINFO_SUFFIX)"
  shows "c \<noteq> slash \<and> c \<noteq> CHR ''?'' \<and> c \<noteq> CHR ''#''"
proof (cases "c \<in> set (hash_display h)")
  case True
  from plain_neq [OF hash_display_plain [OF this]] show ?thesis by (intro conjI; elim conjE)
next
  case False
  with assms have "c \<in> set ''.narinfo''" by (simp add: NARINFO_SUFFIX_def)
  moreover have "slash \<notin> set ''.narinfo''" "CHR ''?'' \<notin> set ''.narinfo''" "CHR ''#'' \<notin> set ''.narinfo''"
    by simp_all
  ultimately show ?thesis by metis
qed

lemma route_resolve_narinfo:
  assumes "hash_ok h" "query q"
  shows "route_resolve X (slash # hash_display h @ NARINFO_SUFFIX @ q) = Inr (R_Narinfo h)"
proof -
  let ?p = "hash_display h @ NARINFO_SUFFIX"
  have chars: "CHR ''?'' \<notin> set ?p" "CHR ''#'' \<notin> set ?p" "strip_prefix PREFIX ?p = None"
    using hash_key_chars [of _ h] by (blast, blast, intro strip_prefix_nar_plain) blast
  have "length ?p = 40" using assms(1) by (simp add: NARINFO_SUFFIX_def)
  then have "?p \<noteq> ''nix-cache-info''" "?p \<noteq> ''metrics''"
    by (intro notI; simp)+
  with chars assms show ?thesis
    using route_resolve_path [of ?p q X] by (simp add: sp_hash_codec.parse_print del: append_Cons)
qed

text \<open>Every key that leaves the router is well formed, and a narinfo target is the one spelling of its key.\<close>

lemma route_resolve_ok:
  assumes "route_resolve X t = Inr r"
  shows "case r of R_Nar u \<Rightarrow> narurl_ok u
    | R_Narinfo h \<Rightarrow> hash_ok h \<and> route_path t = slash # hash_display h @ NARINFO_SUFFIX
    | _ \<Rightarrow> True"
  using assms
  by (auto simp: route_resolve_def result_iffs strip_prefix_eq_Some strip_suffix_eq_Some
      sp_hash_codec.parse_eq_iff split: if_splits option.splits dest: narurl_parse_ok)

end
