(* ===== verification/HttpSpec.thy ===== *)
theory HttpSpec
  imports CoreSpec Range Response Route
begin

text \<open>
  The properties of the protocol front end: request heads and their framing, byte ranges,
  responses and routes.
\<close>

section \<open>Request heads\<close>

text \<open>
  The measured head is the first complete one, and it is stable: it ends with the first
  blank line of the buffer, and no bytes that arrive later move its end.
\<close>

lemma head_len_first_and_stable:
  assumes "head_len s = Some n"
  shows "head_len (s @ t) = Some n \<and> n \<le> length s \<and> drop (n - 4) (take n s) = crlf @ crlf \<and>
    (\<forall>m. take 4 (drop m s) = crlf @ crlf \<longrightarrow> n \<le> m + 4)"
proof -
  note at = head_len_Some [OF assms]
  have "drop (n - 4) (take n s) = take 4 (drop (n - 4) s)"
    using at(1) by (simp add: drop_take)
  then show ?thesis
    using at head_len_append [OF assms] by (simp add: HEAD_END_def)
qed

lemma head_len_first_and_stable_witness:
  "head_len (''GET / HTTP/1.1'' @ crlf @ crlf @ ''abc'' @ crlf @ crlf) = Some 18"
proof -
  have "head_len (''GET / HTTP/1.1'' @ crlf @ crlf) = Some 18"
    by (simp add: head_len_def HEAD_END_def)
  from head_len_first_and_stable [OF this, of "''abc'' @ crlf @ crlf"] show ?thesis by simp
qed

lemma join_Cons: "ps \<noteq> [] \<Longrightarrow> join sep (p # ps) = p @ sep @ join sep ps"
  by (cases ps) simp_all

lemma split_once_crlf: "split_once crlf l = None \<Longrightarrow> split_once crlf (l @ crlf @ rest) = Some (l, rest)"
proof (induction l)
  case (Cons c l)
  from Cons.prems have n: "strip_prefix crlf (c # l) = None" "split_once crlf l = None"
    by (auto split: option.splits)
  then have "strip_prefix crlf ((c # l) @ crlf @ rest) = None" by (cases l) (auto split: if_splits)
  with Cons.IH n(2) show ?case by (simp del: strip_prefix.simps)
qed simp

text \<open>Every text is the join of lines without a CRLF, and the parser works on those lines.\<close>

lemma split_crlf_join:
  "list_all (\<lambda>l. split_once crlf l = None) (l # ls) \<Longrightarrow> split_crlf (join crlf (l # ls)) = l # ls"
proof (induction ls arbitrary: l)
  case Nil
  then show ?case by (simp add: split_crlf.simps)
next
  case (Cons m ls)
  then show ?case by (subst split_crlf.simps) (simp add: split_once_crlf del: append_Cons)
qed

lemma split_once_first: "split_once p s = Some (a, b) \<Longrightarrow> p \<noteq> [] \<Longrightarrow> split_once p a = None"
proof (induction s arbitrary: a)
  case (Cons c s)
  show ?case
  proof (cases "strip_prefix p (c # s)")
    case None
    with Cons.prems(1) obtain a' where a: "split_once p s = Some (a', b)" "a = c # a'"
      by (auto split: option.splits)
    have "strip_prefix p (c # a') = None"
    proof (rule ccontr)
      assume "strip_prefix p (c # a') \<noteq> None"
      then obtain t where "c # a' = p @ t" by (auto simp: strip_prefix_eq_Some)
      then have "c # s = p @ t @ p @ b" using split_once_SomeD [OF a(1)] by simp
      with None show False using strip_prefix_eq_Some [of p "c # s"] by fastforce
    qed
    with a Cons.IH [OF a(1) Cons.prems(2)] show ?thesis by (simp del: strip_prefix.simps)
  next
    case (Some r)
    with Cons.prems show ?thesis by (cases p) auto
  qed
next
  case Nil
  then show ?case by (cases p) auto
qed

lemma every_text_is_lines: "\<exists>l ls. s = join crlf (l # ls) \<and> list_all (\<lambda>l. split_once crlf l = None) (l # ls)"
proof (induction s rule: split_crlf.induct)
  case (1 s)
  show ?case
  proof (cases "split_once crlf s")
    case None
    then show ?thesis by (intro exI [of _ s] exI [of _ "[]"]) simp
  next
    case (Some p)
    then obtain a b where ab: "split_once crlf s = Some (a, b)" by (cases p) auto
    from 1 [OF ab refl] obtain l ls where "b = join crlf (l # ls)" "list_all (\<lambda>l. split_once crlf l = None) (l # ls)"
      by blast
    then show ?thesis using split_once_SomeD [OF ab] split_once_first [OF ab]
      by (intro exI [of _ a] exI [of _ "l # ls"]) simp
  qed
qed

lemma http_parse_lines:
  assumes "list_all (\<lambda>l. split_once crlf l = None) (l # ls)" "http_parse (join crlf (l # ls)) = Inr r"
  obtains q where "request_line l = Inr q" "absorb_headers ls q = Inr r"
proof -
  have split: "split_crlf (join crlf (l # ls)) = l # ls" by (rule split_crlf_join [OF assms(1)])
  have blank: "absorb_headers (butlast ls) = absorb_headers ls" if "ls \<noteq> []" "last ls = []"
  proof
    fix q
    have "absorb_headers (butlast ls @ [[]]) q = absorb_headers (butlast ls) q"
      by (auto simp: absorb_headers_append and_then_def split: sum.split)
    then show "absorb_headers (butlast ls) q = absorb_headers ls q" using that append_butlast_last_id [of ls] by simp
  qed
  have "split_terminator (join crlf (l # ls)) \<noteq> []"
    using assms(2) by (auto simp: http_parse_def from_utf8_def split: if_splits)
  then have lines: "split_terminator (join crlf (l # ls)) = l # (if ls \<noteq> [] \<and> last ls = [] then butlast ls else ls)"
    unfolding split_terminator_def split Let_def by (cases "ls = []") auto
  have "and_then (request_line l) (absorb_headers ls) = Inr r"
    using assms(2) blank by (auto simp: http_parse_def from_utf8_def lines split: if_splits)
  then show thesis using that by (auto simp: and_then_eq_Inr_iff)
qed

definition header_value :: "string \<Rightarrow> string" where
  "header_value line = (case split_once [colon] line of None \<Rightarrow> [] | Some (_, value) \<Rightarrow> trim value)"

definition declared_lengths :: "string list \<Rightarrow> string list" where
  "declared_lengths ls = map header_value (filter (header_is ''content-length'') ls)"

lemma absorb_header_value:
  "header_is ''content-length'' line \<Longrightarrow> absorb_header r line = Inr r' \<Longrightarrow>
     \<exists>n. parse_u64 (header_value line) = Inr n \<and> rq_framing r' = FrameLength n"
  by (auto simp: absorb_header_def header_is_def header_value_def result_iffs Let_def split: option.splits)

lemma absorb_headers_lengths:
  "absorb_headers ls r = Inr r' \<Longrightarrow>
     (\<forall>v \<in> set (declared_lengths ls). \<exists>n. parse_u64 v = Inr n) \<and>
     (declared_lengths ls \<noteq> [] \<longrightarrow> (\<exists>n. parse_u64 (last (declared_lengths ls)) = Inr n \<and>
        rq_framing r' = FrameLength n))"
proof (induction ls arbitrary: r' rule: rev_induct)
  case (snoc l ls)
  then obtain q where q: "absorb_headers ls r = Inr q" "absorb_headers [l] q = Inr r'"
    by (auto simp: absorb_headers_append and_then_eq_Inr_iff)
  note ih = snoc.IH [OF q(1)]
  show ?case
  proof (cases "header_is ''content-length'' l")
    case True
    then have "l \<noteq> []" by auto
    then have "absorb_header q l = Inr r'" using q(2) by (cases "absorb_header q l") auto
    then obtain n where n: "parse_u64 (header_value l) = Inr n" "rq_framing r' = FrameLength n"
      using absorb_header_value [OF True] by blast
    have "declared_lengths (ls @ [l]) = declared_lengths ls @ [header_value l]" using True by (simp add: declared_lengths_def)
    then show ?thesis using n ih by auto
  next
    case False
    then have same: "declared_lengths (ls @ [l]) = declared_lengths ls" by (simp add: declared_lengths_def)
    have "rq_framing r' = rq_framing q" if "declared_lengths ls \<noteq> []"
    proof -
      obtain n where n: "rq_framing q = FrameLength n" using ih \<open>declared_lengths ls \<noteq> []\<close> by blast
      show ?thesis
      proof (cases "l = []")
        case True
        then show ?thesis using q(2) by simp
      next
        case ne: False
        then have "absorb_header q l = Inr r'" using q(2) by (cases "absorb_header q l") auto
        then show ?thesis using absorb_header_chunked [of l q r'] absorb_header_other [OF False, of q r'] n by auto
      qed
    qed
    then show ?thesis using ih same by auto
  qed
qed (simp add: declared_lengths_def)

text \<open>The value of a header that spells a length: digits, after at most one plus sign.\<close>

definition length_digits :: "string \<Rightarrow> string" where
  "length_digits v = (case v of c # cs \<Rightarrow> if c = CHR ''+'' then cs else v | [] \<Rightarrow> [])"

definition is_decimal :: "string \<Rightarrow> bool" where
  "is_decimal v \<longleftrightarrow> length_digits v \<noteq> [] \<and> list_all is_digit (length_digits v)"

definition decimal :: "string \<Rightarrow> nat" where
  "decimal v = fold (\<lambda>c n. n * 10 + digit_val c) (length_digits v) 0"

lemma parse_u64_decimal:
  assumes "parse_u64 v = Inr n"
  shows "is_decimal v \<and> unat n = decimal v"
proof -
  from assms obtain c cs where v: "v = c # cs" "v \<noteq> ''+''" "parse_digits 0 (if c = CHR ''+'' then cs else v) = Inr n"
    by (cases v) (auto simp: parse_u64_def split: if_splits)
  have "length_digits v = (if c = CHR ''+'' then cs else v)" by (simp add: length_digits_def v(1))
  then show ?thesis
    using parse_digits_value [OF v(3)] v(1,2) by (auto simp: is_decimal_def decimal_def list_all_iff)
qed

text \<open>
  C19. The framing of an accepted head is decided by its headers alone, for every head that is
  accepted: whatever the lines that its CRLFs separate, the body is chunked when one of them is a
  \<open>Transfer-Encoding\<close>, otherwise as long as the last \<open>Content-Length\<close> says, otherwise empty. Every
  \<open>Content-Length\<close> is a decimal below \<open>2 ^ 64\<close>, and there is none beside a \<open>Transfer-Encoding\<close>: a head
  with both is never accepted, in whichever order they stand.
\<close>

theorem http_framing_decided:
  assumes "list_all (\<lambda>x. split_once crlf x = None) (l # ls)"
    and "http_parse (join crlf (l # ls)) = Inr r"
  shows "(let lengths = map header_value (filter (header_is ''content-length'') ls) in
    rq_framing r =
      (if list_ex (header_is ''transfer-encoding'') ls then FrameChunked
       else if lengths = [] then FrameEmpty
       else FrameLength (of_nat (decimal (last lengths)))) \<and>
    (list_ex (header_is ''transfer-encoding'') ls \<longrightarrow> lengths = []) \<and>
    list_all (\<lambda>v. is_decimal v \<and> decimal v < 2 ^ 64) lengths)"
proof -
  let ?lengths = "map header_value (filter (header_is ''content-length'') ls)"
  obtain q where q: "request_line l = Inr q" "absorb_headers ls q = Inr r"
    by (rule http_parse_lines [OF assms])
  have empty: "rq_framing q = FrameEmpty"
    using q(1) by (auto simp: request_line_def result_iffs split: list.splits)
  note val = absorb_headers_lengths [OF q(2), unfolded declared_lengths_def]
  have dec: "is_decimal v \<and> decimal v < 2 ^ 64" if "v \<in> set ?lengths" for v
  proof -
    from bspec [OF conjunct1 [OF val] that] obtain n where n: "parse_u64 v = Inr n" by (elim exE)
    then have d: "is_decimal v" "unat n = decimal v" using parse_u64_decimal by blast+
    show ?thesis using d(1) unat_less64 [of n, unfolded d(2)] by (rule conjI)
  qed
  have tag: "framing_tag (rq_framing r) = (list_ex (header_is ''content-length'') ls, list_ex (header_is ''transfer-encoding'') ls)"
    using absorb_headers_tag [OF q(2)] empty by (simp add: framing_tag_def)
  have none: "?lengths = [] \<longleftrightarrow> \<not> list_ex (header_is ''content-length'') ls"
    by (auto simp: filter_empty_conv list_ex_iff)
  have given: "rq_framing r = FrameLength (of_nat (decimal (last ?lengths)))" if "?lengths \<noteq> []"
  proof -
    from mp [OF conjunct2 [OF val] that] obtain n
      where n: "parse_u64 (last ?lengths) = Inr n" "rq_framing r = FrameLength n" by (elim exE conjE)
    have "n = of_nat (unat n)" by simp
    then show ?thesis using parse_u64_decimal [OF n(1)] n(2) by simp
  qed
  show ?thesis
  proof (cases "rq_framing r")
    case FrameEmpty
    then show ?thesis using tag none by (simp add: framing_tag_def)
  next
    case (FrameLength n)
    then have "?lengths \<noteq> []" "\<not> list_ex (header_is ''transfer-encoding'') ls"
      using tag none by (simp_all add: framing_tag_def)
    then show ?thesis using given dec by (simp add: list_all_iff Let_def del: map_is_Nil_conv)
  next
    case FrameChunked
    then show ?thesis using tag none by (simp add: framing_tag_def)
  qed
qed

theorem http_framing_decided_witness:
  "\<exists>r. http_parse (head_text [''PUT /x HTTP/1.1'', ''Content-Length: 7'']) = Inr r \<and> rq_framing r = FrameLength 7"
proof -
  let ?ls = "[''PUT /x HTTP/1.1'', ''Content-Length: 7'']"
  have plain: "list_all plain_line ?ls" by (simp add: plain_line_def ascii_def)
  have "char_of 55 = CHR ''7''" by (simp add: char_of_eq_iff)
  then have "show_u64 7 = ''7''" by (simp add: show_u64_def show_nat.simps digit_char_def)
  then have seven: "trim '' 7'' = show_u64 7"
    by (simp add: trim_def trim_start_space trim_start_visible trim_end_visible visible_def)
  have "\<exists>r. http_parse (head_text ?ls) = Inr r"
    using http_parse_head [of "''PUT /x HTTP/1.1''" "[''Content-Length: 7'']"] plain
    by (simp add: plain_line_def request_line_def method_from_str_def absorb_header_def seven parse_show_u64
        eq_ignore_ascii_case_def ascii_lower_def char_of_eq_iff)
  then obtain r where r: "http_parse (head_text ?ls) = Inr r" by blast
  have head: "head_text ?ls = join crlf (''PUT /x HTTP/1.1'' # [''Content-Length: 7'', [], []])" by (simp add: head_text_def)
  have lines: "list_all (\<lambda>x. split_once crlf x = None) (''PUT /x HTTP/1.1'' # [''Content-Length: 7'', [], []])" by simp
  have te: "\<not> list_ex (header_is ''transfer-encoding'') [''Content-Length: 7'', [], []]" by code_simp
  have len: "map header_value (filter (header_is ''content-length'') [''Content-Length: 7'', [], []]) = [''7'']" by code_simp
  have seven: "decimal ''7'' = 7" by code_simp
  from http_framing_decided [OF lines r [unfolded head]] have "rq_framing r = FrameLength 7"
    unfolding Let_def len using te by (simp add: seven)
  then show ?thesis using r by blast
qed

text \<open>
  Two \<open>Content-Length\<close> headers that disagree are accepted, and the later one is the
  length of the body.
\<close>

lemma later_content_length_wins:
  "absorb_headers [''Content-Length: '' @ show_u64 a, ''Content-Length: '' @ show_u64 b]
     (r\<lparr>rq_framing := FrameEmpty\<rparr>) = Inr (r\<lparr>rq_framing := FrameLength b\<rparr>)"
proof -
  have vis: "visible c" if "c \<in> set (show_u64 n)" for c n
    using that show_nat_digits [of c "unat n"] by (auto simp: show_u64_def is_digit_def visible_def)
  have ne: "show_u64 n \<noteq> []" for n by (simp add: show_u64_def)
  have "trim (CHR '' '' # show_u64 n) = show_u64 n" for n
    using vis [of _ n] ne [of n] by (simp add: trim_def trim_start_space trim_start_visible trim_end_visible)
  then have "absorb_header q (''Content-Length: '' @ show_u64 n) = Inr (q\<lparr>rq_framing := FrameLength n\<rparr>)"
    if "rq_framing q \<noteq> FrameChunked" for q n
    using that by (simp add: absorb_header_def eq_ignore_ascii_case_def ascii_lower_def parse_show_u64
        char_of_eq_iff)
  then show ?thesis by simp
qed

section \<open>Byte ranges\<close>

text \<open>
  C29. A range that is granted lies inside the artifact and is not empty, its length does not
  wrap, and it is never longer than the artifact: offsets and lengths computed from it stay
  in bounds, for every header text and every artifact of at least one byte.
\<close>

theorem range_inside:
  assumes "range_resolve h len = Partial s" "len \<noteq> 0"
  shows "first s \<le> last_byte s \<and> last_byte s < len \<and>
    unat (span_len s) = unat (last_byte s) - unat (first s) + 1 \<and>
    unat (first s) + unat (span_len s) \<le> unat len"
proof -
  have s: "span_in s len" by (rule range_resolve_in [OF assms])
  then have "unat (first s) \<le> unat (last_byte s)" "unat (last_byte s) < unat len"
    by (simp_all add: span_in_def word_le_nat_alt word_less_nat_alt)
  then show ?thesis using s unat_span_len [OF s] by (simp add: span_in_def)
qed

theorem range_inside_witness:
  "unat (span_len \<lparr>first = 90, last_byte = 99\<rparr>) = 10"
proof -
  have "range_resolve (Some (''bytes='' @ show_u64 90 @ [dash])) 100 = Partial \<lparr>first = 90, last_byte = 99\<rparr>"
    by (subst range_resolve_open) simp
  from range_inside [OF this] show ?thesis by simp
qed

text \<open>
  The three forms of a single range mean what they say: \<open>N-\<close> is the rest from \<open>N\<close> on,
  \<open>N-M\<close> is clamped to the end and refused when it is empty or starts past the end, and \<open>-N\<close> is the
  last \<open>N\<close> bytes, the whole artifact when it is shorter.
\<close>

lemma range_forms:
  "range_resolve (Some (''bytes='' @ show_u64 n @ [dash])) len =
     (if len \<le> n then Unsatisfiable else Partial \<lparr>first = n, last_byte = len - 1\<rparr>) \<and>
   range_resolve (Some (''bytes='' @ show_u64 n @ [dash] @ show_u64 m)) len =
     (if len \<le> n \<or> m < n then Unsatisfiable else Partial \<lparr>first = n, last_byte = min m (len - 1)\<rparr>) \<and>
   range_resolve (Some (''bytes='' @ [dash] @ show_u64 n)) len =
     (if n = 0 then Unsatisfiable
      else Partial \<lparr>first = (if n \<le> len then len - n else 0), last_byte = len - 1\<rparr>)"
  by (intro conjI range_resolve_open range_resolve_closed range_resolve_suffix)

section \<open>Responses\<close>

text \<open>
  A client that splits a response at the first blank line gets the head the server built
  and the body it attached, and the head's \<open>Content-Length\<close> is the length of that body.
\<close>

lemma response_framed:
  assumes "head_wf h" "length body < 2 ^ 64"
  shows "\<exists>n. head_len (with_body h body) = Some n \<and> drop n (with_body h body) = body \<and>
    take n (with_body h body) =
      hd_text h @ ''Content-Length: '' @ show_nat (length body) @ crlf @ crlf"
proof -
  note split = with_body_split [OF assms]
  let ?top = "head_finish (head_length h (u64_from_usize (length body)))"
  have "with_body h body = ?top @ body" by (simp add: with_body_def)
  then have "take (length ?top) (with_body h body) = ?top" by simp
  with split show ?thesis by metis
qed

lemma response_framed_witness:
  "\<exists>n. head_len (with_body (head_new S_Ok Keep) ''hello'') = Some n \<and>
    drop n (with_body (head_new S_Ok Keep) ''hello'') = ''hello''"
  using response_framed [OF head_wf_new [of S_Ok Keep], of "''hello''"] by auto

section \<open>Routes\<close>

text \<open>
  C32. The router inverts the URLs the server hands out: the URL line of a record and the
  narinfo path of a store path hash resolve to that artifact and that key, with any query or
  fragment after them.
\<close>

theorem route_inverts_urls:
  assumes "query q"
  shows "(narurl_ok u \<longrightarrow> route_resolve X ([slash] @ nar_url u @ q) = Inr (R_Nar u)) \<and>
    (hash_ok h \<longrightarrow> route_resolve X ([slash] @ hash_display h @ NARINFO_SUFFIX @ q) = Inr (R_Narinfo h))"
  using assms by (simp add: route_resolve_nar route_resolve_narinfo)

theorem route_inverts_urls_witness:
  "route_resolve sample ([slash] @ hash_display (SpHash (replicate 20 3)) @ NARINFO_SUFFIX @ ''?x=1'')
     = Inr (R_Narinfo (SpHash (replicate 20 3)))"
  using route_inverts_urls [of "''?x=1''" sample_url sample "SpHash (replicate 20 3)"]
  by (simp add: query_def hash_ok_def)

text \<open>
  A key that leaves the router is well formed, and a narinfo target is the only path that
  reaches its key: two targets that resolve to the same narinfo have the same path.
\<close>

lemma route_keys_sound:
  assumes "route_resolve X t = Inr r"
  shows "case r of R_Nar u \<Rightarrow> narurl_ok u
    | R_Narinfo h \<Rightarrow> hash_ok h \<and> route_path t = [slash] @ hash_display h @ NARINFO_SUFFIX
    | _ \<Rightarrow> True"
  using route_resolve_ok [OF assms] by (cases r) simp_all

lemma route_keys_sound_witness:
  "route_path ([slash] @ hash_display (SpHash (replicate 20 3)) @ NARINFO_SUFFIX @ ''#top'') =
     [slash] @ hash_display (SpHash (replicate 20 3)) @ NARINFO_SUFFIX"
proof -
  have "route_resolve sample ([slash] @ hash_display (SpHash (replicate 20 3)) @ NARINFO_SUFFIX @ ''#top'') =
     Inr (R_Narinfo (SpHash (replicate 20 3)))"
    using route_resolve_narinfo [of "SpHash (replicate 20 3)" "''#top''" sample]
    by (simp add: hash_ok_def query_def)
  from route_keys_sound [OF this] show ?thesis by simp
qed

end
