(* ===== verification/Cacheinfo.thy ===== *)
theory Cacheinfo
  imports Storepath
begin

text \<open>\<open>nix-cache-info\<close> (\<open>crates/bincache-core/src/cacheinfo.rs\<close>): the three lines a client reads first.\<close>

datatype mass_query = Wanted | Unwanted

fun mq_digit :: "mass_query \<Rightarrow> string" where
  "mq_digit Wanted = ''1''"
| "mq_digit Unwanted = ''0''"

datatype priority = Priority (prio: u32)

record cache_info =
  ci_store_dir :: dir
  ci_mass_query :: mass_query
  ci_priority :: priority

definition cacheinfo_render :: "cache_info \<Rightarrow> string" where
  "cacheinfo_render i =
     ''StoreDir: '' @ dir_str (ci_store_dir i) @ [nl] @
     ''WantMassQuery: '' @ mq_digit (ci_mass_query i) @ [nl] @
     ''Priority: '' @ show_u32 (prio (ci_priority i)) @ [nl]"

text \<open>The derived order of \<open>Priority\<close>: the lower number wins on the client's side.\<close>

instantiation priority :: linorder
begin

definition less_eq_priority :: "priority \<Rightarrow> priority \<Rightarrow> bool" where
  "less_eq_priority a b \<longleftrightarrow> prio a \<le> prio b"

definition less_priority :: "priority \<Rightarrow> priority \<Rightarrow> bool" where
  "less_priority a b \<longleftrightarrow> prio a < prio b"

instance
  by intro_classes (auto simp: less_eq_priority_def less_priority_def priority.expand)

end

lemma show_nat_line_ok [simp]: "nl \<notin> set (show_nat n)" "cr \<notin> set (show_nat n)"
  using show_nat_digits [of nl n] show_nat_digits [of cr n] by (auto simp: is_digit_def)

lemma cacheinfo_lines:
  assumes "nl \<notin> set (dir_str (ci_store_dir i))" "cr \<notin> set (dir_str (ci_store_dir i))"
  shows "lines (cacheinfo_render i) =
    [''StoreDir: '' @ dir_str (ci_store_dir i), ''WantMassQuery: '' @ mq_digit (ci_mass_query i),
     ''Priority: '' @ show_u32 (prio (ci_priority i))]"
proof -
  let ?ls = "[''StoreDir: '' @ dir_str (ci_store_dir i), ''WantMassQuery: '' @ mq_digit (ci_mass_query i),
     ''Priority: '' @ show_u32 (prio (ci_priority i))]"
  have "cacheinfo_render i = unlines ?ls" by (simp add: cacheinfo_render_def)
  moreover have "list_all line_ok ?ls"
    using assms
    by (cases "ci_mass_query i") (auto simp: show_u32_def intro!: line_ok_plain)
  ultimately show ?thesis by (simp only: lines_unlines)
qed

end
