(* ===== verification/Effects.thy ===== *)
theory Effects
  imports Prelude
begin

text \<open>
  Effectful code by explicit state passing: an operation takes the state it works on and
  returns its result and the new state, on the error path as well, since a failed call may
  have changed something. \<open>io_then\<close> is the \<open>?\<close> operator between two such operations.
\<close>

type_synonym ('s, 'e, 'a) io = "'s \<Rightarrow> ('e + 'a) \<times> 's"

definition io_return :: "'a \<Rightarrow> ('s, 'e, 'a) io" where
  "io_return a = (\<lambda>s. (Inr a, s))"

definition io_lift :: "'e + 'a \<Rightarrow> ('s, 'e, 'a) io" where
  "io_lift r = (\<lambda>s. (r, s))"

definition io_then :: "('s, 'e, 'a) io \<Rightarrow> ('a \<Rightarrow> ('s, 'e, 'b) io) \<Rightarrow> ('s, 'e, 'b) io" where
  "io_then m f = (\<lambda>s. case m s of (Inl e, s') \<Rightarrow> (Inl e, s') | (Inr a, s') \<Rightarrow> f a s')"

definition io_ctx :: "('e \<Rightarrow> 'f) \<Rightarrow> ('s, 'e, 'a) io \<Rightarrow> ('s, 'f, 'a) io" where
  "io_ctx w m = (\<lambda>s. case m s of (r, s') \<Rightarrow> (ctx w r, s'))"

text \<open>A \<open>for\<close> loop whose body may return early.\<close>

fun io_each :: "('x \<Rightarrow> ('s, 'e, unit) io) \<Rightarrow> 'x list \<Rightarrow> ('s, 'e, unit) io" where
  "io_each f [] = io_return ()"
| "io_each f (x # xs) = io_then (f x) (\<lambda>_. io_each f xs)"

lemma io_eqs [simp]:
  "io_return a s = (r, s') \<longleftrightarrow> r = Inr a \<and> s' = s"
  "io_lift q s = (r, s') \<longleftrightarrow> q = r \<and> s' = s"
  by (auto simp: io_return_def io_lift_def)

lemmas io_run = io_return_def io_lift_def io_then_def io_ctx_def

lemma io_then_simps [simp]:
  "io_then (io_return a) f = f a"
  "io_then (io_lift (Inr a)) f = f a"
  "io_then (io_lift (Inl e)) f = io_lift (Inl e)"
  by (simp_all add: fun_eq_iff io_then_def io_return_def io_lift_def)

lemma io_thenE:
  assumes "io_then m f s = (r, s')"
  obtains e where "m s = (Inl e, s')" "r = Inl e"
  | a t where "m s = (Inr a, t)" "f a t = (r, s')"
  using assms by (auto simp: io_then_def split: prod.splits sum.splits)

lemma io_then_InrE:
  assumes "io_then m f s = (Inr b, s')"
  obtains a t where "m s = (Inr a, t)" "f a t = (Inr b, s')"
  using assms by (auto elim: io_thenE)

lemma io_ctxE:
  assumes "io_ctx w m s = (r, s')"
  obtains e where "m s = (Inl e, s')" "r = Inl (w e)"
  | a where "m s = (Inr a, s')" "r = Inr a"
  using assms by (cases "m s"; cases "fst (m s)") (auto simp: io_ctx_def)

lemma io_then_Inr: "m s = (Inr a, t) \<Longrightarrow> io_then m f s = f a t"
  by (simp add: io_then_def)

lemma io_then_Inl: "m s = (Inl e, t) \<Longrightarrow> io_then m f s = (Inl e, t)"
  by (simp add: io_then_def)

lemma io_ctx_simps:
  "m s = (Inr a, t) \<Longrightarrow> io_ctx w m s = (Inr a, t)"
  "m s = (Inl e, t) \<Longrightarrow> io_ctx w m s = (Inl (w e), t)"
  by (simp_all add: io_ctx_def)

text \<open>\<open>std::io::Error\<close>, as far as the code looks at it.\<close>

datatype io_kind = Io_NotFound | Io_Other
datatype io_error = IoError io_kind ext_error

fun io_kind_of :: "io_error \<Rightarrow> io_kind" where
  "io_kind_of (IoError k _) = k"

text \<open>A property of the state that every step keeps is kept by the whole.\<close>

definition io_keeps :: "('s \<Rightarrow> bool) \<Rightarrow> ('s, 'e, 'a) io \<Rightarrow> bool" where
  "io_keeps P m \<longleftrightarrow> (\<forall>s r s'. m s = (r, s') \<longrightarrow> P s \<longrightarrow> P s')"

lemma io_keepsD: "io_keeps P m \<Longrightarrow> m s = (r, s') \<Longrightarrow> P s \<Longrightarrow> P s'"
  by (auto simp: io_keeps_def)

lemma io_keeps_return [intro!]: "io_keeps P (io_return a)"
  by (simp add: io_keeps_def)

lemma io_keeps_lift [intro!]: "io_keeps P (io_lift r)"
  by (simp add: io_keeps_def)

lemma io_keeps_ctx [intro!]: "io_keeps P m \<Longrightarrow> io_keeps P (io_ctx w m)"
  by (auto simp: io_keeps_def elim!: io_ctxE)

lemma io_keeps_then [intro!]: "io_keeps P m \<Longrightarrow> (\<And>a. io_keeps P (f a)) \<Longrightarrow> io_keeps P (io_then m f)"
  by (auto simp: io_keeps_def elim!: io_thenE)

lemma io_keeps_each [intro!]: "(\<And>x. x \<in> set xs \<Longrightarrow> io_keeps P (f x)) \<Longrightarrow> io_keeps P (io_each f xs)"
  by (induction xs) auto

end
