(* ===== verification/Connection.thy ===== *)
theory Connection
  imports Effects Http
begin

text \<open>
  One keep-alive connection (\<open>crates/bincache-serve/src/connection.rs\<close>): the read buffer, the
  head/body split and the writes, over the socket as a parameter. The loops are total: each turn
  of \<open>head\<close> and \<open>body\<close> grows the buffer and each turn of \<open>discard\<close> shrinks what remains. The lemmas
  show that the split does not depend on how the peer's bytes arrive: what a caller gets is the
  front of the peer's stream, and what is left is the rest of it.
\<close>

section \<open>The socket parameter\<close>

text \<open>
  \<open>so_read n\<close> is \<open>AsyncRead::read\<close> into a buffer with at least \<open>n\<close> bytes of spare capacity; it answers
  what arrived. \<open>'s\<close> is the state of the stream.
\<close>

record 's sock =
  so_read :: "nat \<Rightarrow> ('s, io_error, string) io"
  so_write_all :: "string \<Rightarrow> ('s, io_error, unit) io"

section \<open>The code\<close>

definition READ_CHUNK :: nat where "READ_CHUNK = 64 * 1024"
definition SEND_CHUNK :: nat where "SEND_CHUNK = 256 * 1024"

datatype conn_error = CN_Read io_error | CN_Write io_error | CN_Truncated | CN_HeadTooLong

record 's conn =
  cn_stream :: 's
  cn_buffer :: string

definition conn_new :: "'s \<Rightarrow> 's conn" where
  "conn_new stream = \<lparr>cn_stream = stream, cn_buffer = []\<rparr>"

definition conn_write :: "'s sock \<Rightarrow> string \<Rightarrow> ('s conn, conn_error, unit) io" where
  "conn_write S bytes = (\<lambda>c. case so_write_all S bytes (cn_stream c) of
     (r, s) \<Rightarrow> (ctx CN_Write r, c\<lparr>cn_stream := s\<rparr>))"

definition fill :: "'s sock \<Rightarrow> ('s conn, conn_error, nat) io" where
  "fill S = (\<lambda>c. case so_read S READ_CHUNK (cn_stream c) of
     (Inl e, s) \<Rightarrow> (Inl (CN_Read e), c\<lparr>cn_stream := s\<rparr>)
   | (Inr bytes, s) \<Rightarrow> (Inr (length bytes), c\<lparr>cn_stream := s, cn_buffer := cn_buffer c @ bytes\<rparr>))"

lemma fill_grows: "fill S c = (Inr n, c') \<Longrightarrow> length (cn_buffer c') = length (cn_buffer c) + n"
  by (auto simp: fill_def split: prod.splits sum.splits)

function conn_head :: "'s sock \<Rightarrow> ('s conn, conn_error, string option) io" where
  "conn_head S c =
     (case head_len (cn_buffer c) of
        Some len \<Rightarrow> (Inr (Some (take len (cn_buffer c))), c\<lparr>cn_buffer := drop len (cn_buffer c)\<rparr>)
      | None \<Rightarrow>
          if \<not> length (cn_buffer c) \<le> HEAD_LEN_MAX then (Inl CN_HeadTooLong, c)
          else case fill S c of
            (Inl e, c) \<Rightarrow> (Inl e, c)
          | (Inr read, c) \<Rightarrow>
              if read = 0 then (if cn_buffer c = [] then (Inr None, c) else (Inl CN_Truncated, c))
              else conn_head S c)"
  by pat_completeness auto
termination
  by (relation "measure (\<lambda>(S, c). Suc HEAD_LEN_MAX - length (cn_buffer c))")
    (auto simp: eq_commute [of "(Inr _, _)"] dest!: fill_grows)

function conn_body :: "'s sock \<Rightarrow> u64 \<Rightarrow> ('s conn, conn_error, string) io" where
  "conn_body S len c =
     (if length (cn_buffer c) < unat len then
        (case fill S c of
           (Inl e, c) \<Rightarrow> (Inl e, c)
         | (Inr read, c) \<Rightarrow> if read = 0 then (Inl CN_Truncated, c) else conn_body S len c)
      else (Inr (take (unat len) (cn_buffer c)), c\<lparr>cn_buffer := drop (unat len) (cn_buffer c)\<rparr>))"
  by pat_completeness auto
termination
  by (relation "measure (\<lambda>(S, len, c). unat len - length (cn_buffer c))")
    (auto simp: eq_commute [of "(Inr _, _)"] dest!: fill_grows)

text \<open>\<open>chunk\<close> answers the bytes and what remains; a failure leaves \<open>remaining\<close> as it was.\<close>

definition take_chunk :: "u64 \<Rightarrow> 's conn \<Rightarrow> (string \<times> u64) \<times> 's conn" where
  "take_chunk remaining c =
     (let n = min (min (length (cn_buffer c)) (unat remaining)) READ_CHUNK
      in ((take n (cn_buffer c), remaining - of_nat n), c\<lparr>cn_buffer := drop n (cn_buffer c)\<rparr>))"

definition conn_chunk :: "'s sock \<Rightarrow> u64 \<Rightarrow> ('s conn, conn_error, string \<times> u64) io" where
  "conn_chunk S remaining = (\<lambda>c.
     if remaining = 0 then (Inr ([], remaining), c)
     else if cn_buffer c = [] then
       (case fill S c of
          (Inl e, c) \<Rightarrow> (Inl e, c)
        | (Inr read, c) \<Rightarrow>
            if read = 0 then (Inl CN_Truncated, c)
            else case take_chunk remaining c of (r, c) \<Rightarrow> (Inr r, c))
     else case take_chunk remaining c of (r, c) \<Rightarrow> (Inr r, c))"

lemma take_chunk_shrinks:
  assumes "take_chunk remaining c = ((bs, m), c')" "remaining \<noteq> 0" "cn_buffer c \<noteq> []"
  shows "bs \<noteq> [] \<and> unat m + length bs = unat remaining \<and> length bs \<le> READ_CHUNK \<and>
    cn_buffer c = bs @ cn_buffer c' \<and> cn_stream c' = cn_stream c"
proof -
  let ?n = "min (min (length (cn_buffer c)) (unat remaining)) READ_CHUNK"
  have n: "bs = take ?n (cn_buffer c)" "m = remaining - of_nat ?n" "c' = c\<lparr>cn_buffer := drop ?n (cn_buffer c)\<rparr>"
    using assms(1) by (simp_all add: take_chunk_def Let_def)
  have pos: "0 < ?n" "?n \<le> length (cn_buffer c)" "?n \<le> unat remaining"
    using assms(2,3) by (simp_all add: READ_CHUNK_def unat_gt_0)
  have "unat (of_nat ?n :: u64) = ?n"
    using le_less_trans [OF pos(3) unsigned_less [of remaining]] by (simp add: unat_of_nat64)
  then have "unat m = unat remaining - ?n" using pos(3) unfolding n(2)
    by (subst unat_sub) (simp_all add: word_le_nat_alt)
  then show ?thesis using pos n(1,3) by auto
qed

lemma conn_chunk_shrinks:
  assumes "conn_chunk S remaining c = (Inr (bs, m), c')" "remaining \<noteq> 0"
  shows "bs \<noteq> [] \<and> unat m < unat remaining \<and> unat m + length bs = unat remaining"
proof -
  from assms obtain c1 where c1: "take_chunk remaining c1 = ((bs, m), c')" "cn_buffer c1 \<noteq> []"
  proof (cases "cn_buffer c = []")
    case True
    with assms obtain n c2 where f: "fill S c = (Inr n, c2)" "n \<noteq> 0" "take_chunk remaining c2 = ((bs, m), c')"
      by (auto simp: conn_chunk_def split: prod.splits sum.splits if_splits)
    have "cn_buffer c2 \<noteq> []" using fill_grows [OF f(1)] f(2) by auto
    with f(3) that show thesis by blast
  next
    case False
    with assms that show thesis by (auto simp: conn_chunk_def split: prod.splits)
  qed
  from take_chunk_shrinks [OF c1(1) assms(2) c1(2)] show ?thesis by (cases bs) auto
qed

function conn_discard :: "'s sock \<Rightarrow> u64 \<Rightarrow> ('s conn, conn_error, unit) io" where
  "conn_discard S remaining c =
     (if remaining = 0 then (Inr (), c)
      else case conn_chunk S remaining c of
        (Inl e, c) \<Rightarrow> (Inl e, c)
      | (Inr (chunk, remaining), c) \<Rightarrow>
          if chunk = [] then (Inl CN_Truncated, c) else conn_discard S remaining c)"
  by pat_completeness auto
termination
  by (relation "measure (\<lambda>(S, remaining, c). unat remaining)")
    (auto simp: eq_commute [of "(Inr _, _)"] dest!: conn_chunk_shrinks)

declare conn_head.simps [simp del] conn_body.simps [simp del] conn_discard.simps [simp del]

section \<open>What the socket promises\<close>

text \<open>
  The view of a socket: \<open>sv_in\<close> is what the peer will still send before it closes its side, \<open>sv_out\<close>
  is what has been handed to the peer. A read answers a front part of what is to come, and
  answers nothing only at the end.
\<close>

record 's sock_views =
  sv_in :: "'s \<Rightarrow> string"
  sv_out :: "'s \<Rightarrow> string"

definition sock_laws :: "'s sock \<Rightarrow> 's sock_views \<Rightarrow> bool" where
  "sock_laws S V \<longleftrightarrow>
     (\<forall>n s bs s'. so_read S n s = (Inr bs, s') \<longrightarrow>
        sv_in V s = bs @ sv_in V s' \<and> (bs = [] \<longrightarrow> n = 0 \<or> sv_in V s = [])) \<and>
     (\<forall>n s r s'. so_read S n s = (r, s') \<longrightarrow> sv_out V s' = sv_out V s) \<and>
     (\<forall>bs s s'. so_write_all S bs s = (Inr (), s') \<longrightarrow> sv_out V s' = sv_out V s @ bs) \<and>
     (\<forall>bs s e s'. so_write_all S bs s = (Inl e, s') \<longrightarrow>
        (\<exists>k \<le> length bs. sv_out V s' = sv_out V s @ take k bs)) \<and>
     (\<forall>bs s r s'. so_write_all S bs s = (r, s') \<longrightarrow> sv_in V s' = sv_in V s)"

text \<open>What a connection has yet to hand out, and what it has sent.\<close>

definition pending :: "'s sock_views \<Rightarrow> 's conn \<Rightarrow> string" where
  "pending V c = cn_buffer c @ sv_in V (cn_stream c)"

definition sent :: "'s sock_views \<Rightarrow> 's conn \<Rightarrow> string" where
  "sent V c = sv_out V (cn_stream c)"

lemma conn_new_view [simp]:
  "pending V (conn_new s) = sv_in V s" "sent V (conn_new s) = sv_out V s"
  by (simp_all add: conn_new_def pending_def sent_def)

lemma sock_read:
  "sock_laws S V \<Longrightarrow> so_read S n s = (Inr bs, s') \<Longrightarrow>
     sv_in V s = bs @ sv_in V s' \<and> (bs = [] \<longrightarrow> n = 0 \<or> sv_in V s = [])"
  unfolding sock_laws_def by blast

lemma fill_sent: "sock_laws S V \<Longrightarrow> fill S c = (r, c') \<Longrightarrow> sent V c' = sent V c"
  by (auto simp: fill_def sent_def sock_laws_def split: prod.splits sum.splits)

lemma fill_Inr:
  assumes "sock_laws S V" "fill S c = (Inr n, c')"
  shows "pending V c' = pending V c \<and> sent V c' = sent V c \<and>
    (n = 0 \<longrightarrow> cn_buffer c' = cn_buffer c \<and> sv_in V (cn_stream c') = [])"
proof -
  obtain bs s where r: "so_read S READ_CHUNK (cn_stream c) = (Inr bs, s)" "n = length bs"
    "c' = c\<lparr>cn_stream := s, cn_buffer := cn_buffer c @ bs\<rparr>"
    using assms(2) by (auto simp: fill_def split: prod.splits sum.splits)
  have "sv_in V (cn_stream c) = bs @ sv_in V s" "bs = [] \<longrightarrow> sv_in V (cn_stream c) = []"
    using sock_read [OF assms(1) r(1)] by (auto simp: READ_CHUNK_def)
  then show ?thesis using r(2,3) fill_sent [OF assms] by (auto simp: pending_def)
qed

lemma conn_write_effect:
  assumes "sock_laws S V" "conn_write S bytes c = (r, c')"
  shows "pending V c' = pending V c \<and>
    (r = Inr () \<longrightarrow> sent V c' = sent V c @ bytes) \<and>
    (\<exists>k \<le> length bytes. sent V c' = sent V c @ take k bytes)"
proof -
  obtain x s where w: "so_write_all S bytes (cn_stream c) = (x, s)" "r = ctx CN_Write x" "c' = c\<lparr>cn_stream := s\<rparr>"
    using assms(2) by (auto simp: conn_write_def split: prod.splits)
  then show ?thesis using assms(1)
    by (cases x) (auto simp: sock_laws_def pending_def sent_def intro: exI [of _ "length bytes"])
qed

section \<open>The head\<close>

lemma head_len_prefix: "head_len (s @ t) = Some n \<Longrightarrow> n \<le> length s \<Longrightarrow> head_len s = Some n"
proof (cases "head_len s")
  case None
  assume a: "head_len (s @ t) = Some n" "n \<le> length s"
  note at = head_len_Some [OF a(1)]
  have "take 4 (drop (n - 4) s) = HEAD_END" using at(1,3) a(2) by simp
  then show ?thesis using None by (simp add: head_len_None)
next
  case (Some m)
  assume "head_len (s @ t) = Some n"
  with head_len_append [OF Some, of t] Some show ?thesis by simp
qed

lemma conn_head_effect:
  assumes "sock_laws S V" "conn_head S c = (r, c')"
  shows "sent V c' = sent V c \<and>
    (case r of
       Inr (Some h) \<Rightarrow> head_len (pending V c) = Some (length h) \<and> pending V c = h @ pending V c'
     | Inr None \<Rightarrow> pending V c = [] \<and> pending V c' = []
     | Inl CN_Truncated \<Rightarrow> pending V c \<noteq> [] \<and> head_len (pending V c) = None
     | Inl CN_HeadTooLong \<Rightarrow> (\<forall>n. head_len (pending V c) = Some n \<longrightarrow> HEAD_LEN_MAX < n)
     | Inl _ \<Rightarrow> True)"
  using assms
proof (induction S c rule: conn_head.induct)
  case (1 S c)
  show ?case
  proof (cases "head_len (cn_buffer c)")
    case (Some n)
    then have "r = Inr (Some (take n (cn_buffer c)))" "c' = c\<lparr>cn_buffer := drop n (cn_buffer c)\<rparr>"
      using "1.prems"(2) by (auto simp: conn_head.simps [of S c])
    then show ?thesis using head_len_append [OF Some] head_len_Some(2) [OF Some]
      by (simp add: pending_def sent_def)
  next
    case None
    show ?thesis
    proof (cases "length (cn_buffer c) \<le> HEAD_LEN_MAX")
      case False
      then have "r = Inl CN_HeadTooLong" "c' = c"
        using "1.prems"(2) None by (auto simp: conn_head.simps [of S c])
      moreover have "HEAD_LEN_MAX < n" if "head_len (pending V c) = Some n" for n
      proof (rule ccontr)
        assume "\<not> HEAD_LEN_MAX < n"
        with False have "n \<le> length (cn_buffer c)" by simp
        from head_len_prefix [OF that [unfolded pending_def] this] None show False by simp
      qed
      ultimately show ?thesis by simp
    next
      case short: True
      obtain x d where d: "fill S c = (x, d)" by fastforce
      show ?thesis
      proof (cases x)
        case (Inl e)
        then have "r = Inl e" "c' = d" "\<exists>e'. e = CN_Read e'"
          using "1.prems"(2) None short d
          by (auto simp: conn_head.simps [of S c] fill_def split: prod.splits sum.splits)
        then show ?thesis using fill_sent [OF "1.prems"(1) d] by auto
      next
        case (Inr n)
        note f = fill_Inr [OF "1.prems"(1) d [unfolded Inr]]
        show ?thesis
        proof (cases "n = 0")
          case True
          with f have e: "cn_buffer d = cn_buffer c" "pending V c = cn_buffer c" "sv_in V (cn_stream d) = []"
            by (auto simp: pending_def)
          have "(r, c') = (if cn_buffer d = [] then Inr None else Inl CN_Truncated, d)"
            using "1.prems"(2) None short d Inr True by (auto simp: conn_head.simps [of S c])
          then show ?thesis using e f None by (auto simp: pending_def)
        next
          case False
          then have "conn_head S d = (r, c')"
            using "1.prems"(2) None short d Inr by (simp add: conn_head.simps [of S c])
          moreover have "\<not> \<not> length (cn_buffer c) \<le> HEAD_LEN_MAX" using short by simp
          ultimately show ?thesis using "1.IH" [OF None _ d [symmetric] Inr False "1.prems"(1)]
            unfolding conjunct1 [OF f] conjunct1 [OF conjunct2 [OF f]] by blast
        qed
      qed
    qed
  qed
qed

section \<open>Bodies\<close>

lemma conn_body_effect:
  assumes "sock_laws S V" "conn_body S len c = (r, c')"
  shows "sent V c' = sent V c \<and>
    (case r of
       Inr b \<Rightarrow> length b = unat len \<and> pending V c = b @ pending V c'
     | Inl CN_Truncated \<Rightarrow> length (pending V c) < unat len
     | Inl e \<Rightarrow> \<exists>e'. e = CN_Read e')"
  using assms
proof (induction S len c rule: conn_body.induct)
  case (1 S len c)
  show ?case
  proof (cases "length (cn_buffer c) < unat len")
    case False
    then have "r = Inr (take (unat len) (cn_buffer c))" "c' = c\<lparr>cn_buffer := drop (unat len) (cn_buffer c)\<rparr>"
      using "1.prems"(2) by (auto simp: conn_body.simps [of S len c])
    then show ?thesis using False by (simp add: pending_def sent_def)
  next
    case short: True
    obtain x d where d: "fill S c = (x, d)" by fastforce
    show ?thesis
    proof (cases x)
      case (Inl e)
      then have "r = Inl e" "c' = d" "\<exists>e'. e = CN_Read e'"
        using "1.prems"(2) short d
        by (auto simp: conn_body.simps [of S len c] fill_def split: prod.splits sum.splits)
      then show ?thesis using fill_sent [OF "1.prems"(1) d] by auto
    next
      case (Inr n)
      note f = fill_Inr [OF "1.prems"(1) d [unfolded Inr]]
      show ?thesis
      proof (cases "n = 0")
        case True
        then have "r = Inl CN_Truncated" "c' = d" using "1.prems"(2) short d Inr
          by (auto simp: conn_body.simps [of S len c])
        moreover have "pending V c = cn_buffer c" using f True by (auto simp: pending_def)
        ultimately show ?thesis using f short by simp
      next
        case False
        then have "conn_body S len d = (r, c')"
          using "1.prems"(2) short d Inr by (simp add: conn_body.simps [of S len c])
        from "1.IH" [OF short d [symmetric] Inr False "1.prems"(1) this]
        show ?thesis unfolding conjunct1 [OF f] conjunct1 [OF conjunct2 [OF f]] .
      qed
    qed
  qed
qed

lemma conn_chunk_effect:
  assumes "sock_laws S V" "conn_chunk S remaining c = (r, c')"
  shows "sent V c' = sent V c \<and>
    (case r of
       Inr (bs, m) \<Rightarrow> pending V c = bs @ pending V c' \<and> unat m + length bs = unat remaining \<and>
         length bs \<le> READ_CHUNK \<and> (bs = [] \<longrightarrow> remaining = 0)
     | Inl CN_Truncated \<Rightarrow> pending V c = [] \<and> remaining \<noteq> 0
     | Inl e \<Rightarrow> \<exists>e'. e = CN_Read e')"
proof (cases "remaining = 0")
  case True
  then show ?thesis using assms(2) by (auto simp: conn_chunk_def)
next
  case rem: False
  have front: "sent V c' = sent V d \<and> r = Inr (fst p, snd p) \<and> pending V d = fst p @ pending V c' \<and>
      unat (snd p) + length (fst p) = unat remaining \<and> length (fst p) \<le> READ_CHUNK \<and> fst p \<noteq> []"
    if "cn_buffer d \<noteq> []" "take_chunk remaining d = (p, c')" "r = Inr p" for p d
    using that take_chunk_shrinks [OF _ rem that(1), of "fst p" "snd p" c'] by (simp add: sent_def pending_def)
  show ?thesis
  proof (cases "cn_buffer c = []")
    case False
    obtain p d where "take_chunk remaining c = (p, d)" by fastforce
    moreover from this have "r = Inr p" "c' = d" using assms(2) rem False by (auto simp: conn_chunk_def)
    ultimately show ?thesis using front [OF False, of p] by (auto split: prod.splits)
  next
    case True
    obtain x d where d: "fill S c = (x, d)" by fastforce
    show ?thesis
    proof (cases x)
      case (Inl e)
      then have "r = Inl e" "c' = d" "\<exists>e'. e = CN_Read e'"
        using assms(2) rem True d
        by (auto simp: conn_chunk_def fill_def split: prod.splits sum.splits)
      then show ?thesis using fill_sent [OF assms(1) d] by auto
    next
      case (Inr n)
      note f = fill_Inr [OF assms(1) d [unfolded Inr]]
      show ?thesis
      proof (cases "n = 0")
        case zero: True
        then have "r = Inl CN_Truncated" "c' = d" using assms(2) rem True d Inr by (auto simp: conn_chunk_def)
        then show ?thesis using f zero True rem by (auto simp: pending_def)
      next
        case False
        obtain p d' where p: "take_chunk remaining d = (p, d')" by fastforce
        then have "r = Inr p" "c' = d'" using assms(2) rem True d Inr False by (auto simp: conn_chunk_def)
        moreover have "cn_buffer d \<noteq> []" using fill_grows [OF d [unfolded Inr]] False by auto
        ultimately show ?thesis using front [of d p] p f by (auto split: prod.splits)
      qed
    qed
  qed
qed

lemma conn_discard_effect:
  assumes "sock_laws S V" "conn_discard S remaining c = (r, c')"
  shows "sent V c' = sent V c \<and>
    (case r of
       Inr _ \<Rightarrow> \<exists>bs. length bs = unat remaining \<and> pending V c = bs @ pending V c'
     | Inl CN_Truncated \<Rightarrow> length (pending V c) < unat remaining
     | Inl e \<Rightarrow> \<exists>e'. e = CN_Read e')"
  using assms
proof (induction S remaining c rule: conn_discard.induct)
  case (1 S remaining c)
  show ?case
  proof (cases "remaining = 0")
    case True
    then show ?thesis using "1.prems"(2) by (auto simp: conn_discard.simps [of S 0 c])
  next
    case rem: False
    obtain x d where d: "conn_chunk S remaining c = (x, d)" by fastforce
    note e = conn_chunk_effect [OF "1.prems"(1) d]
    show ?thesis
    proof (cases x)
      case (Inl err)
      then have "r = Inl err" "c' = d" using "1.prems"(2) rem d by (auto simp: conn_discard.simps [of S remaining c])
      then show ?thesis using e Inl rem by (cases err) (auto simp: unat_gt_0)
    next
      case (Inr p)
      obtain bs m where p: "p = (bs, m)" by fastforce
      have ne: "bs \<noteq> []" using e Inr p rem by auto
      then have "conn_discard S m d = (r, c')"
        using "1.prems"(2) rem d Inr p by (simp add: conn_discard.simps [of S remaining c])
      from "1.IH" [OF rem d [symmetric] Inr p [symmetric] ne "1.prems"(1) this] e Inr p
      show ?thesis by (cases r) (auto split: conn_error.splits intro: exI [of _ "bs @ _"])
    qed
  qed
qed

section \<open>Yielding\<close>

text \<open>
  \<open>yield_now\<close>, which the pump and the receiving loop await once a turn: a poll answers whether the
  future is ready and whether it woke its task.
\<close>

record yield_future =
  yd_yielded :: bool

datatype poll = Poll_Ready | Poll_Pending

definition yield_poll :: "yield_future \<Rightarrow> (poll \<times> bool) \<times> yield_future" where
  "yield_poll y =
     (if yd_yielded y then ((Poll_Ready, False), y) else ((Poll_Pending, True), y\<lparr>yd_yielded := True\<rparr>))"

definition yield_now :: yield_future where
  "yield_now = \<lparr>yd_yielded = False\<rparr>"

text \<open>What an executor does that polls a task again whenever it was woken: the polls until it is ready.\<close>

partial_function (option) await_polls :: "('y \<Rightarrow> (poll \<times> bool) \<times> 'y) \<Rightarrow> 'y \<Rightarrow> nat option" where
  "await_polls step y =
     (case step y of ((answer, woken), y) \<Rightarrow>
        (case answer of
           Poll_Ready \<Rightarrow> Some 1
         | Poll_Pending \<Rightarrow>
             if woken then Option.bind (await_polls step y) (\<lambda>n. Some (n + 1)) else None))"

text \<open>A yield hands the shard back exactly once, and its task is never lost.\<close>

lemma yield_once: "await_polls yield_poll yield_now = Some 2"
  by (subst await_polls.simps, subst await_polls.simps) (simp add: yield_poll_def yield_now_def)

section \<open>The interface of a connection\<close>

text \<open>
  What a handler relies on: a message of a known length is the front of what the peer sends, and
  an answer is appended to what the peer is sent. \<open>exchange_done\<close> is the consequence a
  keep-alive session needs.
\<close>

locale duplex =
  fixes good :: "'c \<Rightarrow> bool"
    and inp :: "'c \<Rightarrow> string"
    and outp :: "'c \<Rightarrow> string"
    and next_bytes :: "u64 \<Rightarrow> ('c, 'e, string) io"
    and put_bytes :: "string \<Rightarrow> ('c, 'e, 'x) io"
  assumes next_good: "good c \<Longrightarrow> next_bytes n c = (Inr b, c') \<Longrightarrow> good c'"
    and next_front: "good c \<Longrightarrow> next_bytes n c = (Inr b, c') \<Longrightarrow>
      length b = unat n \<and> inp c = b @ inp c' \<and> outp c' = outp c"
    and put_appends: "good d \<Longrightarrow> put_bytes b d = (Inr x, d') \<Longrightarrow> inp d' = inp d \<and> outp d' = outp d @ b"
begin

lemma next_bytes_eq: "good c \<Longrightarrow> next_bytes n c = (Inr b, c') \<Longrightarrow> b = take (unat n) (inp c) \<and> inp c' = drop (unat n) (inp c)"
  using next_front [of c n b c'] by auto

lemma exchange_done:
  assumes "good c" "next_bytes n c = (Inr b, d)" "put_bytes a d = (Inr x, c')"
  shows "inp c' = drop (unat n) (inp c) \<and> outp c' = outp c @ a"
  using next_bytes_eq [OF assms(1,2)] next_front [OF assms(1,2)] put_appends [OF next_good [OF assms(1,2)] assms(3)]
  by simp

end

interpretation tcp: duplex "\<lambda>c. sock_laws S V" "pending V" "sent V" "conn_body S" "conn_write S" for S V
proof unfold_locales
  fix n c b c' assume "sock_laws S V" "conn_body S n c = (Inr b, c')"
  from conn_body_effect [OF this]
  show "length b = unat n \<and> pending V c = b @ pending V c' \<and> sent V c' = sent V c" by simp
next
  fix d b x d' assume "sock_laws S V" "conn_write S b d = (Inr x, d')"
  from conn_write_effect [OF this] show "pending V d' = pending V d \<and> sent V d' = sent V d @ b" by simp
qed

end
