(* ===== verification/Stats.thy ===== *)
theory Stats
  imports Text
begin

text \<open>
  Per-shard counters and the heartbeat (\<open>crates/bincache-serve/src/stats.rs\<close>). A relaxed atomic is
  a word, \<open>fetch_add\<close> wraps, and the clock is an argument: \<open>elapsed\<close> is \<open>started.elapsed()\<close> in
  milliseconds. Indexing a shard that does not exist panics, which is \<open>None\<close>.
\<close>

section \<open>The code\<close>

record shard =
  sh_requests :: u64
  sh_metadata_hits :: u64
  sh_metadata_misses :: u64
  sh_payload_bytes :: u64
  sh_uploads :: u64
  sh_rejections :: u64
  sh_heartbeat :: u64
  sh_heartbeats :: u64

definition shard_default :: shard where
  "shard_default = \<lparr>sh_requests = 0, sh_metadata_hits = 0, sh_metadata_misses = 0, sh_payload_bytes = 0,
     sh_uploads = 0, sh_rejections = 0, sh_heartbeat = 0, sh_heartbeats = 0\<rparr>"

text \<open>The counters that \<open>bump\<close> is called with.\<close>

datatype counter = C_Requests | C_Hits | C_Misses | C_Payload | C_Uploads | C_Rejections

fun bump :: "counter \<Rightarrow> u64 \<Rightarrow> shard \<Rightarrow> shard" where
  "bump C_Requests n s = s\<lparr>sh_requests := sh_requests s + n\<rparr>"
| "bump C_Hits n s = s\<lparr>sh_metadata_hits := sh_metadata_hits s + n\<rparr>"
| "bump C_Misses n s = s\<lparr>sh_metadata_misses := sh_metadata_misses s + n\<rparr>"
| "bump C_Payload n s = s\<lparr>sh_payload_bytes := sh_payload_bytes s + n\<rparr>"
| "bump C_Uploads n s = s\<lparr>sh_uploads := sh_uploads s + n\<rparr>"
| "bump C_Rejections n s = s\<lparr>sh_rejections := sh_rejections s + n\<rparr>"

type_synonym shards = "shard list"

definition shards_new :: "nat \<Rightarrow> shards" where
  "shards_new shards = replicate shards shard_default"

definition shards_get :: "shards \<Rightarrow> nat \<Rightarrow> shard option" where
  "shards_get ss i = (if i < length ss then Some (ss ! i) else None)"

text \<open>\<open>Shard::bump(&stats.get(shard).counter, by)\<close>.\<close>

definition shards_bump :: "nat \<Rightarrow> counter \<Rightarrow> u64 \<Rightarrow> shards \<Rightarrow> shards option" where
  "shards_bump i c n ss = map_option (\<lambda>s. ss[i := bump c n s]) (shards_get ss i)"

definition beat :: "nat \<Rightarrow> nat \<Rightarrow> shards \<Rightarrow> shards option" where
  "beat elapsed i ss =
     map_option (\<lambda>s. ss[i := s\<lparr>sh_heartbeat := u64_from_usize elapsed, sh_heartbeats := sh_heartbeats s + 1\<rparr>])
       (shards_get ss i)"

definition shards_len :: "shards \<Rightarrow> nat" where
  "shards_len ss = length ss"

definition shards_is_empty :: "shards \<Rightarrow> bool" where
  "shards_is_empty ss \<longleftrightarrow> ss = []"

record totals =
  to_requests :: u64
  to_metadata_hits :: u64
  to_metadata_misses :: u64
  to_payload_bytes :: u64
  to_uploads :: u64
  to_rejections :: u64

definition totals_default :: totals where
  "totals_default = \<lparr>to_requests = 0, to_metadata_hits = 0, to_metadata_misses = 0, to_payload_bytes = 0,
     to_uploads = 0, to_rejections = 0\<rparr>"

definition add_slot :: "shard \<Rightarrow> totals \<Rightarrow> totals" where
  "add_slot s t = \<lparr>to_requests = to_requests t + sh_requests s,
     to_metadata_hits = to_metadata_hits t + sh_metadata_hits s,
     to_metadata_misses = to_metadata_misses t + sh_metadata_misses s,
     to_payload_bytes = to_payload_bytes t + sh_payload_bytes s,
     to_uploads = to_uploads t + sh_uploads s,
     to_rejections = to_rejections t + sh_rejections s\<rparr>"

definition total :: "shards \<Rightarrow> totals" where
  "total ss = fold add_slot ss totals_default"

text \<open>\<open>enumerate\<close>, \<open>filter\<close> and \<open>map\<close> over the slots.\<close>

definition stalled :: "nat \<Rightarrow> nat \<Rightarrow> shards \<Rightarrow> nat list" where
  "stalled elapsed stale ss =
     (let now = u64_from_usize elapsed; stale = u64_from_usize stale;
          deadline = (if now < stale then 0 else now - stale)
      in map fst (filter (\<lambda>(i, slot). 0 < sh_heartbeats slot \<and> sh_heartbeat slot < deadline)
           (enumerate 0 ss)))"

definition totals_render :: "totals \<Rightarrow> nat \<Rightarrow> u64 \<Rightarrow> string" where
  "totals_render t shards paths =
     concat (map (\<lambda>(name, v). name @ '' '' @ show_u64 v @ [nl])
       [(''bincache_requests_total'', to_requests t),
        (''bincache_metadata_hits_total'', to_metadata_hits t),
        (''bincache_metadata_misses_total'', to_metadata_misses t),
        (''bincache_payload_bytes_total'', to_payload_bytes t),
        (''bincache_uploads_total'', to_uploads t),
        (''bincache_rejections_total'', to_rejections t),
        (''bincache_shards'', u64_from_usize shards),
        (''bincache_paths'', paths)])"

section \<open>Totals\<close>

text \<open>The field of a counter in a slot and in the totals.\<close>

fun slot_count :: "counter \<Rightarrow> shard \<Rightarrow> u64" where
  "slot_count C_Requests s = sh_requests s"
| "slot_count C_Hits s = sh_metadata_hits s"
| "slot_count C_Misses s = sh_metadata_misses s"
| "slot_count C_Payload s = sh_payload_bytes s"
| "slot_count C_Uploads s = sh_uploads s"
| "slot_count C_Rejections s = sh_rejections s"

fun total_count :: "counter \<Rightarrow> totals \<Rightarrow> u64" where
  "total_count C_Requests t = to_requests t"
| "total_count C_Hits t = to_metadata_hits t"
| "total_count C_Misses t = to_metadata_misses t"
| "total_count C_Payload t = to_payload_bytes t"
| "total_count C_Uploads t = to_uploads t"
| "total_count C_Rejections t = to_rejections t"

lemma total_count_add: "total_count c (add_slot s t) = total_count c t + slot_count c s"
  by (cases c) (simp_all add: add_slot_def)

lemma total_count_fold: "total_count c (fold add_slot ss t) = total_count c t + sum_list (map (slot_count c) ss)"
  by (induction ss arbitrary: t) (simp_all add: total_count_add add.assoc)

lemma total_count_total: "total_count c (total ss) = sum_list (map (slot_count c) ss)"
  by (cases c) (simp_all add: total_def total_count_fold totals_default_def)

lemma bump_count [simp]: "slot_count c (bump d n s) = (if c = d then slot_count c s + n else slot_count c s)"
  by (cases c; cases d) simp_all

lemma bump_beats [simp]:
  "sh_heartbeat (bump c n s) = sh_heartbeat s" "sh_heartbeats (bump c n s) = sh_heartbeats s"
  by (cases c; simp)+

lemma shards_bump_Some: "shards_bump i c n ss = Some ss' \<longleftrightarrow> i < length ss \<and> ss' = ss[i := bump c n (ss ! i)]"
  by (auto simp: shards_bump_def shards_get_def)

lemma shards_bump_length: "shards_bump i c n ss = Some ss' \<Longrightarrow> length ss' = length ss"
  by (auto simp: shards_bump_Some)

lemma sum_list_update_add:
  fixes f :: "'a \<Rightarrow> 'b::ab_group_add"
  assumes "i < length ss"
  shows "sum_list (map f (ss[i := s])) = sum_list (map f ss) - f (ss ! i) + f s"
  using assms by (induction ss arbitrary: i) (auto split: nat.splits simp: algebra_simps)

lemma total_bump:
  assumes "shards_bump i c n ss = Some ss'"
  shows "total_count d (total ss') = (if d = c then total_count d (total ss) + n else total_count d (total ss))"
  using assms by (auto simp: total_count_total shards_bump_Some sum_list_update_add)

section \<open>Stalls\<close>

lemma stalled_iff:
  assumes "elapsed < 2 ^ 64" "stale < 2 ^ 64"
  shows "i \<in> set (stalled elapsed stale ss) \<longleftrightarrow>
    i < length ss \<and> sh_heartbeats (ss ! i) \<noteq> 0 \<and> unat (sh_heartbeat (ss ! i)) + stale < elapsed"
proof -
  let ?now = "u64_from_usize elapsed" and ?st = "u64_from_usize stale"
  let ?deadline = "if ?now < ?st then 0 else ?now - ?st"
  have n: "unat ?now = elapsed" "unat ?st = stale" using assms by (simp_all add: unat_u64_from_usize)
  have "w < ?deadline \<longleftrightarrow> unat w + stale < elapsed" for w
  proof (cases "?now < ?st")
    case True
    then show ?thesis using n by (simp add: word_less_nat_alt)
  next
    case False
    then have le: "?st \<le> ?now" by simp
    then have "unat (?now - ?st) = elapsed - stale" using n by (simp add: unat_sub)
    moreover have "stale \<le> elapsed" using le n by (simp add: word_le_nat_alt)
    ultimately show ?thesis using False by (simp add: word_less_nat_alt) linarith
  qed
  then show ?thesis
    by (auto simp: stalled_def Let_def in_set_enumerate_eq image_iff word_neq_0_conv)
qed

lemma stalled_sorted: "sorted (stalled elapsed stale ss)" "distinct (stalled elapsed stale ss)"
proof -
  have *: "map fst (filter P (enumerate 0 ss)) = filter (\<lambda>i. P (i, ss ! i)) [0..<length ss]" for P
  proof -
    have e: "enumerate 0 ss = map (\<lambda>i. (i, ss ! i)) [0..<length ss]"
      by (rule nth_equalityI) (simp_all add: nth_enumerate_eq)
    show ?thesis by (simp add: e filter_map comp_def)
  qed
  show "sorted (stalled elapsed stale ss)" "distinct (stalled elapsed stale ss)"
    by (simp_all add: stalled_def Let_def * sorted_wrt_filter)
qed

end
