(* ===== verification/Store.thy ===== *)
theory Store
  imports Effects Narurl
begin

text \<open>
  The content-addressed NAR store (\<open>crates/bincache-store/src/nar.rs\<close>). The asynchronous file
  system calls (\<open>compio::fs\<close>, \<open>std::fs\<close>) are the parameter \<open>F\<close>; a path is the list of its
  components. Every method of \<open>Store\<close>, \<open>Reader\<close> and \<open>Staged\<close> is here, with the removal that dropping
  an uncommitted \<open>Staged\<close> performs.
\<close>

section \<open>The file system parameter\<close>

type_synonym path = "string list"

text \<open>\<open>'f\<close> is the state of the file system, \<open>'h\<close> an open file.\<close>

record ('f, 'h) fsys =
  fs_create_dir_all :: "path \<Rightarrow> ('f, io_error, unit) io"
  fs_open :: "path \<Rightarrow> ('f, io_error, 'h) io"
  fs_create :: "path \<Rightarrow> ('f, io_error, 'h) io"
  fs_metadata_len :: "'h \<Rightarrow> ('f, io_error, u64) io"
  fs_read_at :: "'h \<Rightarrow> nat \<Rightarrow> u64 \<Rightarrow> ('f, io_error, string) io"
  fs_write_all_at :: "'h \<Rightarrow> string \<Rightarrow> u64 \<Rightarrow> ('f, io_error, unit) io"
  fs_sync_all :: "'h \<Rightarrow> ('f, io_error, unit) io"
  fs_rename :: "path \<Rightarrow> path \<Rightarrow> ('f, io_error, unit) io"
  fs_remove_file :: "path \<Rightarrow> ('f, io_error, unit) io"
  fs_read_dir :: "path \<Rightarrow> ('f, io_error, (io_error + path) list) io"

section \<open>The code\<close>

definition ARTIFACTS :: string where "ARTIFACTS = ''nar''"
definition STAGING :: string where "STAGING = ''staging''"
definition SHARD_LEN :: nat where "SHARD_LEN = 2"

datatype store_error =
    ST_CreateDir path io_error
  | ST_Open path io_error
  | ST_Create path io_error
  | ST_Metadata path io_error
  | ST_Write path io_error
  | ST_Read path io_error
  | ST_Sync path io_error
  | ST_Rename path path io_error
  | ST_Remove path io_error
  | ST_List path io_error

datatype removed = Deleted | Absent

text \<open>\<open>Inner\<close>, and the process id that names staging files.\<close>

record store =
  st_root :: path
  st_sequence :: u64
  st_pid :: u32

record 'h reader =
  rr_file :: 'h
  rr_path :: path
  rr_size :: u64

record 'h staged =
  sg_file :: 'h
  sg_path :: path
  sg_offset :: u64
  sg_committed :: bool

record scan =
  sc_artifacts :: "narurl list"
  sc_unrecognized :: "path list"

fun absent :: "io_error + 'a \<Rightarrow> bool" where
  "absent (Inl source) = (io_kind_of source = Io_NotFound)"
| "absent (Inr _) = False"

definition store_open :: "('f, 'h) fsys \<Rightarrow> path \<Rightarrow> u32 \<Rightarrow> ('f, store_error, store) io" where
  "store_open F root pid =
     io_then (io_each (\<lambda>path. io_ctx (ST_CreateDir path) (fs_create_dir_all F path))
       [root, root @ [ARTIFACTS], root @ [STAGING]]) (\<lambda>_.
     io_return \<lparr>st_root = root, st_sequence = 0, st_pid = pid\<rparr>)"

definition store_path :: "path \<Rightarrow> narurl \<Rightarrow> path" where
  "store_path root url =
     (let name = nar_name url; shard = take SHARD_LEN name in root @ [ARTIFACTS, shard, name])"

definition store_read :: "('f, 'h) fsys \<Rightarrow> path \<Rightarrow> narurl \<Rightarrow> ('f, store_error, 'h reader option) io" where
  "store_read F root url = (\<lambda>f.
     let path = store_path root url in
     case fs_open F path f of
       (opened, f) \<Rightarrow>
         if absent opened then (Inr None, f)
         else
           (io_then (io_lift (ctx (ST_Open path) opened)) (\<lambda>file.
            io_then (io_ctx (ST_Metadata path) (fs_metadata_len F file)) (\<lambda>len.
            io_return (Some \<lparr>rr_file = file, rr_path = path, rr_size = len\<rparr>)))) f)"

definition reader_read_at :: "('f, 'h) fsys \<Rightarrow> 'h reader \<Rightarrow> nat \<Rightarrow> u64 \<Rightarrow> ('f, store_error, string) io" where
  "reader_read_at F r cap offset = io_ctx (ST_Read (rr_path r)) (fs_read_at F (rr_file r) cap offset)"

definition staging_name :: "store \<Rightarrow> string" where
  "staging_name s = show_u32 (st_pid s) @ [dash] @ show_u64 (st_sequence s) @ ''.nar''"

text \<open>\<open>stage\<close> takes the next ordinal whether or not the file can be created.\<close>

definition stage :: "('f, 'h) fsys \<Rightarrow> (store \<times> 'f, store_error, 'h staged) io" where
  "stage F = (\<lambda>(s, f).
     let path = st_root s @ [STAGING, staging_name s] in
     case io_ctx (ST_Create path) (fs_create F path) f of
       (r, f) \<Rightarrow>
         (and_then r (\<lambda>file. Inr \<lparr>sg_file = file, sg_path = path, sg_offset = 0, sg_committed = False\<rparr>),
          (s\<lparr>st_sequence := st_sequence s + 1\<rparr>, f)))"

definition store_remove :: "('f, 'h) fsys \<Rightarrow> path \<Rightarrow> narurl \<Rightarrow> ('f, store_error, removed) io" where
  "store_remove F root url = (\<lambda>f.
     let path = store_path root url in
     case fs_remove_file F path f of
       (removed, f) \<Rightarrow>
         if absent removed then (Inr Absent, f)
         else (and_then (ctx (ST_Remove path) removed) (\<lambda>_. Inr Deleted), f))"

text \<open>\<open>entries\<close>: one directory level; the first entry that cannot be read fails the listing.\<close>

fun all_entries :: "path \<Rightarrow> (io_error + path) list \<Rightarrow> store_error + path list" where
  "all_entries path [] = Inr []"
| "all_entries path (entry # rest) =
     and_then (ctx (ST_List path) entry) (\<lambda>p.
     and_then (all_entries path rest) (\<lambda>ps. Inr (p # ps)))"

definition entries :: "('f, 'h) fsys \<Rightarrow> path \<Rightarrow> ('f, store_error, path list) io" where
  "entries F path =
     io_then (io_ctx (ST_List path) (fs_read_dir F path)) (\<lambda>listing.
     io_lift (all_entries path listing))"

text \<open>\<open>file_name\<close> and \<open>to_str\<close>.\<close>

definition file_name_str :: "path \<Rightarrow> string option" where
  "file_name_str p =
     (if p = [] then None else case from_utf8 (last p) of Inl _ \<Rightarrow> None | Inr name \<Rightarrow> Some name)"

definition scan_artifact :: "'e ext \<Rightarrow> path \<Rightarrow> scan \<Rightarrow> scan" where
  "scan_artifact X artifact sc =
     (case map_option (narurl_parse X) (file_name_str artifact) of
        Some (Inr url) \<Rightarrow> sc\<lparr>sc_artifacts := sc_artifacts sc @ [url]\<rparr>
      | _ \<Rightarrow> sc\<lparr>sc_unrecognized := sc_unrecognized sc @ [artifact]\<rparr>)"

fun scan_shards :: "'e ext \<Rightarrow> ('f, 'h) fsys \<Rightarrow> path list \<Rightarrow> scan \<Rightarrow> ('f, store_error, scan) io" where
  "scan_shards X F [] sc = io_return sc"
| "scan_shards X F (shard # shards) sc =
     io_then (entries F shard) (\<lambda>artifacts.
     scan_shards X F shards (fold (scan_artifact X) artifacts sc))"

definition store_scan :: "'e ext \<Rightarrow> ('f, 'h) fsys \<Rightarrow> path \<Rightarrow> ('f, store_error, scan) io" where
  "store_scan X F root =
     io_then (entries F (root @ [ARTIFACTS])) (\<lambda>shards.
     scan_shards X F shards \<lparr>sc_artifacts = [], sc_unrecognized = []\<rparr>)"

fun sweep :: "('f, 'h) fsys \<Rightarrow> path list \<Rightarrow> nat \<Rightarrow> ('f, store_error, nat) io" where
  "sweep F [] swept = io_return swept"
| "sweep F (path # paths) swept =
     io_then (io_ctx (ST_Remove path) (fs_remove_file F path)) (\<lambda>_. sweep F paths (swept + 1))"

definition sweep_staging :: "('f, 'h) fsys \<Rightarrow> path \<Rightarrow> ('f, store_error, nat) io" where
  "sweep_staging F root = io_then (entries F (root @ [STAGING])) (\<lambda>paths. sweep F paths 0)"

definition staged_write :: "('f, 'h) fsys \<Rightarrow> string \<Rightarrow> 'h staged \<Rightarrow> ('f, store_error, 'h staged) io" where
  "staged_write F bytes s =
     io_then (io_ctx (ST_Write (sg_path s)) (fs_write_all_at F (sg_file s) bytes (sg_offset s))) (\<lambda>_.
     io_return (s\<lparr>sg_offset := sg_offset s + u64_from_usize (length bytes)\<rparr>))"

text \<open>Dropping a \<open>Staged\<close>: the file is removed unless it was committed, and a failure is only logged.\<close>

definition staged_drop :: "('f, 'h) fsys \<Rightarrow> 'h staged \<Rightarrow> 'f \<Rightarrow> 'f" where
  "staged_drop F s f = (if sg_committed s then f else snd (fs_remove_file F (sg_path s) f))"

text \<open>\<open>commit\<close> owns the \<open>Staged\<close>: an early return drops it uncommitted.\<close>

definition staged_commit ::
  "('f, 'h) fsys \<Rightarrow> path \<Rightarrow> 'h staged \<Rightarrow> narurl \<Rightarrow> ('f, store_error, u64) io" where
  "staged_commit F root s url = (\<lambda>f.
     let target = store_path root url;
         shard = (if target = [] then target else butlast target) in
     case
       (io_then (io_ctx (ST_Sync (sg_path s)) (fs_sync_all F (sg_file s))) (\<lambda>_.
        io_then (io_ctx (ST_CreateDir shard) (fs_create_dir_all F shard)) (\<lambda>_.
        io_ctx (ST_Rename (sg_path s) target) (fs_rename F (sg_path s) target)))) f
     of
       (Inl e, f) \<Rightarrow> (Inl e, staged_drop F s f)
     | (Inr _, f) \<Rightarrow> (Inr (sg_offset s), staged_drop F (s\<lparr>sg_committed := True\<rparr>) f))"

definition staged_abort :: "('f, 'h) fsys \<Rightarrow> 'h staged \<Rightarrow> ('f, store_error, unit) io" where
  "staged_abort F s = (\<lambda>f.
     let s = s\<lparr>sg_committed := True\<rparr> in
     case fs_remove_file F (sg_path s) f of
       (removed, f) \<Rightarrow>
         if absent removed then (Inr (), staged_drop F s f)
         else (ctx (ST_Remove (sg_path s)) removed, staged_drop F s f))"

section \<open>What the file system promises\<close>

text \<open>
  The view: which names exist and which file each one is (\<open>fv_names\<close>), what each file holds
  (\<open>fv_data\<close>), and which file an open handle is (\<open>fv_file\<close>).
\<close>

record ('f, 'h) fs_views =
  fv_names :: "'f \<Rightarrow> path \<Rightarrow> nat option"
  fv_data :: "'f \<Rightarrow> nat \<Rightarrow> string"
  fv_file :: "'h \<Rightarrow> nat"

definition same_view :: "('f, 'h) fs_views \<Rightarrow> 'f \<Rightarrow> 'f \<Rightarrow> bool" where
  "same_view V f g \<longleftrightarrow> fv_names V g = fv_names V f \<and> fv_data V g = fv_data V f"

text \<open>
  A write that succeeds ends within the 64-bit offsets a file can have. A read may be short, but it
  is empty only at the end of the file or for an empty buffer.
\<close>

definition read_of :: "string \<Rightarrow> nat \<Rightarrow> nat \<Rightarrow> string \<Rightarrow> bool" where
  "read_of data at cap s \<longleftrightarrow>
     (\<exists>k \<le> cap. s = take k (drop at data)) \<and> (s = [] \<longrightarrow> cap = 0 \<or> length data \<le> at)"

text \<open>A listing has children only, and all that lead to a file, unless an entry failed to read.\<close>

definition listing_of :: "(path \<Rightarrow> nat option) \<Rightarrow> path \<Rightarrow> (io_error + path) list \<Rightarrow> bool" where
  "listing_of names p es \<longleftrightarrow>
     (\<forall>q \<in> set es. isl q \<or> (\<exists>c. q = Inr (p @ [c]))) \<and>
     (\<forall>c rest. names (p @ c # rest) \<noteq> None \<longrightarrow> (\<exists>e. Inl e \<in> set es) \<or> Inr (p @ [c]) \<in> set es)"

definition splice :: "string \<Rightarrow> nat \<Rightarrow> string \<Rightarrow> string" where
  "splice old at new =
     take at old @ replicate (at - length old) (char_of (0 :: nat)) @ new @ drop (at + length new) old"

text \<open>Two names are never one file: bincache makes no hard links.\<close>

definition no_links :: "('f, 'h) fs_views \<Rightarrow> 'f \<Rightarrow> bool" where
  "no_links V f \<longleftrightarrow> (\<forall>p q i. fv_names V f p = Some i \<longrightarrow> fv_names V f q = Some i \<longrightarrow> p = q)"

definition fs_query_laws :: "('f, 'h) fsys \<Rightarrow> ('f, 'h) fs_views \<Rightarrow> bool" where
  "fs_query_laws F V \<longleftrightarrow>
     (\<forall>p f r f'. fs_create_dir_all F p f = (r, f') \<longrightarrow> same_view V f f') \<and>
     (\<forall>p f r f'. fs_open F p f = (r, f') \<longrightarrow> same_view V f f' \<and>
        (\<forall>h. r = Inr h \<longrightarrow> fv_names V f p = Some (fv_file V h)) \<and>
        (\<forall>e. r = Inl e \<longrightarrow> io_kind_of e = Io_NotFound \<longrightarrow> fv_names V f p = None)) \<and>
     (\<forall>h f r f'. fs_metadata_len F h f = (r, f') \<longrightarrow> same_view V f f' \<and>
        (\<forall>n. r = Inr n \<longrightarrow> unat n = length (fv_data V f (fv_file V h)))) \<and>
     (\<forall>h cap at f r f'. fs_read_at F h cap at f = (r, f') \<longrightarrow> same_view V f f' \<and>
        (\<forall>s. r = Inr s \<longrightarrow> read_of (fv_data V f (fv_file V h)) (unat at) cap s)) \<and>
     (\<forall>h f r f'. fs_sync_all F h f = (r, f') \<longrightarrow> same_view V f f') \<and>
     (\<forall>p f r f'. fs_read_dir F p f = (r, f') \<longrightarrow> same_view V f f' \<and>
        (\<forall>es. r = Inr es \<longrightarrow> listing_of (fv_names V f) p es))"

definition fs_update_laws :: "('f, 'h) fsys \<Rightarrow> ('f, 'h) fs_views \<Rightarrow> bool" where
  "fs_update_laws F V \<longleftrightarrow>
     (\<forall>p f h f'. fs_create F p f = (Inr h, f') \<longrightarrow>
        fv_names V f' = (fv_names V f)(p \<mapsto> fv_file V h) \<and>
        fv_data V f' = (fv_data V f)(fv_file V h := []) \<and>
        (fv_names V f p = Some (fv_file V h) \<or> (\<forall>q. fv_names V f q \<noteq> Some (fv_file V h)))) \<and>
     (\<forall>p f e f'. fs_create F p f = (Inl e, f') \<longrightarrow> same_view V f f') \<and>
     (\<forall>h bs at f r f'. fs_write_all_at F h bs at f = (r, f') \<longrightarrow>
        fv_names V f' = fv_names V f \<and>
        (\<forall>i. i \<noteq> fv_file V h \<longrightarrow> fv_data V f' i = fv_data V f i) \<and>
        (r = Inr () \<longrightarrow> unat at + length bs < 2 ^ 64 \<and>
           fv_data V f' (fv_file V h) = splice (fv_data V f (fv_file V h)) (unat at) bs)) \<and>
     (\<forall>p q f f'. fs_rename F p q f = (Inr (), f') \<longrightarrow>
        (\<exists>i. fv_names V f p = Some i \<and> fv_names V f' = (fv_names V f)(p := None, q := Some i)) \<and>
        fv_data V f' = fv_data V f) \<and>
     (\<forall>p q f e f'. fs_rename F p q f = (Inl e, f') \<longrightarrow> same_view V f f') \<and>
     (\<forall>p f f'. fs_remove_file F p f = (Inr (), f') \<longrightarrow>
        fv_names V f' = (fv_names V f)(p := None) \<and> fv_data V f' = fv_data V f) \<and>
     (\<forall>p f e f'. fs_remove_file F p f = (Inl e, f') \<longrightarrow> same_view V f f' \<and>
        (io_kind_of e = Io_NotFound \<longrightarrow> fv_names V f p = None))"

definition fs_laws :: "('f, 'h) fsys \<Rightarrow> ('f, 'h) fs_views \<Rightarrow> bool" where
  "fs_laws F V \<longleftrightarrow> fs_query_laws F V \<and> fs_update_laws F V"

end
