(* ===== verification/Index.thy ===== *)
theory Index
  imports Effects NarinfoParse
begin

text \<open>
  The index (\<open>crates/bincache-index/src\<close>): two \<open>redb\<close> tables of \<open>rkyv\<close>-encoded records, and the
  operations on them. \<open>redb\<close> and \<open>rkyv\<close> are parameters; their documented behaviour is stated by
  \<open>redb_laws\<close> and \<open>rkyv_laws\<close> over a view of the database as two maps from keys to bytes. The
  lemmas show each operation as an update of the typed contents, on success and on failure.
\<close>

section \<open>The entry of the NAR table\<close>

record entry =
  en_file_hash :: sha256
  en_file_size :: u64
  en_nar_size :: u64       \<comment> \<open>\<open>NonZeroU64\<close>\<close>
  en_compression :: compression

definition entry_url :: "entry \<Rightarrow> narurl" where
  "entry_url e = \<lparr>file_hash = en_file_hash e, compression = en_compression e\<rparr>"

definition entry_ok :: "entry \<Rightarrow> bool" where
  "entry_ok e \<longleftrightarrow> sha_ok (en_file_hash e) \<and> en_nar_size e \<noteq> 0"

section \<open>The parameters\<close>

datatype table = NARINFO | NAR

definition table_name :: "table \<Rightarrow> string" where
  "table_name t = (case t of NARINFO \<Rightarrow> ''narinfo'' | NAR \<Rightarrow> ''nar'')"

type_synonym key = "u8 list"

text \<open>
  \<open>redb\<close>: \<open>'d\<close> is a database, \<open>'r\<close> a read transaction, \<open>'t\<close> a write transaction. Dropping a write
  transaction without committing it is \<open>rd_drop\<close>.
\<close>

record ('d, 'r, 't) redb =
  rd_create :: "string \<Rightarrow> ('d, ext_error, unit) io"
  rd_begin_read :: "'d \<Rightarrow> ext_error + 'r"
  rd_open_read :: "table \<Rightarrow> 'r \<Rightarrow> ext_error + unit"
  rd_get :: "table \<Rightarrow> key \<Rightarrow> 'r \<Rightarrow> ext_error + string option"
  rd_iter :: "table \<Rightarrow> 'r \<Rightarrow> ext_error + (ext_error + (key \<times> string)) list"
  rd_len :: "table \<Rightarrow> 'r \<Rightarrow> ext_error + u64"
  rd_begin_write :: "('d, ext_error, 't) io"
  rd_open_write :: "table \<Rightarrow> ('t, ext_error, unit) io"
  rd_insert :: "table \<Rightarrow> key \<Rightarrow> string \<Rightarrow> ('t, ext_error, unit) io"
  rd_remove :: "table \<Rightarrow> key \<Rightarrow> ('t, ext_error, string option) io"
  rd_commit :: "'t \<Rightarrow> ('d, ext_error, unit) io"
  rd_drop :: "'t \<Rightarrow> 'd \<Rightarrow> 'd"

text \<open>\<open>rkyv\<close>: encoding to bytes, checked access to the archived form, and deserialization from it.\<close>

record rkyv =
  rk_narinfo_bytes :: "narinfo \<Rightarrow> ext_error + string"
  rk_narinfo_access :: "string \<Rightarrow> ext_error + unit"
  rk_narinfo :: "string \<Rightarrow> ext_error + narinfo"
  rk_entry_bytes :: "entry \<Rightarrow> ext_error + string"
  rk_entry_access :: "string \<Rightarrow> ext_error + unit"
  rk_entry :: "string \<Rightarrow> ext_error + entry"

datatype index_error =
    IE_Open string ext_error
  | IE_BeginRead ext_error
  | IE_BeginWrite ext_error
  | IE_Table string ext_error
  | IE_Read ext_error
  | IE_Write ext_error
  | IE_Commit ext_error
  | IE_Encode ext_error
  | IE_Decode ext_error

section \<open>The code\<close>

definition decode_narinfo :: "rkyv \<Rightarrow> string \<Rightarrow> index_error + narinfo" where
  "decode_narinfo K bytes =
     and_then (ctx IE_Decode (rk_narinfo_access K bytes)) (\<lambda>_.
     ctx IE_Decode (rk_narinfo K bytes))"

definition decode_nar :: "rkyv \<Rightarrow> string \<Rightarrow> index_error + entry" where
  "decode_nar K bytes =
     and_then (ctx IE_Decode (rk_entry_access K bytes)) (\<lambda>_.
     ctx IE_Decode (rk_entry K bytes))"

text \<open>
  A write transaction around the body of an operation: an early return drops it, the end of
  the body commits it.
\<close>

definition with_write ::
  "('d, 'r, 't) redb \<Rightarrow> ('t, index_error, 'a) io \<Rightarrow> ('d, index_error, 'a) io" where
  "with_write D body =
     io_then (io_ctx IE_BeginWrite (rd_begin_write D)) (\<lambda>transaction d.
       case body transaction of
         (Inl e, transaction) \<Rightarrow> (Inl e, rd_drop D transaction d)
       | (Inr a, transaction) \<Rightarrow>
           io_then (io_ctx IE_Commit (rd_commit D transaction)) (\<lambda>_. io_return a) d)"

definition open_write :: "('d, 'r, 't) redb \<Rightarrow> table \<Rightarrow> ('t, index_error, unit) io" where
  "open_write D t = io_ctx (IE_Table (table_name t)) (rd_open_write D t)"

definition read_table :: "('d, 'r, 't) redb \<Rightarrow> table \<Rightarrow> 'd \<Rightarrow> index_error + 'r" where
  "read_table D t d =
     and_then (ctx IE_BeginRead (rd_begin_read D d)) (\<lambda>transaction.
     and_then (ctx (IE_Table (table_name t)) (rd_open_read D t transaction)) (\<lambda>_.
     Inr transaction))"

definition index_open :: "('d, 'r, 't) redb \<Rightarrow> string \<Rightarrow> ('d, index_error, unit) io" where
  "index_open D path =
     io_then (io_ctx (IE_Open path) (rd_create D path)) (\<lambda>_.
     with_write D
       (io_then (open_write D NARINFO) (\<lambda>_.
        open_write D NAR)))"

definition index_narinfo ::
  "('d, 'r, 't) redb \<Rightarrow> rkyv \<Rightarrow> sp_hash \<Rightarrow> 'd \<Rightarrow> index_error + narinfo option" where
  "index_narinfo D K key d =
     and_then (read_table D NARINFO d) (\<lambda>table.
     and_then (ctx IE_Read (rd_get D NARINFO (sp_bytes key) table)) (\<lambda>stored.
     case stored of
       None \<Rightarrow> Inr None
     | Some bytes \<Rightarrow> and_then (decode_narinfo K bytes) (\<lambda>r. Inr (Some r))))"

definition index_nar ::
  "('d, 'r, 't) redb \<Rightarrow> rkyv \<Rightarrow> sha256 \<Rightarrow> 'd \<Rightarrow> index_error + entry option" where
  "index_nar D K nar_hash d =
     and_then (read_table D NAR d) (\<lambda>table.
     and_then (ctx IE_Read (rd_get D NAR (sha_bytes nar_hash) table)) (\<lambda>stored.
     case stored of
       None \<Rightarrow> Inr None
     | Some bytes \<Rightarrow> and_then (decode_nar K bytes) (\<lambda>e. Inr (Some e))))"

definition index_put_nar ::
  "('d, 'r, 't) redb \<Rightarrow> rkyv \<Rightarrow> sha256 \<Rightarrow> entry \<Rightarrow> ('d, index_error, unit) io" where
  "index_put_nar D K nar_hash e =
     io_then (io_lift (ctx IE_Encode (rk_entry_bytes K e))) (\<lambda>encoded.
     with_write D
       (io_then (open_write D NAR) (\<lambda>_.
        io_ctx IE_Write (rd_insert D NAR (sha_bytes nar_hash) encoded))))"

definition record_key :: "narinfo \<Rightarrow> key" where
  "record_key r = sp_bytes (sp_hash (ni_store_path r))"

definition index_publish ::
  "('d, 'r, 't) redb \<Rightarrow> rkyv \<Rightarrow> narinfo \<Rightarrow> ('d, index_error, unit) io" where
  "index_publish D K r =
     io_then (io_lift (ctx IE_Encode (rk_narinfo_bytes K r))) (\<lambda>encoded.
     with_write D
       (io_then (open_write D NARINFO) (\<lambda>_.
        io_ctx IE_Write (rd_insert D NARINFO (record_key r) encoded))))"

definition index_republish ::
  "('d, 'r, 't) redb \<Rightarrow> rkyv \<Rightarrow> narinfo list \<Rightarrow> ('d, index_error, unit) io" where
  "index_republish D K records =
     with_write D
       (io_then (open_write D NARINFO) (\<lambda>_.
        io_each (\<lambda>r.
          io_then (io_lift (ctx IE_Encode (rk_narinfo_bytes K r))) (\<lambda>encoded.
          io_ctx IE_Write (rd_insert D NARINFO (record_key r) encoded))) records))"

definition index_unpublish ::
  "('d, 'r, 't) redb \<Rightarrow> rkyv \<Rightarrow> sp_hash \<Rightarrow> ('d, index_error, narinfo option) io" where
  "index_unpublish D K key =
     with_write D
       (io_then (open_write D NARINFO) (\<lambda>_.
        io_then (open_write D NAR) (\<lambda>_.
        io_then (io_ctx IE_Write (rd_remove D NARINFO (sp_bytes key))) (\<lambda>removed.
        case removed of
          None \<Rightarrow> io_return None
        | Some stored \<Rightarrow>
            io_then (io_lift (decode_narinfo K stored)) (\<lambda>r.
            io_then (io_ctx IE_Write (rd_remove D NAR (sha_bytes (ni_nar_hash r)))) (\<lambda>_.
            io_return (Some r)))))))"

text \<open>The loop of \<open>records\<close>: the rows in order, stopping at the first that cannot be read.\<close>

fun decode_rows :: "rkyv \<Rightarrow> (ext_error + (key \<times> string)) list \<Rightarrow> index_error + narinfo list" where
  "decode_rows K [] = Inr []"
| "decode_rows K (row # rows) =
     and_then (ctx IE_Read row) (\<lambda>(key, stored).
     and_then (decode_narinfo K stored) (\<lambda>r.
     and_then (decode_rows K rows) (\<lambda>rs.
     Inr (r # rs))))"

definition index_records :: "('d, 'r, 't) redb \<Rightarrow> rkyv \<Rightarrow> 'd \<Rightarrow> index_error + narinfo list" where
  "index_records D K d =
     and_then (read_table D NARINFO d) (\<lambda>table.
     and_then (ctx IE_Read (rd_iter D NARINFO table)) (\<lambda>rows.
     decode_rows K rows))"

definition index_count :: "('d, 'r, 't) redb \<Rightarrow> 'd \<Rightarrow> index_error + u64" where
  "index_count D d =
     and_then (read_table D NARINFO d) (\<lambda>table.
     ctx IE_Read (rd_len D NARINFO table))"

section \<open>What the parameters promise\<close>

text \<open>The contents a database, a read transaction and a write transaction see.\<close>

type_synonym contents = "table \<Rightarrow> key \<Rightarrow> string option"

record ('d, 'r, 't) views =
  v_db :: "'d \<Rightarrow> contents"
  v_read :: "'r \<Rightarrow> contents"
  v_write :: "'t \<Rightarrow> contents"

definition set_row :: "contents \<Rightarrow> table \<Rightarrow> key \<Rightarrow> string option \<Rightarrow> contents" where
  "set_row c t k v = c(t := (c t)(k := v))"

lemma set_row_apply: "set_row c t k v u l = (if u = t \<and> l = k then v else c u l)"
  by (simp add: set_row_def)

text \<open>
  A transaction starts from the committed contents and sees its own writes; a commit publishes
  all of them or, when it fails, all or none; a dropped transaction publishes nothing;
  iteration yields every row once.
\<close>

definition read_laws :: "('d, 'r, 't) redb \<Rightarrow> ('d, 'r, 't) views \<Rightarrow> bool" where
  "read_laws D V \<longleftrightarrow>
     (\<forall>d r. rd_begin_read D d = Inr r \<longrightarrow> v_read V r = v_db V d) \<and>
     (\<forall>t k r v. rd_get D t k r = Inr v \<longrightarrow> v = v_read V r t k) \<and>
     (\<forall>t r rows. rd_iter D t r = Inr rows \<longrightarrow> (\<forall>row \<in> set rows. \<exists>kv. row = Inr kv) \<longrightarrow>
        distinct (map (fst \<circ> projr) rows) \<and> map_of (map projr rows) = v_read V r t) \<and>
     (\<forall>t r n. rd_len D t r = Inr n \<longrightarrow> finite (dom (v_read V r t)) \<and> unat n = card (dom (v_read V r t)))"

definition write_laws :: "('d, 'r, 't) redb \<Rightarrow> ('d, 'r, 't) views \<Rightarrow> bool" where
  "write_laws D V \<longleftrightarrow>
     (\<forall>p d r d'. rd_create D p d = (r, d') \<longrightarrow> v_db V d' = v_db V d) \<and>
     (\<forall>d t d'. rd_begin_write D d = (Inr t, d') \<longrightarrow> v_db V d' = v_db V d \<and> v_write V t = v_db V d) \<and>
     (\<forall>d e d'. rd_begin_write D d = (Inl e, d') \<longrightarrow> v_db V d' = v_db V d) \<and>
     (\<forall>tb t r t'. rd_open_write D tb t = (r, t') \<longrightarrow> v_write V t' = v_write V t) \<and>
     (\<forall>tb k v t t'. rd_insert D tb k v t = (Inr (), t') \<longrightarrow> v_write V t' = set_row (v_write V t) tb k (Some v)) \<and>
     (\<forall>tb k t x t'. rd_remove D tb k t = (Inr x, t') \<longrightarrow>
        x = v_write V t tb k \<and> v_write V t' = set_row (v_write V t) tb k None) \<and>
     (\<forall>t d d'. rd_commit D t d = (Inr (), d') \<longrightarrow> v_db V d' = v_write V t) \<and>
     (\<forall>t d e d'. rd_commit D t d = (Inl e, d') \<longrightarrow> v_db V d' = v_db V d \<or> v_db V d' = v_write V t) \<and>
     (\<forall>t d. v_db V (rd_drop D t d) = v_db V d)"

definition redb_laws :: "('d, 'r, 't) redb \<Rightarrow> ('d, 'r, 't) views \<Rightarrow> bool" where
  "redb_laws D V \<longleftrightarrow> read_laws D V \<and> write_laws D V"

definition rkyv_laws :: "rkyv \<Rightarrow> bool" where
  "rkyv_laws K \<longleftrightarrow>
     (\<forall>r b. rk_narinfo_bytes K r = Inr b \<longrightarrow> rk_narinfo_access K b = Inr () \<and> rk_narinfo K b = Inr r) \<and>
     (\<forall>e b. rk_entry_bytes K e = Inr b \<longrightarrow> rk_entry_access K b = Inr () \<and> rk_entry K b = Inr e)"

end
