(* ===== verification/Upload.thy ===== *)
theory Upload
  imports Store Index Hash
begin

text \<open>
  The NAR upload pipeline (\<open>crates/bincache-ingest/src/upload.rs\<close>, \<open>fault.rs\<close>): a typestate machine
  whose states are three record types. The zstd encoder is the parameter \<open>Z\<close>. An operation that
  consumes the upload and fails drops its staging file, and the model does so too.
\<close>

section \<open>The encoder parameter\<close>

text \<open>
  \<open>zstd::stream::write::Encoder<Vec<u8>>\<close>: \<open>zs_out\<close> is \<open>get_ref\<close>, \<open>zs_take\<close> is \<open>mem::take(get_mut())\<close>,
  and \<open>zs_finish\<close> returns what is left in the vector with the frame's end.
\<close>

record 'z zstd =
  zs_new :: "int \<Rightarrow> io_error + 'z"
  zs_write_all :: "string \<Rightarrow> ('z, io_error, unit) io"
  zs_out :: "'z \<Rightarrow> string"
  zs_take :: "'z \<Rightarrow> 'z"
  zs_finish :: "'z \<Rightarrow> io_error + string"

section \<open>The code\<close>

datatype fault = Client | Server

definition DRAIN_THRESHOLD :: nat where "DRAIN_THRESHOLD = 256 * 1024"
definition STORED_AS :: compression where "STORED_AS = Zstd"

datatype upload_error =
    UE_Stage store_error
  | UE_Compress io_error
  | UE_HashMismatch sha256 sha256   \<comment> \<open>expected, found\<close>
  | UE_Empty
  | UE_Record index_error

fun upload_fault :: "upload_error \<Rightarrow> fault" where
  "upload_fault (UE_HashMismatch _ _) = Client"
| "upload_fault UE_Empty = Client"
| "upload_fault (UE_Stage _) = Server"
| "upload_fault (UE_Compress _) = Server"
| "upload_fault (UE_Record _) = Server"

datatype level = Level (level_get: int)

definition level_new :: "int \<Rightarrow> level option" where
  "level_new l = (if - 7 \<le> l \<and> l \<le> 22 then Some (Level l) else None)"

record ('e, 'z) receiving =
  rc_encoder :: 'z
  rc_nar :: 'e
  rc_file :: 'e
  rc_nar_size :: u64

record compressed =
  cm_nar_hash :: sha256
  cm_nar_size :: u64
  cm_file_hash :: sha256
  cm_file_size :: u64

record verified =
  vf_nar_hash :: sha256
  vf_nar_size :: u64      \<comment> \<open>\<open>NonZeroU64\<close>\<close>
  vf_file_hash :: sha256
  vf_file_size :: u64

record ('h, 's) upload =
  up_staged :: "'h staged"
  up_expected :: sha256
  up_state :: 's

type_synonym ('h, 'e, 'z) receiving_upload = "('h, ('e, 'z) receiving) upload"

text \<open>\<open>Upload::new\<close> owns the staged file: when the encoder cannot be created, it is dropped.\<close>

definition upload_new ::
  "'e ext \<Rightarrow> 'z zstd \<Rightarrow> ('f, 'h) fsys \<Rightarrow> 'h staged \<Rightarrow> sha256 \<Rightarrow> level \<Rightarrow>
     ('f, upload_error, ('h, 'e, 'z) receiving_upload) io" where
  "upload_new X Z F staged expected lvl = (\<lambda>f.
     case zs_new Z (level_get lvl) of
       Inl e \<Rightarrow> (Inl (UE_Compress e), staged_drop F staged f)
     | Inr encoder \<Rightarrow>
         (Inr \<lparr>up_staged = staged, up_expected = expected,
            up_state = \<lparr>rc_encoder = encoder, rc_nar = hasher_default X, rc_file = hasher_default X,
              rc_nar_size = 0\<rparr>\<rparr>, f))"

definition upload_drain ::
  "'e ext \<Rightarrow> 'z zstd \<Rightarrow> ('f, 'h) fsys \<Rightarrow> (('h, 'e, 'z) receiving_upload \<times> 'f, upload_error, unit) io" where
  "upload_drain X Z F = (\<lambda>(u, f).
     let st = up_state u;
         produced = zs_out Z (rc_encoder st);
         st = st\<lparr>rc_encoder := zs_take Z (rc_encoder st)\<rparr>
     in if produced = [] then (Inr (), (u\<lparr>up_state := st\<rparr>, f))
        else
          let u = u\<lparr>up_state := st\<lparr>rc_file := hasher_update X (rc_file st) produced\<rparr>\<rparr> in
          case staged_write F produced (up_staged u) f of
            (Inl e, f) \<Rightarrow> (Inl (UE_Stage e), (u, f))
          | (Inr staged, f) \<Rightarrow> (Inr (), (u\<lparr>up_staged := staged\<rparr>, f)))"

definition upload_write ::
  "'e ext \<Rightarrow> 'z zstd \<Rightarrow> ('f, 'h) fsys \<Rightarrow> string \<Rightarrow>
     (('h, 'e, 'z) receiving_upload \<times> 'f, upload_error, unit) io" where
  "upload_write X Z F chunk = (\<lambda>(u, f).
     let st = up_state u;
         st = st\<lparr>rc_nar := hasher_update X (rc_nar st) chunk\<rparr>;
         st = st\<lparr>rc_nar_size := rc_nar_size st + u64_from_usize (length chunk)\<rparr>
     in case zs_write_all Z chunk (rc_encoder st) of
          (Inl e, encoder) \<Rightarrow> (Inl (UE_Compress e), (u\<lparr>up_state := st\<lparr>rc_encoder := encoder\<rparr>\<rparr>, f))
        | (Inr _, encoder) \<Rightarrow>
            let u = u\<lparr>up_state := st\<lparr>rc_encoder := encoder\<rparr>\<rparr> in
            if length (zs_out Z encoder) \<ge> DRAIN_THRESHOLD then upload_drain X Z F (u, f)
            else (Inr (), (u, f)))"

definition upload_finish ::
  "'e ext \<Rightarrow> 'z zstd \<Rightarrow> ('f, 'h) fsys \<Rightarrow> ('h, 'e, 'z) receiving_upload \<Rightarrow>
     ('f, upload_error, ('h, compressed) upload) io" where
  "upload_finish X Z F u = (\<lambda>f.
     case upload_drain X Z F (u, f) of
       (Inl e, (u, f)) \<Rightarrow> (Inl e, staged_drop F (up_staged u) f)
     | (Inr _, (u, f)) \<Rightarrow>
         let st = up_state u in
         case zs_finish Z (rc_encoder st) of
           Inl e \<Rightarrow> (Inl (UE_Compress e), staged_drop F (up_staged u) f)
         | Inr tail \<Rightarrow>
             let file = hasher_update X (rc_file st) tail in
             case staged_write F tail (up_staged u) f of
               (Inl e, f) \<Rightarrow> (Inl (UE_Stage e), staged_drop F (up_staged u) f)
             | (Inr staged, f) \<Rightarrow>
                 (Inr \<lparr>up_staged = staged, up_expected = up_expected u,
                    up_state = \<lparr>cm_nar_hash = hasher_finish X (rc_nar st), cm_nar_size = rc_nar_size st,
                      cm_file_hash = hasher_finish X file, cm_file_size = sg_offset staged\<rparr>\<rparr>, f))"

definition upload_verify ::
  "('f, 'h) fsys \<Rightarrow> ('h, compressed) upload \<Rightarrow> ('f, upload_error, ('h, verified) upload) io" where
  "upload_verify F u = (\<lambda>f.
     let st = up_state u in
     if cm_nar_hash st \<noteq> up_expected u
     then (Inl (UE_HashMismatch (up_expected u) (cm_nar_hash st)), staged_drop F (up_staged u) f)
     else if cm_nar_size st = 0 then (Inl UE_Empty, staged_drop F (up_staged u) f)
     else (Inr \<lparr>up_staged = up_staged u, up_expected = up_expected u,
             up_state = \<lparr>vf_nar_hash = cm_nar_hash st, vf_nar_size = cm_nar_size st,
               vf_file_hash = cm_file_hash st, vf_file_size = cm_file_size st\<rparr>\<rparr>, f))"

definition verified_url :: "verified \<Rightarrow> narurl" where
  "verified_url st = \<lparr>file_hash = vf_file_hash st, compression = STORED_AS\<rparr>"

definition verified_entry :: "verified \<Rightarrow> entry" where
  "verified_entry st = \<lparr>en_file_hash = vf_file_hash st, en_file_size = vf_file_size st,
     en_nar_size = vf_nar_size st, en_compression = STORED_AS\<rparr>"

text \<open>\<open>store\<close>: first the artifact, then its entry.\<close>

definition upload_store ::
  "('f, 'h) fsys \<Rightarrow> ('d, 'r, 't) redb \<Rightarrow> rkyv \<Rightarrow> path \<Rightarrow> ('h, verified) upload \<Rightarrow>
     ('f \<times> 'd, upload_error, entry) io" where
  "upload_store F D K root u = (\<lambda>(f, d).
     let st = up_state u in
     case staged_commit F root (up_staged u) (verified_url st) f of
       (Inl e, f) \<Rightarrow> (Inl (UE_Stage e), (f, d))
     | (Inr _, f) \<Rightarrow>
         case index_put_nar D K (vf_nar_hash st) (verified_entry st) d of
           (Inl e, d) \<Rightarrow> (Inl (UE_Record e), (f, d))
         | (Inr _, d) \<Rightarrow> (Inr (verified_entry st), (f, d)))"

definition upload_abort :: "('f, 'h) fsys \<Rightarrow> ('h, 's) upload \<Rightarrow> ('f, upload_error, unit) io" where
  "upload_abort F u = io_ctx UE_Stage (staged_abort F (up_staged u))"

text \<open>A body received chunk by chunk, as the caller's loop does.\<close>

definition upload_chunks ::
  "'e ext \<Rightarrow> 'z zstd \<Rightarrow> ('f, 'h) fsys \<Rightarrow> string list \<Rightarrow>
     (('h, 'e, 'z) receiving_upload \<times> 'f, upload_error, unit) io" where
  "upload_chunks X Z F chunks = io_each (upload_write X Z F) chunks"

section \<open>What the encoder promises\<close>

text \<open>
  \<open>zv_in\<close> is the input so far, \<open>zv_gone\<close> the output already taken out of the vector, and \<open>unzstd\<close> the
  decompressor: the whole output of a finished frame decompresses to the whole input.
\<close>

record 'z zstd_views =
  zv_in :: "'z \<Rightarrow> string"
  zv_gone :: "'z \<Rightarrow> string"
  unzstd :: "string \<Rightarrow> string option"

definition zstd_laws :: "'z zstd \<Rightarrow> 'z zstd_views \<Rightarrow> bool" where
  "zstd_laws Z W \<longleftrightarrow>
     (\<forall>l z. zs_new Z l = Inr z \<longrightarrow> zv_in W z = [] \<and> zv_gone W z = []) \<and>
     (\<forall>bs z z'. zs_write_all Z bs z = (Inr (), z') \<longrightarrow>
        zv_in W z' = zv_in W z @ bs \<and> zv_gone W z' = zv_gone W z) \<and>
     (\<forall>z. zs_out Z (zs_take Z z) = [] \<and> zv_in W (zs_take Z z) = zv_in W z \<and>
        zv_gone W (zs_take Z z) = zv_gone W z @ zs_out Z z) \<and>
     (\<forall>z tail. zs_finish Z z = Inr tail \<longrightarrow> unzstd W (zv_gone W z @ tail) = Some (zv_in W z))"

end
