(* ===== verification/Ingest.thy ===== *)
theory Ingest
  imports Upload
begin

text \<open>
  The write side (\<open>crates/bincache-ingest/src\<close>): push credentials (\<open>auth.rs\<close>), the composition
  object with its two client operations (\<open>ingest.rs\<close>), and the operator's maintenance operations
  (\<open>maintain.rs\<close>).
\<close>

section \<open>The environment\<close>

text \<open>The third-party parameters bundled, and the mutable state the shared handles reach.\<close>

record ('e, 'z, 'f, 'h, 'd, 'r, 't) env =
  e_ext :: "'e ext"
  e_zstd :: "'z zstd"
  e_fs :: "('f, 'h) fsys"
  e_redb :: "('d, 'r, 't) redb"
  e_rkyv :: rkyv

record ('f, 'd) world =
  w_store :: store
  w_fs :: 'f
  w_db :: 'd

abbreviation w_root :: "('f, 'd) world \<Rightarrow> path" where
  "w_root w \<equiv> st_root (w_store w)"

text \<open>An operation on one part of the world.\<close>

definition on_fs :: "('f, 'e, 'a) io \<Rightarrow> (('f, 'd) world, 'e, 'a) io" where
  "on_fs m = (\<lambda>w. case m (w_fs w) of (r, f) \<Rightarrow> (r, w\<lparr>w_fs := f\<rparr>))"

definition on_db :: "('d, 'e, 'a) io \<Rightarrow> (('f, 'd) world, 'e, 'a) io" where
  "on_db m = (\<lambda>w. case m (w_db w) of (r, d) \<Rightarrow> (r, w\<lparr>w_db := d\<rparr>))"

definition on_fs_db :: "('f \<times> 'd, 'e, 'a) io \<Rightarrow> (('f, 'd) world, 'e, 'a) io" where
  "on_fs_db m = (\<lambda>w. case m (w_fs w, w_db w) of (r, (f, d)) \<Rightarrow> (r, w\<lparr>w_fs := f, w_db := d\<rparr>))"

definition on_store :: "(store \<times> 'f, 'e, 'a) io \<Rightarrow> (('f, 'd) world, 'e, 'a) io" where
  "on_store m = (\<lambda>w. case m (w_store w, w_fs w) of (r, (s, f)) \<Rightarrow> (r, w\<lparr>w_store := s, w_fs := f\<rparr>))"

section \<open>Credentials\<close>

definition ENTROPY :: nat where "ENTROPY = 32"

datatype admission = Admitted | Denied

datatype tokens = Tokens (token_digests: "u8 list list")

definition tokens_new :: "'e ext \<Rightarrow> string list \<Rightarrow> tokens" where
  "tokens_new X ts = Tokens (map (\<lambda>token. sha_bytes (digest X token)) ts)"

definition tokens_len :: "tokens \<Rightarrow> nat" where
  "tokens_len t = length (token_digests t)"

definition tokens_is_empty :: "tokens \<Rightarrow> bool" where
  "tokens_is_empty t \<longleftrightarrow> token_digests t = []"

definition admits :: "'e ext \<Rightarrow> tokens \<Rightarrow> string \<Rightarrow> admission" where
  "admits X t presented =
     (let d = sha_bytes (digest X presented);
          matched = fold (\<lambda>known matched. matched \<or> ct_eq X d known) (token_digests t) False
      in if matched then Admitted else Denied)"

text \<open>\<open>generate\<close>, given the bytes the random number generator filled.\<close>

definition token_generate :: "'e ext \<Rightarrow> u8 list \<Rightarrow> string" where
  "token_generate X entropy = b64url_encode X entropy"

definition string_of_bytes :: "u8 list \<Rightarrow> string" where
  "string_of_bytes bs = map (\<lambda>b. char_of (unat b)) bs"

definition credential :: "'e ext \<Rightarrow> string \<Rightarrow> string option" where
  "credential X header =
     Option.bind (split_once [CHR '' ''] header) (\<lambda>(scheme, encoded).
     let encoded = trim encoded in
     if eq_ignore_ascii_case scheme ''Bearer'' then Some encoded
     else if eq_ignore_ascii_case scheme ''Basic'' then
       (case b64_decode X encoded of
          Inl _ \<Rightarrow> None
        | Inr decoded \<Rightarrow>
            (case from_utf8 (string_of_bytes decoded) of
               Inl _ \<Rightarrow> None
             | Inr pair \<Rightarrow> map_option snd (split_once [colon] pair)))
     else None)"

section \<open>Receiving and publishing\<close>

datatype ingest_error =
    IG_PreCompressed compression
  | IG_Stage store_error
  | IG_Upload upload_error
  | IG_Narinfo parse_error
  | IG_UnknownNar sha256
  | IG_NarSizeMismatch u64 u64       \<comment> \<open>declared, received\<close>
  | IG_Index index_error

fun ingest_fault :: "ingest_error \<Rightarrow> fault" where
  "ingest_fault (IG_PreCompressed _) = Client"
| "ingest_fault (IG_Narinfo _) = Client"
| "ingest_fault (IG_UnknownNar _) = Client"
| "ingest_fault (IG_NarSizeMismatch _ _) = Client"
| "ingest_fault (IG_Stage _) = Server"
| "ingest_fault (IG_Index _) = Server"
| "ingest_fault (IG_Upload e) = upload_fault e"

text \<open>The fixed part of \<open>Ingest\<close>; its store and index handles reach the world.\<close>

record ingest =
  ig_key :: secret_key
  ig_dir :: dir
  ig_level :: level

definition ingest_receive ::
  "('e, 'z, 'f, 'h, 'd, 'r, 't) env \<Rightarrow> ingest \<Rightarrow> narurl \<Rightarrow>
     (('f, 'd) world, ingest_error, ('h, 'e, 'z) receiving_upload) io" where
  "ingest_receive E ig target =
     io_then (io_lift (ensure (compression target = NoCompression) (IG_PreCompressed (compression target)))) (\<lambda>_.
     io_then (io_ctx IG_Stage (on_store (stage (e_fs E)))) (\<lambda>staged.
     io_ctx IG_Upload (on_fs (upload_new (e_ext E) (e_zstd E) (e_fs E) staged (file_hash target) (ig_level ig)))))"

text \<open>The record that a publish builds: the payload fields from the entry, no client signature.\<close>

definition publish_record :: "narinfo \<Rightarrow> entry \<Rightarrow> narinfo" where
  "publish_record declared e =
     \<lparr>ni_store_path = ni_store_path declared, ni_compression = en_compression e,
      ni_file_hash = en_file_hash e, ni_file_size = en_file_size e,
      ni_nar_hash = ni_nar_hash declared, ni_nar_size = ni_nar_size declared,
      ni_references = ni_references declared, ni_deriver = ni_deriver declared,
      ni_sigs = [], ni_ca = ni_ca declared\<rparr>"

definition ingest_publish ::
  "('e, 'z, 'f, 'h, 'd, 'r, 't) env \<Rightarrow> ingest \<Rightarrow> string \<Rightarrow> ('d, ingest_error, narinfo) io" where
  "ingest_publish E ig body = (\<lambda>d.
     (io_then (io_lift (ctx IG_Narinfo (NarinfoParse.parse (e_ext E) body (ig_dir ig)))) (\<lambda>declared.
      io_then (io_lift (ctx IG_Index (index_nar (e_redb E) (e_rkyv E) (ni_nar_hash declared) d))) (\<lambda>found.
      io_then (io_lift (or_err (IG_UnknownNar (ni_nar_hash declared)) found)) (\<lambda>e.
      io_then (io_lift (ensure (en_nar_size e = ni_nar_size declared)
        (IG_NarSizeMismatch (ni_nar_size declared) (en_nar_size e)))) (\<lambda>_.
      let r = resign (e_ext E) (ig_dir ig) (ig_key ig) (publish_record declared e) in
      io_then (io_ctx IG_Index (index_publish (e_redb E) (e_rkyv E) r)) (\<lambda>_.
      io_return r)))))) d)"

section \<open>Maintenance\<close>

definition BATCH :: nat where "BATCH = 1000"

datatype maintain_error = MT_Index index_error | MT_Scan store_error

datatype deletion = D_Removed | D_Absent

record reconciliation =
  rl_orphan_artifacts :: "narurl list"
  rl_records_without_artifacts :: "sp_path list"
  rl_unrecognized_files :: "path list"

definition maintain_delete ::
  "('d, 'r, 't) redb \<Rightarrow> rkyv \<Rightarrow> sp_hash \<Rightarrow> ('d, maintain_error, deletion) io" where
  "maintain_delete D K key =
     io_then (io_ctx MT_Index (index_unpublish D K key)) (\<lambda>removed.
     case removed of None \<Rightarrow> io_return D_Absent | Some _ \<Rightarrow> io_return D_Removed)"

definition maintain_reconcile ::
  "('e, 'z, 'f, 'h, 'd, 'r, 't) env \<Rightarrow> path \<Rightarrow> 'd \<Rightarrow> ('f, maintain_error, reconciliation) io" where
  "maintain_reconcile E root d =
     io_then (io_ctx MT_Scan (store_scan (e_ext E) (e_fs E) root)) (\<lambda>sc.
     io_then (io_lift (ctx MT_Index (index_records (e_redb E) (e_rkyv E) d))) (\<lambda>records.
     let claimed = set (map (\<lambda>r. nar_name (ni_nar r)) records);
         present = set (map nar_name (sc_artifacts sc))
     in io_return \<lparr>
          rl_orphan_artifacts = filter (\<lambda>url. nar_name url \<notin> claimed) (sc_artifacts sc),
          rl_records_without_artifacts =
            map ni_store_path (filter (\<lambda>r. nar_name (ni_nar r) \<notin> present) records),
          rl_unrecognized_files = sc_unrecognized sc\<rparr>))"

text \<open>\<open>chunks\<close> of a positive size.\<close>

function chunks_of :: "nat \<Rightarrow> 'a list \<Rightarrow> 'a list list" where
  "chunks_of n xs = (if xs = [] \<or> n = 0 then [] else take n xs # chunks_of n (drop n xs))"
  by pat_completeness auto
termination by (relation "measure (\<lambda>(n, xs). length xs)") auto

declare chunks_of.simps [simp del]

definition maintain_rotate ::
  "('e, 'z, 'f, 'h, 'd, 'r, 't) env \<Rightarrow> dir \<Rightarrow> secret_key \<Rightarrow> ('d, maintain_error, nat) io" where
  "maintain_rotate E dr key = (\<lambda>d.
     (io_then (io_lift (ctx MT_Index (index_records (e_redb E) (e_rkyv E) d))) (\<lambda>records.
      let rotated = length records;
          records = map (resign (e_ext E) dr key) records
      in io_then (io_each (\<lambda>batch. io_ctx MT_Index (index_republish (e_redb E) (e_rkyv E) batch))
           (chunks_of BATCH records)) (\<lambda>_.
         io_return rotated))) d)"

end
