(* ===== verification/Handler.thy ===== *)
theory Handler
  imports Connection Response Route Range Stats Ingest Cacheinfo
begin

text \<open>
  What each route does (\<open>crates/bincache-serve/src/handler.rs\<close>): one request on one connection,
  from the parsed head to the written answer. Every method of \<open>Cache\<close> is an operation on the
  \<open>serving\<close> state (the connection, the counters, the store and the index), and every early
  return and \<open>?\<close> is a branch. Where a live upload is dropped by an early return, its staging file is
  removed, as \<open>Drop\<close> does.
\<close>

section \<open>State\<close>

definition CACHE_INFO_TYPE :: string where "CACHE_INFO_TYPE = ''text/x-nix-cache-info''"
definition METRICS_TYPE :: string where "METRICS_TYPE = ''text/plain; version=0.0.4''"
definition REFUSAL_TYPE :: string where "REFUSAL_TYPE = ''text/plain; charset=utf-8''"

text \<open>
  The last two constructors are not errors of the code: \<open>HE_Panic\<close> is the panic of indexing a shard
  that does not exist, and \<open>HE_Hang\<close> says that a loop has not returned within its fuel. Handler
  lemmas show that neither occurs.
\<close>

datatype handler_error =
    HE_Connection conn_error
  | HE_Index index_error
  | HE_Store store_error
  | HE_Upload upload_error
  | HE_Panic
  | HE_Hang

record cache =
  ca_ingest :: ingest
  ca_tokens :: tokens
  ca_info :: string

definition cache_new :: "ingest \<Rightarrow> tokens \<Rightarrow> cache_info \<Rightarrow> cache" where
  "cache_new ig ts info = \<lparr>ca_ingest = ig, ca_tokens = ts, ca_info = cacheinfo_render info\<rparr>"

datatype drained = Consumed | Unread

record refusal =
  rf_status :: status
  rf_message :: "string option"

text \<open>\<open>Exchange\<close>; its connection is part of the state.\<close>

record exchange =
  ex_shard :: nat
  ex_request :: request

record ('s, 'f, 'd) serving =
  hs_conn :: "'s conn"
  hs_stats :: shards
  hs_world :: "('f, 'd) world"

type_synonym ('s, 'f, 'd, 'a) act = "(('s, 'f, 'd) serving, handler_error, 'a) io"

definition on_conn :: "('s conn, conn_error, 'a) io \<Rightarrow> ('s, 'f, 'd, 'a) act" where
  "on_conn m = (\<lambda>x. case m (hs_conn x) of (r, c) \<Rightarrow> (ctx HE_Connection r, x\<lparr>hs_conn := c\<rparr>))"

definition on_world :: "('e \<Rightarrow> handler_error) \<Rightarrow> (('f, 'd) world, 'e, 'a) io \<Rightarrow> ('s, 'f, 'd, 'a) act" where
  "on_world k m = (\<lambda>x. case m (hs_world x) of (r, w) \<Rightarrow> (ctx k r, x\<lparr>hs_world := w\<rparr>))"

definition read_index :: "('d \<Rightarrow> index_error + 'a) \<Rightarrow> ('s, 'f, 'd, 'a) act" where
  "read_index q = (\<lambda>x. (ctx HE_Index (q (w_db (hs_world x))), x))"

definition h_bump :: "nat \<Rightarrow> counter \<Rightarrow> u64 \<Rightarrow> ('s, 'f, 'd, unit) act" where
  "h_bump shard c n = (\<lambda>x. case shards_bump shard c n (hs_stats x) of
     None \<Rightarrow> (Inl HE_Panic, x) | Some ss \<Rightarrow> (Inr (), x\<lparr>hs_stats := ss\<rparr>))"

definition drop_upload ::
  "('e, 'z, 'f, 'h, 'd, 'r, 't) env \<Rightarrow> ('h, 'u) upload \<Rightarrow> ('s, 'f, 'd) serving \<Rightarrow> ('s, 'f, 'd) serving" where
  "drop_upload E u x =
     x\<lparr>hs_world := (hs_world x)\<lparr>w_fs := staged_drop (e_fs E) (up_staged u) (w_fs (hs_world x))\<rparr>\<rparr>"

section \<open>Refusals\<close>

text \<open>The \<open>Display\<close> texts of the errors that a refusal can carry.\<close>

fun ingest_display :: "ingest_error \<Rightarrow> string" where
  "ingest_display (IG_PreCompressed c) =
     ''bincache receives uncompressed NARs and compresses them itself; this upload declares '' @
     compression_display c @ ''. Point the client at the cache with `?compression=none`.''"
| "ingest_display (IG_Stage _) = ''the staging file could not be opened''"
| "ingest_display (IG_Upload _) = ''the upload could not be started''"
| "ingest_display (IG_Narinfo _) = ''the narinfo body is malformed''"
| "ingest_display (IG_UnknownNar h) =
     ''no NAR with hash '' @ sha_display h @ '' has been uploaded, so there is nothing to publish''"
| "ingest_display (IG_NarSizeMismatch declared received) =
     ''the narinfo declares NarSize '' @ show_u64 declared @ '' but the uploaded NAR is '' @
     show_u64 received @ '' bytes''"
| "ingest_display (IG_Index _) = ''the index rejected the write''"

fun upload_display :: "upload_error \<Rightarrow> string" where
  "upload_display (UE_Stage _) = ''the staging file could not be written''"
| "upload_display (UE_Compress _) = ''zstd compression failed''"
| "upload_display (UE_HashMismatch expected found) =
     ''uploaded bytes hash to '' @ sha_display found @ '' but the request target declares '' @
     sha_display expected"
| "upload_display UE_Empty = ''an uploaded NAR must not be empty; nix rejects a zero NarSize''"
| "upload_display (UE_Record _) = ''recording the stored artifact failed''"

fun refusal_new :: "fault \<Rightarrow> string \<Rightarrow> refusal" where
  "refusal_new Client err = \<lparr>rf_status = S_BadRequest, rf_message = Some (err @ [nl])\<rparr>"
| "refusal_new Server err = \<lparr>rf_status = S_ServerError, rf_message = None\<rparr>"

definition kept :: "request \<Rightarrow> drained \<Rightarrow> keep_alive" where
  "kept rq dr = (if dr = Unread \<and> carries_body rq then Close else rq_keep_alive rq)"

definition answer :: "'s sock \<Rightarrow> request \<Rightarrow> status \<Rightarrow> drained \<Rightarrow> ('s, 'f, 'd, keep_alive) act" where
  "answer S rq status dr =
     io_then (on_conn (conn_write S (bare status (kept rq dr) 0))) (\<lambda>_. io_return (kept rq dr))"

definition refuse :: "'s sock \<Rightarrow> request \<Rightarrow> refusal \<Rightarrow> drained \<Rightarrow> ('s, 'f, 'd, keep_alive) act" where
  "refuse S rq rf dr =
     (case rf_message rf of
        None \<Rightarrow> answer S rq (rf_status rf) dr
      | Some message \<Rightarrow>
          let h = head_header (head_new (rf_status rf) (kept rq dr)) ''Content-Type'' REFUSAL_TYPE in
          io_then (on_conn (conn_write S (with_body h message))) (\<lambda>_. io_return (kept rq dr)))"

definition send :: "'s sock \<Rightarrow> request \<Rightarrow> head \<Rightarrow> string \<Rightarrow> ('s, 'f, 'd, keep_alive) act" where
  "send S rq h body =
     (let bytes = (if rq_method rq = Head then head_finish (head_length h (u64_from_usize (length body)))
                   else with_body h body)
      in io_then (on_conn (conn_write S bytes)) (\<lambda>_. io_return (rq_keep_alive rq)))"

definition proceed :: "'s sock \<Rightarrow> request \<Rightarrow> ('s, 'f, 'd, unit) act" where
  "proceed S rq =
     (if rq_expectation rq = ExpectContinue
      then on_conn (conn_write S (''HTTP/1.1 '' @ show_nat (unat (code S_Continue)) @ '' '' @
        reason S_Continue @ crlf @ crlf))
      else io_return ())"

definition admission_of :: "'e ext \<Rightarrow> tokens \<Rightarrow> request \<Rightarrow> admission" where
  "admission_of X ts rq =
     (case Option.bind (rq_authorization rq) (credential X) of
        None \<Rightarrow> Denied
      | Some token \<Rightarrow> admits X ts token)"

definition admit :: "'e ext \<Rightarrow> cache \<Rightarrow> exchange \<Rightarrow> ('s, 'f, 'd, admission) act" where
  "admit X ca ex =
     (let a = admission_of X (ca_tokens ca) (ex_request ex) in
      if a = Denied then io_then (h_bump (ex_shard ex) C_Rejections 1) (\<lambda>_. io_return a)
      else io_return a)"

section \<open>Metadata routes\<close>

definition h_cache_info :: "'s sock \<Rightarrow> cache \<Rightarrow> exchange \<Rightarrow> ('s, 'f, 'd, keep_alive) act" where
  "h_cache_info S ca ex =
     (let rq = ex_request ex;
          h = head_header (head_new S_Ok (rq_keep_alive rq)) ''Content-Type'' CACHE_INFO_TYPE
      in send S rq h (ca_info ca))"

definition h_metrics ::
  "'s sock \<Rightarrow> ('e, 'z, 'f, 'h, 'd, 'r, 't) env \<Rightarrow> exchange \<Rightarrow> ('s, 'f, 'd, keep_alive) act" where
  "h_metrics S E ex =
     io_then (read_index (index_count (e_redb E))) (\<lambda>paths x.
       let rq = ex_request ex;
           body = totals_render (total (hs_stats x)) (shards_len (hs_stats x)) paths;
           h = head_header (head_new S_Ok (rq_keep_alive rq)) ''Content-Type'' METRICS_TYPE
       in send S rq h body x)"

text \<open>\<open>PUT <hash>.narinfo\<close>: the publish.\<close>

definition h_publish ::
  "'s sock \<Rightarrow> ('e, 'z, 'f, 'h, 'd, 'r, 't) env \<Rightarrow> cache \<Rightarrow> exchange \<Rightarrow> ('s, 'f, 'd, keep_alive) act" where
  "h_publish S E ca ex =
     (let rq = ex_request ex in
      io_then (admit (e_ext E) ca ex) (\<lambda>admission.
      if admission = Denied then answer S rq S_Unauthorized Unread
      else case rq_framing rq of
        FrameLength len \<Rightarrow>
          if METADATA_BODY_MAX < len then answer S rq S_ContentTooLarge Unread
          else
            io_then (proceed S rq) (\<lambda>_.
            io_then (on_conn (conn_body S len)) (\<lambda>body.
            case from_utf8 body of
              Inl _ \<Rightarrow> answer S rq S_BadRequest Consumed
            | Inr text \<Rightarrow> (\<lambda>x.
                case on_db (ingest_publish E (ca_ingest ca) text) (hs_world x) of
                  (Inl err, w) \<Rightarrow>
                    refuse S rq (refusal_new (ingest_fault err) (ingest_display err)) Consumed (x\<lparr>hs_world := w\<rparr>)
                | (Inr _, w) \<Rightarrow> answer S rq S_Created Consumed (x\<lparr>hs_world := w\<rparr>))))
      | FrameEmpty \<Rightarrow> answer S rq S_LengthRequired Unread
      | FrameChunked \<Rightarrow> answer S rq S_LengthRequired Unread))"

definition h_narinfo ::
  "'s sock \<Rightarrow> ('e, 'z, 'f, 'h, 'd, 'r, 't) env \<Rightarrow> cache \<Rightarrow> exchange \<Rightarrow> sp_hash \<Rightarrow>
     ('s, 'f, 'd, keep_alive) act" where
  "h_narinfo S E ca ex key =
     (let rq = ex_request ex in
      if rq_method rq = Put then h_publish S E ca ex
      else
        io_then (read_index (index_narinfo (e_redb E) (e_rkyv E) key)) (\<lambda>found.
        case found of
          None \<Rightarrow> io_then (h_bump (ex_shard ex) C_Misses 1) (\<lambda>_. answer S rq S_NotFound Unread)
        | Some record \<Rightarrow>
            io_then (h_bump (ex_shard ex) C_Hits 1) (\<lambda>_.
            let body = Narinfo.render (e_ext E) (ig_dir (ca_ingest ca)) record;
                h = head_header (head_new S_Ok (rq_keep_alive rq)) ''Content-Type'' NARINFO_CONTENT_TYPE
            in send S rq h body)))"

section \<open>The payload plane\<close>

definition open_artifact ::
  "('e, 'z, 'f, 'h, 'd, 'r, 't) env \<Rightarrow> narurl \<Rightarrow> ('s, 'f, 'd, 'h reader option) act" where
  "open_artifact E url =
     (\<lambda>x. on_world HE_Store (on_fs (store_read (e_fs E) (w_root (hs_world x)) url)) x)"

definition h_probe ::
  "'s sock \<Rightarrow> ('e, 'z, 'f, 'h, 'd, 'r, 't) env \<Rightarrow> exchange \<Rightarrow> narurl \<Rightarrow> ('s, 'f, 'd, keep_alive) act" where
  "h_probe S E ex url =
     (let rq = ex_request ex in
      io_then
        (if compression url = NoCompression then
           io_then (read_index (index_nar (e_redb E) (e_rkyv E) (file_hash url))) (\<lambda>found.
           io_return (map_option en_nar_size found))
         else
           io_then (open_artifact E url) (\<lambda>reader. io_return (map_option rr_size reader)))
        (\<lambda>len. case len of
           None \<Rightarrow> answer S rq S_NotFound Unread
         | Some len \<Rightarrow>
             let h = head_new S_Ok (rq_keep_alive rq);
                 h = head_header h ''Content-Type'' NAR_CONTENT_TYPE;
                 h = head_header h ''Accept-Ranges'' ''bytes'';
                 h = head_length h len
             in io_then (on_conn (conn_write S (head_finish h))) (\<lambda>_. io_return (rq_keep_alive rq))))"

text \<open>
  \<open>pump\<close>: the loop of bounded sends. Each turn sends at least one byte, so the length of the span
  is enough fuel (\<open>pump_returns\<close> in the handler lemmas).
\<close>

fun pump_loop ::
  "'s sock \<Rightarrow> ('f, 'h) fsys \<Rightarrow> 'h reader \<Rightarrow> span \<Rightarrow> nat \<Rightarrow> u64 \<Rightarrow> ('s, 'f, 'd, u64) act" where
  "pump_loop S F reader sp fuel offset =
     (if last_byte sp < offset then io_return (span_len sp)
      else case fuel of
        0 \<Rightarrow> io_lift (Inl HE_Hang)
      | Suc fuel \<Rightarrow>
          (let wanted = min (last_byte sp - offset + 1) (u64_from_usize SEND_CHUNK) in
           io_then (on_world HE_Store (on_fs (reader_read_at F reader SEND_CHUNK offset))) (\<lambda>filled.
           if filled = [] then io_return (offset - first sp)
           else
             let filled = take (unat wanted) filled; sent = u64_from_usize (length filled) in
             io_then (on_conn (conn_write S filled)) (\<lambda>_.
             pump_loop S F reader sp fuel (offset + sent)))))"

declare pump_loop.simps [simp del]

definition pump :: "'s sock \<Rightarrow> ('f, 'h) fsys \<Rightarrow> 'h reader \<Rightarrow> span \<Rightarrow> ('s, 'f, 'd, u64) act" where
  "pump S F reader sp = pump_loop S F reader sp (unat (span_len sp)) (first sp)"

definition partial_head :: "request \<Rightarrow> span \<Rightarrow> u64 \<Rightarrow> head" where
  "partial_head rq sp len =
     (let partial = span_len sp \<noteq> len;
          h = head_new (if partial then S_PartialContent else S_Ok) (rq_keep_alive rq);
          h = head_header h ''Content-Type'' NAR_CONTENT_TYPE;
          h = head_header h ''Accept-Ranges'' ''bytes'';
          h = (if partial then head_header h ''Content-Range''
                 (''bytes '' @ show_u64 (first sp) @ ''-'' @ show_u64 (last_byte sp) @ ''/'' @ show_u64 len)
               else h)
      in head_length h (span_len sp))"

definition unsatisfiable_head :: "request \<Rightarrow> u64 \<Rightarrow> head" where
  "unsatisfiable_head rq len =
     (let h = head_new S_RangeNotSatisfiable (rq_keep_alive rq);
          h = head_header h ''Content-Range'' (''bytes */'' @ show_u64 len);
          h = head_header h ''Accept-Ranges'' ''bytes''
      in head_length h 0)"

definition stream_span ::
  "'s sock \<Rightarrow> ('e, 'z, 'f, 'h, 'd, 'r, 't) env \<Rightarrow> exchange \<Rightarrow> 'h reader \<Rightarrow> span \<Rightarrow>
     ('s, 'f, 'd, keep_alive) act" where
  "stream_span S E ex reader sp =
     (let rq = ex_request ex in
      io_then (on_conn (conn_write S (head_finish (partial_head rq sp (rr_size reader))))) (\<lambda>_.
      io_then (pump S (e_fs E) reader sp) (\<lambda>sent.
      io_then (h_bump (ex_shard ex) C_Payload sent) (\<lambda>_.
      io_return (rq_keep_alive rq)))))"

definition h_stream ::
  "'s sock \<Rightarrow> ('e, 'z, 'f, 'h, 'd, 'r, 't) env \<Rightarrow> exchange \<Rightarrow> narurl \<Rightarrow> ('s, 'f, 'd, keep_alive) act" where
  "h_stream S E ex url =
     (let rq = ex_request ex in
      io_then (open_artifact E url) (\<lambda>found.
      case found of
        None \<Rightarrow> answer S rq S_NotFound Unread
      | Some reader \<Rightarrow>
          let size = rr_size reader in
          if size = 0 then answer S rq S_ServerError Unread
          else case range_resolve (rq_range rq) size of
            Whole \<Rightarrow> stream_span S E ex reader \<lparr>first = 0, last_byte = size - 1\<rparr>
          | Partial sp \<Rightarrow> stream_span S E ex reader sp
          | Unsatisfiable \<Rightarrow>
              io_then (on_conn (conn_write S (head_finish (unsatisfiable_head rq size)))) (\<lambda>_.
              io_return (rq_keep_alive rq))))"

text \<open>The loop of \<open>receive\<close>: the body goes into the upload chunk by chunk.\<close>

definition put_fs :: "'f \<Rightarrow> ('s, 'f, 'd) serving \<Rightarrow> ('s, 'f, 'd) serving" where
  "put_fs f x = x\<lparr>hs_world := (hs_world x)\<lparr>w_fs := f\<rparr>\<rparr>"

function receive_loop ::
  "'s sock \<Rightarrow> ('e, 'z, 'f, 'h, 'd, 'r, 't) env \<Rightarrow> ('h, 'e, 'z) receiving_upload \<Rightarrow> u64 \<Rightarrow>
     ('s, 'f, 'd, ('h, 'e, 'z) receiving_upload) act" where
  "receive_loop S E u remaining x =
     (if remaining = 0 then (Inr u, x)
      else case conn_chunk S remaining (hs_conn x) of
        (Inl e, c) \<Rightarrow> (Inl (HE_Connection e), drop_upload E u (x\<lparr>hs_conn := c\<rparr>))
      | (Inr (chunk, remaining), c) \<Rightarrow>
          if chunk = [] then (Inr u, x\<lparr>hs_conn := c\<rparr>)
          else case upload_write (e_ext E) (e_zstd E) (e_fs E) chunk (u, w_fs (hs_world x)) of
            (Inl e, (u, f)) \<Rightarrow> (Inl (HE_Upload e), drop_upload E u (put_fs f (x\<lparr>hs_conn := c\<rparr>)))
          | (Inr _, (u, f)) \<Rightarrow> receive_loop S E u remaining (put_fs f (x\<lparr>hs_conn := c\<rparr>)))"
  by pat_completeness auto
termination
  by (relation "measure (\<lambda>(S, E, u, remaining, x). unat remaining)")
    (auto simp: eq_commute [of "(Inr _, _)"] dest!: conn_chunk_shrinks)

declare receive_loop.simps [simp del]

text \<open>What happens to a body that was received in full.\<close>

definition settle_upload ::
  "'s sock \<Rightarrow> ('e, 'z, 'f, 'h, 'd, 'r, 't) env \<Rightarrow> exchange \<Rightarrow> ('h, 'e, 'z) receiving_upload \<Rightarrow>
     ('s, 'f, 'd, keep_alive) act" where
  "settle_upload S E ex u =
     (let rq = ex_request ex in
      io_then (on_world HE_Upload (on_fs (upload_finish (e_ext E) (e_zstd E) (e_fs E) u))) (\<lambda>compressed x.
        case upload_verify (e_fs E) compressed (w_fs (hs_world x)) of
          (Inl e, f) \<Rightarrow> refuse S rq (refusal_new (upload_fault e) (upload_display e)) Consumed (put_fs f x)
        | (Inr verified, f) \<Rightarrow>
            io_then (\<lambda>x. on_world HE_Upload (on_fs_db
                (upload_store (e_fs E) (e_redb E) (e_rkyv E) (w_root (hs_world x)) verified)) x) (\<lambda>_.
            io_then (h_bump (ex_shard ex) C_Uploads 1) (\<lambda>_.
            answer S rq S_Created Consumed)) (put_fs f x)))"

definition h_receive ::
  "'s sock \<Rightarrow> ('e, 'z, 'f, 'h, 'd, 'r, 't) env \<Rightarrow> cache \<Rightarrow> exchange \<Rightarrow> narurl \<Rightarrow>
     ('s, 'f, 'd, keep_alive) act" where
  "h_receive S E ca ex url =
     (let rq = ex_request ex in
      io_then (admit (e_ext E) ca ex) (\<lambda>admission.
      if admission = Denied then answer S rq S_Unauthorized Unread
      else case rq_framing rq of
        FrameLength remaining \<Rightarrow> (\<lambda>x.
          case ingest_receive E (ca_ingest ca) url (hs_world x) of
            (Inl err, w) \<Rightarrow>
              refuse S rq (refusal_new (ingest_fault err) (ingest_display err)) Unread (x\<lparr>hs_world := w\<rparr>)
          | (Inr u, w) \<Rightarrow>
              (case proceed S rq (x\<lparr>hs_world := w\<rparr>) of
                 (Inl e, x) \<Rightarrow> (Inl e, drop_upload E u x)
               | (Inr _, x) \<Rightarrow> io_then (receive_loop S E u remaining) (settle_upload S E ex) x))
      | FrameEmpty \<Rightarrow> answer S rq S_LengthRequired Unread
      | FrameChunked \<Rightarrow> answer S rq S_LengthRequired Unread))"

definition h_nar ::
  "'s sock \<Rightarrow> ('e, 'z, 'f, 'h, 'd, 'r, 't) env \<Rightarrow> cache \<Rightarrow> exchange \<Rightarrow> narurl \<Rightarrow>
     ('s, 'f, 'd, keep_alive) act" where
  "h_nar S E ca ex url =
     (case rq_method (ex_request ex) of
        Put \<Rightarrow> h_receive S E ca ex url
      | Head \<Rightarrow> h_probe S E ex url
      | Get \<Rightarrow> h_stream S E ex url)"

section \<open>Dispatch\<close>

definition handle ::
  "'s sock \<Rightarrow> ('e, 'z, 'f, 'h, 'd, 'r, 't) env \<Rightarrow> cache \<Rightarrow> exchange \<Rightarrow> ('s, 'f, 'd, keep_alive) act" where
  "handle S E ca ex =
     (let rq = ex_request ex in
      io_then (h_bump (ex_shard ex) C_Requests 1) (\<lambda>_.
      if rq_framing rq = FrameChunked then answer S rq S_NotImplemented Unread
      else case route_resolve (e_ext E) (rq_target rq) of
        Inl (RE_Unknown _) \<Rightarrow> answer S rq S_NotFound Unread
      | Inl _ \<Rightarrow> answer S rq S_BadRequest Unread
      | Inr R_CacheInfo \<Rightarrow> h_cache_info S ca ex
      | Inr R_Metrics \<Rightarrow> h_metrics S E ex
      | Inr (R_Narinfo key) \<Rightarrow> h_narinfo S E ca ex key
      | Inr (R_Nar url) \<Rightarrow> h_nar S E ca ex url))"

section \<open>Sessions\<close>

text \<open>
  \<open>session\<close> (\<open>shard.rs\<close>): one turn answers one request; \<open>True\<close> says that the connection is done. A
  peer may keep a connection for as long as it likes, so the number of turns is an argument.
\<close>

definition session_turn ::
  "'s sock \<Rightarrow> ('e, 'z, 'f, 'h, 'd, 'r, 't) env \<Rightarrow> cache \<Rightarrow> nat \<Rightarrow> ('s, 'f, 'd, bool) act" where
  "session_turn S E ca shard =
     io_then (on_conn (conn_head S)) (\<lambda>head.
     case head of
       None \<Rightarrow> io_return True
     | Some head \<Rightarrow>
        (case http_parse head of
           Inl _ \<Rightarrow> io_then (on_conn (conn_write S (bare S_BadRequest Close 0))) (\<lambda>_. io_return True)
         | Inr rq \<Rightarrow>
             io_then (handle S E ca \<lparr>ex_shard = shard, ex_request = rq\<rparr>) (\<lambda>keep.
             io_return (keep = Close))))"

fun session ::
  "'s sock \<Rightarrow> ('e, 'z, 'f, 'h, 'd, 'r, 't) env \<Rightarrow> cache \<Rightarrow> nat \<Rightarrow> nat \<Rightarrow> ('s, 'f, 'd, bool) act" where
  "session S E ca shard 0 = io_return False"
| "session S E ca shard (Suc turns) =
     io_then (session_turn S E ca shard) (\<lambda>over.
     if over then io_return True else session S E ca shard turns)"

end
