(* ===== verification/StoreLaws.thy ===== *)
theory StoreLaws
  imports Store
begin

text \<open>
  What the store operations do to the artifacts: a map from artifact names to contents. Only a
  commit adds one, whole, under the name it was given; a failed or abandoned upload leaves
  every artifact as it was.
\<close>

section \<open>Artifacts\<close>

definition artifacts :: "('f, 'h) fs_views \<Rightarrow> path \<Rightarrow> 'f \<Rightarrow> narurl \<Rightarrow> string option" where
  "artifacts V root f u =
     (if narurl_ok u then map_option (fv_data V f) (fv_names V f (store_path root u)) else None)"

lemma store_path_inject:
  assumes "narurl_ok u" "narurl_ok w"
  shows "store_path root u = store_path root w \<longleftrightarrow> u = w"
  using narurl_codec.print_inject [OF assms] by (auto simp: store_path_def Let_def)

text \<open>A staging file is none of the artifact paths.\<close>

definition staging_path :: "path \<Rightarrow> path \<Rightarrow> bool" where
  "staging_path root p \<longleftrightarrow> (\<exists>n. p = root @ [STAGING, n])"

lemma staging_not_artifact: "staging_path root p \<Longrightarrow> p \<noteq> store_path root u"
  by (auto simp: staging_path_def store_path_def Let_def)

lemma same_view_refl [simp]: "same_view V f f"
  by (simp add: same_view_def)

lemma same_view_trans: "same_view V f g \<Longrightarrow> same_view V g k \<Longrightarrow> same_view V f k"
  by (simp add: same_view_def)

lemma same_view_artifacts: "same_view V f g \<Longrightarrow> artifacts V root g = artifacts V root f"
  by (auto simp: same_view_def artifacts_def)

lemma same_view_links: "same_view V f g \<Longrightarrow> no_links V g = no_links V f"
  by (simp add: same_view_def no_links_def)

definition fs_good :: "('f, 'h) fsys \<Rightarrow> ('f, 'h) fs_views \<Rightarrow> 'f \<Rightarrow> bool" where
  "fs_good F V f \<longleftrightarrow> fs_laws F V \<and> no_links V f"

text \<open>An upload in flight, and what it has received so far.\<close>

definition in_flight :: "('f, 'h) fs_views \<Rightarrow> path \<Rightarrow> 'f \<Rightarrow> 'h staged \<Rightarrow> bool" where
  "in_flight V root f s \<longleftrightarrow> staging_path root (sg_path s) \<and>
     fv_names V f (sg_path s) = Some (fv_file V (sg_file s)) \<and> \<not> sg_committed s"

definition holds :: "('f, 'h) fs_views \<Rightarrow> path \<Rightarrow> 'f \<Rightarrow> 'h staged \<Rightarrow> string \<Rightarrow> bool" where
  "holds V root f s bs \<longleftrightarrow> in_flight V root f s \<and>
     fv_data V f (fv_file V (sg_file s)) = bs \<and> unat (sg_offset s) = length bs"

lemma query_view:
  assumes "fs_laws F V"
  shows "fs_create_dir_all F p f = (r, f') \<Longrightarrow> same_view V f f'"
    and "fs_open F p f = (h', f') \<Longrightarrow> same_view V f f'"
    and "fs_metadata_len F h f = (m, f') \<Longrightarrow> same_view V f f'"
    and "fs_read_at F h cap at f = (s, f') \<Longrightarrow> same_view V f f'"
    and "fs_sync_all F h f = (r, f') \<Longrightarrow> same_view V f f'"
    and "fs_read_dir F p f = (es, f') \<Longrightarrow> same_view V f f'"
  using assms by (simp_all add: fs_laws_def fs_query_laws_def)

lemma rename_law:
  assumes "fs_laws F V"
  shows "fs_rename F p q f = (Inr (), f') \<Longrightarrow>
      (\<exists>i. fv_names V f p = Some i \<and> fv_names V f' = (fv_names V f)(p := None, q := Some i)) \<and>
      fv_data V f' = fv_data V f"
    and "fs_rename F p q f = (Inl e, f') \<Longrightarrow> same_view V f f'"
  using assms by (simp_all add: fs_laws_def fs_update_laws_def)

lemma remove_law:
  assumes "fs_laws F V"
  shows "fs_remove_file F p f = (Inr (), f') \<Longrightarrow>
      fv_names V f' = (fv_names V f)(p := None) \<and> fv_data V f' = fv_data V f"
    and "fs_remove_file F p f = (Inl e, f') \<Longrightarrow>
      same_view V f f' \<and> (io_kind_of e = Io_NotFound \<longrightarrow> fv_names V f p = None)"
  using assms by (simp_all add: fs_laws_def fs_update_laws_def)

lemma same_view_good: "same_view V f g \<Longrightarrow> fs_good F V g = fs_good F V f"
  by (simp add: fs_good_def same_view_links)

lemma same_view_holds:
  "same_view V f g \<Longrightarrow> in_flight V root g s = in_flight V root f s"
  "same_view V f g \<Longrightarrow> holds V root g s bs = holds V root f s bs"
  by (simp_all add: in_flight_def holds_def same_view_def)

section \<open>Reading\<close>

lemma store_read_Inr:
  assumes "fs_laws F V" "store_read F root u f = (Inr r, f')" "narurl_ok u"
  shows "same_view V f f' \<and>
    (case r of
       None \<Rightarrow> artifacts V root f u = None
     | Some rd \<Rightarrow> (\<exists>bs. artifacts V root f u = Some bs \<and> unat (rr_size rd) = length bs \<and>
         fv_data V f (fv_file V (rr_file rd)) = bs))"
proof -
  let ?p = "store_path root u"
  obtain x f1 where x: "fs_open F ?p f = (x, f1)" by fastforce
  then have v1: "same_view V f f1" using query_view [OF assms(1)] by blast
  show ?thesis
  proof (cases x)
    case (Inl e)
    then have "absent x" using assms(2) x by (auto simp: store_read_def Let_def split: if_splits)
    moreover from this have "fv_names V f ?p = None"
      using assms(1) x Inl by (auto simp: fs_laws_def fs_query_laws_def)
    ultimately show ?thesis using assms(2) x v1 by (simp add: store_read_def Let_def artifacts_def)
  next
    case (Inr h)
    then have name: "fv_names V f ?p = Some (fv_file V h)"
      using assms(1) x by (auto simp: fs_laws_def fs_query_laws_def)
    from assms(2) obtain n where n: "fs_metadata_len F h f1 = (Inr n, f')"
      and r: "r = Some \<lparr>rr_file = h, rr_path = ?p, rr_size = n\<rparr>"
      by (auto simp: store_read_def Let_def x Inr elim!: io_thenE io_ctxE)
    have v2: "same_view V f1 f'" using query_view(3) [OF assms(1) n] .
    have "unat n = length (fv_data V f1 (fv_file V h))"
      using assms(1) n by (auto simp: fs_laws_def fs_query_laws_def)
    then show ?thesis using name r same_view_trans [OF v1 v2] v1 assms(3)
      by (simp add: artifacts_def same_view_def)
  qed
qed

lemma reader_read_at_Inr:
  assumes "fs_laws F V" "reader_read_at F rd cap at f = (Inr s, f')"
  shows "same_view V f f' \<and> read_of (fv_data V f (fv_file V (rr_file rd))) (unat at) cap s"
proof -
  have "fs_read_at F (rr_file rd) cap at f = (Inr s, f')"
    using assms(2) by (auto simp: reader_read_at_def elim!: io_ctxE)
  with assms(1) show ?thesis by (simp add: fs_laws_def fs_query_laws_def)
qed

section \<open>Uploads\<close>

lemma artifact_file_not_staged:
  assumes "no_links V f" "in_flight V root f s" "fv_names V f (store_path root u) = Some i"
  shows "i \<noteq> fv_file V (sg_file s)"
  using assms staging_not_artifact by (fastforce simp: no_links_def in_flight_def)

lemma stage_effect:
  assumes good: "fs_good F V f" and root: "st_root st = root"
    and run: "stage F (st, f) = (r, (st', f'))"
  shows "fs_good F V f' \<and> artifacts V root f' = artifacts V root f \<and> st_root st' = root \<and>
    st_sequence st' = st_sequence st + 1 \<and> (\<forall>s. r = Inr s \<longrightarrow> holds V root f' s [])"
proof -
  let ?p = "root @ [STAGING, staging_name st]"
  have laws: "fs_laws F V" and links: "no_links V f" using good by (simp_all add: fs_good_def)
  obtain x f1 where x: "fs_create F ?p f = (x, f1)" by fastforce
  have st': "st' = st\<lparr>st_sequence := st_sequence st + 1\<rparr>" "f' = f1"
    and r: "r = and_then (ctx (ST_Create ?p) x) (\<lambda>file.
      Inr \<lparr>sg_file = file, sg_path = ?p, sg_offset = 0, sg_committed = False\<rparr>)"
    using run x by (simp_all add: stage_def Let_def root io_ctx_def)
  show ?thesis
  proof (cases x)
    case (Inl e)
    then have "same_view V f f1" using laws x by (auto simp: fs_laws_def fs_update_laws_def)
    then show ?thesis using st' r Inl good root by (simp add: same_view_good same_view_artifacts)
  next
    case (Inr h)
    let ?i = "fv_file V h"
    have n: "fv_names V f1 = (fv_names V f)(?p \<mapsto> ?i)" "fv_data V f1 = (fv_data V f)(?i := [])"
      and fresh: "fv_names V f ?p = Some ?i \<or> (\<forall>q. fv_names V f q \<noteq> Some ?i)"
      using laws x Inr by (auto simp: fs_laws_def fs_update_laws_def)
    have stg: "staging_path root ?p" by (auto simp: staging_path_def)
    have "no_links V f1" unfolding no_links_def n using links fresh by (auto simp: no_links_def)
    moreover have "artifacts V root f1 = artifacts V root f"
    proof
      fix u
      have "?p \<noteq> store_path root u" using staging_not_artifact [OF stg] .
      moreover have "fv_names V f (store_path root u) \<noteq> Some ?i"
        using fresh links calculation by (auto simp: no_links_def)
      ultimately show "artifacts V root f1 u = artifacts V root f u"
        by (auto simp: artifacts_def n intro: map_option_cong)
    qed
    ultimately show ?thesis using st' r Inr laws root stg
      by (simp add: fs_good_def holds_def in_flight_def n)
  qed
qed

lemma staged_write_effect:
  assumes good: "fs_good F V f" and fl: "in_flight V root f s"
    and run: "staged_write F new s f = (r, f')"
  shows "fs_good F V f' \<and> artifacts V root f' = artifacts V root f \<and> in_flight V root f' s \<and>
    (\<forall>s' bs. r = Inr s' \<longrightarrow> holds V root f s bs \<longrightarrow> holds V root f' s' (bs @ new))"
proof -
  have laws: "fs_laws F V" and links: "no_links V f" using good by (simp_all add: fs_good_def)
  let ?i = "fv_file V (sg_file s)"
  obtain x where x: "fs_write_all_at F (sg_file s) new (sg_offset s) f = (x, f')"
    and r: "r = (case x of Inl e \<Rightarrow> Inl (ST_Write (sg_path s) e)
      | Inr _ \<Rightarrow> Inr (s\<lparr>sg_offset := sg_offset s + u64_from_usize (length new)\<rparr>))"
    using run by (auto simp: staged_write_def elim!: io_thenE io_ctxE)
  have n: "fv_names V f' = fv_names V f" "\<And>i. i \<noteq> ?i \<Longrightarrow> fv_data V f' i = fv_data V f i"
    and d: "x = Inr () \<Longrightarrow> unat (sg_offset s) + length new < 2 ^ 64"
      "x = Inr () \<Longrightarrow> fv_data V f' ?i = splice (fv_data V f ?i) (unat (sg_offset s)) new"
    using laws x by (auto simp: fs_laws_def fs_update_laws_def)
  have "artifacts V root f' = artifacts V root f"
  proof
    fix u show "artifacts V root f' u = artifacts V root f u"
      using artifact_file_not_staged [OF links fl, of u] n
      by (cases "fv_names V f (store_path root u)") (auto simp: artifacts_def)
  qed
  moreover have "holds V root f' s' (bs @ new)"
    if "r = Inr s'" "holds V root f s bs" for s' bs
  proof -
    have x: "x = Inr ()" and s': "s' = s\<lparr>sg_offset := sg_offset s + u64_from_usize (length new)\<rparr>"
      using that(1) r by (auto split: sum.splits)
    have at: "unat (sg_offset s) = length bs" "fv_data V f ?i = bs" using that(2) by (simp_all add: holds_def)
    have "unat (sg_offset s + u64_from_usize (length new)) = length bs + length new"
      using d(1) [OF x] at(1) by (subst unat_add_lem [THEN iffD1]) (simp_all add: unat_u64_from_usize)
    then show ?thesis using fl d(2) [OF x] at s' n(1)
      by (simp add: holds_def in_flight_def splice_def)
  qed
  ultimately show ?thesis using laws links fl n(1)
    by (simp add: fs_good_def no_links_def in_flight_def)
qed

text \<open>Removing a staging file, whatever the outcome, touches no artifact.\<close>

lemma remove_staging:
  assumes "fs_good F V f" "staging_path root p" "fs_remove_file F p f = (r, f')"
  shows "fs_good F V f' \<and> artifacts V root f' = artifacts V root f"
proof (cases r)
  case (Inl e)
  then have "same_view V f f'" using assms by (auto simp: fs_good_def fs_laws_def fs_update_laws_def)
  then show ?thesis using assms(1) by (simp add: same_view_good same_view_artifacts)
next
  case (Inr a)
  then have n: "fv_names V f' = (fv_names V f)(p := None)" "fv_data V f' = fv_data V f"
    using assms by (auto simp: fs_good_def fs_laws_def fs_update_laws_def)
  have "p \<noteq> store_path root u" for u using staging_not_artifact [OF assms(2)] .
  then have "artifacts V root f' = artifacts V root f"
    by (auto simp: artifacts_def n fun_eq_iff dest: sym)
  with n assms(1) show ?thesis by (auto simp: fs_good_def no_links_def)
qed

lemma staged_drop_effect:
  assumes "fs_good F V f" "in_flight V root f s \<or> sg_committed s"
  shows "fs_good F V (staged_drop F s f) \<and> artifacts V root (staged_drop F s f) = artifacts V root f"
proof (cases "sg_committed s")
  case False
  with assms(2) have "staging_path root (sg_path s)" by (simp add: in_flight_def)
  from remove_staging [OF assms(1) this] False show ?thesis
    by (cases "fs_remove_file F (sg_path s) f") (auto simp: staged_drop_def)
qed (use assms(1) in \<open>simp add: staged_drop_def\<close>)

lemma staged_abort_effect:
  assumes "fs_good F V f" "in_flight V root f s" "staged_abort F s f = (r, f')"
  shows "fs_good F V f' \<and> artifacts V root f' = artifacts V root f"
proof -
  obtain x f1 where x: "fs_remove_file F (sg_path s) f = (x, f1)" by fastforce
  then have "f' = f1" using assms(3) by (auto simp: staged_abort_def Let_def staged_drop_def split: if_splits)
  then show ?thesis using remove_staging [OF assms(1) _ x, of root] assms(2) by (simp add: in_flight_def)
qed

lemma staged_commit_effect:
  assumes good: "fs_good F V f" and h: "holds V root f s bs" and u: "narurl_ok u"
    and run: "staged_commit F root s u f = (r, f')"
  shows "fs_good F V f' \<and>
    (case r of
       Inr n \<Rightarrow> unat n = length bs \<and> artifacts V root f' = (artifacts V root f)(u \<mapsto> bs)
     | Inl e \<Rightarrow> artifacts V root f' = artifacts V root f)"
proof -
  have laws: "fs_laws F V" using good by (simp add: fs_good_def)
  let ?t = "store_path root u"
  let ?p = "sg_path s"
  let ?steps = "io_then (io_ctx (ST_Sync ?p) (fs_sync_all F (sg_file s))) (\<lambda>_.
        io_then (io_ctx (ST_CreateDir (butlast ?t)) (fs_create_dir_all F (butlast ?t))) (\<lambda>_.
        io_ctx (ST_Rename ?p ?t) (fs_rename F ?p ?t)))"
  have t: "?t \<noteq> []" by (simp add: store_path_def Let_def)
  obtain x f3 where x: "?steps f = (x, f3)" by fastforce
  have run: "(case x of Inl e \<Rightarrow> (Inl e, staged_drop F s f3)
      | Inr _ \<Rightarrow> (Inr (sg_offset s), staged_drop F (s\<lparr>sg_committed := True\<rparr>) f3)) = (r, f')"
    using run x t by (simp add: staged_commit_def Let_def)
  have fl: "in_flight V root f s" using h by (simp add: holds_def)
  show ?thesis
  proof (cases x)
    case (Inl e)
    from x consider
        (sync) e1 where "fs_sync_all F (sg_file s) f = (Inl e1, f3)"
      | (dir) f1 e1 where "fs_sync_all F (sg_file s) f = (Inr (), f1)"
          "fs_create_dir_all F (butlast ?t) f1 = (Inl e1, f3)"
      | (rename) f1 f2 e1 where "fs_sync_all F (sg_file s) f = (Inr (), f1)"
          "fs_create_dir_all F (butlast ?t) f1 = (Inr (), f2)" "fs_rename F ?p ?t f2 = (Inl e1, f3)"
      unfolding Inl by (auto elim!: io_thenE io_ctxE)
    then have "same_view V f f3"
    proof cases
      case sync
      then show ?thesis by (rule query_view(5) [OF laws])
    next
      case dir
      from query_view(5) [OF laws dir(1)] query_view(1) [OF laws dir(2)] show ?thesis
        by (rule same_view_trans)
    next
      case rename
      from same_view_trans [OF query_view(5) [OF laws rename(1)] query_view(1) [OF laws rename(2)]]
        rename_law(2) [OF laws rename(3)] show ?thesis by (rule same_view_trans)
    qed
    then have "fs_good F V f3" "in_flight V root f3 s" "artifacts V root f3 = artifacts V root f"
      using good fl by (simp_all add: same_view_good same_view_holds same_view_artifacts)
    then show ?thesis using run staged_drop_effect [of F V f3 root s] Inl by auto
  next
    case (Inr y)
    from x obtain f1 f2 where q: "fs_sync_all F (sg_file s) f = (Inr (), f1)"
        "fs_create_dir_all F (butlast ?t) f1 = (Inr (), f2)" and rn: "fs_rename F ?p ?t f2 = (Inr (), f3)"
      unfolding Inr by (auto elim!: io_thenE io_ctxE)
    have v: "same_view V f f2"
      by (rule same_view_trans [OF query_view(5) [OF laws q(1)] query_view(1) [OF laws q(2)]])
    obtain i where i: "fv_names V f2 ?p = Some i"
      "fv_names V f3 = (fv_names V f2)(?p := None, ?t := Some i)" "fv_data V f3 = fv_data V f2"
      using rename_law(1) [OF laws rn] by blast
    have ne: "?p \<noteq> store_path root w" for w using fl staging_not_artifact by (auto simp: in_flight_def)
    have i': "fv_names V f ?p = Some i" "fv_data V f i = bs"
      using i(1) v h by (auto simp: same_view_def holds_def in_flight_def)
    have "no_links V f3"
      using good i v i'(1) by (auto simp: fs_good_def no_links_def same_view_def)
    moreover have "artifacts V root f3 = (artifacts V root f)(u \<mapsto> bs)"
    proof
      fix w show "artifacts V root f3 w = ((artifacts V root f)(u \<mapsto> bs)) w"
        using i i' v u ne [of w] ne [of u] store_path_inject [OF _ u, of w root]
        by (auto simp: artifacts_def same_view_def)
    qed
    ultimately show ?thesis using run Inr laws h
      by (auto simp: fs_good_def staged_drop_def holds_def)
  qed
qed

lemma store_remove_effect:
  assumes good: "fs_good F V f" and u: "narurl_ok u" and run: "store_remove F root u f = (r, f')"
  shows "fs_good F V f' \<and>
    (case r of
       Inr Deleted \<Rightarrow> artifacts V root f' = (artifacts V root f)(u := None)
     | Inr Absent \<Rightarrow> artifacts V root f u = None \<and> artifacts V root f' = artifacts V root f
     | Inl e \<Rightarrow> artifacts V root f' = artifacts V root f)"
proof -
  let ?t = "store_path root u"
  obtain x f1 where x: "fs_remove_file F ?t f = (x, f1)" by fastforce
  show ?thesis
  proof (cases x)
    case (Inl e)
    then have v: "same_view V f f1" and n: "io_kind_of e = Io_NotFound \<longrightarrow> fv_names V f ?t = None"
      using good x by (auto simp: fs_good_def fs_laws_def fs_update_laws_def)
    then show ?thesis using run x Inl good
      by (auto simp: store_remove_def Let_def same_view_good same_view_artifacts artifacts_def split: if_splits)
  next
    case (Inr y)
    then have n: "fv_names V f1 = (fv_names V f)(?t := None)" "fv_data V f1 = fv_data V f"
      using good x by (auto simp: fs_good_def fs_laws_def fs_update_laws_def)
    have "artifacts V root f1 = (artifacts V root f)(u := None)"
    proof
      fix w show "artifacts V root f1 w = ((artifacts V root f)(u := None)) w"
        using store_path_inject [OF _ u, of w root] u by (auto simp: artifacts_def n)
    qed
    moreover have "no_links V f1" using good n by (auto simp: fs_good_def no_links_def)
    ultimately show ?thesis using run x Inr good by (auto simp: store_remove_def Let_def fs_good_def)
  qed
qed

section \<open>Scanning\<close>

lemma all_entries_Inr:
  "all_entries p es = Inr ps \<Longrightarrow> es = map Inr ps"
  by (induction es arbitrary: ps) (auto simp: result_iffs)

lemma entries_Inr:
  assumes "fs_laws F V" "entries F p f = (Inr ps, f')"
  shows "same_view V f f'" "\<And>q. q \<in> set ps \<Longrightarrow> \<exists>c. q = p @ [c]"
    "\<And>c rest. fv_names V f (p @ c # rest) \<noteq> None \<Longrightarrow> p @ [c] \<in> set ps"
proof -
  from assms(2) obtain es where es: "fs_read_dir F p f = (Inr es, f')" "all_entries p es = Inr ps"
    by (auto simp: entries_def elim!: io_thenE io_ctxE)
  have eq: "es = map Inr ps" by (rule all_entries_Inr [OF es(2)])
  have "same_view V f f' \<and> listing_of (fv_names V f) p es"
    using assms(1) es(1) by (simp add: fs_laws_def fs_query_laws_def)
  then show "same_view V f f'"
    "\<And>q. q \<in> set ps \<Longrightarrow> \<exists>c. q = p @ [c]"
    "\<And>c rest. fv_names V f (p @ c # rest) \<noteq> None \<Longrightarrow> p @ [c] \<in> set ps"
    unfolding eq listing_of_def by auto
qed

lemma scan_artifact_has:
  assumes "narurl_parse X (last q) = Inr u" "q \<noteq> []" "from_utf8 (last q) = Inr (last q)"
  shows "u \<in> set (sc_artifacts (scan_artifact X q sc))"
  using assms by (simp add: scan_artifact_def file_name_str_def)

lemma scan_artifact_mono: "set (sc_artifacts sc) \<subseteq> set (sc_artifacts (scan_artifact X q sc))"
  by (auto simp: scan_artifact_def split: option.splits sum.splits)

lemma scan_artifacts_mono: "set (sc_artifacts sc) \<subseteq> set (sc_artifacts (fold (scan_artifact X) qs sc))"
proof (induction qs arbitrary: sc)
  case (Cons q qs)
  then show ?case using scan_artifact_mono [of sc X q] by fastforce
qed simp

lemma scan_artifacts_has:
  assumes "q \<in> set qs" "narurl_parse X (last q) = Inr u" "q \<noteq> []" "from_utf8 (last q) = Inr (last q)"
  shows "u \<in> set (sc_artifacts (fold (scan_artifact X) qs sc))"
  using assms(1)
proof (induction qs arbitrary: sc)
  case (Cons r qs)
  then show ?case
    using scan_artifact_has [OF assms(2-4)] scan_artifacts_mono [of "scan_artifact X q sc" X qs] by auto
qed simp

lemma scan_shards_mono: "scan_shards X F shards sc f = (Inr sc', f') \<Longrightarrow> set (sc_artifacts sc) \<subseteq> set (sc_artifacts sc')"
proof (induction shards arbitrary: sc f)
  case (Cons s shards)
  from Cons.prems obtain as g where "entries F s f = (Inr as, g)"
      "scan_shards X F shards (fold (scan_artifact X) as sc) g = (Inr sc', f')"
    by (auto elim!: io_thenE)
  with Cons.IH scan_artifacts_mono [of sc X as] show ?case by blast
qed simp

lemma nar_name_ascii: "ascii (nar_name u)"
proof -
  have "(of_char c :: nat) < 128" if "c \<in> set (nar_name u)" for c
    using nar_name_chars [OF that] by (auto simp: plain_def visible_def)
  then show ?thesis by (simp add: ascii_def)
qed

lemma scan_shards_has:
  assumes laws: "fs_laws F V" and u: "narurl_ok u"
    and n: "fv_names V f (shard @ [nar_name u]) \<noteq> None"
  shows "shard \<in> set shards \<Longrightarrow> scan_shards X F shards sc f = (Inr sc', f') \<Longrightarrow> u \<in> set (sc_artifacts sc')"
  using n
proof (induction shards arbitrary: sc f)
  case (Cons s shards)
  from Cons.prems obtain as g where as: "entries F s f = (Inr as, g)"
      "scan_shards X F shards (fold (scan_artifact X) as sc) g = (Inr sc', f')"
    by (auto elim!: io_thenE)
  note e = entries_Inr [OF laws as(1)]
  show ?case
  proof (cases "s = shard")
    case True
    then have "shard @ [nar_name u] \<in> set as" using e(3) [of "nar_name u" "[]"] Cons.prems(3) by simp
    then have "u \<in> set (sc_artifacts (fold (scan_artifact X) as sc))"
      by (rule scan_artifacts_has) (simp_all add: narurl_parse_name [OF u] from_utf8_ascii nar_name_ascii)
    then show ?thesis using scan_shards_mono [OF as(2)] by blast
  next
    case False
    have "fv_names V g (shard @ [nar_name u]) \<noteq> None" using e(1) Cons.prems(3) by (simp add: same_view_def)
    with False Cons.IH [OF _ as(2)] Cons.prems(1) show ?thesis by simp
  qed
qed simp

text \<open>A scan misses no artifact.\<close>

lemma store_scan_complete:
  assumes "fs_laws F V" "store_scan X F root f = (Inr sc, f')" "artifacts V root f u \<noteq> None"
  shows "u \<in> set (sc_artifacts sc)"
proof -
  have u: "narurl_ok u" and n: "fv_names V f (store_path root u) \<noteq> None"
    using assms(3) by (auto simp: artifacts_def split: if_splits)
  let ?shard = "take SHARD_LEN (nar_name u)"
  have path: "store_path root u = (root @ [ARTIFACTS]) @ ?shard # [nar_name u]"
    by (simp add: store_path_def Let_def)
  from assms(2) obtain shards g where s: "entries F (root @ [ARTIFACTS]) f = (Inr shards, g)"
      "scan_shards X F shards \<lparr>sc_artifacts = [], sc_unrecognized = []\<rparr> g = (Inr sc, f')"
    by (auto simp: store_scan_def elim!: io_thenE)
  note e = entries_Inr [OF assms(1) s(1)]
  have "(root @ [ARTIFACTS]) @ [?shard] \<in> set shards" using e(3) n unfolding path by blast
  moreover have "fv_names V g (((root @ [ARTIFACTS]) @ [?shard]) @ [nar_name u]) \<noteq> None"
    using n e(1) by (simp add: path same_view_def)
  ultimately show ?thesis using scan_shards_has [OF assms(1) u] s(2) by blast
qed

lemma entries_view: "fs_laws F V \<Longrightarrow> entries F p f = (r, f') \<Longrightarrow> same_view V f f'"
  by (auto simp: entries_def elim!: io_thenE io_ctxE dest: query_view(6))

lemma scan_shards_view: "fs_laws F V \<Longrightarrow> scan_shards X F shards sc f = (r, f') \<Longrightarrow> same_view V f f'"
proof (induction shards arbitrary: sc f)
  case (Cons s shards)
  from Cons.prems(2) show ?case
    by (auto elim!: io_thenE dest: entries_view [OF Cons.prems(1)] Cons.IH [OF Cons.prems(1)]
        intro: same_view_trans)
qed simp

lemma store_scan_view: "fs_laws F V \<Longrightarrow> store_scan X F root f = (r, f') \<Longrightarrow> same_view V f f'"
  by (auto simp: store_scan_def elim!: io_thenE dest: entries_view scan_shards_view intro: same_view_trans)

section \<open>Sweeping what a crash left\<close>

lemma sweep_effect:
  assumes "fs_good F V f" "\<forall>p \<in> set paths. staging_path root p" "sweep F paths n f = (r, f')"
  shows "fs_good F V f' \<and> artifacts V root f' = artifacts V root f \<and>
    (\<forall>m. r = Inr m \<longrightarrow> m = n + length paths \<and> fv_names V f' = fv_names V f |` (- set paths))"
  using assms
proof (induction paths arbitrary: n f)
  case Nil
  then show ?case by simp
next
  case (Cons p ps)
  obtain x f1 where x: "fs_remove_file F p f = (x, f1)" by fastforce
  have k: "fs_good F V f1 \<and> artifacts V root f1 = artifacts V root f"
    using remove_staging [OF Cons.prems(1) _ x, of root] Cons.prems(2) by simp
  show ?case
  proof (cases x)
    case (Inl e)
    then show ?thesis using Cons.prems(3) x k by (auto simp: io_run)
  next
    case (Inr u)
    then have rest: "sweep F ps (n + 1) f1 = (r, f')" using Cons.prems(3) x by (simp add: io_run)
    have "fv_names V f1 = (fv_names V f)(p := None)"
      using remove_law(1) [of F V p f f1] Cons.prems(1) x Inr by (simp add: fs_good_def)
    then have "fv_names V f1 |` (- set ps) = fv_names V f |` (- set (p # ps))"
      by (auto simp: restrict_map_def fun_eq_iff)
    with Cons.IH [OF _ _ rest] k Cons.prems(2) show ?thesis by simp
  qed
qed

lemma sweep_staging_effect:
  assumes good: "fs_good F V f" and run: "sweep_staging F root f = (r, f')"
  shows "fs_good F V f' \<and> artifacts V root f' = artifacts V root f \<and>
    (\<forall>m. r = Inr m \<longrightarrow> (\<forall>p. fv_names V f' p = (if staging_path root p then None else fv_names V f p)))"
proof -
  have laws: "fs_laws F V" using good by (simp add: fs_good_def)
  from run [unfolded sweep_staging_def] show ?thesis
  proof (cases rule: io_thenE)
    case (1 e)
    then show ?thesis
      using entries_view [OF laws 1(1)] good by (simp add: same_view_good same_view_artifacts)
  next
    case (2 ps g)
    note e = entries_Inr [OF laws 2(1)]
    have st: "\<forall>p \<in> set ps. staging_path root p" using e(2) by (auto simp: staging_path_def)
    have g: "fs_good F V g" "artifacts V root g = artifacts V root f" "fv_names V g = fv_names V f"
      using same_view_good [OF e(1)] same_view_artifacts [OF e(1)] good e(1) [unfolded same_view_def] by blast+
    note s = sweep_effect [OF g(1) st 2(2)]
    have "fv_names V f' p = (if staging_path root p then None else fv_names V f p)" if "r = Inr m" for p m
    proof (cases "p \<in> set ps")
      case True
      then show ?thesis using s that st by simp
    next
      case False
      have "fv_names V f p = None" if sp: "staging_path root p"
      proof -
        obtain n where p: "p = (root @ [STAGING]) @ [n]" using sp by (auto simp: staging_path_def)
        then show ?thesis using False e(3) [of n "[]"] unfolding p by blast
      qed
      moreover have "fv_names V f' p = fv_names V f p" using s that False g(3) by (metis ComplI restrict_in)
      ultimately show ?thesis by simp
    qed
    then show ?thesis using s g(2) by simp
  qed
qed

section \<open>The interface of the store\<close>

text \<open>
  What an upload relies on: \<open>blobs\<close> are the artifacts, \<open>holds\<close> says what a live upload has received.
  Writing appends, committing publishes exactly what was received under one name, and every
  other outcome leaves the blobs alone.
\<close>

locale blob_store =
  fixes good :: "'f \<Rightarrow> bool"
    and blobs :: "'f \<Rightarrow> 'u \<Rightarrow> string option"
    and valid :: "'u \<Rightarrow> bool"
    and live :: "'f \<Rightarrow> 's \<Rightarrow> bool"
    and holds :: "'f \<Rightarrow> 's \<Rightarrow> string \<Rightarrow> bool"
    and add :: "string \<Rightarrow> 's \<Rightarrow> ('f, 'e, 's) io"
    and commit :: "'s \<Rightarrow> 'u \<Rightarrow> ('f, 'e, u64) io"
    and discard :: "'s \<Rightarrow> 'f \<Rightarrow> 'f"
  assumes holds_live: "holds f s bs \<Longrightarrow> live f s"
    and write_keeps: "good f \<Longrightarrow> live f s \<Longrightarrow> add new s f = (r, f') \<Longrightarrow>
      good f' \<and> blobs f' = blobs f \<and> live f' s"
    and write_appends: "good f \<Longrightarrow> holds f s bs \<Longrightarrow> add new s f = (Inr s', f') \<Longrightarrow> holds f' s' (bs @ new)"
    and commit_keeps: "good f \<Longrightarrow> holds f s bs \<Longrightarrow> valid u \<Longrightarrow> commit s u f = (c, f') \<Longrightarrow>
      good f' \<and> (isl c \<longrightarrow> blobs f' = blobs f)"
    and commit_publishes: "good f \<Longrightarrow> holds f s bs \<Longrightarrow> valid u \<Longrightarrow> commit s u f = (Inr n, f') \<Longrightarrow>
      unat n = length bs \<and> blobs f' = (blobs f)(u \<mapsto> bs)"
    and discard_keeps: "good f \<Longrightarrow> live f s \<Longrightarrow> good (discard s f) \<and> blobs (discard s f) = blobs f"
begin

lemma write_then_commit:
  assumes "good f" "holds f s bs" "valid u" "add new s f = (Inr s', g)" "commit s' u g = (Inr n, f')"
  shows "good f' \<and> unat n = length bs + length new \<and> blobs f' = (blobs f)(u \<mapsto> bs @ new)"
proof -
  have g: "good g" "blobs g = blobs f"
    using write_keeps [OF assms(1) holds_live [OF assms(2)] assms(4)] by blast+
  have h: "holds g s' (bs @ new)" by (rule write_appends [OF assms(1,2,4)])
  show ?thesis
    using commit_publishes [OF g(1) h assms(3,5)] commit_keeps [OF g(1) h assms(3,5)] g(2) by simp
qed

lemma commit_never_removes:
  assumes "good f" "holds f s bs" "valid u" "commit s u f = (r, f')"
  shows "dom (blobs f) \<subseteq> dom (blobs f')"
proof (cases r)
  case (Inl e)
  then show ?thesis using commit_keeps [OF assms] by simp
next
  case (Inr n)
  then show ?thesis using commit_publishes [OF assms(1-3)] assms(4) by auto
qed

end

interpretation nar_store: blob_store "fs_good F V" "artifacts V root" narurl_ok
    "in_flight V root" "holds V root" "staged_write F" "staged_commit F root" "staged_drop F" for F V root
proof unfold_locales
  fix f s bs assume "holds V root f s bs"
  then show "in_flight V root f s" by (simp add: holds_def)
next
  fix f s new r f'
  assume "fs_good F V f" "in_flight V root f s" "staged_write F new s f = (r, f')"
  from staged_write_effect [OF this]
  show "fs_good F V f' \<and> artifacts V root f' = artifacts V root f \<and> in_flight V root f' s" by blast
next
  fix f s bs new s' f'
  assume "fs_good F V f" "holds V root f s bs" "staged_write F new s f = (Inr s', f')"
  then show "holds V root f' s' (bs @ new)"
    using staged_write_effect [of F V f root s new "Inr s'" f'] by (simp add: holds_def)
next
  fix f s bs u r f'
  assume "fs_good F V f" "holds V root f s bs" "narurl_ok u" "staged_commit F root s u f = (r, f')"
  from staged_commit_effect [OF this]
  show "fs_good F V f' \<and> (isl r \<longrightarrow> artifacts V root f' = artifacts V root f)" by (cases r) simp_all
next
  fix f s bs u n f'
  assume "fs_good F V f" "holds V root f s bs" "narurl_ok u" "staged_commit F root s u f = (Inr n, f')"
  from staged_commit_effect [OF this]
  show "unat n = length bs \<and> artifacts V root f' = (artifacts V root f)(u \<mapsto> bs)" by simp
next
  fix f s assume "fs_good F V f" "in_flight V root f s"
  then show "fs_good F V (staged_drop F s f) \<and> artifacts V root (staged_drop F s f) = artifacts V root f"
    by (intro staged_drop_effect disjI1)
qed

end
