(* ===== verification/IndexLaws.thy ===== *)
theory IndexLaws
  imports Index
begin

text \<open>
  What the index operations do to the typed contents: two maps, from store path hashes to
  narinfo records and from NAR hashes to entries. A successful write makes exactly its change,
  a failed one makes it entirely or not at all, and every row stays decodable and filed under
  its own key.
\<close>

section \<open>Typed contents\<close>

definition opt_of :: "'e + 'a \<Rightarrow> 'a option" where
  "opt_of r = (case r of Inl _ \<Rightarrow> None | Inr a \<Rightarrow> Some a)"

lemma opt_of_simps [simp]: "opt_of (Inl e) = None" "opt_of (Inr a) = Some a"
  by (simp_all add: opt_of_def)

lemma opt_of_eq_Some [simp]: "opt_of r = Some a \<longleftrightarrow> r = Inr a"
  by (cases r) auto

definition infos_of :: "rkyv \<Rightarrow> contents \<Rightarrow> sp_hash \<Rightarrow> narinfo option" where
  "infos_of K c h = Option.bind (c NARINFO (sp_bytes h)) (\<lambda>b. opt_of (decode_narinfo K b))"

definition nars_of :: "rkyv \<Rightarrow> contents \<Rightarrow> sha256 \<Rightarrow> entry option" where
  "nars_of K c h = Option.bind (c NAR (sha_bytes h)) (\<lambda>b. opt_of (decode_nar K b))"

definition infos :: "('d, 'r, 't) views \<Rightarrow> rkyv \<Rightarrow> 'd \<Rightarrow> sp_hash \<Rightarrow> narinfo option" where
  "infos V K d = infos_of K (v_db V d)"

definition nars :: "('d, 'r, 't) views \<Rightarrow> rkyv \<Rightarrow> 'd \<Rightarrow> sha256 \<Rightarrow> entry option" where
  "nars V K d = nars_of K (v_db V d)"

definition rows_ok :: "rkyv \<Rightarrow> contents \<Rightarrow> bool" where
  "rows_ok K c \<longleftrightarrow>
     (\<forall>k b. c NARINFO k = Some b \<longrightarrow> (\<exists>r. decode_narinfo K b = Inr r \<and> record_key r = k \<and> core_ok r)) \<and>
     (\<forall>k b. c NAR k = Some b \<longrightarrow> (\<exists>e. decode_nar K b = Inr e \<and> entry_ok e))"

definition index_good ::
  "('d, 'r, 't) redb \<Rightarrow> ('d, 'r, 't) views \<Rightarrow> rkyv \<Rightarrow> 'd \<Rightarrow> bool" where
  "index_good D V K d \<longleftrightarrow> redb_laws D V \<and> rkyv_laws K \<and> rows_ok K (v_db V d)"

lemma decode_encoded:
  assumes "rkyv_laws K"
  shows "rk_narinfo_bytes K r = Inr b \<Longrightarrow> decode_narinfo K b = Inr r"
    and "rk_entry_bytes K e = Inr b \<Longrightarrow> decode_nar K b = Inr e"
  using assms by (simp_all add: rkyv_laws_def decode_narinfo_def decode_nar_def)

lemma sp_bytes_eq [simp]: "sp_bytes a = sp_bytes b \<longleftrightarrow> a = b"
  by (cases a; cases b) simp

lemma sha_bytes_eq [simp]: "sha_bytes a = sha_bytes b \<longleftrightarrow> a = b"
  by (cases a; cases b) simp

lemma set_row_infos:
  "decode_narinfo K b = Inr r \<Longrightarrow> infos_of K (set_row c NARINFO (sp_bytes h) (Some b)) = (infos_of K c)(h \<mapsto> r)"
  "infos_of K (set_row c NARINFO (sp_bytes h) None) = (infos_of K c)(h := None)"
  "infos_of K (set_row c NAR k v) = infos_of K c"
  by (auto simp: infos_of_def set_row_apply)

lemma set_row_nars:
  "decode_nar K b = Inr e \<Longrightarrow> nars_of K (set_row c NAR (sha_bytes h) (Some b)) = (nars_of K c)(h \<mapsto> e)"
  "nars_of K (set_row c NAR (sha_bytes h) None) = (nars_of K c)(h := None)"
  "nars_of K (set_row c NARINFO k v) = nars_of K c"
  by (auto simp: nars_of_def set_row_apply)

lemma rows_ok_set_row:
  assumes "rows_ok K c"
  shows "rows_ok K (set_row c t k None)"
    and "decode_narinfo K b = Inr r \<Longrightarrow> record_key r = k \<Longrightarrow> core_ok r \<Longrightarrow> rows_ok K (set_row c NARINFO k (Some b))"
    and "decode_nar K b = Inr e \<Longrightarrow> entry_ok e \<Longrightarrow> rows_ok K (set_row c NAR k (Some b))"
  using assms by (auto simp: rows_ok_def set_row_apply)

lemma infos_of_Some:
  assumes "rows_ok K c"
  shows "infos_of K c h = Some r \<Longrightarrow> sp_hash (ni_store_path r) = h \<and> core_ok r"
proof -
  assume "infos_of K c h = Some r"
  then obtain b where b: "c NARINFO (sp_bytes h) = Some b" "decode_narinfo K b = Inr r"
    by (auto simp: infos_of_def Option.bind_eq_Some_conv)
  with assms show "sp_hash (ni_store_path r) = h \<and> core_ok r"
    by (fastforce simp: rows_ok_def record_key_def)
qed

lemma nars_of_Some:
  "rows_ok K c \<Longrightarrow> nars_of K c h = Some e \<Longrightarrow> entry_ok e"
  by (fastforce simp: rows_ok_def nars_of_def Option.bind_eq_Some_conv)

section \<open>Reading\<close>

lemma read_table_Inr:
  "redb_laws D V \<Longrightarrow> read_table D t d = Inr r \<Longrightarrow> v_read V r = v_db V d"
  by (auto simp: read_table_def result_iffs redb_laws_def read_laws_def)

lemma index_narinfo_Inr:
  assumes "index_good D V K d" "index_narinfo D K h d = Inr v"
  shows "v = infos V K d h"
proof -
  have D: "redb_laws D V" using assms(1) by (simp add: index_good_def)
  then have get: "rd_get D t k r = Inr w \<Longrightarrow> v_read V r t k = w" for t k r w
    by (auto simp: redb_laws_def read_laws_def)
  from assms(2) show ?thesis
    by (auto simp: index_narinfo_def result_iffs infos_def infos_of_def
        dest!: get read_table_Inr [OF D] split: option.splits)
qed

lemma index_nar_Inr:
  assumes "index_good D V K d" "index_nar D K h d = Inr v"
  shows "v = nars V K d h"
proof -
  have D: "redb_laws D V" using assms(1) by (simp add: index_good_def)
  then have get: "rd_get D t k r = Inr w \<Longrightarrow> v_read V r t k = w" for t k r w
    by (auto simp: redb_laws_def read_laws_def)
  from assms(2) show ?thesis
    by (auto simp: index_nar_def result_iffs nars_def nars_of_def
        dest!: get read_table_Inr [OF D] split: option.splits)
qed

lemma decode_rows_Inr:
  "decode_rows K rows = Inr rs \<Longrightarrow>
     (\<forall>row \<in> set rows. \<exists>k b r. row = Inr (k, b) \<and> decode_narinfo K b = Inr r) \<and>
     rs = map (\<lambda>row. projr (decode_narinfo K (snd (projr row)))) rows"
  by (induction rows arbitrary: rs) (auto simp: result_iffs)

text \<open>\<open>records\<close> returns every record once.\<close>

lemma index_records_Inr:
  assumes "index_good D V K d" "index_records D K d = Inr rs"
  shows "set rs = ran (infos V K d)" "distinct (map (\<lambda>r. sp_hash (ni_store_path r)) rs)"
proof -
  have D: "redb_laws D V" and ok: "rows_ok K (v_db V d)" using assms(1) by (simp_all add: index_good_def)
  obtain t rows where t: "read_table D NARINFO d = Inr t" "rd_iter D NARINFO t = Inr rows" "decode_rows K rows = Inr rs"
    using assms(2) by (auto simp: index_records_def result_iffs)
  note rows = decode_rows_Inr [OF t(3)]
  let ?kvs = "map projr rows"
  let ?rec = "\<lambda>b. projr (decode_narinfo K b)"
  have iter: "distinct (map fst ?kvs)" "map_of ?kvs = v_db V d NARINFO"
    using D t(2) rows read_table_Inr [OF D t(1)] unfolding redb_laws_def read_laws_def
    by (fastforce simp: comp_def)+
  have rs: "rs = map (\<lambda>kv. ?rec (snd kv)) ?kvs" using rows by simp
  have row: "v_db V d NARINFO k = Some b \<longleftrightarrow> (k, b) \<in> set ?kvs" for k b
    using map_of_eq_Some_iff [OF iter(1)] by (simp only: iter(2))
  have key: "decode_narinfo K b = Inr (?rec b) \<and> record_key (?rec b) = k" if "(k, b) \<in> set ?kvs" for k b
    using that row [of k b] ok by (fastforce simp: rows_ok_def)
  have "map record_key rs = map fst ?kvs" unfolding rs map_map comp_def
    by (rule map_cong [OF refl]) (use key in force)
  then have "distinct (map record_key rs)" using iter(1) by simp
  then show "distinct (map (\<lambda>r. sp_hash (ni_store_path r)) rs)"
    by (auto simp: distinct_map record_key_def inj_on_def)
  show "set rs = ran (infos V K d)"
  proof (intro equalityI subsetI)
    fix r assume "r \<in> set rs"
    then have "r \<in> (\<lambda>kv. ?rec (snd kv)) ` set ?kvs" by (subst (asm) rs) (simp only: set_map)
    then obtain kv where "kv \<in> set ?kvs" "r = ?rec (snd kv)" by (elim imageE)
    then obtain k b where "(k, b) \<in> set ?kvs" "r = ?rec b" by (metis prod.collapse)
    then have "infos V K d (SpHash k) = Some r"
      using row [of k b] key [of k b] by (auto simp: infos_def infos_of_def)
    then show "r \<in> ran (infos V K d)" by (rule ranI)
  next
    fix r assume "r \<in> ran (infos V K d)"
    then obtain h b where "v_db V d NARINFO (sp_bytes h) = Some b" and r: "decode_narinfo K b = Inr r"
      by (auto simp: infos_def infos_of_def ran_def Option.bind_eq_Some_conv)
    then have "(sp_bytes h, b) \<in> set ?kvs" by (simp only: row)
    from imageI [OF this, of "\<lambda>kv. ?rec (snd kv)"] show "r \<in> set rs"
      by (subst rs) (simp only: set_map r snd_conv sum.sel)
  qed
qed

lemma infos_dom:
  assumes "rows_ok K (v_db V d)"
  shows "dom (v_db V d NARINFO) = sp_bytes ` dom (infos V K d)"
proof (intro equalityI subsetI)
  fix k assume "k \<in> dom (v_db V d NARINFO)"
  then obtain b r where "v_db V d NARINFO k = Some b" "decode_narinfo K b = Inr r"
    using assms by (fastforce simp: rows_ok_def)
  then have "infos V K d (SpHash k) = Some r" by (simp add: infos_def infos_of_def)
  then show "k \<in> sp_bytes ` dom (infos V K d)" by (intro image_eqI [of _ _ "SpHash k"]) auto
qed (auto simp: infos_def infos_of_def Option.bind_eq_Some_conv)

lemma index_count_Inr:
  assumes "index_good D V K d" "index_count D d = Inr n"
  shows "unat n = card (dom (infos V K d))"
proof -
  have D: "redb_laws D V" and ok: "rows_ok K (v_db V d)" using assms(1) by (simp_all add: index_good_def)
  obtain t where t: "read_table D NARINFO d = Inr t" "rd_len D NARINFO t = Inr n"
    using assms(2) by (auto simp: index_count_def result_iffs)
  then have "unat n = card (dom (v_db V d NARINFO))"
    using D read_table_Inr [OF D t(1)] by (simp add: redb_laws_def read_laws_def)
  then show ?thesis by (simp add: infos_dom [OF ok] card_image inj_on_def)
qed

section \<open>Writing\<close>

text \<open>
  How a write ends: it published contents that satisfy \<open>P\<close>, or it failed and left either the old
  contents or such new ones.
\<close>

definition settles ::
  "('d, 'r, 't) views \<Rightarrow> 'd \<Rightarrow> 'e + 'a \<Rightarrow> 'd \<Rightarrow> ('a \<Rightarrow> contents \<Rightarrow> bool) \<Rightarrow> bool" where
  "settles V d r d' P \<longleftrightarrow>
     (case r of Inr a \<Rightarrow> P a (v_db V d')
      | Inl e \<Rightarrow> v_db V d' = v_db V d \<or> (\<exists>a. P a (v_db V d')))"

lemma with_write_settles:
  assumes "redb_laws D V" "with_write D body d = (r, d')"
    and "\<And>t a t'. v_write V t = v_db V d \<Longrightarrow> body t = (Inr a, t') \<Longrightarrow> P a (v_write V t')"
  shows "settles V d r d' P"
proof -
  have laws: "write_laws D V" using assms(1) by (simp add: redb_laws_def)
  show ?thesis
  proof (cases "rd_begin_write D d")
    case (Pair b d1)
    have d1: "v_db V d1 = v_db V d" using laws Pair by (cases b) (auto simp: write_laws_def)
    show ?thesis
    proof (cases b)
      case (Inl e)
      then show ?thesis using assms(2) d1 by (auto simp: with_write_def io_then_def io_ctx_def Pair settles_def)
    next
      case (Inr t)
      have t: "v_write V t = v_db V d" using laws Pair Inr by (auto simp: write_laws_def)
      obtain x t' where x: "body t = (x, t')" by fastforce
      have run: "(case x of Inl e \<Rightarrow> (Inl e, rd_drop D t' d1)
          | Inr a \<Rightarrow> io_then (io_ctx IE_Commit (rd_commit D t')) (\<lambda>_. io_return a) d1) = (r, d')"
        using assms(2) by (cases x) (auto simp: with_write_def io_then_def io_ctx_def Pair Inr x)
      show ?thesis
      proof (cases x)
        case (Inl e)
        then show ?thesis using run d1 laws by (auto simp: settles_def write_laws_def)
      next
        case (Inr a)
        have P: "P a (v_write V t')" using assms(3) t x Inr by blast
        obtain c d2 where c: "rd_commit D t' d1 = (c, d2)" by fastforce
        have "d' = d2" "r = (case c of Inl e \<Rightarrow> Inl (IE_Commit e) | Inr _ \<Rightarrow> Inr a)"
          using run by (auto simp: Inr io_then_def io_ctx_def c split: sum.splits)
        moreover have "case c of Inl e \<Rightarrow> v_db V d2 = v_db V d1 \<or> v_db V d2 = v_write V t'
            | Inr _ \<Rightarrow> v_db V d2 = v_write V t'"
          using laws c by (cases c) (auto simp: write_laws_def)
        ultimately show ?thesis using P d1 by (cases c) (auto simp: settles_def)
      qed
    qed
  qed
qed

lemma index_open_keeps:
  assumes "redb_laws D V" "index_open D path d = (r, d')"
  shows "v_db V d' = v_db V d"
proof -
  have laws: "write_laws D V" using assms(1) by (simp add: redb_laws_def)
  have open_w: "open_write D tb t = (x, t') \<Longrightarrow> v_write V t' = v_write V t" for tb t x t'
    using laws by (auto simp: open_write_def write_laws_def elim!: io_ctxE)
  from assms(2) show ?thesis unfolding index_open_def
  proof (elim io_thenE io_ctxE)
    fix e e' assume "rd_create D path d = (Inl e', d')"
    then show ?thesis using laws by (auto simp: write_laws_def)
  next
    fix a :: unit and a' d1
    assume c: "rd_create D path d = (Inr a', d1)"
      and w: "with_write D (io_then (open_write D NARINFO) (\<lambda>_. open_write D NAR)) d1 = (r, d')"
    have "settles V d1 r d' (\<lambda>_ c. c = v_db V d1)"
      by (rule with_write_settles [OF assms(1) w]) (auto elim!: io_thenE dest!: open_w)
    moreover have "v_db V d1 = v_db V d" using laws c by (auto simp: write_laws_def)
    ultimately show ?thesis by (cases r) (auto simp: settles_def)
  qed (auto simp: io_then_def)
qed

lemma open_write_keeps:
  "redb_laws D V \<Longrightarrow> open_write D tb t = (x, t') \<Longrightarrow> v_write V t' = v_write V t"
  by (auto simp: open_write_def redb_laws_def write_laws_def elim!: io_ctxE)

lemma insert_row:
  "redb_laws D V \<Longrightarrow> io_ctx w (rd_insert D tb k v) t = (Inr u, t') \<Longrightarrow>
     v_write V t' = set_row (v_write V t) tb k (Some v)"
  by (auto simp: redb_laws_def write_laws_def elim!: io_ctxE)

lemma remove_row:
  "redb_laws D V \<Longrightarrow> io_ctx w (rd_remove D tb k) t = (Inr x, t') \<Longrightarrow>
     x = v_write V t tb k \<and> v_write V t' = set_row (v_write V t) tb k None"
  by (auto simp: redb_laws_def write_laws_def elim!: io_ctxE)

lemma index_put_nar_settles:
  assumes "redb_laws D V" "index_put_nar D K h e d = (r, d')"
  shows "settles V d r d' (\<lambda>_ c. \<exists>b. rk_entry_bytes K e = Inr b \<and> c = set_row (v_db V d) NAR (sha_bytes h) (Some b))"
proof (cases "rk_entry_bytes K e")
  case (Inl x)
  then show ?thesis using assms(2) by (auto simp: index_put_nar_def settles_def)
next
  case (Inr b)
  then have "with_write D (io_then (open_write D NAR)
      (\<lambda>_. io_ctx IE_Write (rd_insert D NAR (sha_bytes h) b))) d = (r, d')"
    using assms(2) by (simp add: index_put_nar_def)
  then show ?thesis
    by (rule with_write_settles [OF assms(1)])
      (auto simp: Inr elim!: io_thenE dest!: open_write_keeps [OF assms(1)] insert_row [OF assms(1)])
qed

lemma index_publish_settles:
  assumes "redb_laws D V" "index_publish D K q d = (r, d')"
  shows "settles V d r d' (\<lambda>_ c. \<exists>b. rk_narinfo_bytes K q = Inr b \<and> c = set_row (v_db V d) NARINFO (record_key q) (Some b))"
proof (cases "rk_narinfo_bytes K q")
  case (Inl x)
  then show ?thesis using assms(2) by (auto simp: index_publish_def settles_def)
next
  case (Inr b)
  then have "with_write D (io_then (open_write D NARINFO)
      (\<lambda>_. io_ctx IE_Write (rd_insert D NARINFO (record_key q) b))) d = (r, d')"
    using assms(2) by (simp add: index_publish_def)
  then show ?thesis
    by (rule with_write_settles [OF assms(1)])
      (auto simp: Inr elim!: io_thenE dest!: open_write_keeps [OF assms(1)] insert_row [OF assms(1)])
qed

text \<open>\<open>republish\<close> inserts the records in order, so a later one of the same key wins.\<close>

fun insert_all :: "rkyv \<Rightarrow> narinfo list \<Rightarrow> contents \<Rightarrow> contents option" where
  "insert_all K [] c = Some c"
| "insert_all K (q # qs) c =
     (case rk_narinfo_bytes K q of
        Inl _ \<Rightarrow> None
      | Inr b \<Rightarrow> insert_all K qs (set_row c NARINFO (record_key q) (Some b)))"

lemma insert_each:
  assumes "redb_laws D V"
  shows "io_each (\<lambda>q. io_then (io_lift (ctx IE_Encode (rk_narinfo_bytes K q))) (\<lambda>encoded.
      io_ctx IE_Write (rd_insert D NARINFO (record_key q) encoded))) qs t = (Inr u, t') \<Longrightarrow>
    insert_all K qs (v_write V t) = Some (v_write V t')"
proof (induction qs arbitrary: t)
  case (Cons q qs)
  then obtain b t1 where b: "rk_narinfo_bytes K q = Inr b"
    and t1: "io_ctx IE_Write (rd_insert D NARINFO (record_key q) b) t = (Inr (), t1)"
    and rest: "io_each (\<lambda>q. io_then (io_lift (ctx IE_Encode (rk_narinfo_bytes K q))) (\<lambda>encoded.
      io_ctx IE_Write (rd_insert D NARINFO (record_key q) encoded))) qs t1 = (Inr u, t')"
    by (auto elim!: io_thenE)
  show ?case using Cons.IH [OF rest] b insert_row [OF assms t1] by simp
qed simp

lemma index_republish_settles:
  assumes "redb_laws D V" "index_republish D K qs d = (r, d')"
  shows "settles V d r d' (\<lambda>_ c. insert_all K qs (v_db V d) = Some c)"
  using assms(2) unfolding index_republish_def
  by (rule with_write_settles [OF assms(1)])
    (auto elim!: io_thenE dest!: open_write_keeps [OF assms(1)] insert_each [OF assms(1)])

lemma index_unpublish_settles:
  assumes "redb_laws D V" "index_unpublish D K h d = (r, d')"
  shows "settles V d r d' (\<lambda>x c.
     case v_db V d NARINFO (sp_bytes h) of
       None \<Rightarrow> x = None \<and> c = v_db V d
     | Some b \<Rightarrow> (\<exists>q. decode_narinfo K b = Inr q \<and> x = Some q \<and>
         c = set_row (set_row (v_db V d) NARINFO (sp_bytes h) None) NAR (sha_bytes (ni_nar_hash q)) None))"
    (is "settles V d r d' ?P")
  using assms(2) unfolding index_unpublish_def
proof (rule with_write_settles [OF assms(1)])
  fix t a t'
  assume t: "v_write V t = v_db V d"
    and body: "io_then (open_write D NARINFO) (\<lambda>_.
        io_then (open_write D NAR) (\<lambda>_.
        io_then (io_ctx IE_Write (rd_remove D NARINFO (sp_bytes h))) (\<lambda>removed.
        case removed of
          None \<Rightarrow> io_return None
        | Some stored \<Rightarrow>
            io_then (io_lift (decode_narinfo K stored)) (\<lambda>r.
            io_then (io_ctx IE_Write (rd_remove D NAR (sha_bytes (ni_nar_hash r)))) (\<lambda>_.
            io_return (Some r)))))) t = (Inr a, t')"
  from body obtain t1 t2 t3 x u1 u2
    where o: "open_write D NARINFO t = (Inr u1, t1)" "open_write D NAR t1 = (Inr u2, t2)"
    and x: "io_ctx IE_Write (rd_remove D NARINFO (sp_bytes h)) t2 = (Inr x, t3)"
    and rest: "(case x of
          None \<Rightarrow> io_return None
        | Some stored \<Rightarrow>
            io_then (io_lift (decode_narinfo K stored)) (\<lambda>r.
            io_then (io_ctx IE_Write (rd_remove D NAR (sha_bytes (ni_nar_hash r)))) (\<lambda>_.
            io_return (Some r)))) t3 = (Inr a, t')"
    by (auto elim!: io_thenE)
  have v: "v_write V t2 = v_db V d" using open_write_keeps [OF assms(1)] o t by metis
  note row = remove_row [OF assms(1) x, unfolded v]
  show "?P a (v_write V t')"
  proof (cases x)
    case None
    then have "set_row (v_db V d) NARINFO (sp_bytes h) None = v_db V d"
      using row by (auto simp: set_row_def fun_eq_iff)
    then show ?thesis using rest row None by simp
  next
    case (Some b)
    with rest obtain q y where "decode_narinfo K b = Inr q" "a = Some q"
      and "io_ctx IE_Write (rd_remove D NAR (sha_bytes (ni_nar_hash q))) t3 = (Inr y, t')"
      by (auto elim!: io_thenE)
    moreover have "v_write V t' = set_row (v_write V t3) NAR (sha_bytes (ni_nar_hash q)) None"
      using remove_row [OF assms(1) calculation(3)] by blast
    moreover have "v_db V d NARINFO (sp_bytes h) = Some b" using row Some by simp
    ultimately show ?thesis using row by simp
  qed
qed

lemma insert_all_typed:
  assumes "rkyv_laws K"
  shows "insert_all K qs c = Some c' \<Longrightarrow>
    infos_of K c' = fold (\<lambda>q m. m(sp_hash (ni_store_path q) \<mapsto> q)) qs (infos_of K c) \<and>
    nars_of K c' = nars_of K c"
proof (induction qs arbitrary: c)
  case (Cons q qs)
  then obtain b where b: "rk_narinfo_bytes K q = Inr b"
      "insert_all K qs (set_row c NARINFO (record_key q) (Some b)) = Some c'"
    by (auto split: sum.splits)
  from Cons.IH [OF b(2)] decode_encoded(1) [OF assms b(1)] show ?case
    by (simp add: set_row_infos(1) set_row_nars(3) record_key_def)
qed simp

lemma insert_all_ok:
  assumes "rkyv_laws K"
  shows "insert_all K qs c = Some c' \<Longrightarrow> rows_ok K c \<Longrightarrow> list_all core_ok qs \<Longrightarrow> rows_ok K c'"
proof (induction qs arbitrary: c)
  case (Cons q qs)
  then obtain b where b: "rk_narinfo_bytes K q = Inr b"
      "insert_all K qs (set_row c NARINFO (record_key q) (Some b)) = Some c'"
    by (auto split: sum.splits)
  have "rows_ok K (set_row c NARINFO (record_key q) (Some b))"
    using Cons.prems decode_encoded(1) [OF assms b(1)] by (intro rows_ok_set_row(2)) auto
  with Cons.IH [OF b(2)] Cons.prems show ?case by simp
qed simp

lemma republish_good:
  assumes "index_good D V K d" "list_all core_ok qs" "index_republish D K qs d = (r, d')"
  shows "index_good D V K d' \<and>
    (infos V K d' = fold (\<lambda>q m. m(sp_hash (ni_store_path q) \<mapsto> q)) qs (infos V K d) \<or>
       isl r \<and> infos V K d' = infos V K d) \<and>
    nars V K d' = nars V K d"
proof -
  have D: "redb_laws D V" "rkyv_laws K" "rows_ok K (v_db V d)" using assms(1) by (simp_all add: index_good_def)
  have "v_db V d' = v_db V d \<and> isl r \<or> insert_all K qs (v_db V d) = Some (v_db V d')"
    using index_republish_settles [OF D(1) assms(3)] by (cases r) (auto simp: settles_def)
  then show ?thesis
  proof (elim disjE conjE)
    assume i: "insert_all K qs (v_db V d) = Some (v_db V d')"
    show ?thesis using insert_all_typed [OF D(2) i] insert_all_ok [OF D(2) i D(3) assms(2)] D
      by (simp add: index_good_def nars_def infos_def)
  qed (use D in \<open>simp add: index_good_def nars_def infos_def\<close>)
qed

lemma unpublish_good:
  assumes "index_good D V K d" "index_unpublish D K h d = (r, d')"
  shows "index_good D V K d' \<and>
    (case infos V K d h of
       None \<Rightarrow> (r = Inr None \<or> isl r) \<and> infos V K d' = infos V K d \<and> nars V K d' = nars V K d
     | Some q \<Rightarrow>
         (r = Inr (Some q) \<or> isl r) \<and>
         (infos V K d' = (infos V K d)(h := None) \<and> nars V K d' = (nars V K d)(ni_nar_hash q := None) \<or>
          isl r \<and> infos V K d' = infos V K d \<and> nars V K d' = nars V K d))"
proof -
  have D: "redb_laws D V" "rkyv_laws K" "rows_ok K (v_db V d)" using assms(1) by (simp_all add: index_good_def)
  note out = index_unpublish_settles [OF D(1) assms(2)]
  show ?thesis
  proof (cases "v_db V d NARINFO (sp_bytes h)")
    case None
    then have "infos V K d h = None" by (simp add: infos_def infos_of_def)
    moreover have "v_db V d' = v_db V d" "r = Inr None \<or> isl r"
      using out None by (cases r; auto simp: settles_def)+
    ultimately show ?thesis using D by (simp add: index_good_def nars_def infos_def)
  next
    case (Some b)
    then obtain q where q: "decode_narinfo K b = Inr q" using D(3) by (fastforce simp: rows_ok_def)
    then have h: "infos V K d h = Some q" using Some by (simp add: infos_def infos_of_def)
    have eff: "v_db V d' = v_db V d \<and> isl r \<or> v_db V d' =
        set_row (set_row (v_db V d) NARINFO (sp_bytes h) None) NAR (sha_bytes (ni_nar_hash q)) None"
      and r: "r = Inr (Some q) \<or> isl r"
      using out Some q by (cases r; auto simp: settles_def)+
    from eff show ?thesis
    proof (elim disjE conjE)
      assume "v_db V d' = set_row (set_row (v_db V d) NARINFO (sp_bytes h) None) NAR (sha_bytes (ni_nar_hash q)) None"
      then show ?thesis using D h r rows_ok_set_row(1) [OF rows_ok_set_row(1) [OF D(3)]]
        by (simp add: index_good_def nars_def infos_def set_row_infos(2,3) set_row_nars(2,3))
    qed (use D h r in \<open>simp_all add: index_good_def nars_def infos_def\<close>)
  qed
qed

section \<open>The interface of a table\<close>

text \<open>
  A keyed table as its clients see it: a partial map, a get that answers from it and a put
  that makes exactly one change or, when it fails, at most that change. \<open>good\<close> is the invariant,
  \<open>can\<close> says which values belong under which key.
\<close>

locale kv_table =
  fixes good :: "'d \<Rightarrow> bool"
    and look :: "'d \<Rightarrow> 'k \<Rightarrow> 'v option"
    and can :: "'k \<Rightarrow> 'v \<Rightarrow> bool"
    and get :: "'k \<Rightarrow> 'd \<Rightarrow> 'e + 'v option"
    and put :: "'k \<Rightarrow> 'v \<Rightarrow> ('d, 'e, unit) io"
  assumes get_look: "good d \<Longrightarrow> get k d = Inr x \<Longrightarrow> x = look d k"
    and put_good: "good d \<Longrightarrow> can k v \<Longrightarrow> put k v d = (r, d') \<Longrightarrow> good d'"
    and put_look: "good d \<Longrightarrow> can k v \<Longrightarrow> put k v d = (Inr (), d') \<Longrightarrow> look d' = (look d)(k \<mapsto> v)"
    and put_fail: "good d \<Longrightarrow> can k v \<Longrightarrow> put k v d = (Inl e, d') \<Longrightarrow>
      look d' = look d \<or> look d' = (look d)(k \<mapsto> v)"
begin

lemma get_after_put:
  assumes "good d" "can k v" "put k v d = (Inr (), d')" "get l d' = Inr x"
  shows "x = (if l = k then Some v else look d l)"
  using get_look [OF put_good [OF assms(1-3)] assms(4)] put_look [OF assms(1-3)] by simp

lemma put_keeps_others:
  assumes "good d" "can k v" "put k v d = (r, d')" "l \<noteq> k"
  shows "look d' l = look d l"
proof (cases r)
  case (Inl e)
  then show ?thesis using put_fail [of d k v e d'] assms by auto
next
  case (Inr u)
  then show ?thesis using put_look [of d k v d'] assms by simp
qed

lemma put_keeps_dom:
  assumes "good d" "can k v" "put k v d = (r, d')"
  shows "dom (look d) \<subseteq> dom (look d')"
proof (cases r)
  case (Inl e)
  then show ?thesis using put_fail [of d k v e d'] assms by auto
next
  case (Inr u)
  then show ?thesis using put_look [of d k v d'] assms by auto
qed

lemma put_ran:
  assumes "good d" "can k v" "put k v d = (r, d')" "look d' l = Some w"
  shows "look d l = Some w \<or> l = k \<and> w = v"
proof (cases "l = k")
  case True
  then show ?thesis using put_look [of d k v d'] put_fail [of d k v _ d'] assms
    by (cases r) (auto split: if_splits)
next
  case False
  then show ?thesis using put_keeps_others [OF assms(1-3)] assms(4) by simp
qed

end

lemma put_nar_good:
  assumes "index_good D V K d" "entry_ok e" "index_put_nar D K h e d = (r, d')"
  shows "index_good D V K d' \<and>
    (nars V K d' = (nars V K d)(h \<mapsto> e) \<or> isl r \<and> nars V K d' = nars V K d) \<and> infos V K d' = infos V K d"
proof -
  have D: "redb_laws D V" "rkyv_laws K" "rows_ok K (v_db V d)" using assms(1) by (simp_all add: index_good_def)
  have "v_db V d' = v_db V d \<and> isl r \<or> (\<exists>b. rk_entry_bytes K e = Inr b \<and> v_db V d' = set_row (v_db V d) NAR (sha_bytes h) (Some b))"
    using index_put_nar_settles [OF D(1) assms(3)] by (cases r) (auto simp: settles_def)
  then show ?thesis
  proof (elim disjE exE conjE)
    fix b assume b: "rk_entry_bytes K e = Inr b" "v_db V d' = set_row (v_db V d) NAR (sha_bytes h) (Some b)"
    note dec = decode_encoded(2) [OF D(2) b(1)]
    show ?thesis using D rows_ok_set_row(3) [OF D(3) dec assms(2)] dec
      by (simp add: index_good_def nars_def infos_def b set_row_nars set_row_infos)
  qed (use D in \<open>simp add: index_good_def nars_def infos_def\<close>)
qed

lemma publish_good:
  assumes "index_good D V K d" "core_ok q" "index_publish D K q d = (r, d')"
  shows "index_good D V K d' \<and>
    (infos V K d' = (infos V K d)(sp_hash (ni_store_path q) \<mapsto> q) \<or> isl r \<and> infos V K d' = infos V K d) \<and>
    nars V K d' = nars V K d"
proof -
  have D: "redb_laws D V" "rkyv_laws K" "rows_ok K (v_db V d)" using assms(1) by (simp_all add: index_good_def)
  have "v_db V d' = v_db V d \<and> isl r \<or> (\<exists>b. rk_narinfo_bytes K q = Inr b \<and> v_db V d' = set_row (v_db V d) NARINFO (record_key q) (Some b))"
    using index_publish_settles [OF D(1) assms(3)] by (cases r) (auto simp: settles_def)
  then show ?thesis
  proof (elim disjE exE conjE)
    fix b assume b: "rk_narinfo_bytes K q = Inr b" "v_db V d' = set_row (v_db V d) NARINFO (record_key q) (Some b)"
    note dec = decode_encoded(1) [OF D(2) b(1)]
    show ?thesis using D rows_ok_set_row(2) [OF D(3) dec refl assms(2)] dec
      by (simp add: index_good_def nars_def infos_def b set_row_nars set_row_infos(1) record_key_def)
  qed (use D in \<open>simp add: index_good_def nars_def infos_def\<close>)
qed

interpretation nar_table: kv_table "index_good D V K" "nars V K" "\<lambda>_ e. entry_ok e"
    "index_nar D K" "index_put_nar D K" for D V K
proof unfold_locales
  fix d h x assume "index_good D V K d" "index_nar D K h d = Inr x"
  then show "x = nars V K d h" by (rule index_nar_Inr)
qed (auto dest: put_nar_good)

interpretation narinfo_table: kv_table "index_good D V K" "infos V K"
    "\<lambda>h q. core_ok q \<and> sp_hash (ni_store_path q) = h" "index_narinfo D K" "\<lambda>_. index_publish D K" for D V K
proof unfold_locales
  fix d h x assume "index_good D V K d" "index_narinfo D K h d = Inr x"
  then show "x = infos V K d h" by (rule index_narinfo_Inr)
qed (auto dest: publish_good)

end
