(* ===== verification/UploadLaws.thy ===== *)
theory UploadLaws
  imports Upload StoreLaws IndexLaws
begin

text \<open>
  What an upload records is what arrived: both digests, both sizes and the contents of the
  staging file are functions of the received bytes, however they were cut into chunks, and the
  stored artifact decompresses to them. Nothing an upload does before its commit touches an
  artifact.
\<close>

section \<open>The invariant of a receiving upload\<close>

definition receives ::
  "'e ext \<Rightarrow> 'z zstd_views \<Rightarrow> ('f, 'h) fs_views \<Rightarrow> path \<Rightarrow> 'f \<Rightarrow> ('h, 'e, 'z) receiving_upload \<Rightarrow> string \<Rightarrow> bool" where
  "receives X W V root f u bs \<longleftrightarrow>
     (let st = up_state u; gone = zv_gone W (rc_encoder st) in
      holds V root f (up_staged u) gone \<and>
      zv_in W (rc_encoder st) = bs \<and>
      rc_nar st = sha_update X (sha_init X) bs \<and>
      rc_file st = sha_update X (sha_init X) gone \<and>
      (length bs < 2 ^ 64 \<longrightarrow> unat (rc_nar_size st) = length bs))"

definition live_upload :: "('f, 'h) fs_views \<Rightarrow> path \<Rightarrow> 'f \<Rightarrow> ('h, 's) upload \<Rightarrow> bool" where
  "live_upload V root f u \<longleftrightarrow> in_flight V root f (up_staged u)"

lemma receives_live: "receives X W V root f u bs \<Longrightarrow> live_upload V root f u"
  by (simp add: receives_def live_upload_def Let_def holds_def)

lemma sha_join: "sha_laws X \<Longrightarrow> sha_update X (sha_update X h a) b = sha_update X h (a @ b)"
  by (simp add: sha_laws_def)

lemma sha_nil: "sha_laws X \<Longrightarrow> sha_update X h [] = h"
  by (simp add: sha_laws_def)

lemma upload_new_receives:
  assumes "sha_laws X" "zstd_laws Z W" "holds V root f s []"
    and "upload_new X Z F s expected lvl f = (Inr u, f')"
  shows "f' = f \<and> up_expected u = expected \<and> receives X W V root f u []"
  using assms
  by (auto simp: upload_new_def receives_def Let_def hasher_default_def sha_nil zstd_laws_def split: sum.splits)

lemma upload_new_keeps:
  assumes "fs_good F V f" "in_flight V root f s" "upload_new X Z F s expected lvl f = (r, f')"
  shows "fs_good F V f' \<and> artifacts V root f' = artifacts V root f"
  using assms nar_store.discard_keeps [OF assms(1,2)] by (auto simp: upload_new_def split: sum.splits)

text \<open>Draining moves produced bytes from memory to the staging file.\<close>

lemma upload_drain_keeps:
  assumes "fs_good F V f" "live_upload V root f u" "upload_drain X Z F (u, f) = (r, (u', f'))"
  shows "fs_good F V f' \<and> artifacts V root f' = artifacts V root f \<and> live_upload V root f' u' \<and>
    up_expected u' = up_expected u"
proof (cases "zs_out Z (rc_encoder (up_state u)) = []")
  case True
  then show ?thesis using assms by (auto simp: upload_drain_def Let_def live_upload_def)
next
  case False
  let ?out = "zs_out Z (rc_encoder (up_state u))"
  obtain x g where x: "staged_write F ?out (up_staged u) f = (x, g)" by fastforce
  have fl: "in_flight V root f (up_staged u)" using assms(2) by (simp add: live_upload_def)
  note keep = staged_write_effect [OF assms(1) fl x]
  have "in_flight V root g s'" if "x = Inr s'" for s'
    using that keep x by (auto simp: staged_write_def in_flight_def elim!: io_thenE io_ctxE)
  then show ?thesis using assms(3) x False keep
    by (auto simp: upload_drain_def Let_def live_upload_def split: sum.splits)
qed

lemma upload_drain_receives:
  assumes "sha_laws X" "zstd_laws Z W" "fs_good F V f" "receives X W V root f u bs"
    and "upload_drain X Z F (u, f) = (Inr (), (u', f'))"
  shows "receives X W V root f' u' bs"
proof -
  let ?enc = "rc_encoder (up_state u)"
  let ?out = "zs_out Z ?enc"
  have z: "zv_in W (zs_take Z ?enc) = zv_in W ?enc" "zv_gone W (zs_take Z ?enc) = zv_gone W ?enc @ ?out"
    using assms(2) by (auto simp: zstd_laws_def)
  have h: "holds V root f (up_staged u) (zv_gone W ?enc)"
    using assms(4) by (simp add: receives_def Let_def)
  show ?thesis
  proof (cases "?out = []")
    case True
    then show ?thesis using assms(4,5) z by (auto simp: upload_drain_def Let_def receives_def)
  next
    case False
    with assms(5) obtain s' where s': "staged_write F ?out (up_staged u) f = (Inr s', f')"
      and u': "u' = u\<lparr>up_state := (up_state u)\<lparr>rc_encoder := zs_take Z ?enc,
        rc_file := hasher_update X (rc_file (up_state u)) ?out\<rparr>, up_staged := s'\<rparr>"
      by (auto simp: upload_drain_def Let_def split: prod.splits sum.splits)
    have "holds V root f' s' (zv_gone W ?enc @ ?out)"
      by (rule nar_store.write_appends [OF assms(3) h s'])
    then show ?thesis using assms(1,4) z by (simp add: u' receives_def Let_def hasher_update_def sha_join)
  qed
qed

lemma upload_write_keeps:
  assumes "fs_good F V f" "live_upload V root f u" "upload_write X Z F chunk (u, f) = (r, (u', f'))"
  shows "fs_good F V f' \<and> artifacts V root f' = artifacts V root f \<and> live_upload V root f' u' \<and>
    up_expected u' = up_expected u"
proof -
  let ?st = "(up_state u)\<lparr>rc_nar := hasher_update X (rc_nar (up_state u)) chunk,
    rc_nar_size := rc_nar_size (up_state u) + u64_from_usize (length chunk)\<rparr>"
  obtain x enc where x: "zs_write_all Z chunk (rc_encoder (up_state u)) = (x, enc)" by fastforce
  let ?u = "u\<lparr>up_state := ?st\<lparr>rc_encoder := enc\<rparr>\<rparr>"
  have live: "live_upload V root f ?u" using assms(2) by (simp add: live_upload_def)
  show ?thesis
  proof (cases "isl x \<or> length (zs_out Z enc) < DRAIN_THRESHOLD")
    case True
    then show ?thesis using assms x by (cases x) (auto simp: upload_write_def Let_def live_upload_def split: if_splits)
  next
    case False
    then have "upload_drain X Z F (?u, f) = (r, (u', f'))"
      using assms(3) x by (cases x) (auto simp: upload_write_def Let_def)
    from upload_drain_keeps [OF assms(1) live this] show ?thesis by simp
  qed
qed

lemma upload_write_receives:
  assumes "sha_laws X" "zstd_laws Z W" "fs_good F V f" "receives X W V root f u bs"
    and "upload_write X Z F chunk (u, f) = (Inr (), (u', f'))"
  shows "receives X W V root f' u' (bs @ chunk)"
proof -
  let ?st = "(up_state u)\<lparr>rc_nar := hasher_update X (rc_nar (up_state u)) chunk,
    rc_nar_size := rc_nar_size (up_state u) + u64_from_usize (length chunk)\<rparr>"
  obtain enc where x: "zs_write_all Z chunk (rc_encoder (up_state u)) = (Inr (), enc)"
    using assms(5) by (auto simp: upload_write_def Let_def split: prod.splits sum.splits)
  let ?u = "u\<lparr>up_state := ?st\<lparr>rc_encoder := enc\<rparr>\<rparr>"
  have z: "zv_in W enc = zv_in W (rc_encoder (up_state u)) @ chunk" "zv_gone W enc = zv_gone W (rc_encoder (up_state u))"
    using assms(2) x by (auto simp: zstd_laws_def)
  have size: "unat (rc_nar_size (up_state u) + u64_from_usize (length chunk)) = length (bs @ chunk)"
    if "length (bs @ chunk) < 2 ^ 64"
    using that assms(4) by (subst unat_add_lem [THEN iffD1]) (simp_all add: receives_def Let_def unat_u64_from_usize)
  have "receives X W V root f ?u (bs @ chunk)"
    using assms(1,4) z size by (simp add: receives_def Let_def hasher_update_def sha_join)
  moreover have "upload_drain X Z F (?u, f) = (Inr (), (u', f')) \<or> (u', f') = (?u, f)"
    using assms(5) x by (auto simp: upload_write_def Let_def split: if_splits)
  ultimately show ?thesis using upload_drain_receives [OF assms(1-3)] by blast
qed

lemma upload_chunks_keeps:
  assumes "fs_good F V f" "live_upload V root f u" "upload_chunks X Z F cs (u, f) = (r, (u', f'))"
  shows "fs_good F V f' \<and> artifacts V root f' = artifacts V root f \<and> live_upload V root f' u' \<and>
    up_expected u' = up_expected u"
  using assms
proof (induction cs arbitrary: u f)
  case (Cons c cs)
  from Cons.prems(3) show ?case unfolding upload_chunks_def io_each.simps
  proof (cases rule: io_thenE)
    case (1 e)
    then show ?thesis using upload_write_keeps [OF Cons.prems(1,2)] by blast
  next
    case (2 a t)
    obtain v g where t: "t = (v, g)" by fastforce
    note w = upload_write_keeps [OF Cons.prems(1,2) 2(1) [unfolded t]]
    have "upload_chunks X Z F cs (v, g) = (r, (u', f'))" using 2(2) t by (simp add: upload_chunks_def)
    with Cons.IH [of g v] w show ?thesis by simp
  qed
qed (simp add: upload_chunks_def)

lemma upload_chunks_receives:
  assumes "sha_laws X" "zstd_laws Z W" "fs_good F V f" "receives X W V root f u bs"
    and "upload_chunks X Z F cs (u, f) = (Inr (), (u', f'))"
  shows "receives X W V root f' u' (bs @ concat cs)"
  using assms(3-)
proof (induction cs arbitrary: u f bs)
  case (Cons c cs)
  then obtain v g where w: "upload_write X Z F c (u, f) = (Inr (), (v, g))"
      and rest: "upload_chunks X Z F cs (v, g) = (Inr (), (u', f'))"
    by (auto simp: upload_chunks_def elim!: io_thenE)
  have "fs_good F V g" using upload_write_keeps [OF Cons.prems(1) receives_live [OF Cons.prems(2)] w] by blast
  from Cons.IH [OF this upload_write_receives [OF assms(1,2) Cons.prems(1,2) w] rest] show ?case by simp
qed (simp add: upload_chunks_def)

section \<open>Finishing, verifying and storing\<close>

definition finished ::
  "'e ext \<Rightarrow> 'z zstd_views \<Rightarrow> ('f, 'h) fs_views \<Rightarrow> path \<Rightarrow> 'f \<Rightarrow> ('h, compressed) upload \<Rightarrow> string \<Rightarrow> string \<Rightarrow> bool" where
  "finished X W V root f u bs artifact \<longleftrightarrow>
     (let st = up_state u in
      holds V root f (up_staged u) artifact \<and> unzstd W artifact = Some bs \<and>
      cm_nar_hash st = digest X bs \<and> cm_file_hash st = digest X artifact \<and>
      unat (cm_file_size st) = length artifact \<and>
      (length bs < 2 ^ 64 \<longrightarrow> unat (cm_nar_size st) = length bs))"

lemma upload_finish_keeps:
  assumes "fs_good F V f" "live_upload V root f u" "upload_finish X Z F u f = (r, f')"
  shows "fs_good F V f' \<and> artifacts V root f' = artifacts V root f \<and>
    (\<forall>c. r = Inr c \<longrightarrow> live_upload V root f' c \<and> up_expected c = up_expected u)"
proof -
  obtain x u1 f1 where x: "upload_drain X Z F (u, f) = (x, (u1, f1))" by (metis prod.exhaust)
  note d = upload_drain_keeps [OF assms(1,2) x]
  then have fl: "in_flight V root f1 (up_staged u1)" by (simp add: live_upload_def)
  note drop1 = nar_store.discard_keeps [OF conjunct1 [OF d] fl]
  show ?thesis
  proof (cases "isl x \<or> isl (zs_finish Z (rc_encoder (up_state u1)))")
    case True
    then show ?thesis using assms(3) x d drop1
      by (cases x; cases "zs_finish Z (rc_encoder (up_state u1))")
        (auto simp: upload_finish_def Let_def)
  next
    case False
    then obtain tail where t: "x = Inr ()" "zs_finish Z (rc_encoder (up_state u1)) = Inr tail"
      by (cases x; cases "zs_finish Z (rc_encoder (up_state u1))") auto
    obtain y f2 where y: "staged_write F tail (up_staged u1) f1 = (y, f2)" by fastforce
    note w = staged_write_effect [OF conjunct1 [OF d] fl y]
    have live2: "in_flight V root f2 s'" if "y = Inr s'" for s'
      using that w y by (auto simp: staged_write_def in_flight_def elim!: io_thenE io_ctxE)
    have "in_flight V root f2 (up_staged u1)" "fs_good F V f2" using w by blast+
    note drop2 = nar_store.discard_keeps [OF this(2,1)]
    show ?thesis using assms(3) x t y w d drop2 live2
      by (cases y) (auto simp: upload_finish_def Let_def live_upload_def)
  qed
qed

lemma upload_finish_finished:
  assumes "sha_laws X" "zstd_laws Z W" "fs_good F V f" "receives X W V root f u bs"
    and "upload_finish X Z F u f = (Inr c, f')"
  shows "\<exists>artifact. finished X W V root f' c bs artifact"
proof -
  from assms(5) obtain u1 f1 tail s' where x: "upload_drain X Z F (u, f) = (Inr (), (u1, f1))"
      and t: "zs_finish Z (rc_encoder (up_state u1)) = Inr tail"
      and y: "staged_write F tail (up_staged u1) f1 = (Inr s', f')"
      and c: "c = \<lparr>up_staged = s', up_expected = up_expected u1,
          up_state = \<lparr>cm_nar_hash = hasher_finish X (rc_nar (up_state u1)), cm_nar_size = rc_nar_size (up_state u1),
            cm_file_hash = hasher_finish X (hasher_update X (rc_file (up_state u1)) tail),
            cm_file_size = sg_offset s'\<rparr>\<rparr>"
    by (auto simp: upload_finish_def Let_def split: prod.splits sum.splits)
  have good: "fs_good F V f1" using upload_drain_keeps [OF assms(3) receives_live [OF assms(4)] x] by blast
  have rc: "receives X W V root f1 u1 bs" by (rule upload_drain_receives [OF assms(1-4) x])
  let ?gone = "zv_gone W (rc_encoder (up_state u1))"
  have "holds V root f' s' (?gone @ tail)"
    by (rule nar_store.write_appends [OF good _ y]) (use rc in \<open>simp add: receives_def Let_def\<close>)
  moreover have "unzstd W (?gone @ tail) = Some bs"
    using assms(2) t rc by (auto simp: zstd_laws_def receives_def Let_def)
  ultimately have "finished X W V root f' c bs (?gone @ tail)"
    using assms(1) rc
    by (simp add: finished_def c receives_def Let_def digest_def hasher_finish_def hasher_update_def
        hasher_default_def sha_join holds_def)
  then show ?thesis ..
qed

lemma upload_verify_keeps:
  assumes "fs_good F V f" "live_upload V root f u" "upload_verify F u f = (r, f')"
  shows "fs_good F V f' \<and> artifacts V root f' = artifacts V root f \<and>
    (\<forall>v. r = Inr v \<longrightarrow> f' = f \<and> up_staged v = up_staged u \<and> live_upload V root f v)"
  using assms nar_store.discard_keeps [of F V f root "up_staged u"]
  by (auto simp: upload_verify_def Let_def live_upload_def split: if_splits)

lemma upload_verify_Inr:
  assumes "upload_verify F u f = (Inr v, f')"
  shows "cm_nar_hash (up_state u) = up_expected u \<and> cm_nar_size (up_state u) \<noteq> 0 \<and>
    v = \<lparr>up_staged = up_staged u, up_expected = up_expected u,
      up_state = \<lparr>vf_nar_hash = up_expected u, vf_nar_size = cm_nar_size (up_state u),
        vf_file_hash = cm_file_hash (up_state u), vf_file_size = cm_file_size (up_state u)\<rparr>\<rparr>"
  using assms by (auto simp: upload_verify_def Let_def split: if_splits)

text \<open>The commit: the artifact first, its entry second.\<close>

lemma upload_store_effect:
  assumes good: "fs_good F V f" "index_good D U K d"
    and h: "holds V root f (up_staged u) artifact"
    and st: "sha_ok (vf_file_hash (up_state u))" "vf_nar_size (up_state u) \<noteq> 0"
    and run: "upload_store F D K root u (f, d) = (r, (f', d'))"
  defines "url \<equiv> verified_url (up_state u)" and "e \<equiv> verified_entry (up_state u)"
  shows "fs_good F V f' \<and> index_good D U K d' \<and> infos U K d' = infos U K d \<and>
    (artifacts V root f' = artifacts V root f \<and> isl r \<and> nars U K d' = nars U K d \<or>
     artifacts V root f' = (artifacts V root f)(url \<mapsto> artifact) \<and>
       (nars U K d' = (nars U K d)(vf_nar_hash (up_state u) \<mapsto> e) \<and> (r = Inr e \<or> isl r) \<or>
        isl r \<and> nars U K d' = nars U K d))"
proof -
  have url: "narurl_ok url" using st(1) by (simp add: url_def verified_url_def narurl_ok_def)
  have e: "entry_ok e" using st by (simp add: e_def verified_entry_def entry_ok_def)
  obtain x f1 where x: "staged_commit F root (up_staged u) url f = (x, f1)" by fastforce
  note c = nar_store.commit_keeps [OF good(1) h url x]
  show ?thesis
  proof (cases x)
    case (Inl err)
    then show ?thesis using run x c good(2) by (auto simp: upload_store_def Let_def url_def)
  next
    case (Inr n)
    note p = nar_store.commit_publishes [OF good(1) h url x [unfolded Inr]]
    obtain y d1 where y: "index_put_nar D K (vf_nar_hash (up_state u)) e d = (y, d1)" by fastforce
    note i = put_nar_good [OF good(2) e y]
    have "f' = f1" "d' = d1" "r = (case y of Inl x \<Rightarrow> Inl (UE_Record x) | Inr _ \<Rightarrow> Inr e)"
      using run x Inr y by (auto simp: upload_store_def Let_def url_def e_def split: sum.splits)
    then show ?thesis using p c i by (cases y) auto
  qed
qed

end
