(* ===== verification/IngestLaws.thy ===== *)
theory IngestLaws
  imports Ingest UploadLaws
begin

text \<open>
  What the write side promises: who may push, what a publish stores and when it refuses, what
  maintenance changes, and when every record and entry is backed by an artifact.
\<close>

section \<open>Credentials\<close>

lemma fold_or: "fold (\<lambda>x m. m \<or> P x) xs m \<longleftrightarrow> m \<or> (\<exists>x \<in> set xs. P x)"
  by (induction xs arbitrary: m) auto

lemma admits_iff:
  assumes "sha_laws X" "ct_laws X"
  shows "admits X (tokens_new X ts) p = Admitted \<longleftrightarrow> (\<exists>t \<in> set ts. digest X t = digest X p)"
proof -
  have "length (sha_bytes (digest X s)) = 32" for s
    using sha_ok_digest [OF assms(1)] by (simp add: sha_ok_def)
  then have "ct_eq X (sha_bytes (digest X p)) (sha_bytes (digest X t)) \<longleftrightarrow> digest X t = digest X p" for t
    using assms(2) by (auto simp: ct_laws_def)
  then show ?thesis by (auto simp: admits_def tokens_new_def fold_or Let_def)
qed

lemma admits_cases: "admits X t p = Admitted \<or> admits X t p = Denied"
  by (cases "admits X t p") simp_all

text \<open>A token that is visible text survives as a \<open>Bearer\<close> credential and as a \<open>Basic\<close> password.\<close>

lemma credential_bearer:
  assumes "t = [] \<or> visible (hd t) \<and> visible (last t)"
  shows "credential X (''Bearer '' @ t) = Some t"
proof -
  have "split_once [CHR '' ''] (''Bearer'' @ CHR '' '' # t) = Some (''Bearer'', t)"
    by (rule split_once_char) simp
  then show ?thesis using trim_visible [OF assms]
    by (simp add: credential_def Let_def eq_ignore_ascii_case_def)
qed

lemma string_of_bytes_map [simp]: "string_of_bytes (map of_char s) = s"
proof -
  have "unat (of_char c :: u8) = (of_char c :: nat)" for c :: char
  proof -
    have "(of_char c :: u8) = of_nat (of_char c)" by (simp only: of_nat_of_char)
    moreover have "(of_char c :: nat) < 2 ^ 8" by simp
    ultimately show ?thesis by (simp add: unsigned_of_nat take_bit_nat_eq_self)
  qed
  then show ?thesis by (induction s) (simp_all add: string_of_bytes_def)
qed

lemma credential_basic:
  assumes "b64_decode X e = Inr bytes" "string_of_bytes bytes = user @ colon # t"
    and "from_utf8 (user @ colon # t) = Inr (user @ colon # t)" "colon \<notin> set user"
    and "e = [] \<or> visible (hd e) \<and> visible (last e)"
  shows "credential X (''Basic '' @ e) = Some t"
proof -
  have "split_once [CHR '' ''] (''Basic'' @ CHR '' '' # e) = Some (''Basic'', e)"
    by (rule split_once_char) simp
  moreover have "split_once [colon] (user @ colon # t) = Some (user, t)"
    by (rule split_once_char) (rule assms(4))
  ultimately show ?thesis using trim_visible [OF assms(5)] assms(1-3)
    by (simp add: credential_def Let_def eq_ignore_ascii_case_def)
qed

section \<open>Publishing\<close>

text \<open>The cases of a publish, in the order of its checks.\<close>

lemma ingest_publish_cases:
  assumes "ingest_publish E ig body d = (r, d')"
  obtains
    (body) e where "NarinfoParse.parse (e_ext E) body (ig_dir ig) = Inl e" "r = Inl (IG_Narinfo e)" "d' = d"
  | (read) q e where "NarinfoParse.parse (e_ext E) body (ig_dir ig) = Inr q"
      "index_nar (e_redb E) (e_rkyv E) (ni_nar_hash q) d = Inl e" "r = Inl (IG_Index e)" "d' = d"
  | (unknown) q where "NarinfoParse.parse (e_ext E) body (ig_dir ig) = Inr q"
      "index_nar (e_redb E) (e_rkyv E) (ni_nar_hash q) d = Inr None"
      "r = Inl (IG_UnknownNar (ni_nar_hash q))" "d' = d"
  | (size) q e where "NarinfoParse.parse (e_ext E) body (ig_dir ig) = Inr q"
      "index_nar (e_redb E) (e_rkyv E) (ni_nar_hash q) d = Inr (Some e)"
      "en_nar_size e \<noteq> ni_nar_size q"
      "r = Inl (IG_NarSizeMismatch (ni_nar_size q) (en_nar_size e))" "d' = d"
  | (commit) q e x where "NarinfoParse.parse (e_ext E) body (ig_dir ig) = Inr q"
      "index_nar (e_redb E) (e_rkyv E) (ni_nar_hash q) d = Inr (Some e)"
      "en_nar_size e = ni_nar_size q"
      "index_publish (e_redb E) (e_rkyv E)
         (resign (e_ext E) (ig_dir ig) (ig_key ig) (publish_record q e)) d = (x, d')"
      "r = (case x of Inl err \<Rightarrow> Inl (IG_Index err)
         | Inr _ \<Rightarrow> Inr (resign (e_ext E) (ig_dir ig) (ig_key ig) (publish_record q e)))"
proof (cases "NarinfoParse.parse (e_ext E) body (ig_dir ig)")
  case (Inl e)
  with assms show thesis by (intro body) (auto simp: ingest_publish_def)
next
  case q: (Inr q)
  show thesis
  proof (cases "index_nar (e_redb E) (e_rkyv E) (ni_nar_hash q) d")
    case (Inl e)
    with assms q show thesis by (intro read) (auto simp: ingest_publish_def)
  next
    case found: (Inr x)
    show thesis
    proof (cases x)
      case None
      with assms q found show thesis by (intro unknown) (auto simp: ingest_publish_def)
    next
      case (Some e)
      show thesis
      proof (cases "en_nar_size e = ni_nar_size q")
        case False
        with assms q found Some show thesis by (intro size) (auto simp: ingest_publish_def)
      next
        case True
        let ?q = "resign (e_ext E) (ig_dir ig) (ig_key ig) (publish_record q e)"
        obtain y d1 where y: "index_publish (e_redb E) (e_rkyv E) ?q d = (y, d1)" by fastforce
        with assms q found Some True
        have run: "ingest_publish E ig body d = (case y of Inl err \<Rightarrow> Inl (IG_Index err) | Inr _ \<Rightarrow> Inr ?q, d1)"
          by (cases y) (simp_all add: ingest_publish_def Let_def io_then_def io_lift_def io_ctx_def io_return_def)
        show thesis
        proof (rule commit [OF q found [unfolded Some] True])
          show "index_publish (e_redb E) (e_rkyv E) ?q d = (y, d')" using y run assms by simp
          show "r = (case y of Inl err \<Rightarrow> Inl (IG_Index err) | Inr _ \<Rightarrow> Inr ?q)" using run assms by simp
        qed
      qed
    qed
  qed
qed

lemma publish_record_ok:
  "core_ok q \<Longrightarrow> entry_ok e \<Longrightarrow> core_ok (publish_record q e)"
  by (simp add: core_ok_def publish_record_def entry_ok_def)

lemma ingest_publish_effect:
  assumes "index_good (e_redb E) V (e_rkyv E) d" "ingest_publish E ig body d = (r, d')"
  shows "index_good (e_redb E) V (e_rkyv E) d' \<and> nars V (e_rkyv E) d' = nars V (e_rkyv E) d \<and>
    (infos V (e_rkyv E) d' = infos V (e_rkyv E) d \<and> isl r \<or>
     (\<exists>q e. NarinfoParse.parse (e_ext E) body (ig_dir ig) = Inr q \<and>
        nars V (e_rkyv E) d (ni_nar_hash q) = Some e \<and> en_nar_size e = ni_nar_size q \<and>
        (let p = resign (e_ext E) (ig_dir ig) (ig_key ig) (publish_record q e) in
         (r = Inr p \<or> isl r) \<and>
         infos V (e_rkyv E) d' = (infos V (e_rkyv E) d)(sp_hash (ni_store_path q) \<mapsto> p))))"
  using assms(2)
proof (cases rule: ingest_publish_cases)
  case (commit q e x)
  have e: "nars V (e_rkyv E) d (ni_nar_hash q) = Some e"
    using index_nar_Inr [OF assms(1) commit(2)] by simp
  then have "entry_ok e" using assms(1) nars_of_Some by (fastforce simp: index_good_def nars_def)
  moreover have "core_ok q" using parse_core_ok [OF commit(1)] by blast
  ultimately have ok: "core_ok (resign (e_ext E) (ig_dir ig) (ig_key ig) (publish_record q e))"
    using publish_record_ok by simp
  note p = publish_good [OF assms(1) ok commit(4)]
  have "sp_hash (ni_store_path (resign (e_ext E) (ig_dir ig) (ig_key ig) (publish_record q e)))
      = sp_hash (ni_store_path q)" by (simp add: publish_record_def)
  then show ?thesis using p e commit(1,3,5) by (cases x) (auto simp: Let_def)
qed (use assms(1) in auto)

section \<open>Maintenance\<close>

lemma maintain_delete_effect:
  assumes "index_good D V K d" "maintain_delete D K h d = (r, d')"
  shows "index_good D V K d' \<and>
    (r = Inr D_Removed \<longrightarrow> (\<exists>q. infos V K d h = Some q \<and>
       infos V K d' = (infos V K d)(h := None) \<and> nars V K d' = (nars V K d)(ni_nar_hash q := None))) \<and>
    (r = Inr D_Absent \<longrightarrow> infos V K d h = None \<and> infos V K d' = infos V K d \<and> nars V K d' = nars V K d)"
proof -
  obtain x where x: "index_unpublish D K h d = (x, d')"
    "r = (case x of Inl e \<Rightarrow> Inl (MT_Index e) | Inr None \<Rightarrow> Inr D_Absent | Inr (Some _) \<Rightarrow> Inr D_Removed)"
  proof -
    obtain x t where x: "index_unpublish D K h d = (x, t)" by fastforce
    then show thesis using assms(2) that
      by (cases x) (auto simp: maintain_delete_def io_then_def io_ctx_def io_return_def split: option.splits)
  qed
  show ?thesis using unpublish_good [OF assms(1) x(1)] x(2)
    by (auto split: option.splits sum.splits)
qed

lemma chunks_of_concat: "0 < n \<Longrightarrow> concat (chunks_of n xs) = xs"
proof (induction n xs rule: chunks_of.induct)
  case (1 n xs)
  then show ?case by (subst chunks_of.simps) auto
qed

lemma chunks_of_all: "0 < n \<Longrightarrow> list_all (list_all P) (chunks_of n xs) \<longleftrightarrow> list_all P xs"
proof -
  assume "0 < n"
  then have "list_all P xs \<longleftrightarrow> list_all P (concat (chunks_of n xs))" by (simp add: chunks_of_concat)
  also have "\<dots> \<longleftrightarrow> list_all (list_all P) (chunks_of n xs)" by (auto simp: list_all_iff)
  finally show ?thesis by simp
qed

lemma chunks_of_length: "0 < n \<Longrightarrow> c \<in> set (chunks_of n xs) \<Longrightarrow> c \<noteq> [] \<and> length c \<le> n"
proof (induction n xs rule: chunks_of.induct)
  case (1 n xs)
  from "1.prems"(2) have ne: "xs \<noteq> []" by (subst (asm) chunks_of.simps) (auto split: if_splits)
  have "c = take n xs \<or> c \<in> set (chunks_of n (drop n xs))"
    using "1.prems"(2) by (subst (asm) chunks_of.simps) (auto split: if_splits)
  with 1 ne show ?case by auto
qed

text \<open>Records stored one after another, later ones of the same key winning.\<close>

definition store_all :: "narinfo list \<Rightarrow> (sp_hash \<Rightarrow> narinfo option) \<Rightarrow> sp_hash \<Rightarrow> narinfo option" where
  "store_all qs m = fold (\<lambda>q m. m(sp_hash (ni_store_path q) \<mapsto> q)) qs m"

lemma store_all_simps [simp]:
  "store_all [] m = m"
  "store_all (q # qs) m = store_all qs (m(sp_hash (ni_store_path q) \<mapsto> q))"
  "store_all (ps @ qs) m = store_all qs (store_all ps m)"
  by (simp_all add: store_all_def)

lemma republish_batches:
  assumes "index_good D V K d" "list_all (list_all core_ok) bs"
    and "io_each (\<lambda>b. io_ctx MT_Index (index_republish D K b)) bs d = (r, d')"
  shows "index_good D V K d' \<and> nars V K d' = nars V K d \<and>
    (\<exists>n \<le> length bs. infos V K d' = store_all (concat (take n bs)) (infos V K d) \<and> (r = Inr () \<longrightarrow> n = length bs))"
  using assms
proof (induction bs arbitrary: d)
  case (Cons b bs)
  from Cons.prems(3) show ?case unfolding io_each.simps
  proof (cases rule: io_thenE)
    case (1 e)
    then obtain e' where e: "index_republish D K b d = (Inl e', d')" by (auto elim!: io_ctxE)
    have "list_all core_ok b" using Cons.prems(2) by simp
    note g = republish_good [OF Cons.prems(1) this e, folded store_all_def]
    then consider "infos V K d' = store_all (concat (take 1 (b # bs))) (infos V K d)"
      | "infos V K d' = store_all (concat (take 0 (b # bs))) (infos V K d)" by auto
    then show ?thesis
    proof cases
      case 1
      then show ?thesis using g \<open>r = Inl e\<close> by (intro conjI exI [of _ 1]) auto
    next
      case 2
      then show ?thesis using g \<open>r = Inl e\<close> by (intro conjI exI [of _ 0]) auto
    qed
  next
    case (2 a t)
    then have t: "index_republish D K b d = (Inr (), t)" by (auto elim!: io_ctxE)
    have ok: "list_all core_ok b" "list_all (list_all core_ok) bs" using Cons.prems(2) by simp_all
    note g = republish_good [OF Cons.prems(1) ok(1) t, folded store_all_def]
    from Cons.IH [OF conjunct1 [OF g] ok(2) 2(2)] obtain n where
      n: "index_good D V K d' \<and> nars V K d' = nars V K t" "n \<le> length bs"
        "infos V K d' = store_all (concat (take n bs)) (infos V K t)" "r = Inr () \<longrightarrow> n = length bs"
      by blast
    show ?thesis
    proof (intro conjI exI [of _ "Suc n"])
      show "infos V K d' = store_all (concat (take (Suc n) (b # bs))) (infos V K d)"
        using n(3) g by simp
    qed (use n g in auto)
  qed
qed (auto intro: exI [of _ 0])

text \<open>Storing a list of records with distinct keys: each key of the list maps to its record.\<close>

lemma store_all_apply:
  "distinct (map (\<lambda>q. sp_hash (ni_store_path q)) qs) \<Longrightarrow>
   store_all qs m h = (case find (\<lambda>q. sp_hash (ni_store_path q) = h) qs of Some q \<Rightarrow> Some q | None \<Rightarrow> m h)"
proof (induction qs arbitrary: m)
  case (Cons q qs)
  show ?case
  proof (cases "sp_hash (ni_store_path q) = h")
    case True
    then have "h \<notin> (\<lambda>q. sp_hash (ni_store_path q)) ` set qs" using Cons.prems by simp
    then have "find (\<lambda>q. sp_hash (ni_store_path q) = h) qs = None"
      unfolding find_None_iff by blast
    then show ?thesis using Cons True by simp
  qed (use Cons in \<open>simp split: option.splits\<close>)
qed simp

lemma maintain_rotate_effect:
  assumes good: "index_good (e_redb E) V (e_rkyv E) d"
    and run: "maintain_rotate E dr key d = (r, d')"
  defines "old \<equiv> infos V (e_rkyv E) d" and "new \<equiv> infos V (e_rkyv E) d'"
  shows "index_good (e_redb E) V (e_rkyv E) d' \<and> nars V (e_rkyv E) d' = nars V (e_rkyv E) d \<and>
    (\<forall>h. new h = old h \<or> new h = map_option (resign (e_ext E) dr key) (old h)) \<and>
    (\<forall>n. r = Inr n \<longrightarrow> new = map_option (resign (e_ext E) dr key) \<circ> old)"
proof (cases "index_records (e_redb E) (e_rkyv E) d")
  case (Inl e)
  then have "d' = d" "isl r" using run by (auto simp: maintain_rotate_def)
  then show ?thesis using good by (auto simp: old_def new_def)
next
  case (Inr qs)
  note rec = index_records_Inr [OF good Inr]
  let ?R = "resign (e_ext E) dr key"
  let ?qs = "map ?R qs"
  let ?key = "\<lambda>q. sp_hash (ni_store_path q)"
  have ok_old: "rows_ok (e_rkyv E) (v_db V d)" using good by (simp add: index_good_def)
  have qs: "q \<in> set qs \<longleftrightarrow> old (?key q) = Some q" for q
  proof
    assume "q \<in> set qs"
    then obtain h where h: "old h = Some q" using rec(1) by (auto simp: old_def ran_def)
    then have "?key q = h" using infos_of_Some [OF ok_old] by (auto simp: old_def infos_def)
    with h show "old (?key q) = Some q" by simp
  next
    assume "old (?key q) = Some q"
    then show "q \<in> set qs" unfolding rec(1) old_def by (rule ranI)
  qed
  have key: "?key q = h" if "old h = Some q" for q h
    using infos_of_Some [OF ok_old, of h q] that unfolding old_def infos_def by blast
  have core: "list_all (list_all core_ok) (chunks_of BATCH ?qs)"
  proof -
    have "core_ok q" if "q \<in> set qs" for q
      using infos_of_Some [OF ok_old, of "?key q" q] that qs [of q] unfolding old_def infos_def by blast
    then have "list_all core_ok ?qs" by (auto simp: list_all_iff)
    then show ?thesis by (simp add: chunks_of_all BATCH_def)
  qed
  obtain x where x: "io_each (\<lambda>b. io_ctx MT_Index (index_republish (e_redb E) (e_rkyv E) b))
      (chunks_of BATCH ?qs) d = (x, d')" and r: "isl r = isl x"
  proof -
    obtain x t where x: "io_each (\<lambda>b. io_ctx MT_Index (index_republish (e_redb E) (e_rkyv E) b))
      (chunks_of BATCH ?qs) d = (x, t)" by fastforce
    have "(r, d') = (case x of Inl e \<Rightarrow> Inl e | Inr _ \<Rightarrow> Inr (length qs), t)"
      unfolding run [symmetric] maintain_rotate_def Inr
      using x by (cases x) (simp_all add: Let_def io_then_def io_lift_def io_return_def)
    then show thesis using that [of x] x by (cases x) simp_all
  qed
  from republish_batches [OF good core x] obtain n where
    g: "index_good (e_redb E) V (e_rkyv E) d'" "nars V (e_rkyv E) d' = nars V (e_rkyv E) d"
    and n: "new = store_all (concat (take n (chunks_of BATCH ?qs))) old" "x = Inr () \<longrightarrow> n = length (chunks_of BATCH ?qs)"
    by (auto simp: old_def new_def)
  let ?done = "concat (take n (chunks_of BATCH ?qs))"
  have split: "?done @ concat (drop n (chunks_of BATCH ?qs)) = ?qs"
    using chunks_of_concat [of BATCH ?qs] by (simp add: BATCH_def flip: concat_append)
  have dist: "distinct (map ?key ?qs)" using rec(2) by (simp add: comp_def)
  then have dist_done: "distinct (map ?key ?done)"
    by (metis split distinct_append map_append)
  have sub: "set ?done \<subseteq> set ?qs" by (metis split Un_upper1 set_append)
  have step: "new h = (case find (\<lambda>q. ?key q = h) ?done of Some q \<Rightarrow> Some q | None \<Rightarrow> old h)" for h
    unfolding n(1) by (rule store_all_apply [OF dist_done])
  have done_val: "map_option ?R (old h) = Some q" if "find (\<lambda>q. ?key q = h) ?done = Some q" for h q
  proof -
    have "q \<in> set ?done" "?key q = h"
      using find_Some_iff [of "\<lambda>q. ?key q = h" ?done q] that(1) nth_mem by blast+
    then obtain p where p: "p \<in> set qs" "q = ?R p" using sub by auto
    then have "old h = Some p" using qs [of p] \<open>?key q = h\<close> by simp
    with p show ?thesis by simp
  qed
  have either: "new h = old h \<or> new h = map_option ?R (old h)" for h
  proof (cases "find (\<lambda>q. ?key q = h) ?done")
    case (Some q)
    show ?thesis unfolding step [of h] Some done_val [OF Some] by simp
  qed (simp only: step option.case simp_thms)
  have all: "new = map_option ?R \<circ> old" if "r = Inr m" for m
  proof
    fix h
    have "x = Inr ()" using that r by (cases x) auto
    then have full: "?done = ?qs" using n(2) split by simp
    have "old h = None" if "find (\<lambda>q. ?key q = h) ?done = None"
    proof (rule ccontr)
      assume "old h \<noteq> None"
      then obtain p where p: "old h = Some p" by blast
      then have "?R p \<in> set ?qs" "?key (?R p) = h" using key [OF p] qs [of p] by auto
      then show False using that unfolding full find_None_iff by blast
    qed
    then show "new h = (map_option ?R \<circ> old) h"
      using done_val unfolding step comp_apply
      by (cases "find (\<lambda>q. ?key q = h) ?done") (simp_all only: option.case option.map)
  qed
  show ?thesis using g either all by blast
qed

section \<open>Reconciling\<close>

text \<open>
  The orphans are artifacts that no record names, and every such artifact is listed; a record is
  listed as missing its artifact only when it does.
\<close>

lemma maintain_reconcile_effect:
  assumes good: "fs_good (e_fs E) V f" "index_good (e_redb E) U (e_rkyv E) d"
    and run: "maintain_reconcile E root d f = (Inr rl, f')"
  defines "records \<equiv> ran (infos U (e_rkyv E) d)"
  shows "artifacts V root f' = artifacts V root f \<and>
    (\<forall>u \<in> set (rl_orphan_artifacts rl). \<forall>q \<in> records. ni_nar q \<noteq> u) \<and>
    (\<forall>u. artifacts V root f u \<noteq> None \<longrightarrow> (\<forall>q \<in> records. ni_nar q \<noteq> u) \<longrightarrow>
       u \<in> set (rl_orphan_artifacts rl)) \<and>
    (\<forall>p \<in> set (rl_records_without_artifacts rl).
       \<exists>q \<in> records. ni_store_path q = p \<and> artifacts V root f (ni_nar q) = None)"
proof -
  have laws: "fs_laws (e_fs E) V" using good(1) by (simp add: fs_good_def)
  from run obtain sc qs where sc: "store_scan (e_ext E) (e_fs E) root f = (Inr sc, f')"
    and qs: "index_records (e_redb E) (e_rkyv E) d = Inr qs"
    and rl: "rl_orphan_artifacts rl = filter (\<lambda>u. nar_name u \<notin> nar_name ` ni_nar ` set qs) (sc_artifacts sc)"
      "rl_records_without_artifacts rl =
        map ni_store_path (filter (\<lambda>q. nar_name (ni_nar q) \<notin> nar_name ` set (sc_artifacts sc)) qs)"
    by (auto simp: maintain_reconcile_def Let_def image_image elim!: io_thenE io_ctxE)
  have rec: "set qs = records" using index_records_Inr(1) [OF good(2) qs] by (simp add: records_def)
  have core: "core_ok q" if "q \<in> records" for q
    using that good(2) infos_of_Some [of "e_rkyv E" "v_db U d"]
    by (auto simp: records_def ran_def index_good_def infos_def)
  have name: "nar_name u = nar_name (ni_nar q) \<longleftrightarrow> u = ni_nar q" if "q \<in> records" "narurl_ok u" for u q
    using core [OF that(1)] that(2)
    by (intro narurl_codec.print_inject) (simp_all add: core_ok_def ni_nar_def narurl_ok_def)
  have complete: "u \<in> set (sc_artifacts sc)" if "artifacts V root f u \<noteq> None" for u
    by (rule store_scan_complete [OF laws sc that])
  have ok: "narurl_ok u" if "artifacts V root f u \<noteq> None" for u
    using that by (auto simp: artifacts_def split: if_splits)
  show ?thesis
  proof (intro conjI ballI allI impI)
    show "artifacts V root f' = artifacts V root f"
      using store_scan_view [OF laws sc] by (simp add: same_view_artifacts)
  next
    fix u q assume "u \<in> set (rl_orphan_artifacts rl)" "q \<in> records"
    then show "ni_nar q \<noteq> u" using rec by (auto simp: rl(1))
  next
    fix u assume "artifacts V root f u \<noteq> None" "\<forall>q \<in> records. ni_nar q \<noteq> u"
    then show "u \<in> set (rl_orphan_artifacts rl)"
      using complete [of u] ok [of u] name [of _ u] rec by (fastforce simp: rl(1))
  next
    fix p assume "p \<in> set (rl_records_without_artifacts rl)"
    then obtain q where "q \<in> records" "p = ni_store_path q" "ni_nar q \<notin> set (sc_artifacts sc)"
      using rec by (auto simp: rl(2))
    then show "\<exists>q \<in> records. ni_store_path q = p \<and> artifacts V root f (ni_nar q) = None"
      using complete by blast
  qed
qed

section \<open>Opening an upload\<close>

lemma ingest_receive_effect:
  assumes good: "fs_good (e_fs E) V (w_fs w)"
    and run: "ingest_receive E ig target w = (r, w')"
  shows "fs_good (e_fs E) V (w_fs w') \<and> w_root w' = w_root w \<and> w_db w' = w_db w \<and>
    artifacts V (w_root w) (w_fs w') = artifacts V (w_root w) (w_fs w) \<and>
    (\<forall>u. r = Inr u \<longrightarrow> compression target = NoCompression \<and> up_expected u = file_hash target \<and>
       live_upload V (w_root w) (w_fs w') u \<and>
       (sha_laws (e_ext E) \<longrightarrow> zstd_laws (e_zstd E) W \<longrightarrow>
          receives (e_ext E) W V (w_root w) (w_fs w') u []))"
proof (cases "compression target = NoCompression")
  case False
  then show ?thesis using run good by (auto simp: ingest_receive_def)
next
  case True
  obtain x st f1 where x: "stage (e_fs E) (w_store w, w_fs w) = (x, (st, f1))" by (metis prod.exhaust)
  note s = stage_effect [OF good refl x]
  show ?thesis
  proof (cases x)
    case (Inl e)
    then show ?thesis using run s x True
      by (auto simp: ingest_receive_def io_run on_store_def)
  next
    case (Inr sg)
    obtain y f2 where y: "upload_new (e_ext E) (e_zstd E) (e_fs E) sg (file_hash target) (ig_level ig) f1 = (y, f2)"
      by fastforce
    have h: "holds V (w_root w) f1 sg []" using s Inr by simp
    then have fl: "in_flight V (w_root w) f1 sg" by (simp add: holds_def)
    note n = upload_new_keeps [OF conjunct1 [OF s] fl y]
    have w': "w' = w\<lparr>w_store := st, w_fs := f2\<rparr>" "r = ctx IG_Upload y"
      using run x y Inr True
      by (auto simp: ingest_receive_def io_run on_store_def on_fs_def)
    have u: "f2 = f1 \<and> up_expected u = file_hash target \<and> up_staged u = sg" if "y = Inr u" for u
      using that y by (auto simp: upload_new_def split: sum.splits)
    have live: "up_expected v = file_hash target \<and> live_upload V (w_root w) f2 v \<and>
        (sha_laws (e_ext E) \<longrightarrow> zstd_laws (e_zstd E) W \<longrightarrow> receives (e_ext E) W V (w_root w) f2 v [])"
      if "r = Inr v" for v
    proof -
      have v: "y = Inr v" using that w'(2) by simp
      have "upload_new (e_ext E) (e_zstd E) (e_fs E) sg (file_hash target) (ig_level ig) f1 = (Inr v, f2)"
        using y v by simp
      from upload_new_receives [OF _ _ h this, of W] u [OF v] fl show ?thesis
        by (simp add: live_upload_def)
    qed
    have "fs_good (e_fs E) V f2" "artifacts V (w_root w) f2 = artifacts V (w_root w) (w_fs w)"
      using n s by simp_all
    then show ?thesis using w'(1) True s live by simp
  qed
qed

end
