(* ===== verification/HandlerLaws.thy ===== *)
theory HandlerLaws
  imports Handler IngestLaws
begin

text \<open>
  What a handler may change and what it sends: only an admitted \<open>PUT\<close> changes the store or the index,
  an answer is appended to what the peer is sent, a payload answer carries exactly the bytes of the
  requested span, and an upload that is answered with \<open>201\<close> is stored and recorded.
\<close>

section \<open>Frames\<close>

text \<open>The store, the index and the files a request finds are the ones it leaves.\<close>

definition world_is :: "('f, 'h) fs_views \<Rightarrow> ('f, 'd) world \<Rightarrow> ('s, 'f, 'd) serving \<Rightarrow> bool" where
  "world_is V w x \<longleftrightarrow> w_store (hs_world x) = w_store w \<and> w_db (hs_world x) = w_db w \<and>
     same_view V (w_fs w) (w_fs (hs_world x))"

lemma world_is_refl [simp]: "world_is V (hs_world x) x"
  by (simp add: world_is_def)

named_theorems frames \<open>operations that keep the store, the index and the files\<close>

lemma keeps_on_conn [frames]: "io_keeps (world_is V w) (on_conn m)"
  by (auto simp: io_keeps_def on_conn_def world_is_def split: prod.splits)

lemma keeps_read_index [frames]: "io_keeps (world_is V w) (read_index q)"
  by (auto simp: io_keeps_def read_index_def)

lemma keeps_bump [frames]: "io_keeps (world_is V w) (h_bump i c n)"
  by (auto simp: io_keeps_def h_bump_def world_is_def split: option.splits)

lemma keeps_fs_query:
  assumes "\<And>f r f'. m f = (r, f') \<Longrightarrow> same_view V f f'"
  shows "io_keeps (world_is V w) (on_world k (on_fs m))"
  using assms same_view_trans
  by (fastforce simp: io_keeps_def on_world_def on_fs_def world_is_def split: prod.splits)

lemma store_read_view: "fs_laws F V \<Longrightarrow> store_read F root u f = (r, f') \<Longrightarrow> same_view V f f'"
  by (auto simp: store_read_def Let_def split: prod.splits if_splits elim!: io_thenE io_ctxE
      dest: query_view(2) intro: same_view_trans [OF query_view(2) query_view(3)])

lemma read_at_view: "fs_laws F V \<Longrightarrow> reader_read_at F rd cap at f = (r, f') \<Longrightarrow> same_view V f f'"
  by (auto simp: reader_read_at_def elim!: io_ctxE dest: query_view(4))

lemma keeps_open_artifact:
  assumes "fs_laws (e_fs E) V"
  shows "io_keeps (world_is V w) (open_artifact E u)"
proof -
  have "io_keeps (world_is V w) (on_world HE_Store (on_fs (store_read (e_fs E) root u)))" for root
    by (rule keeps_fs_query) (rule store_read_view [OF assms])
  then show ?thesis unfolding open_artifact_def io_keeps_def by blast
qed

lemma keeps_answer [frames]: "io_keeps (world_is V w) (answer S rq st dr)"
  unfolding answer_def by (intro io_keeps_then frames io_keeps_return)

lemma keeps_refuse [frames]: "io_keeps (world_is V w) (refuse S rq rf dr)"
  unfolding refuse_def Let_def by (auto split: option.splits intro: frames)

lemma keeps_send [frames]: "io_keeps (world_is V w) (send S rq h body)"
  unfolding send_def Let_def by (intro io_keeps_then frames io_keeps_return)

lemma keeps_proceed [frames]: "io_keeps (world_is V w) (proceed S rq)"
  unfolding proceed_def by (auto intro: frames)

lemma keeps_admit [frames]: "io_keeps (world_is V w) (admit X ca ex)"
  unfolding admit_def Let_def by (auto intro: frames)

lemma keeps_cache_info [frames]: "io_keeps (world_is V w) (h_cache_info S ca ex)"
  unfolding h_cache_info_def Let_def by (intro frames)

lemma keeps_metrics [frames]: "io_keeps (world_is V w) (h_metrics S E ex)"
proof -
  have "io_keeps (world_is V w) (\<lambda>x. send S (ex_request ex) (h x) (b x) x)" for h b
    using keeps_send unfolding io_keeps_def by blast
  then show ?thesis unfolding h_metrics_def Let_def by (intro io_keeps_then frames)
qed

lemma keeps_pump_loop:
  assumes "fs_laws F V"
  shows "io_keeps (world_is V w) (pump_loop S F rd sp fuel offset)"
proof (induction fuel arbitrary: offset)
  case 0
  then show ?case by (subst pump_loop.simps) auto
next
  case (Suc fuel)
  have "io_keeps (world_is V w) (on_world HE_Store (on_fs (reader_read_at F rd SEND_CHUNK offset)))"
    by (rule keeps_fs_query) (rule read_at_view [OF assms])
  with Suc show ?case
    by (subst pump_loop.simps) (auto simp: Let_def intro: frames)
qed

lemma keeps_stream_span:
  assumes "fs_laws (e_fs E) V"
  shows "io_keeps (world_is V w) (stream_span S E ex rd sp)"
  unfolding stream_span_def pump_def Let_def
  by (intro io_keeps_then frames io_keeps_return keeps_pump_loop [OF assms])

lemma keeps_stream:
  assumes "fs_laws (e_fs E) V"
  shows "io_keeps (world_is V w) (h_stream S E ex u)"
  unfolding h_stream_def Let_def
  by (auto split: option.splits requested.splits
      intro: frames keeps_open_artifact [OF assms] keeps_stream_span [OF assms])

lemma keeps_probe:
  assumes "fs_laws (e_fs E) V"
  shows "io_keeps (world_is V w) (h_probe S E ex u)"
  unfolding h_probe_def Let_def
  by (auto split: option.splits intro: frames keeps_open_artifact [OF assms])

text \<open>A request that is not a \<open>PUT\<close>, or that carries no accepted credential, changes nothing durable.\<close>

lemma admit_denied:
  assumes "admission_of X (ca_tokens ca) (ex_request ex) = Denied" "admit X ca ex x = (Inr a, x')"
  shows "a = Denied"
  using assms by (auto simp: admit_def Let_def elim!: io_thenE)

lemma keeps_denied:
  assumes "admission_of X (ca_tokens ca) (ex_request ex) = Denied"
    and "\<And>a. a = Denied \<Longrightarrow> io_keeps P (k a)" "io_keeps P (admit X ca ex)"
  shows "io_keeps P (io_then (admit X ca ex) k)"
  unfolding io_keeps_def
proof (intro allI impI)
  fix s r s' assume "io_then (admit X ca ex) k s = (r, s')" "P s"
  then show "P s'"
    using io_keepsD [OF assms(3)] io_keepsD [OF assms(2)] admit_denied [OF assms(1)]
    by (elim io_thenE) blast+
qed

lemma keeps_handle:
  assumes "fs_laws (e_fs E) V"
    and "rq_method (ex_request ex) \<noteq> Put \<or> admission_of (e_ext E) (ca_tokens ca) (ex_request ex) = Denied"
  shows "io_keeps (world_is V w) (handle S E ca ex)"
proof -
  have pub: "io_keeps (world_is V w) (h_publish S E ca ex)"
    if "admission_of (e_ext E) (ca_tokens ca) (ex_request ex) = Denied"
    unfolding h_publish_def Let_def by (rule keeps_denied [OF that]) (auto intro: frames)
  have rec: "io_keeps (world_is V w) (h_receive S E ca ex u)"
    if "admission_of (e_ext E) (ca_tokens ca) (ex_request ex) = Denied" for u
    unfolding h_receive_def Let_def by (rule keeps_denied [OF that]) (auto intro: frames)
  have info: "io_keeps (world_is V w) (h_narinfo S E ca ex key)" for key
    using assms(2) pub unfolding h_narinfo_def Let_def by (auto split: option.splits intro: frames)
  have nar: "io_keeps (world_is V w) (h_nar S E ca ex u)" for u
    using assms(2) rec [of u] keeps_stream [OF assms(1)] keeps_probe [OF assms(1)]
    unfolding h_nar_def by (cases "rq_method (ex_request ex)") auto
  have "io_keeps (world_is V w) (case route_resolve (e_ext E) (rq_target (ex_request ex)) of
        Inl (RE_Unknown _) \<Rightarrow> answer S (ex_request ex) S_NotFound Unread
      | Inl _ \<Rightarrow> answer S (ex_request ex) S_BadRequest Unread
      | Inr R_CacheInfo \<Rightarrow> h_cache_info S ca ex
      | Inr R_Metrics \<Rightarrow> h_metrics S E ex
      | Inr (R_Narinfo key) \<Rightarrow> h_narinfo S E ca ex key
      | Inr (R_Nar url) \<Rightarrow> h_nar S E ca ex url)"
    using info nar by (auto split: sum.splits route_error.splits route.splits intro: frames)
  then show ?thesis unfolding handle_def Let_def by (auto intro: frames)
qed

section \<open>Answers\<close>

abbreviation to_come :: "'s sock_views \<Rightarrow> ('s, 'f, 'd) serving \<Rightarrow> string" where
  "to_come V x \<equiv> pending V (hs_conn x)"

abbreviation said :: "'s sock_views \<Rightarrow> ('s, 'f, 'd) serving \<Rightarrow> string" where
  "said V x \<equiv> sent V (hs_conn x)"

text \<open>The operation says exactly \<open>out\<close> when it returns, reads nothing, and leaves the world alone.\<close>

definition says :: "'s sock_views \<Rightarrow> ('s, 'f, 'd) serving \<Rightarrow> ('s, 'f, 'd) serving \<Rightarrow> handler_error + 'a \<Rightarrow> string \<Rightarrow> bool" where
  "says V x x' r out \<longleftrightarrow> hs_world x' = hs_world x \<and> to_come V x' = to_come V x \<and>
     (\<forall>a. r = Inr a \<longrightarrow> said V x' = said V x @ out)"

lemma write_says:
  assumes "sock_laws S V" "on_conn (conn_write S bytes) x = (r, x')"
  shows "says V x x' r bytes \<and> hs_stats x' = hs_stats x"
proof -
  obtain q c where w: "conn_write S bytes (hs_conn x) = (q, c)" "r = ctx HE_Connection q" "x' = x\<lparr>hs_conn := c\<rparr>"
    using assms(2) by (auto simp: on_conn_def split: prod.splits)
  with conn_write_effect [OF assms(1) w(1)] show ?thesis by (auto simp: says_def)
qed

lemma write_then_says:
  assumes "sock_laws S V" "io_then (on_conn (conn_write S bytes)) (\<lambda>_. io_return k) x = (r, x')"
  shows "says V x x' r bytes \<and> (\<forall>a. r = Inr a \<longrightarrow> a = k)"
  using assms(2) by (elim io_thenE) (auto dest: write_says [OF assms(1)] simp: says_def)

lemma answer_says:
  assumes "sock_laws S V" "answer S rq st dr x = (r, x')"
  shows "says V x x' r (bare st (kept rq dr) 0) \<and> (\<forall>k. r = Inr k \<longrightarrow> k = kept rq dr)"
  using write_then_says [OF assms(1) assms(2) [unfolded answer_def]] .

definition refusal_text :: "request \<Rightarrow> refusal \<Rightarrow> drained \<Rightarrow> string" where
  "refusal_text rq rf dr =
     (case rf_message rf of
        None \<Rightarrow> bare (rf_status rf) (kept rq dr) 0
      | Some m \<Rightarrow> with_body (head_header (head_new (rf_status rf) (kept rq dr)) ''Content-Type'' REFUSAL_TYPE) m)"

lemma refuse_says:
  assumes "sock_laws S V" "refuse S rq rf dr x = (r, x')"
  shows "says V x x' r (refusal_text rq rf dr) \<and> (\<forall>k. r = Inr k \<longrightarrow> k = kept rq dr)"
proof (cases "rf_message rf")
  case None
  with assms answer_says show ?thesis by (simp add: refuse_def refusal_text_def)
next
  case (Some m)
  then show ?thesis using write_then_says [OF assms(1)] assms(2)
    by (simp add: refuse_def refusal_text_def Let_def)
qed

definition sent_text :: "request \<Rightarrow> head \<Rightarrow> string \<Rightarrow> string" where
  "sent_text rq h body =
     (if rq_method rq = Head then head_finish (head_length h (u64_from_usize (length body))) else with_body h body)"

lemma send_says:
  assumes "sock_laws S V" "send S rq h body x = (r, x')"
  shows "says V x x' r (sent_text rq h body) \<and> (\<forall>k. r = Inr k \<longrightarrow> k = rq_keep_alive rq)"
  using write_then_says [OF assms(1) assms(2) [unfolded send_def Let_def]]
  by (simp add: sent_text_def)

definition interim :: "request \<Rightarrow> string" where
  "interim rq = (if rq_expectation rq = ExpectContinue
     then ''HTTP/1.1 '' @ show_nat (unat (code S_Continue)) @ '' '' @ reason S_Continue @ crlf @ crlf else [])"

lemma proceed_says:
  assumes "sock_laws S V" "proceed S rq x = (r, x')"
  shows "says V x x' r (interim rq)"
  using assms(2) write_says [OF assms(1)]
  by (auto simp: proceed_def interim_def says_def split: if_splits)

lemma admit_says:
  assumes "admit X ca ex x = (r, x')"
  shows "hs_world x' = hs_world x \<and> hs_conn x' = hs_conn x \<and>
    (\<forall>a. r = Inr a \<longrightarrow> a = admission_of X (ca_tokens ca) (ex_request ex))"
  using assms by (auto simp: admit_def Let_def h_bump_def split: if_splits option.splits elim!: io_thenE)

section \<open>Payload answers\<close>

text \<open>What is left of a span from an offset on.\<close>

definition part :: "string \<Rightarrow> nat \<Rightarrow> nat \<Rightarrow> string" where
  "part bs i j = take (j + 1 - i) (drop i bs)"

lemma take_append_take:
  "m \<le> n \<Longrightarrow> take m xs @ take (n - m) (drop m xs) = take n xs"
  by (metis le_add_diff_inverse take_add)

lemma part_step:
  assumes "t = take (length t) (drop i bs)" "length t \<le> j + 1 - i"
  shows "t @ part bs (i + length t) j = part bs i j"
proof -
  have "part bs (i + length t) j = take (j + 1 - i - length t) (drop (length t) (drop i bs))"
    by (simp add: part_def add.commute)
  with take_append_take [OF assms(2), of "drop i bs"] show ?thesis
    using assms(1) by (simp add: part_def)
qed

lemma pump_loop_sends:
  assumes sock: "sock_laws S W" and fs: "fs_laws F V"
    and data: "fv_data V (w_fs (hs_world x)) (fv_file V (rr_file rd)) = bs"
    and size: "length bs < 2 ^ 64" "unat (last_byte sp) < length bs"
    and fuel: "unat (last_byte sp) + 1 - unat offset \<le> fuel"
    and at: "unat offset \<le> unat (last_byte sp) + 1"
    and run: "pump_loop S F rd sp fuel offset x = (r, x')"
  shows "to_come W x' = to_come W x \<and> r \<noteq> Inl HE_Hang \<and>
    (\<forall>n. r = Inr n \<longrightarrow> n = span_len sp \<and>
       said W x' = said W x @ part bs (unat offset) (unat (last_byte sp)))"
  using data fuel at run
proof (induction fuel arbitrary: offset x)
  case 0
  then have "last_byte sp < offset" by (simp add: word_less_nat_alt)
  then show ?case using 0 by (subst (asm) pump_loop.simps) (simp add: part_def)
next
  case (Suc fuel)
  let ?last = "unat (last_byte sp)"
  show ?case
  proof (cases "last_byte sp < offset")
    case True
    then show ?thesis using Suc.prems(4) by (subst (asm) pump_loop.simps) (simp add: part_def word_less_nat_alt)
  next
    case False
    then have le: "unat offset \<le> ?last" by (simp add: word_less_nat_alt)
    let ?wanted = "min (last_byte sp - offset + 1) (u64_from_usize SEND_CHUNK)"
    obtain q f1 where rd: "reader_read_at F rd SEND_CHUNK offset (w_fs (hs_world x)) = (q, f1)" by fastforce
    let ?x1 = "x\<lparr>hs_world := (hs_world x)\<lparr>w_fs := f1\<rparr>\<rparr>"
    have step: "on_world HE_Store (on_fs (reader_read_at F rd SEND_CHUNK offset)) x = (ctx HE_Store q, ?x1)"
      using rd by (simp add: on_world_def on_fs_def)
    show ?thesis
    proof (cases q)
      case (Inl e)
      then show ?thesis using Suc.prems(4) False step
        by (subst (asm) pump_loop.simps) (auto simp: Let_def io_then_def)
    next
      case (Inr s)
      have view: "same_view V (w_fs (hs_world x)) f1" and s: "read_of bs (unat offset) SEND_CHUNK s"
        using reader_read_at_Inr [OF fs rd [unfolded Inr]] Suc.prems(1) by auto
      have ne: "s \<noteq> []" using s le size(2) by (auto simp: read_of_def SEND_CHUNK_def)
      obtain k where k: "k \<le> SEND_CHUNK" "s = take k (drop (unat offset) bs)"
        using s by (auto simp: read_of_def)
      have "unat (last_byte sp - offset + 1) = ?last - unat offset + 1"
      proof -
        have "unat (last_byte sp - offset) = ?last - unat offset"
          using False by (simp add: unat_sub)
        moreover have "?last - unat offset + 1 < 2 ^ 64" using size le by linarith
        ultimately show ?thesis by (subst unat_add_lem [THEN iffD1]) simp_all
      qed
      then have w: "unat ?wanted = min (?last - unat offset + 1) SEND_CHUNK"
        by (simp add: unat_u64_from_usize SEND_CHUNK_def min_def word_le_nat_alt)
      let ?t = "take (unat ?wanted) s"
      have t: "?t = take (length ?t) (drop (unat offset) bs)" "1 \<le> length ?t" "length ?t \<le> ?last + 1 - unat offset"
      proof -
        show "?t = take (length ?t) (drop (unat offset) bs)" unfolding k(2) by (simp add: min_def)
        show "1 \<le> length ?t" using ne w by (cases s) (simp_all add: SEND_CHUNK_def)
        show "length ?t \<le> ?last + 1 - unat offset" using w le by simp
      qed
      let ?off = "offset + u64_from_usize (length ?t)"
      have off: "unat ?off = unat offset + length ?t"
      proof -
        have "unat offset + length ?t < 2 ^ 64" using t(3) le size by linarith
        then show ?thesis by (subst unat_add_lem [THEN iffD1]) (simp_all add: unat_u64_from_usize)
      qed
      obtain y x2 where wr: "on_conn (conn_write S ?t) ?x1 = (y, x2)" by fastforce
      note sy = write_says [OF sock wr, THEN conjunct1]
      show ?thesis
      proof (cases y)
        case (Inl e)
        then show ?thesis using Suc.prems(4) False step Inr ne wr sy
          by (subst (asm) pump_loop.simps)
            (auto simp: Let_def io_then_def says_def on_conn_def ctx_eq_Inl_iff split: prod.splits)
      next
        case (Inr u)
        have rec: "pump_loop S F rd sp fuel ?off x2 = (r, x')"
          using Suc.prems(4) False step \<open>q = Inr s\<close> ne wr Inr
          by (subst (asm) pump_loop.simps) (simp add: Let_def io_then_def)
        have "fv_data V (w_fs (hs_world x2)) (fv_file V (rr_file rd)) = bs"
          using sy view Suc.prems(1) by (simp add: says_def same_view_def)
        moreover have "?last + 1 - unat ?off \<le> fuel" using off t(2,3) Suc.prems(2) by linarith
        moreover have "unat ?off \<le> ?last + 1" using off t(3) le by linarith
        ultimately have ih: "to_come W x' = to_come W x2 \<and> r \<noteq> Inl HE_Hang \<and>
            (\<forall>n. r = Inr n \<longrightarrow> n = span_len sp \<and> said W x' = said W x2 @ part bs (unat ?off) ?last)"
          using Suc.IH rec by blast
        have "?t @ part bs (unat ?off) ?last = part bs (unat offset) ?last"
          unfolding off by (rule part_step [OF t(1,3)])
        moreover have "to_come W x2 = to_come W x" "said W x2 = said W x @ ?t" using sy Inr by (simp_all add: says_def)
        ultimately show ?thesis using ih by (metis append.assoc)
      qed
    qed
  qed
qed

text \<open>The span a range request is granted, and the whole answer to a \<open>GET\<close> of an artifact.\<close>

definition granted :: "string option \<Rightarrow> u64 \<Rightarrow> span option" where
  "granted header len =
     (case range_resolve header len of
        Whole \<Rightarrow> Some \<lparr>first = 0, last_byte = len - 1\<rparr>
      | Partial sp \<Rightarrow> Some sp
      | Unsatisfiable \<Rightarrow> None)"

definition payload_answer :: "request \<Rightarrow> string \<Rightarrow> string" where
  "payload_answer rq bs =
     (let size = u64_from_usize (length bs) in
      case granted (rq_range rq) size of
        Some sp \<Rightarrow> head_finish (partial_head rq sp size) @ part bs (unat (first sp)) (unat (last_byte sp))
      | None \<Rightarrow> head_finish (unsatisfiable_head rq size))"

lemma granted_in: "granted h len = Some sp \<Longrightarrow> len \<noteq> 0 \<Longrightarrow> span_in sp len"
  using range_resolve_in [of h len] pred_less [of len]
  by (auto simp: granted_def span_in_def split: requested.splits)

lemma stream_span_sends:
  assumes sock: "sock_laws S W" and fs: "fs_laws (e_fs E) V"
    and data: "fv_data V (w_fs (hs_world x)) (fv_file V (rr_file rd)) = bs"
    and size: "length bs < 2 ^ 64" "span_in sp (rr_size rd)" "unat (rr_size rd) = length bs"
    and run: "stream_span S E ex rd sp x = (r, x')"
  shows "to_come W x' = to_come W x \<and> r \<noteq> Inl HE_Hang \<and>
    (\<forall>k. r = Inr k \<longrightarrow> k = rq_keep_alive (ex_request ex) \<and>
       said W x' = said W x @ head_finish (partial_head (ex_request ex) sp (rr_size rd)) @
         part bs (unat (first sp)) (unat (last_byte sp)))"
proof -
  have le: "unat (first sp) \<le> unat (last_byte sp)" "unat (last_byte sp) < length bs"
    using size(2,3) by (simp_all add: span_in_def word_le_nat_alt word_less_nat_alt)
  have fuel: "unat (last_byte sp) + 1 - unat (first sp) \<le> unat (span_len sp)"
  proof -
    have "unat (last_byte sp - first sp) = unat (last_byte sp) - unat (first sp)"
      using size(2) by (simp add: span_in_def unat_sub)
    moreover have "unat (last_byte sp) - unat (first sp) + 1 < 2 ^ 64" using le size(1) by linarith
    ultimately show ?thesis using le unfolding span_len_def
      by (subst unat_add_lem [THEN iffD1]) simp_all
  qed
  let ?h = "head_finish (partial_head (ex_request ex) sp (rr_size rd))"
  obtain q x1 where w: "on_conn (conn_write S ?h) x = (q, x1)" by fastforce
  note s1 = write_says [OF sock w, THEN conjunct1]
  show ?thesis
  proof (cases q)
    case (Inl e)
    then have "r = Inl e" "x' = x1" "e \<noteq> HE_Hang" using run w
      by (auto simp: stream_span_def Let_def io_then_def on_conn_def ctx_eq_Inl_iff split: prod.splits)
    then show ?thesis using s1 by (simp add: says_def)
  next
    case (Inr u)
    obtain y x2 where p: "pump S (e_fs E) rd sp x1 = (y, x2)" by fastforce
    have d1: "fv_data V (w_fs (hs_world x1)) (fv_file V (rr_file rd)) = bs"
      using s1 data by (simp add: says_def)
    note pl = pump_loop_sends [OF sock fs d1 size(1) le(2) fuel _ p [unfolded pump_def]]
    have pl: "to_come W x2 = to_come W x1 \<and> y \<noteq> Inl HE_Hang \<and>
      (\<forall>n. y = Inr n \<longrightarrow> said W x2 = said W x1 @ part bs (unat (first sp)) (unat (last_byte sp)))"
      using pl le by simp
    have "(r, x') = io_then (io_lift y) (\<lambda>sent. io_then (h_bump (ex_shard ex) C_Payload sent)
        (\<lambda>_. io_return (rq_keep_alive (ex_request ex)))) x2"
      using run w Inr p by (auto simp: stream_span_def Let_def io_run)
    then show ?thesis using pl s1 Inr
      by (cases y) (auto simp: says_def io_run h_bump_def split: option.splits)
  qed
qed

lemma h_stream_sends:
  assumes sock: "sock_laws S W" and good: "fs_laws (e_fs E) V" and url: "narurl_ok u"
    and bs: "artifacts V (w_root (hs_world x)) (w_fs (hs_world x)) u = Some bs" "bs \<noteq> []" "length bs < 2 ^ 64"
    and run: "h_stream S E ex u x = (Inr k, x')"
  shows "to_come W x' = to_come W x \<and> k = rq_keep_alive (ex_request ex) \<and>
    said W x' = said W x @ payload_answer (ex_request ex) bs"
proof -
  obtain q f1 where rd: "store_read (e_fs E) (w_root (hs_world x)) u (w_fs (hs_world x)) = (q, f1)" by fastforce
  let ?x1 = "x\<lparr>hs_world := (hs_world x)\<lparr>w_fs := f1\<rparr>\<rparr>"
  have op: "open_artifact E u x = (ctx HE_Store q, ?x1)"
    using rd by (simp add: open_artifact_def on_world_def on_fs_def)
  from run op obtain found where q: "q = Inr found" by (cases q) (auto simp: h_stream_def Let_def io_run)
  from store_read_Inr [OF good rd [unfolded q] url] bs(1) obtain reader where
    reader: "found = Some reader" "unat (rr_size reader) = length bs"
      "fv_data V (w_fs (hs_world x)) (fv_file V (rr_file reader)) = bs"
    and view: "same_view V (w_fs (hs_world x)) f1"
    by (cases found) auto
  have sz: "rr_size reader \<noteq> 0" "u64_from_usize (length bs) = rr_size reader"
    using reader(2) bs(2,3) by (auto simp: unat_eq_zero word_unat_eq_iff unat_u64_from_usize)
  have d1: "fv_data V (w_fs (hs_world ?x1)) (fv_file V (rr_file reader)) = bs"
    using view reader(3) by (simp add: same_view_def)
  let ?size = "rr_size reader"
  have r: "(case granted (rq_range (ex_request ex)) ?size of
        Some sp \<Rightarrow> stream_span S E ex reader sp
      | None \<Rightarrow> io_then (on_conn (conn_write S (head_finish (unsatisfiable_head (ex_request ex) ?size))))
          (\<lambda>_. io_return (rq_keep_alive (ex_request ex)))) ?x1 = (Inr k, x')"
    using run op q reader(1) sz(1)
    by (auto simp: h_stream_def Let_def io_then_def granted_def split: requested.splits)
  show ?thesis
  proof (cases "granted (rq_range (ex_request ex)) ?size")
    case None
    with r have "io_then (on_conn (conn_write S (head_finish (unsatisfiable_head (ex_request ex) ?size))))
        (\<lambda>_. io_return (rq_keep_alive (ex_request ex))) ?x1 = (Inr k, x')" by simp
    from write_then_says [OF sock this] None sz(2) show ?thesis
      by (simp add: says_def payload_answer_def Let_def)
  next
    case (Some sp)
    with r have "stream_span S E ex reader sp ?x1 = (Inr k, x')" by simp
    from stream_span_sends [OF sock good d1 bs(3) granted_in [OF Some sz(1)] reader(2) this] Some sz(2)
    show ?thesis by (simp add: payload_answer_def Let_def)
  qed
qed

end
