(* ===== verification/PushLaws.thy ===== *)
theory PushLaws
  imports HandlerLaws
begin

text \<open>
  The two halves of a push, from the socket to the store and back: what a \<open>PUT\<close> of a NAR and a
  \<open>PUT\<close> of a narinfo consume, answer and change.
\<close>

section \<open>Publishing a narinfo\<close>

definition publish_reply ::
  "('e, 'z, 'f, 'h, 'd, 'r, 't) env \<Rightarrow> cache \<Rightarrow> request \<Rightarrow> string \<Rightarrow> 'd \<Rightarrow> string \<times> 'd" where
  "publish_reply E ca rq body d =
     (case from_utf8 body of
        Inl _ \<Rightarrow> (bare S_BadRequest (kept rq Consumed) 0, d)
      | Inr text \<Rightarrow>
         (case ingest_publish E (ca_ingest ca) text d of
            (Inl err, d) \<Rightarrow> (refusal_text rq (refusal_new (ingest_fault err) (ingest_display err)) Consumed, d)
          | (Inr _, d) \<Rightarrow> (bare S_Created (kept rq Consumed) 0, d)))"

lemma admit_Inr_world:
  "admit X ca ex x = (Inr a, x1) \<Longrightarrow> hs_world x1 = hs_world x \<and> hs_conn x1 = hs_conn x \<and>
     a = admission_of X (ca_tokens ca) (ex_request ex)"
  using admit_says by fastforce

lemma says_Inr:
  "says V x x' r out \<Longrightarrow> r = Inr a \<Longrightarrow>
     hs_world x' = hs_world x \<and> to_come V x' = to_come V x \<and> said V x' = said V x @ out"
  by (simp add: says_def)

lemma h_publish_reply:
  assumes sock: "sock_laws S W"
    and adm: "admission_of (e_ext E) (ca_tokens ca) (ex_request ex) = Admitted"
    and len: "rq_framing (ex_request ex) = FrameLength n" "n \<le> METADATA_BODY_MAX"
    and run: "h_publish S E ca ex x = (Inr k, x')"
  shows "k = rq_keep_alive (ex_request ex) \<and>
    (\<exists>body reply d'. length body = unat n \<and> to_come W x = body @ to_come W x' \<and>
       publish_reply E ca (ex_request ex) body (w_db (hs_world x)) = (reply, d') \<and>
       hs_world x' = (hs_world x)\<lparr>w_db := d'\<rparr> \<and>
       said W x' = said W x @ interim (ex_request ex) @ reply)"
proof -
  let ?rq = "ex_request ex"
  let ?finish = "\<lambda>body. case from_utf8 body of
              Inl _ \<Rightarrow> answer S ?rq S_BadRequest Consumed
            | Inr text \<Rightarrow> (\<lambda>x.
                case on_db (ingest_publish E (ca_ingest ca) text) (hs_world x) of
                  (Inl err, w) \<Rightarrow>
                    refuse S ?rq (refusal_new (ingest_fault err) (ingest_display err)) Consumed (x\<lparr>hs_world := w\<rparr>)
                | (Inr _, w) \<Rightarrow> answer S ?rq S_Created Consumed (x\<lparr>hs_world := w\<rparr>))"
  from run obtain a x1 where x1: "admit (e_ext E) ca ex x = (Inr a, x1)"
    and rest: "(if a = Denied then answer S ?rq S_Unauthorized Unread
      else case rq_framing ?rq of
        FrameLength len \<Rightarrow>
          if METADATA_BODY_MAX < len then answer S ?rq S_ContentTooLarge Unread
          else io_then (proceed S ?rq) (\<lambda>_. io_then (on_conn (conn_body S len)) ?finish)
      | FrameEmpty \<Rightarrow> answer S ?rq S_LengthRequired Unread
      | FrameChunked \<Rightarrow> answer S ?rq S_LengthRequired Unread) x1 = (Inr k, x')"
    unfolding h_publish_def Let_def by (elim io_then_InrE) blast
  have "a = Admitted" using admit_Inr_world [OF x1] adm by simp
  with rest len have "io_then (proceed S ?rq) (\<lambda>_. io_then (on_conn (conn_body S n)) ?finish) x1 = (Inr k, x')"
    by (simp split: if_splits)
  then obtain u x2 x3 body where x2: "proceed S ?rq x1 = (Inr u, x2)"
    and x3: "on_conn (conn_body S n) x2 = (Inr body, x3)"
    and fin: "?finish body x3 = (Inr k, x')"
    by (elim io_then_InrE) blast
  note a1 = admit_Inr_world [OF x1]
  note a2 = says_Inr [OF proceed_says [OF sock x2] refl]
  obtain c where c: "conn_body S n (hs_conn x2) = (Inr body, c)" "x3 = x2\<lparr>hs_conn := c\<rparr>"
    using x3 by (auto simp: on_conn_def split: prod.splits)
  have a3: "length body = unat n" "to_come W x = body @ to_come W x3" "said W x3 = said W x @ interim ?rq"
      "hs_world x3 = hs_world x"
    using conn_body_effect [OF sock c(1)] c(2) a1 a2 by simp_all
  have kept: "kept ?rq Consumed = rq_keep_alive ?rq" by (simp add: kept_def)
  show ?thesis
  proof (cases "from_utf8 body")
    case (Inl e)
    with fin have "answer S ?rq S_BadRequest Consumed x3 = (Inr k, x')" by simp
    note a4 = answer_says [OF sock this]
    have "publish_reply E ca ?rq body (w_db (hs_world x)) = (bare S_BadRequest (kept ?rq Consumed) 0, w_db (hs_world x))"
      by (simp add: publish_reply_def Inl)
    then show ?thesis using a3 a4 kept by (auto simp: says_def)
  next
    case (Inr str)
    obtain q d' where q: "ingest_publish E (ca_ingest ca) str (w_db (hs_world x)) = (q, d')" by fastforce
    let ?x = "x3\<lparr>hs_world := (hs_world x)\<lparr>w_db := d'\<rparr>\<rparr>"
    show ?thesis
    proof (cases q)
      case err: (Inl err)
      with fin Inr q a3(4)
      have "refuse S ?rq (refusal_new (ingest_fault err) (ingest_display err)) Consumed ?x = (Inr k, x')"
        by (simp add: on_db_def)
      note a4 = refuse_says [OF sock this]
      have "publish_reply E ca ?rq body (w_db (hs_world x)) =
          (refusal_text ?rq (refusal_new (ingest_fault err) (ingest_display err)) Consumed, d')"
        by (simp add: publish_reply_def Inr q err)
      then show ?thesis using a3 a4 kept by (auto simp: says_def)
    next
      case ok: (Inr p)
      with fin Inr q a3(4) have "answer S ?rq S_Created Consumed ?x = (Inr k, x')" by (simp add: on_db_def)
      note a4 = answer_says [OF sock this]
      have "publish_reply E ca ?rq body (w_db (hs_world x)) = (bare S_Created (kept ?rq Consumed) 0, d')"
        by (simp add: publish_reply_def Inr q ok)
      then show ?thesis using a3 a4 kept by (auto simp: says_def)
    qed
  qed
qed

section \<open>Receiving a NAR\<close>

text \<open>What an upload in progress keeps.\<close>

definition unmoved :: "('f, 'h) fs_views \<Rightarrow> ('s, 'f, 'd) serving \<Rightarrow> ('s, 'f, 'd) serving \<Rightarrow> bool" where
  "unmoved V x x' \<longleftrightarrow> w_store (hs_world x') = w_store (hs_world x) \<and> w_db (hs_world x') = w_db (hs_world x) \<and>
     artifacts V (w_root (hs_world x)) (w_fs (hs_world x')) = artifacts V (w_root (hs_world x)) (w_fs (hs_world x))"

lemma unmoved_trans: "unmoved V x y \<Longrightarrow> unmoved V y z \<Longrightarrow> unmoved V x z"
  by (auto simp: unmoved_def)

lemma unmoved_refl [simp]: "unmoved V x x"
  by (simp add: unmoved_def)

abbreviation files_good :: "('e, 'z, 'f, 'h, 'd, 'r, 't) env \<Rightarrow> ('f, 'h) fs_views \<Rightarrow> ('s, 'f, 'd) serving \<Rightarrow> bool" where
  "files_good E V x \<equiv> fs_good (e_fs E) V (w_fs (hs_world x))"

abbreviation live :: "('f, 'h) fs_views \<Rightarrow> ('s, 'f, 'd) serving \<Rightarrow> ('h, 'u) upload \<Rightarrow> bool" where
  "live V x u \<equiv> live_upload V (w_root (hs_world x)) (w_fs (hs_world x)) u"

lemma drop_upload_effect:
  assumes "files_good E V x" "live V x u"
  shows "files_good E V (drop_upload E u x) \<and> unmoved V x (drop_upload E u x) \<and>
    hs_conn (drop_upload E u x) = hs_conn x"
  using nar_store.discard_keeps [OF assms(1), of "w_root (hs_world x)" "up_staged u"] assms(2)
  by (auto simp: drop_upload_def unmoved_def live_upload_def)

lemma receive_loop_effect:
  assumes "sock_laws S W" "files_good E V x" "live V x u" "receive_loop S E u remaining x = (r, x')"
  shows "files_good E V x' \<and> unmoved V x x' \<and>
    (\<forall>v. r = Inr v \<longrightarrow> (\<exists>bs. length bs = unat remaining \<and> to_come W x = bs @ to_come W x' \<and>
       said W x' = said W x \<and> live V x' v \<and> up_expected v = up_expected u \<and>
       (\<forall>Y b0. sha_laws (e_ext E) \<longrightarrow> zstd_laws (e_zstd E) Y \<longrightarrow>
          receives (e_ext E) Y V (w_root (hs_world x)) (w_fs (hs_world x)) u b0 \<longrightarrow>
          receives (e_ext E) Y V (w_root (hs_world x)) (w_fs (hs_world x')) v (b0 @ bs))))"
  using assms
proof (induction S E u remaining x rule: receive_loop.induct)
  case (1 S E u remaining x)
  note sock = "1.prems"(1) and good = "1.prems"(2) and lv = "1.prems"(3)
  show ?case
  proof (cases "remaining = 0")
    case True
    then have "r = Inr u" "x' = x" using "1.prems"(4) by (auto simp: receive_loop.simps [of S E u 0 x])
    then show ?thesis using good lv True by simp
  next
    case rem: False
    obtain q c where c: "conn_chunk S remaining (hs_conn x) = (q, c)" by fastforce
    note ch = conn_chunk_effect [OF sock c]
    let ?x1 = "x\<lparr>hs_conn := c\<rparr>"
    have x1: "files_good E V ?x1" "live V ?x1 u" "unmoved V x ?x1" using good lv by (simp_all add: unmoved_def)
    show ?thesis
    proof (cases q)
      case (Inl e)
      then have "r = Inl (HE_Connection e)" "x' = drop_upload E u ?x1"
        using "1.prems"(4) rem c by (auto simp: receive_loop.simps [of S E u remaining x])
      then show ?thesis using drop_upload_effect [OF x1(1,2)] unmoved_trans [OF x1(3)] by simp
    next
      case (Inr p)
      obtain bs m where p: "p = (bs, m)" by fastforce
      have b: "bs \<noteq> []" "to_come W x = bs @ pending W c" "unat m + length bs = unat remaining" "sent W c = said W x"
        using ch Inr p rem by auto
      obtain y v g where y: "upload_write (e_ext E) (e_zstd E) (e_fs E) bs (u, w_fs (hs_world ?x1)) = (y, (v, g))"
        by (metis prod.exhaust)
      note w = upload_write_keeps [OF x1(1,2) y]
      let ?x2 = "put_fs g ?x1"
      have x2: "files_good E V ?x2" "live V ?x2 v" "unmoved V x ?x2"
        using w by (simp_all add: put_fs_def unmoved_def)
      show ?thesis
      proof (cases y)
        case err: (Inl e)
        then have "r = Inl (HE_Upload e)" "x' = drop_upload E v ?x2"
          using "1.prems"(4) rem c Inr p b(1) y by (auto simp: receive_loop.simps [of S E u remaining x])
        then show ?thesis using drop_upload_effect [OF x2(1,2)] unmoved_trans [OF x2(3)] by simp
      next
        case ok: (Inr a)
        have "receive_loop S E v m ?x2 = (r, x')"
          using "1.prems"(4) rem c Inr p b(1) y ok by (simp add: receive_loop.simps [of S E u remaining x])
        from "1.IH" [OF rem c [symmetric] Inr p [symmetric] b(1) y [symmetric, simplified] ok refl sock x2(1,2) this]
        have ih: "files_good E V x' \<and> unmoved V ?x2 x'" and
          ihr: "\<And>z. r = Inr z \<Longrightarrow> \<exists>cs. length cs = unat m \<and> to_come W ?x2 = cs @ to_come W x' \<and>
             said W x' = said W ?x2 \<and> live V x' z \<and> up_expected z = up_expected v \<and>
             (\<forall>Y b0. sha_laws (e_ext E) \<longrightarrow> zstd_laws (e_zstd E) Y \<longrightarrow>
                receives (e_ext E) Y V (w_root (hs_world x)) g v b0 \<longrightarrow>
                receives (e_ext E) Y V (w_root (hs_world x)) (w_fs (hs_world x')) z (b0 @ cs))"
          by (simp_all add: put_fs_def)
        show ?thesis
        proof (intro conjI allI impI)
          show "files_good E V x'" "unmoved V x x'" using ih unmoved_trans [OF x2(3)] by blast+
          fix z assume z: "r = Inr z"
          from ihr [OF z] obtain cs where cs: "length cs = unat m" "to_come W ?x2 = cs @ to_come W x'"
            "said W x' = said W ?x2" "live V x' z" "up_expected z = up_expected v"
            and rc: "\<And>Y b0. sha_laws (e_ext E) \<Longrightarrow> zstd_laws (e_zstd E) Y \<Longrightarrow>
                receives (e_ext E) Y V (w_root (hs_world x)) g v b0 \<Longrightarrow>
                receives (e_ext E) Y V (w_root (hs_world x)) (w_fs (hs_world x')) z (b0 @ cs)"
            by blast
          have rc2: "receives (e_ext E) Y V (w_root (hs_world x)) (w_fs (hs_world x')) z (b0 @ bs @ cs)"
            if l: "sha_laws (e_ext E)" "zstd_laws (e_zstd E) Y"
              and b0: "receives (e_ext E) Y V (w_root (hs_world x)) (w_fs (hs_world x)) u b0" for Y b0
            using rc [OF l upload_write_receives [OF l good b0]] y ok by simp
          show "\<exists>bs. length bs = unat remaining \<and> to_come W x = bs @ to_come W x' \<and>
              said W x' = said W x \<and> live V x' z \<and> up_expected z = up_expected u \<and>
              (\<forall>Y b0. sha_laws (e_ext E) \<longrightarrow> zstd_laws (e_zstd E) Y \<longrightarrow>
                 receives (e_ext E) Y V (w_root (hs_world x)) (w_fs (hs_world x)) u b0 \<longrightarrow>
                 receives (e_ext E) Y V (w_root (hs_world x)) (w_fs (hs_world x')) z (b0 @ bs))"
            using cs b w rc2 by (intro exI [of _ "bs @ cs"]) (simp add: put_fs_def)
        qed
      qed
    qed
  qed
qed

section \<open>Settling an upload\<close>

text \<open>
  The stored artifact and the entry that points at it, as functions of the artifact's bytes and
  of the bytes received.
\<close>

definition stored_url :: "'e ext \<Rightarrow> string \<Rightarrow> narurl" where
  "stored_url X artifact = \<lparr>file_hash = digest X artifact, compression = STORED_AS\<rparr>"

definition stored_entry :: "'e ext \<Rightarrow> string \<Rightarrow> string \<Rightarrow> entry" where
  "stored_entry X artifact body = \<lparr>en_file_hash = digest X artifact,
     en_file_size = u64_from_usize (length artifact), en_nar_size = u64_from_usize (length body),
     en_compression = STORED_AS\<rparr>"

lemma finished_verified:
  assumes "finished X Y V root f c bs artifact" "length bs < 2 ^ 64" "upload_verify F c f = (Inr v, f')"
  shows "digest X bs = up_expected c \<and> bs \<noteq> [] \<and> f' = f \<and> holds V root f (up_staged v) artifact \<and>
    verified_url (up_state v) = stored_url X artifact \<and> verified_entry (up_state v) = stored_entry X artifact bs \<and>
    vf_nar_hash (up_state v) = digest X bs \<and> vf_file_hash (up_state v) = digest X artifact \<and>
    vf_nar_size (up_state v) \<noteq> 0"
proof -
  note v = upload_verify_Inr [OF assms(3)]
  have f: "f' = f" using assms(3) by (auto simp: upload_verify_def Let_def split: if_splits)
  have c: "cm_nar_hash (up_state c) = digest X bs" "cm_file_hash (up_state c) = digest X artifact"
      "unat (cm_file_size (up_state c)) = length artifact" "unat (cm_nar_size (up_state c)) = length bs"
      "holds V root f (up_staged c) artifact"
    using assms(1,2) by (simp_all add: finished_def Let_def)
  have "cm_file_size (up_state c) = u64_from_usize (length artifact)"
    using c(3) unat_less64 [of "cm_file_size (up_state c)"]
    by (simp add: word_unat_eq_iff unat_u64_from_usize)
  moreover have "cm_nar_size (up_state c) = u64_from_usize (length bs)"
    using c(4) assms(2) by (simp add: word_unat_eq_iff unat_u64_from_usize)
  moreover have "bs \<noteq> []" using v c(4) by (auto simp: unat_eq_zero)
  ultimately show ?thesis using v c f
    by (simp add: stored_url_def stored_entry_def verified_url_def verified_entry_def)
qed

text \<open>The two outcomes of a body received in full: refused and gone, or stored and recorded.\<close>

definition upload_refused :: "'e ext \<Rightarrow> sha256 \<Rightarrow> string \<Rightarrow> upload_error \<Rightarrow> bool" where
  "upload_refused X expected body err \<longleftrightarrow>
     digest X body \<noteq> expected \<and> err = UE_HashMismatch expected (digest X body) \<or>
     digest X body = expected \<and> body = [] \<and> err = UE_Empty"

lemma upload_refused_client: "upload_refused X h b err \<Longrightarrow> upload_fault err = Client"
  by (auto simp: upload_refused_def)

lemma finished_refused:
  assumes "finished X Y V root f c bs artifact" "length bs < 2 ^ 64" "upload_verify F c f = (Inl err, f')"
  shows "upload_refused X (up_expected c) bs err"
  using assms by (auto simp: upload_verify_def upload_refused_def finished_def Let_def split: if_splits)

lemma settle_upload_effect:
  assumes sock: "sock_laws S W" and sha: "sha_laws (e_ext E)" and zstd: "zstd_laws (e_zstd E) Y"
    and good: "files_good E V x" "index_good (e_redb E) U (e_rkyv E) (w_db (hs_world x))"
    and rc: "receives (e_ext E) Y V (w_root (hs_world x)) (w_fs (hs_world x)) u bs" "length bs < 2 ^ 64"
    and run: "settle_upload S E ex u x = (Inr k, x')"
  defines "rq \<equiv> ex_request ex" and "w \<equiv> hs_world x" and "w' \<equiv> hs_world x'"
  shows "files_good E V x' \<and> index_good (e_redb E) U (e_rkyv E) (w_db w') \<and> w_store w' = w_store w \<and>
    infos U (e_rkyv E) (w_db w') = infos U (e_rkyv E) (w_db w) \<and>
    to_come W x' = to_come W x \<and> k = rq_keep_alive rq \<and>
    ((\<exists>err. upload_refused (e_ext E) (up_expected u) bs err \<and>
        artifacts V (w_root w) (w_fs w') = artifacts V (w_root w) (w_fs w) \<and>
        nars U (e_rkyv E) (w_db w') = nars U (e_rkyv E) (w_db w) \<and>
        said W x' = said W x @ refusal_text rq (refusal_new Client (upload_display err)) Consumed) \<or>
     (\<exists>a. digest (e_ext E) bs = up_expected u \<and> bs \<noteq> [] \<and> unzstd Y a = Some bs \<and> length a < 2 ^ 64 \<and>
        artifacts V (w_root w) (w_fs w') = (artifacts V (w_root w) (w_fs w))(stored_url (e_ext E) a \<mapsto> a) \<and>
        nars U (e_rkyv E) (w_db w') =
          (nars U (e_rkyv E) (w_db w))(digest (e_ext E) bs \<mapsto> stored_entry (e_ext E) a bs) \<and>
        said W x' = said W x @ bare S_Created k 0))"
proof -
  have kept: "kept rq Consumed = rq_keep_alive rq" by (simp add: kept_def)
  obtain q f1 where fin: "upload_finish (e_ext E) (e_zstd E) (e_fs E) u (w_fs w) = (q, f1)" by fastforce
  from run fin obtain c where q: "q = Inr c"
    by (cases q) (auto simp: settle_upload_def Let_def io_run on_world_def on_fs_def w_def)
  note fk = upload_finish_keeps [OF good(1) receives_live [OF rc(1)] fin [unfolded w_def]]
  have c: "fs_good (e_fs E) V f1" "artifacts V (w_root w) f1 = artifacts V (w_root w) (w_fs w)"
      "live_upload V (w_root w) f1 c" "up_expected c = up_expected u"
    using fk q by (simp_all add: w_def)
  from upload_finish_finished [OF sha zstd good(1) rc(1)] fin q
  obtain a where a: "finished (e_ext E) Y V (w_root w) f1 c bs a" by (auto simp: w_def)
  obtain y f2 where y: "upload_verify (e_fs E) c f1 = (y, f2)" by fastforce
  note vk = upload_verify_keeps [OF c(1,3) y]
  let ?x2 = "x\<lparr>hs_world := w\<lparr>w_fs := f2\<rparr>\<rparr>"
  show ?thesis
  proof (cases y)
    case (Inl err)
    note ref = finished_refused [OF a rc(2) y [unfolded Inl]]
    have "refuse S rq (refusal_new (upload_fault err) (upload_display err)) Consumed ?x2 = (Inr k, x')"
      using run fin q y Inl
      by (simp add: settle_upload_def Let_def io_run on_world_def on_fs_def put_fs_def w_def rq_def)
    from refuse_says [OF sock this] upload_refused_client [OF ref]
    have e: "hs_world x' = w\<lparr>w_fs := f2\<rparr>" "to_come W x' = to_come W x" "k = rq_keep_alive rq"
      "said W x' = said W x @ refusal_text rq (refusal_new Client (upload_display err)) Consumed"
      using kept by (simp_all add: says_def)
    show ?thesis using e ref c vk good(2) by (auto simp: w'_def w_def)
  next
    case (Inr v)
    note ver = finished_verified [OF a rc(2) y [unfolded Inr]]
    obtain z f3 d3 where z: "upload_store (e_fs E) (e_redb E) (e_rkyv E) (w_root w) v (f2, w_db w) = (z, (f3, d3))"
      by (metis prod.exhaust)
    have hash: "sha_ok (vf_file_hash (up_state v))" using ver sha_ok_digest [OF sha] by simp
    have f2: "fs_good (e_fs E) V f2" "holds V (w_root w) f2 (up_staged v) a" using vk ver c by simp_all
    note st = upload_store_effect [OF f2(1) good(2) [folded w_def] f2(2) hash _ z]
    let ?x3 = "?x2\<lparr>hs_world := w\<lparr>w_fs := f3, w_db := d3\<rparr>\<rparr>"
    have r1: "io_then (\<lambda>x. (ctx HE_Upload z, ?x3)) (\<lambda>_. io_then (h_bump (ex_shard ex) C_Uploads 1)
        (\<lambda>_. answer S rq S_Created Consumed)) ?x2 = (Inr k, x')"
      using run fin q y Inr z
      by (simp add: settle_upload_def Let_def io_then_def on_world_def on_fs_def on_fs_db_def put_fs_def w_def rq_def)
    then obtain e x4 where e: "z = Inr e" and x4: "h_bump (ex_shard ex) C_Uploads 1 ?x3 = (Inr (), x4)"
      and ans: "answer S rq S_Created Consumed x4 = (Inr k, x')"
      by (cases z) (auto simp: io_then_def split: prod.splits sum.splits)
    have x4: "hs_world x4 = w\<lparr>w_fs := f3, w_db := d3\<rparr>" "hs_conn x4 = hs_conn x"
      using x4 by (auto simp: h_bump_def split: option.splits)
    from answer_says [OF sock ans] x4 kept
    have e': "hs_world x' = w\<lparr>w_fs := f3, w_db := d3\<rparr>" "to_come W x' = to_come W x" "k = rq_keep_alive rq"
      "said W x' = said W x @ bare S_Created k 0" by (simp_all add: says_def)
    have "unzstd Y a = Some bs \<and> length a < 2 ^ 64"
      using a unat_less64 [of "cm_file_size (up_state c)"] by (auto simp: finished_def Let_def)
    moreover have "fs_good (e_fs E) V f3 \<and> index_good (e_redb E) U (e_rkyv E) d3 \<and>
        infos U (e_rkyv E) d3 = infos U (e_rkyv E) (w_db w) \<and>
        artifacts V (w_root w) f3 = (artifacts V (w_root w) f2)(stored_url (e_ext E) a \<mapsto> a) \<and>
        nars U (e_rkyv E) d3 = (nars U (e_rkyv E) (w_db w))(digest (e_ext E) bs \<mapsto> stored_entry (e_ext E) a bs)"
      using st ver e by simp
    ultimately show ?thesis using e' ver c vk by (simp add: w'_def, intro disjI2 exI [of _ a], simp)
  qed
qed

section \<open>The whole \<open>PUT\<close> of a NAR\<close>

text \<open>
  \<open>upload_done\<close> relates the world before and after a body that was received in full to the answer
  that was given: refused and nothing changed, or stored, recorded and answered \<open>201\<close>.
\<close>

definition upload_done ::
  "'e ext \<Rightarrow> 'z zstd_views \<Rightarrow> ('f, 'h) fs_views \<Rightarrow> ('d, 'r, 't) views \<Rightarrow> rkyv \<Rightarrow> request \<Rightarrow> narurl \<Rightarrow> string \<Rightarrow>
     ('f, 'd) world \<Rightarrow> ('f, 'd) world \<Rightarrow> string \<Rightarrow> bool" where
  "upload_done X Y V U K rq url body w w' reply \<longleftrightarrow>
     compression url = NoCompression \<and>
     ((\<exists>err. upload_refused X (file_hash url) body err \<and>
        artifacts V (w_root w) (w_fs w') = artifacts V (w_root w) (w_fs w) \<and>
        nars U K (w_db w') = nars U K (w_db w) \<and>
        reply = refusal_text rq (refusal_new Client (upload_display err)) Consumed) \<or>
      (\<exists>a. digest X body = file_hash url \<and> body \<noteq> [] \<and> unzstd Y a = Some body \<and> length a < 2 ^ 64 \<and>
        artifacts V (w_root w) (w_fs w') = (artifacts V (w_root w) (w_fs w))(stored_url X a \<mapsto> a) \<and>
        nars U K (w_db w') = (nars U K (w_db w))(file_hash url \<mapsto> stored_entry X a body) \<and>
        reply = bare S_Created (rq_keep_alive rq) 0))"

lemma h_receive_effect:
  assumes sock: "sock_laws S W" and sha: "sha_laws (e_ext E)" and zstd: "zstd_laws (e_zstd E) Y"
    and good: "files_good E V x" "index_good (e_redb E) U (e_rkyv E) (w_db (hs_world x))"
    and adm: "admission_of (e_ext E) (ca_tokens ca) (ex_request ex) = Admitted"
    and len: "rq_framing (ex_request ex) = FrameLength n"
    and run: "h_receive S E ca ex url x = (Inr k, x')"
  defines "rq \<equiv> ex_request ex" and "w \<equiv> hs_world x" and "w' \<equiv> hs_world x'"
  shows "files_good E V x' \<and> index_good (e_redb E) U (e_rkyv E) (w_db w') \<and> w_root w' = w_root w \<and>
    infos U (e_rkyv E) (w_db w') = infos U (e_rkyv E) (w_db w) \<and>
    ((\<exists>err. ingest_receive E (ca_ingest ca) url w = (Inl err, w') \<and> w_db w' = w_db w \<and> artifacts V (w_root w) (w_fs w') = artifacts V (w_root w) (w_fs w) \<and>
        to_come W x' = to_come W x \<and> k = kept rq Unread \<and>
        said W x' = said W x @ refusal_text rq (refusal_new (ingest_fault err) (ingest_display err)) Unread) \<or>
     (\<exists>u w1 body reply. ingest_receive E (ca_ingest ca) url w = (Inr u, w1) \<and>
        length body = unat n \<and> to_come W x = body @ to_come W x' \<and> k = rq_keep_alive rq \<and>
        said W x' = said W x @ interim rq @ reply \<and>
        upload_done (e_ext E) Y V U (e_rkyv E) rq url body w w' reply))"
proof -
  from run obtain a x1 where x1: "admit (e_ext E) ca ex x = (Inr a, x1)"
    and rest: "(if a = Denied then answer S rq S_Unauthorized Unread
      else case rq_framing rq of
        FrameLength remaining \<Rightarrow> (\<lambda>x.
          case ingest_receive E (ca_ingest ca) url (hs_world x) of
            (Inl err, w) \<Rightarrow>
              refuse S rq (refusal_new (ingest_fault err) (ingest_display err)) Unread (x\<lparr>hs_world := w\<rparr>)
          | (Inr u, w) \<Rightarrow>
              (case proceed S rq (x\<lparr>hs_world := w\<rparr>) of
                 (Inl e, x) \<Rightarrow> (Inl e, drop_upload E u x)
               | (Inr _, x) \<Rightarrow> io_then (receive_loop S E u remaining) (settle_upload S E ex) x))
      | FrameEmpty \<Rightarrow> answer S rq S_LengthRequired Unread
      | FrameChunked \<Rightarrow> answer S rq S_LengthRequired Unread) x1 = (Inr k, x')"
    unfolding h_receive_def Let_def rq_def by (elim io_then_InrE) blast
  note a1 = admit_Inr_world [OF x1]
  then have "a = Admitted" using adm by simp
  obtain q w1 where q: "ingest_receive E (ca_ingest ca) url w = (q, w1)" by fastforce
  note r = ingest_receive_effect [OF good(1) q [unfolded w_def]]
  have w1: "fs_good (e_fs E) V (w_fs w1)" "w_root w1 = w_root w" "w_db w1 = w_db w"
      "artifacts V (w_root w) (w_fs w1) = artifacts V (w_root w) (w_fs w)"
    using r by (simp_all add: w_def)
  let ?x1 = "x1\<lparr>hs_world := w1\<rparr>"
  show ?thesis
  proof (cases q)
    case (Inl err)
    with rest len q a1 \<open>a = Admitted\<close>
    have "refuse S rq (refusal_new (ingest_fault err) (ingest_display err)) Unread ?x1 = (Inr k, x')"
      by (simp add: rq_def w_def)
    from refuse_says [OF sock this] a1
    have e: "hs_world x' = w1" "to_come W x' = to_come W x" "k = kept rq Unread"
      "said W x' = said W x @ refusal_text rq (refusal_new (ingest_fault err) (ingest_display err)) Unread"
      by (simp_all add: says_def)
    have "ingest_receive E (ca_ingest ca) url w = (Inl err, w')" using q Inl e(1) by (simp add: w'_def)
    with e w1 good(2) show ?thesis by (auto simp: w'_def w_def)
  next
    case (Inr u)
    then have u: "compression url = NoCompression" "up_expected u = file_hash url"
        "live_upload V (w_root w) (w_fs w1) u"
        "receives (e_ext E) Y V (w_root w) (w_fs w1) u []"
      using r sha zstd by (simp_all add: w_def)
    obtain p x2 where p: "proceed S rq ?x1 = (p, x2)" by fastforce
    from rest len q a1 \<open>a = Admitted\<close> Inr p
    have "p = Inr () \<and> io_then (receive_loop S E u n) (settle_upload S E ex) x2 = (Inr k, x')"
      by (auto simp: rq_def w_def split: sum.splits prod.splits)
    then obtain v x3 where p2: "proceed S rq ?x1 = (Inr (), x2)"
      and lp: "receive_loop S E u n x2 = (Inr v, x3)" and st: "settle_upload S E ex v x3 = (Inr k, x')"
      using p by (auto elim: io_then_InrE)
    note a2 = says_Inr [OF proceed_says [OF sock p2] refl]
    have x2: "hs_world x2 = w1" "to_come W x2 = to_come W x" "said W x2 = said W x @ interim rq"
      using a1 a2 by simp_all
    note lo = receive_loop_effect [OF sock _ _ lp, of V, unfolded x2, OF w1(1)]
    obtain body where b: "length body = unat n" "to_come W x = body @ to_come W x3"
        "said W x3 = said W x @ interim rq" "up_expected v = file_hash url"
        "receives (e_ext E) Y V (w_root w) (w_fs (hs_world x3)) v body"
      and x3: "files_good E V x3" "unmoved V x2 x3"
      using lo u sha zstd w1(2) by force
    have w3: "w_root (hs_world x3) = w_root w" "w_db (hs_world x3) = w_db w"
        "artifacts V (w_root w) (w_fs (hs_world x3)) = artifacts V (w_root w) (w_fs w)"
      using x3(2) x2(1) w1 by (simp_all add: unmoved_def)
    have "length body < 2 ^ 64" using b(1) unat_less64 [of n] by simp
    note se = settle_upload_effect [OF sock sha zstd x3(1) _ _ this st, of U, unfolded w3, OF good(2) [folded w_def] b(5)]
    show ?thesis
    proof (intro conjI disjI2 exI)
      show "ingest_receive E (ca_ingest ca) url w = (Inr u, w1)" using q Inr by simp
      show "length body = unat n" by (rule b(1))
      show "to_come W x = body @ to_come W x'" using b(2) se by simp
      show "files_good E V x'" "index_good (e_redb E) U (e_rkyv E) (w_db w')"
        "infos U (e_rkyv E) (w_db w') = infos U (e_rkyv E) (w_db w)" "k = rq_keep_alive rq"
        using se by (simp_all add: w'_def rq_def)
      show "w_root w' = w_root w" using se w3 by (simp add: w'_def)
      let ?reply = "drop (length (said W x3)) (said W x')"
      show "said W x' = said W x @ interim rq @ ?reply" using se b(3) by auto
      show "upload_done (e_ext E) Y V U (e_rkyv E) rq url body w w' ?reply"
        using se u(1) b(4) unfolding upload_done_def w'_def rq_def by auto
    qed
  qed
qed

end
