(* ===== verification/SampleWorld.thy ===== *)
theory SampleWorld
  imports Sample PushLaws "HOL-Library.AList"
begin

text \<open>
  Concrete instances of the remaining parameters: a database of two association lists, an
  encoding of a fixed list of records, a file system in memory, an encoder that compresses
  nothing and a socket fed by one string. Each meets the laws its parameter is used under, so the
  laws can hold; the witnesses of the properties evaluate on them.
\<close>

section \<open>A database\<close>

type_synonym rows = "table \<Rightarrow> (key \<times> string) list"

definition rows_len :: "(key \<times> string) list \<Rightarrow> ext_error + u64" where
  "rows_len kvs = (let n = length (AList.clearjunk kvs) in if n < 2 ^ 64 then Inr (of_nat n) else Inl ''too many rows'')"

definition mem_redb :: "(rows, rows, rows) redb" where
  "mem_redb = \<lparr>
     rd_create = (\<lambda>_. io_return ()),
     rd_begin_read = Inr,
     rd_open_read = (\<lambda>_ _. Inr ()),
     rd_get = (\<lambda>t k d. Inr (map_of (d t) k)),
     rd_iter = (\<lambda>t d. Inr (map Inr (AList.clearjunk (d t)))),
     rd_len = (\<lambda>t d. rows_len (d t)),
     rd_begin_write = (\<lambda>d. (Inr d, d)),
     rd_open_write = (\<lambda>_. io_return ()),
     rd_insert = (\<lambda>t k v d. (Inr (), d(t := (k, v) # d t))),
     rd_remove = (\<lambda>t k d. (Inr (map_of (d t) k), d(t := filter (\<lambda>kv. fst kv \<noteq> k) (d t)))),
     rd_commit = (\<lambda>t _. (Inr (), t)),
     rd_drop = (\<lambda>_ d. d)\<rparr>"

definition mem_views :: "(rows, rows, rows) views" where
  "mem_views = \<lparr>v_db = (\<lambda>d t. map_of (d t)), v_read = (\<lambda>d t. map_of (d t)), v_write = (\<lambda>d t. map_of (d t))\<rparr>"

lemma rows_len_Inr:
  assumes "rows_len kvs = Inr n"
  shows "finite (dom (map_of kvs)) \<and> unat n = card (dom (map_of kvs))"
proof -
  let ?c = "AList.clearjunk kvs"
  have "unat n = length ?c" using assms by (auto simp: rows_len_def Let_def unat_of_nat64 split: if_splits)
  also have "\<dots> = card (fst ` set ?c)" using distinct_card [OF distinct_clearjunk, of kvs] by simp
  also have "fst ` set ?c = dom (map_of kvs)" by (simp add: dom_map_of_conv_image_fst [symmetric] map_of_clearjunk)
  finally show ?thesis by (simp add: finite_dom_map_of)
qed

lemma map_of_filter_key: "map_of (filter (\<lambda>kv. fst kv \<noteq> k) kvs) = (map_of kvs)(k := None)"
  by (induction kvs) (auto simp: fun_eq_iff)

lemma rows_update:
  "(\<lambda>u. map_of ((d(t := (k, v) # d t)) u)) = set_row (\<lambda>u. map_of (d u)) t k (Some v)"
  "(\<lambda>u. map_of ((d(t := filter (\<lambda>kv. fst kv \<noteq> k) (d t))) u)) = set_row (\<lambda>u. map_of (d u)) t k None"
  by (auto simp: set_row_def fun_eq_iff map_of_filter_key)

lemma mem_redb_laws: "redb_laws mem_redb mem_views"
  by (auto simp: redb_laws_def read_laws_def write_laws_def mem_redb_def mem_views_def io_return_def
      rows_update comp_def map_of_clearjunk distinct_clearjunk rows_len_Inr simp del: fun_upd_apply)

section \<open>An encoding\<close>

text \<open>A value is its place_of in a list of known values.\<close>

fun place_of :: "'a list \<Rightarrow> 'a \<Rightarrow> ext_error + string" where
  "place_of [] a = Inl ''unknown''"
| "place_of (x # xs) a = (if a = x then Inr [] else and_then (place_of xs a) (\<lambda>p. Inr (CHR ''1'' # p)))"

definition at_place :: "'a list \<Rightarrow> string \<Rightarrow> ext_error + 'a" where
  "at_place xs p = (if length p < length xs then Inr (xs ! length p) else Inl ''unknown'')"

lemma at_place_place_of: "place_of xs a = Inr p \<Longrightarrow> at_place xs p = Inr a"
  by (induction xs arbitrary: p) (auto simp: at_place_def result_iffs split: if_splits)

definition known_rkyv :: "narinfo list \<Rightarrow> entry list \<Rightarrow> rkyv" where
  "known_rkyv rs es = \<lparr>
     rk_narinfo_bytes = place_of rs, rk_narinfo_access = (\<lambda>_. Inr ()), rk_narinfo = at_place rs,
     rk_entry_bytes = place_of es, rk_entry_access = (\<lambda>_. Inr ()), rk_entry = at_place es\<rparr>"

lemma known_rkyv_laws: "rkyv_laws (known_rkyv rs es)"
  by (simp add: rkyv_laws_def known_rkyv_def at_place_place_of)

section \<open>A file system\<close>

record memfs =
  mf_names :: "(path \<times> nat) list"
  mf_data :: "nat \<Rightarrow> string"

definition not_found :: io_error where "not_found = IoError Io_NotFound ''no such file''"
definition too_large :: io_error where "too_large = IoError Io_Other ''file too large''"

definition fresh_file :: "memfs \<Rightarrow> nat" where
  "fresh_file f = Suc (foldr max (map snd (mf_names f)) 0)"

definition without :: "path \<Rightarrow> (path \<times> nat) list \<Rightarrow> (path \<times> nat) list" where
  "without p names = filter (\<lambda>n. fst n \<noteq> p) names"

definition children :: "path \<Rightarrow> path list \<Rightarrow> path list" where
  "children p qs = remdups (map (take (Suc (length p))) (filter (\<lambda>q. take (length p) q = p \<and> length p < length q) qs))"

definition mem_fsys :: "(memfs, nat) fsys" where
  "mem_fsys = \<lparr>
     fs_create_dir_all = (\<lambda>_. io_return ()),
     fs_open = (\<lambda>p f. (or_err not_found (map_of (mf_names f) p), f)),
     fs_create = (\<lambda>p f. let i = fresh_file f in
       (Inr i, f\<lparr>mf_names := (p, i) # mf_names f, mf_data := (mf_data f)(i := [])\<rparr>)),
     fs_metadata_len = (\<lambda>h f.
       (if length (mf_data f h) < 2 ^ 64 then Inr (of_nat (length (mf_data f h))) else Inl too_large, f)),
     fs_read_at = (\<lambda>h cap at f. (Inr (take cap (drop (unat at) (mf_data f h))), f)),
     fs_write_all_at = (\<lambda>h bs at f.
       if unat at + length bs < 2 ^ 64
       then (Inr (), f\<lparr>mf_data := (mf_data f)(h := splice (mf_data f h) (unat at) bs)\<rparr>)
       else (Inl too_large, f)),
     fs_sync_all = (\<lambda>_. io_return ()),
     fs_rename = (\<lambda>p q f. case map_of (mf_names f) p of
       None \<Rightarrow> (Inl not_found, f)
     | Some i \<Rightarrow> (Inr (), f\<lparr>mf_names := (q, i) # without p (mf_names f)\<rparr>)),
     fs_remove_file = (\<lambda>p f. case map_of (mf_names f) p of
       None \<Rightarrow> (Inl not_found, f)
     | Some i \<Rightarrow> (Inr (), f\<lparr>mf_names := without p (mf_names f)\<rparr>)),
     fs_read_dir = (\<lambda>p f. (Inr (map Inr (children p (map fst (mf_names f)))), f))\<rparr>"

definition mem_fs_views :: "(memfs, nat) fs_views" where
  "mem_fs_views = \<lparr>fv_names = (\<lambda>f. map_of (mf_names f)), fv_data = mf_data, fv_file = id\<rparr>"

lemma fresh_file_fresh: "map_of (mf_names f) p \<noteq> Some (fresh_file f)"
proof
  assume "map_of (mf_names f) p = Some (fresh_file f)"
  then have "fresh_file f \<in> set (map snd (mf_names f))" by (force dest: map_of_SomeD)
  moreover have "n \<le> foldr max ns 0" if "n \<in> set ns" for n and ns :: "nat list"
    using that by (induction ns) auto
  ultimately show False by (fastforce simp: fresh_file_def)
qed

lemma map_of_without: "map_of (without p names) = (map_of names)(p := None)"
  by (induction names) (auto simp: without_def fun_eq_iff)

lemma children_listing: "listing_of (map_of names) p (map Inr (children p (map fst names)))"
proof -
  have "\<exists>c. take (Suc (length p)) q = p @ [c]" if "take (length p) q = p" "length p < length q" for q
    using that by (metis take_Suc_conv_app_nth)
  moreover have "p @ [c] \<in> set (children p (map fst names))" if "map_of names (p @ c # rest) = Some i" for c rest i
  proof -
    have "p @ c # rest \<in> set (map fst names)" using that by (force dest: map_of_SomeD)
    then show ?thesis unfolding children_def by (auto intro!: image_eqI [of _ _ "p @ c # rest"])
  qed
  ultimately show ?thesis by (fastforce simp: listing_of_def children_def)
qed

lemma mem_fs_laws: "fs_laws mem_fsys mem_fs_views"
  unfolding fs_laws_def
proof
  show "fs_query_laws mem_fsys mem_fs_views"
    by (auto simp: fs_query_laws_def mem_fsys_def mem_fs_views_def io_return_def same_view_def not_found_def
        unat_of_nat64 read_of_def children_listing or_err_def split: option.splits if_splits
        intro: exI [of _ "_ :: nat"])
  show "fs_update_laws mem_fsys mem_fs_views"
    by (auto simp: fs_update_laws_def mem_fsys_def mem_fs_views_def Let_def same_view_def not_found_def too_large_def
        fresh_file_fresh map_of_without split: option.splits if_splits)
qed

section \<open>An encoder and a socket\<close>

definition copy_zstd :: "(string \<times> string) zstd" where
  "copy_zstd = \<lparr>
     zs_new = (\<lambda>_. Inr ([], [])),
     zs_write_all = (\<lambda>bs (gone, out). (Inr (), (gone, out @ bs))),
     zs_out = snd,
     zs_take = (\<lambda>(gone, out). (gone @ out, [])),
     zs_finish = (\<lambda>(gone, out). Inr out)\<rparr>"

definition copy_views :: "(string \<times> string) zstd_views" where
  "copy_views = \<lparr>zv_in = (\<lambda>(gone, out). gone @ out), zv_gone = fst, unzstd = Some\<rparr>"

lemma copy_zstd_laws: "zstd_laws copy_zstd copy_views"
  by (auto simp: zstd_laws_def copy_zstd_def copy_views_def)

definition string_sock :: "(string \<times> string) sock" where
  "string_sock = \<lparr>so_read = (\<lambda>n (i, out). (Inr (take n i), (drop n i, out))),
     so_write_all = (\<lambda>bs (i, out). (Inr (), (i, out @ bs)))\<rparr>"

definition string_views :: "(string \<times> string) sock_views" where
  "string_views = \<lparr>sv_in = fst, sv_out = snd\<rparr>"

lemma string_sock_laws: "sock_laws string_sock string_views"
  by (auto simp: sock_laws_def string_sock_def string_views_def)

end
