(* ===== verification/StoreSpec.thy ===== *)
theory StoreSpec
  imports CoreSpec SampleWorld
begin

text \<open>
  The properties of the index, the artifact store, the upload pipeline and the write side, with
  their witnesses on the instances of \<open>SampleWorld\<close>.
\<close>

section \<open>Sample state\<close>

abbreviation empty_rows :: rows where
  "empty_rows \<equiv> \<lambda>_. []"

definition sample_entry :: entry where
  "sample_entry = \<lparr>en_file_hash = sample_hash, en_file_size = 10, en_nar_size = 20, en_compression = Zstd\<rparr>"

definition sample_rkyv :: "narinfo list \<Rightarrow> rkyv" where
  "sample_rkyv rs = known_rkyv rs [sample_entry]"

lemma sample_entry_ok: "entry_ok sample_entry"
  by (simp add: entry_ok_def sample_entry_def sample_hash_ok)

lemma empty_good: "index_good mem_redb mem_views (sample_rkyv rs) empty_rows"
  unfolding index_good_def
  by (simp add: mem_redb_laws sample_rkyv_def known_rkyv_laws) (simp add: rows_ok_def mem_views_def)

lemma mem_put_nar:
  "index_put_nar mem_redb (sample_rkyv rs) h sample_entry d = (Inr (), d(NAR := (sha_bytes h, []) # d NAR))"
  by (simp add: index_put_nar_def with_write_def open_write_def io_run mem_redb_def sample_rkyv_def known_rkyv_def)

lemma mem_publish:
  "index_publish mem_redb (sample_rkyv (q # rs)) q d = (Inr (), d(NARINFO := (record_key q, []) # d NARINFO))"
  by (simp add: index_publish_def with_write_def open_write_def io_run mem_redb_def sample_rkyv_def known_rkyv_def)

lemma sample_record_simps:
  "ni_store_path sample_record = sample_path ''hello''" "ni_nar_hash sample_record = sample_hash"
  "ni_nar_size sample_record = 20" "ni_file_hash sample_record = sample_hash" "ni_compression sample_record = Zstd"
  by (simp_all add: sample_record_def)

text \<open>One uploaded NAR, and one record published for it.\<close>

definition uploaded_rows :: rows where
  "uploaded_rows = empty_rows(NAR := [(sha_bytes sample_hash, [])])"

definition published_rows :: rows where
  "published_rows = uploaded_rows(NARINFO := [(record_key sample_record, [])])"

lemma uploaded_good: "index_good mem_redb mem_views (sample_rkyv rs) uploaded_rows"
  and uploaded_nars: "nars mem_views (sample_rkyv rs) uploaded_rows sample_hash = Some sample_entry"
proof -
  have "index_put_nar mem_redb (sample_rkyv rs) sample_hash sample_entry empty_rows = (Inr (), uploaded_rows)"
    by (simp add: mem_put_nar uploaded_rows_def)
  from put_nar_good [OF empty_good sample_entry_ok this]
  show "index_good mem_redb mem_views (sample_rkyv rs) uploaded_rows"
    "nars mem_views (sample_rkyv rs) uploaded_rows sample_hash = Some sample_entry" by auto
qed

lemma published_good: "index_good mem_redb mem_views (sample_rkyv (sample_record # rs)) published_rows"
  and published_infos: "infos mem_views (sample_rkyv (sample_record # rs)) published_rows =
    (infos mem_views (sample_rkyv (sample_record # rs)) uploaded_rows)(sp_hash (sample_path ''hello'') \<mapsto> sample_record)"
proof -
  let ?K = "sample_rkyv (sample_record # rs)"
  have "index_publish mem_redb ?K sample_record uploaded_rows = (Inr (), published_rows)"
    by (simp add: mem_publish published_rows_def uploaded_rows_def)
  from publish_good [OF uploaded_good sample_record_ok this]
  show "index_good mem_redb mem_views ?K published_rows"
    "infos mem_views ?K published_rows =
      (infos mem_views ?K uploaded_rows)(sp_hash (sample_path ''hello'') \<mapsto> sample_record)"
    by (auto simp: sample_record_def)
qed

section \<open>The index\<close>

text \<open>
  C15. The index is two typed maps: lookups read them, recording an entry or publishing a record
  installs exactly that key, and a write that fails leaves either the old map or, when only the
  commit's answer was lost, the new one; the other table is never touched.
\<close>

theorem index_refines_maps:
  assumes "index_good D V K d" "entry_ok e" "core_ok q"
  shows "(\<forall>x. index_nar D K h d = Inr x \<longrightarrow> x = nars V K d h) \<and>
    (\<forall>x. index_narinfo D K g d = Inr x \<longrightarrow> x = infos V K d g) \<and>
    (\<forall>r d'. index_put_nar D K h e d = (r, d') \<longrightarrow>
       index_good D V K d' \<and> infos V K d' = infos V K d \<and>
       (nars V K d' = (nars V K d)(h \<mapsto> e) \<or> isl r \<and> nars V K d' = nars V K d)) \<and>
    (\<forall>r d'. index_publish D K q d = (r, d') \<longrightarrow>
       index_good D V K d' \<and> nars V K d' = nars V K d \<and>
       (infos V K d' = (infos V K d)(sp_hash (ni_store_path q) \<mapsto> q) \<or> isl r \<and> infos V K d' = infos V K d))"
  using assms index_nar_Inr [OF assms(1)] index_narinfo_Inr [OF assms(1)]
    put_nar_good [OF assms(1,2)] publish_good [OF assms(1,3)] by blast

theorem index_refines_maps_witness:
  "index_narinfo mem_redb (sample_rkyv [sample_record]) (sp_hash (sample_path ''hello'')) published_rows =
     Inr (Some sample_record)"
proof -
  let ?K = "sample_rkyv [sample_record]" and ?g = "sp_hash (sample_path ''hello'')"
  obtain x where x: "index_narinfo mem_redb ?K ?g published_rows = Inr x"
    by (simp add: index_narinfo_def read_table_def mem_redb_def published_rows_def record_key_def sample_record_def
        sample_rkyv_def known_rkyv_def decode_narinfo_def at_place_def)
  then have "x = infos mem_views ?K published_rows ?g"
    using index_refines_maps [OF published_good sample_entry_ok sample_record_ok, where g = ?g] by blast
  with x show ?thesis by (simp add: published_infos)
qed

text \<open>
  C26. Deleting a path forgets its record and also the entry of its NAR. A second path with the
  same contents keeps its record, but its NAR is no longer known: a later publish for that NAR
  is refused as never uploaded, although the artifact is still there.
\<close>

theorem delete_forgets_shared_nar:
  assumes "index_good (e_redb E) V (e_rkyv E) d"
    and "maintain_delete (e_redb E) (e_rkyv E) h d = (Inr D_Removed, d')"
  shows "\<exists>q. infos V (e_rkyv E) d h = Some q \<and>
    infos V (e_rkyv E) d' = (infos V (e_rkyv E) d)(h := None) \<and>
    nars V (e_rkyv E) d' = (nars V (e_rkyv E) d)(ni_nar_hash q := None) \<and>
    (\<forall>body p. NarinfoParse.parse (e_ext E) body (ig_dir ig) = Inr p \<longrightarrow> ni_nar_hash p = ni_nar_hash q \<longrightarrow>
       (\<exists>err. ingest_publish E ig body d' = (Inl err, d') \<and>
          (err = IG_UnknownNar (ni_nar_hash q) \<or> (\<exists>e. err = IG_Index e))))"
proof -
  note del = maintain_delete_effect [OF assms]
  then obtain q where q: "infos V (e_rkyv E) d h = Some q"
    "infos V (e_rkyv E) d' = (infos V (e_rkyv E) d)(h := None)"
    "nars V (e_rkyv E) d' = (nars V (e_rkyv E) d)(ni_nar_hash q := None)" by auto
  have "\<exists>err. ingest_publish E ig body d' = (Inl err, d') \<and>
      (err = IG_UnknownNar (ni_nar_hash q) \<or> (\<exists>e. err = IG_Index e))"
    if p: "NarinfoParse.parse (e_ext E) body (ig_dir ig) = Inr p" "ni_nar_hash p = ni_nar_hash q" for body p
  proof (cases "index_nar (e_redb E) (e_rkyv E) (ni_nar_hash p) d'")
    case (Inl e)
    then show ?thesis using p by (simp add: ingest_publish_def io_run)
  next
    case (Inr x)
    from index_nar_Inr [OF conjunct1 [OF del] Inr] have "x = None" using q(3) p(2) by simp
    then show ?thesis using p Inr by (simp add: ingest_publish_def io_run)
  qed
  with q show ?thesis by blast
qed

lemma mem_delete:
  "maintain_delete mem_redb (sample_rkyv [sample_record]) (sp_hash (sample_path ''hello'')) published_rows =
     (Inr D_Removed, empty_rows)"
  by (simp add: maintain_delete_def index_unpublish_def with_write_def open_write_def io_run mem_redb_def
      published_rows_def uploaded_rows_def record_key_def sample_record_def sample_rkyv_def known_rkyv_def
      decode_narinfo_def at_place_def fun_eq_iff)

definition sample_env :: "narinfo list \<Rightarrow> (string, string \<times> string, memfs, nat, rows, rows, rows) env" where
  "sample_env rs = \<lparr>e_ext = sample, e_zstd = copy_zstd, e_fs = mem_fsys, e_redb = mem_redb, e_rkyv = sample_rkyv rs\<rparr>"

definition sample_ingest :: ingest where
  "sample_ingest = \<lparr>ig_key = sample_key, ig_dir = Dir ''/nix/store'', ig_level = Level 3\<rparr>"

theorem delete_forgets_shared_nar_witness:
  "nars mem_views (sample_rkyv [sample_record]) empty_rows sample_hash = None"
proof -
  let ?E = "sample_env [sample_record]"
  have "index_good (e_redb ?E) mem_views (e_rkyv ?E) published_rows"
    "maintain_delete (e_redb ?E) (e_rkyv ?E) (sp_hash (sample_path ''hello'')) published_rows = (Inr D_Removed, empty_rows)"
    by (simp_all add: sample_env_def published_good mem_delete)
  from delete_forgets_shared_nar [OF this, of sample_ingest] obtain q where
    "infos mem_views (sample_rkyv [sample_record]) published_rows (sp_hash (sample_path ''hello'')) = Some q"
    "nars mem_views (sample_rkyv [sample_record]) empty_rows =
       (nars mem_views (sample_rkyv [sample_record]) published_rows)(ni_nar_hash q := None)"
    by (auto simp: sample_env_def)
  then show ?thesis by (auto simp: published_infos sample_record_simps)
qed

section \<open>Publishing\<close>

lemma published_fields:
  fixes X :: "'e ext" and dr k q e
  defines "p \<equiv> resign X dr k (publish_record q e)"
  shows "ni_store_path p = ni_store_path q" "ni_nar p = entry_url e" "ni_file_size p = en_file_size e"
    "ni_nar_hash p = ni_nar_hash q" "ni_nar_size p = ni_nar_size q" "ni_references p = ni_references q"
    "ni_sigs p = [sign X k (fingerprint p dr)]"
  unfolding p_def
  by (simp_all add: resign_def publish_record_def fingerprint_def ni_nar_def entry_url_def)

lemma ingest_publish_stores:
  assumes "NarinfoParse.parse (e_ext E) body (ig_dir ig) = Inr q"
    and "index_nar (e_redb E) (e_rkyv E) (ni_nar_hash q) d = Inr (Some e)" "en_nar_size e = ni_nar_size q"
    and "p = resign (e_ext E) (ig_dir ig) (ig_key ig) (publish_record q e)"
    and "index_publish (e_redb E) (e_rkyv E) p d = (Inr (), d')"
  shows "ingest_publish E ig body d = (Inr p, d')"
  using assms by (simp add: ingest_publish_def io_run Let_def)

text \<open>
  C6. A publish stores one record or none. It is stored only for a NAR that was received, with the
  size that was received; everything that describes the payload comes from the entry, the only
  signature is the server's own, over the fingerprint of the stored record, and no other path and
  no entry changes.
\<close>

theorem publish_records_server_facts:
  assumes "index_good (e_redb E) V (e_rkyv E) d" "ingest_publish E ig body d = (r, d')"
  shows "index_good (e_redb E) V (e_rkyv E) d' \<and> nars V (e_rkyv E) d' = nars V (e_rkyv E) d \<and>
    (infos V (e_rkyv E) d' = infos V (e_rkyv E) d \<and> isl r \<or>
     (\<exists>q e p. NarinfoParse.parse (e_ext E) body (ig_dir ig) = Inr q \<and>
        nars V (e_rkyv E) d (ni_nar_hash q) = Some e \<and> en_nar_size e = ni_nar_size q \<and>
        (r = Inr p \<or> isl r) \<and> infos V (e_rkyv E) d' = (infos V (e_rkyv E) d)(sp_hash (ni_store_path q) \<mapsto> p) \<and>
        ni_store_path p = ni_store_path q \<and> ni_nar p = entry_url e \<and> ni_file_size p = en_file_size e \<and>
        ni_nar_hash p = ni_nar_hash q \<and> ni_nar_size p = en_nar_size e \<and> ni_references p = ni_references q \<and>
        ni_sigs p = [sign (e_ext E) (ig_key ig) (fingerprint p (ig_dir ig))]))"
proof -
  from ingest_publish_effect [OF assms] consider
      (kept) "index_good (e_redb E) V (e_rkyv E) d' \<and> nars V (e_rkyv E) d' = nars V (e_rkyv E) d \<and>
        infos V (e_rkyv E) d' = infos V (e_rkyv E) d \<and> isl r"
    | (stored) q e where "index_good (e_redb E) V (e_rkyv E) d' \<and> nars V (e_rkyv E) d' = nars V (e_rkyv E) d"
        "NarinfoParse.parse (e_ext E) body (ig_dir ig) = Inr q \<and> nars V (e_rkyv E) d (ni_nar_hash q) = Some e \<and>
         en_nar_size e = ni_nar_size q"
        "(r = Inr (resign (e_ext E) (ig_dir ig) (ig_key ig) (publish_record q e)) \<or> isl r) \<and>
         infos V (e_rkyv E) d' = (infos V (e_rkyv E) d)
           (sp_hash (ni_store_path q) \<mapsto> resign (e_ext E) (ig_dir ig) (ig_key ig) (publish_record q e))"
    unfolding Let_def by blast
  then show ?thesis
  proof cases
    case stored
    with published_fields [of "e_ext E" "ig_dir ig" "ig_key ig" q e] show ?thesis by metis
  qed blast
qed

definition sample_published :: narinfo where
  "sample_published = resign sample (Dir ''/nix/store'') sample_key (publish_record sample_record sample_entry)"

abbreviation sample_body :: string where
  "sample_body \<equiv> Narinfo.render sample (Dir ''/nix/store'') sample_record"

lemma parse_sample_body: "NarinfoParse.parse sample sample_body (Dir ''/nix/store'') = Inr sample_record"
  by (rule parse_render [OF sample_b64_laws])
    (simp_all add: narinfo_ok_def sample_record_ok, simp_all add: sample_record_def)

lemma mem_ingest_publish:
  "ingest_publish (sample_env [sample_published]) sample_ingest sample_body uploaded_rows =
     (Inr sample_published, uploaded_rows(NARINFO := [(record_key sample_published, [])]))"
proof -
  have nar: "index_nar mem_redb (sample_rkyv [sample_published]) sample_hash uploaded_rows = Inr (Some sample_entry)"
    by (simp add: index_nar_def read_table_def mem_redb_def uploaded_rows_def sample_rkyv_def known_rkyv_def
        decode_nar_def at_place_def)
  have size: "en_nar_size sample_entry = 20" by (simp add: sample_entry_def)
  have put: "index_publish mem_redb (sample_rkyv [sample_published]) sample_published uploaded_rows =
      (Inr (), uploaded_rows(NARINFO := [(record_key sample_published, [])]))"
    by (simp add: mem_publish uploaded_rows_def)
  show ?thesis
    by (rule ingest_publish_stores [where q = sample_record and e = sample_entry],
        simp_all only: sample_env_def sample_ingest_def env.simps ingest.simps parse_sample_body
          sample_record_simps nar size put)
      (simp only: sample_published_def)
qed

theorem publish_records_server_facts_witness:
  "infos mem_views (sample_rkyv [sample_published]) (snd (ingest_publish (sample_env [sample_published]) sample_ingest
     sample_body uploaded_rows)) (sp_hash (sample_path ''hello'')) \<noteq> None"
proof -
  let ?E = "sample_env [sample_published]"
  have "index_good (e_redb ?E) mem_views (e_rkyv ?E) uploaded_rows"
    by (simp add: sample_env_def uploaded_good)
  from publish_records_server_facts [OF this mem_ingest_publish]
  have "\<exists>q p. NarinfoParse.parse sample sample_body (Dir ''/nix/store'') = Inr q \<and>
      infos mem_views (sample_rkyv [sample_published]) (uploaded_rows(NARINFO := [(record_key sample_published, [])])) =
        (infos mem_views (sample_rkyv [sample_published]) uploaded_rows)(sp_hash (ni_store_path q) \<mapsto> p)"
    by (simp add: sample_env_def sample_ingest_def) blast
  then show ?thesis using mem_ingest_publish by (auto simp: parse_sample_body sample_record_simps)
qed

end
