(* ===== verification/UploadSpec.thy ===== *)
theory UploadSpec
  imports StoreSpec
begin

text \<open>
  The properties of the upload pipeline, the artifact store and the maintenance commands, with
  their witnesses on the instances of \<open>SampleWorld\<close>.
\<close>

section \<open>Uploads\<close>

lemma finished_verdict:
  assumes "finished X Y V root f c bs artifact" "length bs < 2 ^ 64"
  shows "fst (upload_verify F c f) =
    (if digest X bs \<noteq> up_expected c then Inl (UE_HashMismatch (up_expected c) (digest X bs))
     else if bs = [] then Inl UE_Empty
     else Inr \<lparr>up_staged = up_staged c, up_expected = up_expected c,
       up_state = \<lparr>vf_nar_hash = digest X bs, vf_nar_size = u64_from_usize (length bs),
         vf_file_hash = digest X artifact, vf_file_size = u64_from_usize (length artifact)\<rparr>\<rparr>)"
proof -
  have c: "cm_nar_hash (up_state c) = digest X bs" "cm_file_hash (up_state c) = digest X artifact"
      "unat (cm_file_size (up_state c)) = length artifact" "unat (cm_nar_size (up_state c)) = length bs"
    using assms by (simp_all add: finished_def Let_def)
  have "cm_nar_size (up_state c) = u64_from_usize (length bs)"
    using c(4) assms(2) by (simp add: word_unat_eq_iff unat_u64_from_usize)
  moreover have "cm_file_size (up_state c) = u64_from_usize (length artifact)"
    using c(3) unat_less64 [of "cm_file_size (up_state c)"] by (simp add: word_unat_eq_iff unat_u64_from_usize)
  moreover have "cm_nar_size (up_state c) = 0 \<longleftrightarrow> bs = []" using c(4) by (auto simp: unat_eq_zero)
  ultimately show ?thesis using c by (simp add: upload_verify_def Let_def)
qed

text \<open>
  C12. However a body is cut into chunks, the pipeline computes what one pass over the whole body
  would: the digest and the length of the body, and of a stored file that decompresses to it. The
  verdict depends on the body alone, and nothing is visible under an artifact name before it.
\<close>

theorem upload_matches_whole_body:
  assumes "sha_laws X" "zstd_laws Z Y" "fs_good F V f" "holds V root f s []"
    and "upload_new X Z F s expected lvl f = (Inr u, f0)"
    and "upload_chunks X Z F cs (u, f0) = (Inr (), (v, f1))"
    and "upload_finish X Z F v f1 = (Inr c, f2)"
    and "length (concat cs) < 2 ^ 64"
  shows "\<exists>a. holds V root f2 (up_staged c) a \<and> unzstd Y a = Some (concat cs) \<and>
    artifacts V root f2 = artifacts V root f \<and>
    fst (upload_verify F c f2) =
      (if digest X (concat cs) \<noteq> expected then Inl (UE_HashMismatch expected (digest X (concat cs)))
       else if concat cs = [] then Inl UE_Empty
       else Inr \<lparr>up_staged = up_staged c, up_expected = expected,
         up_state = \<lparr>vf_nar_hash = digest X (concat cs), vf_nar_size = u64_from_usize (length (concat cs)),
           vf_file_hash = digest X a, vf_file_size = u64_from_usize (length a)\<rparr>\<rparr>)"
proof -
  have u: "f0 = f" "up_expected u = expected" "receives X Y V root f u []"
    using upload_new_receives [OF assms(1,2,4,5)] by auto
  note k1 = upload_chunks_keeps [OF assms(3) receives_live [OF u(3)] assms(6) [unfolded u(1)]]
  have v: "receives X Y V root f1 v (concat cs)"
    using upload_chunks_receives [OF assms(1-3) u(3) assms(6) [unfolded u(1)]] by simp
  have g1: "fs_good F V f1" "artifacts V root f1 = artifacts V root f" "up_expected v = expected"
    using k1 u(2) by simp_all
  note k2 = upload_finish_keeps [OF g1(1) receives_live [OF v] assms(7)]
  from upload_finish_finished [OF assms(1,2) g1(1) v assms(7)] obtain a where
    a: "finished X Y V root f2 c (concat cs) a" by blast
  have "up_expected c = expected" using k2 g1(3) by simp
  with finished_verdict [OF a assms(8), of F] a k2 g1(2) show ?thesis
    by (intro exI [of _ a]) (simp add: finished_def Let_def)
qed

definition no_files :: memfs where
  "no_files = \<lparr>mf_names = [], mf_data = (\<lambda>_. [])\<rparr>"

definition staged_files :: "string \<Rightarrow> memfs" where
  "staged_files bs = \<lparr>mf_names = [([''d'', STAGING, ''1-0.nar''], 1)], mf_data = (\<lambda>_. [])(1 := bs)\<rparr>"

definition sample_staged :: "u64 \<Rightarrow> nat staged" where
  "sample_staged n = \<lparr>sg_file = 1, sg_path = [''d'', STAGING, ''1-0.nar''], sg_offset = n, sg_committed = False\<rparr>"

lemma staged_files_good: "fs_good mem_fsys mem_fs_views (staged_files bs)"
  unfolding fs_good_def
  by (simp add: mem_fs_laws) (auto simp: no_links_def staged_files_def mem_fs_views_def split: if_splits)

lemma staged_files_hold: "length bs < 2 ^ 64 \<Longrightarrow>
  holds mem_fs_views [''d''] (staged_files bs) (sample_staged (of_nat (length bs))) bs"
  by (simp add: holds_def in_flight_def staging_path_def staged_files_def sample_staged_def mem_fs_views_def
      unat_of_nat64)

theorem upload_matches_whole_body_witness:
  "\<exists>u v c f1 f2. upload_new sample copy_zstd mem_fsys (sample_staged 0) (digest sample ''nar'') (Level 3) (staged_files []) =
       (Inr u, staged_files []) \<and>
     upload_chunks sample copy_zstd mem_fsys [''n'', ''ar''] (u, staged_files []) = (Inr (), (v, f1)) \<and>
     upload_finish sample copy_zstd mem_fsys v f1 = (Inr c, f2) \<and>
     \<not> isl (fst (upload_verify mem_fsys c f2))"
proof -
  obtain u where u: "upload_new sample copy_zstd mem_fsys (sample_staged 0) (digest sample ''nar'') (Level 3)
      (staged_files []) = (Inr u, staged_files [])"
    by (simp add: upload_new_def copy_zstd_def)
  obtain v f1 where v: "upload_chunks sample copy_zstd mem_fsys [''n'', ''ar''] (u, staged_files []) = (Inr (), (v, f1))"
    using u by (auto simp: upload_new_def upload_chunks_def upload_write_def upload_drain_def copy_zstd_def io_run
        DRAIN_THRESHOLD_def Let_def)
  obtain c f2 where c: "upload_finish sample copy_zstd mem_fsys v f1 = (Inr c, f2)"
    using u v by (auto simp: upload_new_def upload_chunks_def upload_write_def upload_drain_def upload_finish_def
        copy_zstd_def io_run DRAIN_THRESHOLD_def Let_def staged_write_def mem_fsys_def sample_staged_def unat_u64_from_usize)
  have "\<not> isl (fst (upload_verify mem_fsys c f2))"
    using upload_matches_whole_body [OF sample_sha_laws copy_zstd_laws staged_files_good
        staged_files_hold [of "[]", simplified] u v c] by auto
  with u v c show ?thesis by blast
qed

section \<open>The artifact store\<close>

text \<open>The parts of the refinement, one per kind of operation.\<close>

definition unchanged :: "('f, 'h) fsys \<Rightarrow> ('f, 'h) fs_views \<Rightarrow> path \<Rightarrow> 'f \<Rightarrow> 'f \<Rightarrow> bool" where
  "unchanged F V root f f' \<longleftrightarrow> fs_good F V f' \<and> artifacts V root f' = artifacts V root f"

lemma unchanged_view: "fs_good F V f \<Longrightarrow> same_view V f f' \<Longrightarrow> unchanged F V root f f'"
  by (simp add: unchanged_def same_view_good same_view_artifacts)

lemma open_unchanged:
  assumes "fs_good F V f" "store_open F p pid f = (r, f')"
  shows "unchanged F V root f f'"
proof -
  have laws: "fs_laws F V" using assms(1) by (simp add: fs_good_def)
  have each: "same_view V g g'" if "io_each (\<lambda>q. io_ctx (ST_CreateDir q) (fs_create_dir_all F q)) qs g = (r', g')" for qs g g' r'
    using that
  proof (induction qs arbitrary: g)
    case (Cons q qs)
    then show ?case
      by (auto elim!: io_thenE io_ctxE dest!: query_view(1) [OF laws] intro: same_view_trans)
  qed simp
  have "same_view V f f'"
    using assms(2) each by (auto simp: store_open_def simp del: io_each.simps elim!: io_thenE)
  then show ?thesis by (rule unchanged_view [OF assms(1)])
qed

lemma read_unchanged:
  assumes "fs_good F V f" "store_read F root u f = (r, f')"
  shows "unchanged F V root f f'"
proof -
  have laws: "fs_laws F V" using assms(1) by (simp add: fs_good_def)
  have "same_view V f f'"
    using assms(2) by (auto simp: store_read_def Let_def split: prod.splits if_splits elim!: io_thenE io_ctxE
      dest: query_view(2) [OF laws] intro: same_view_trans [OF query_view(2) [OF laws] query_view(3) [OF laws]])
  then show ?thesis by (rule unchanged_view [OF assms(1)])
qed

lemma read_at_part:
  assumes "fs_good F V f" "reader_read_at F x cap at f = (r, f')"
  shows "unchanged F V root f f' \<and> fv_data V f' = fv_data V f \<and>
    (\<forall>s. r = Inr s \<longrightarrow> read_of (fv_data V f (fv_file V (rr_file x))) (unat at) cap s)"
proof -
  obtain q where q: "fs_read_at F (rr_file x) cap at f = (q, f')" "r = ctx (ST_Read (rr_path x)) q"
    using assms(2) by (auto simp: reader_read_at_def elim!: io_ctxE)
  have laws: "fs_laws F V" using assms(1) by (simp add: fs_good_def)
  have same: "same_view V f f'" by (rule query_view(4) [OF laws q(1)])
  have part: "read_of (fv_data V f (fv_file V (rr_file x))) (unat at) cap s" if "q = Inr s" for s
    using laws q(1) that by (simp add: fs_laws_def fs_query_laws_def)
  show ?thesis using unchanged_view [OF assms(1) same] same part q(2) by (cases q) (auto simp: same_view_def)
qed

lemma abort_unchanged:
  assumes "fs_good F V f" "in_flight V root f s" "staged_abort F s f = (r, f')"
  shows "unchanged F V root f f' \<and> (r = Inr () \<longrightarrow> fv_names V f' (sg_path s) = None)"
proof -
  have laws: "fs_laws F V" using assms(1) by (simp add: fs_good_def)
  obtain q f1 where q: "fs_remove_file F (sg_path s) f = (q, f1)" by fastforce
  then have f': "f' = f1" "r = (if absent q then Inr () else ctx (ST_Remove (sg_path s)) q)"
    using assms(3) by (auto simp: staged_abort_def Let_def staged_drop_def split: if_splits)
  have "fv_names V f1 (sg_path s) = None" if "r = Inr ()"
  proof (cases q)
    case (Inl e)
    then have "absent q" using f'(2) that by (auto split: if_splits)
    then show ?thesis using remove_law(2) [OF laws q [unfolded Inl]] Inl by (auto simp: same_view_def)
  next
    case (Inr a)
    then show ?thesis using remove_law(1) [OF laws] q by simp
  qed
  then show ?thesis using staged_abort_effect [OF assms] f' by (simp add: unchanged_def)
qed

text \<open>
  C14. The store is a map from artifact names to bytes, under every operation and every failure of
  one. Opening an artifact looks its name up and gives a handle on its bytes, reading through it
  gives a part of them; removing forgets the name; committing adds exactly the bytes that were
  written. Everything else, and whatever fails, leaves the map alone: opening the store, staging,
  writing, aborting, dropping, scanning and sweeping. A scan misses nothing, a sweep leaves no
  staging file, and an abort that succeeds leaves none of its own.
\<close>

theorem store_refines_blobs:
  assumes "fs_good F V f" "narurl_ok u"
  shows "(\<forall>pid r f'. store_open F root pid f = (r, f') \<longrightarrow> unchanged F V root f f') \<and>
    (\<forall>r f'. store_read F root u f = (r, f') \<longrightarrow> unchanged F V root f f' \<and>
      (\<forall>rd. r = Inr rd \<longrightarrow> (case rd of None \<Rightarrow> artifacts V root f u = None
       | Some x \<Rightarrow> \<exists>bs. artifacts V root f u = Some bs \<and> unat (rr_size x) = length bs \<and>
           fv_data V f' (fv_file V (rr_file x)) = bs))) \<and>
    (\<forall>x cap at r f'. reader_read_at F x cap at f = (r, f') \<longrightarrow> unchanged F V root f f' \<and>
      fv_data V f' = fv_data V f \<and>
      (\<forall>s. r = Inr s \<longrightarrow> read_of (fv_data V f (fv_file V (rr_file x))) (unat at) cap s)) \<and>
    (\<forall>r f'. store_remove F root u f = (r, f') \<longrightarrow> fs_good F V f' \<and>
      (case r of
         Inl _ \<Rightarrow> artifacts V root f' = artifacts V root f
       | Inr Deleted \<Rightarrow> artifacts V root f' = (artifacts V root f)(u := None)
       | Inr Absent \<Rightarrow> artifacts V root f u = None \<and> artifacts V root f' = artifacts V root f)) \<and>
    (\<forall>st r st' f'. st_root st = root \<longrightarrow> stage F (st, f) = (r, (st', f')) \<longrightarrow>
      unchanged F V root f f' \<and> (\<forall>s. r = Inr s \<longrightarrow> holds V root f' s [])) \<and>
    (\<forall>s bs new r f'. holds V root f s bs \<longrightarrow> staged_write F new s f = (r, f') \<longrightarrow>
      unchanged F V root f f' \<and> in_flight V root f' s \<and> (\<forall>s'. r = Inr s' \<longrightarrow> holds V root f' s' (bs @ new))) \<and>
    (\<forall>s bs r f'. holds V root f s bs \<longrightarrow> staged_commit F root s u f = (r, f') \<longrightarrow> fs_good F V f' \<and>
      (case r of Inl _ \<Rightarrow> artifacts V root f' = artifacts V root f
       | Inr n \<Rightarrow> unat n = length bs \<and> artifacts V root f' = (artifacts V root f)(u \<mapsto> bs))) \<and>
    (\<forall>s r f'. in_flight V root f s \<longrightarrow> staged_abort F s f = (r, f') \<longrightarrow> unchanged F V root f f' \<and>
      (r = Inr () \<longrightarrow> fv_names V f' (sg_path s) = None)) \<and>
    (\<forall>s. in_flight V root f s \<or> sg_committed s \<longrightarrow> unchanged F V root f (staged_drop F s f)) \<and>
    (\<forall>r f'. store_scan X F root f = (r, f') \<longrightarrow> unchanged F V root f f' \<and>
      (\<forall>sc. r = Inr sc \<longrightarrow> dom (artifacts V root f) \<subseteq> set (sc_artifacts sc))) \<and>
    (\<forall>r f'. sweep_staging F root f = (r, f') \<longrightarrow> unchanged F V root f f' \<and>
      (\<forall>n. r = Inr n \<longrightarrow> (\<forall>p. staging_path root p \<longrightarrow> fv_names V f' p = None)))"
proof (intro conjI)
  have laws: "fs_laws F V" using assms(1) by (simp add: fs_good_def)
  show "\<forall>pid r f'. store_open F root pid f = (r, f') \<longrightarrow> unchanged F V root f f'"
    using open_unchanged [OF assms(1)] by blast
  have reading: "case rd of None \<Rightarrow> artifacts V root f u = None
       | Some x \<Rightarrow> \<exists>bs. artifacts V root f u = Some bs \<and> unat (rr_size x) = length bs \<and>
           fv_data V f' (fv_file V (rr_file x)) = bs"
    if "store_read F root u f = (Inr rd, f')" for rd f'
    using store_read_Inr [OF laws that assms(2)] by (auto simp: same_view_def split: option.splits)
  then show "\<forall>r f'. store_read F root u f = (r, f') \<longrightarrow> unchanged F V root f f' \<and>
      (\<forall>rd. r = Inr rd \<longrightarrow> (case rd of None \<Rightarrow> artifacts V root f u = None
       | Some x \<Rightarrow> \<exists>bs. artifacts V root f u = Some bs \<and> unat (rr_size x) = length bs \<and>
           fv_data V f' (fv_file V (rr_file x)) = bs))"
    using read_unchanged [OF assms(1)] by blast
  show "\<forall>x cap at r f'. reader_read_at F x cap at f = (r, f') \<longrightarrow> unchanged F V root f f' \<and>
      fv_data V f' = fv_data V f \<and>
      (\<forall>s. r = Inr s \<longrightarrow> read_of (fv_data V f (fv_file V (rr_file x))) (unat at) cap s)"
    using read_at_part [OF assms(1)] by blast
  show "\<forall>r f'. store_remove F root u f = (r, f') \<longrightarrow> fs_good F V f' \<and>
      (case r of
         Inl _ \<Rightarrow> artifacts V root f' = artifacts V root f
       | Inr Deleted \<Rightarrow> artifacts V root f' = (artifacts V root f)(u := None)
       | Inr Absent \<Rightarrow> artifacts V root f u = None \<and> artifacts V root f' = artifacts V root f)"
    using store_remove_effect [OF assms] by blast
  show "\<forall>st r st' f'. st_root st = root \<longrightarrow> stage F (st, f) = (r, (st', f')) \<longrightarrow>
      unchanged F V root f f' \<and> (\<forall>s. r = Inr s \<longrightarrow> holds V root f' s [])"
    unfolding unchanged_def using stage_effect [OF assms(1)] by blast
  show "\<forall>s bs new r f'. holds V root f s bs \<longrightarrow> staged_write F new s f = (r, f') \<longrightarrow>
      unchanged F V root f f' \<and> in_flight V root f' s \<and> (\<forall>s'. r = Inr s' \<longrightarrow> holds V root f' s' (bs @ new))"
  proof (intro allI impI)
    fix s bs new r f' assume h: "holds V root f s bs" and run: "staged_write F new s f = (r, f')"
    then have "in_flight V root f s" by (simp add: holds_def)
    from staged_write_effect [OF assms(1) this run] h
    show "unchanged F V root f f' \<and> in_flight V root f' s \<and> (\<forall>s'. r = Inr s' \<longrightarrow> holds V root f' s' (bs @ new))"
      unfolding unchanged_def by blast
  qed
  show "\<forall>s bs r f'. holds V root f s bs \<longrightarrow> staged_commit F root s u f = (r, f') \<longrightarrow> fs_good F V f' \<and>
      (case r of Inl _ \<Rightarrow> artifacts V root f' = artifacts V root f
       | Inr n \<Rightarrow> unat n = length bs \<and> artifacts V root f' = (artifacts V root f)(u \<mapsto> bs))"
    using staged_commit_effect [OF assms(1) _ assms(2)] by blast
  show "\<forall>s r f'. in_flight V root f s \<longrightarrow> staged_abort F s f = (r, f') \<longrightarrow> unchanged F V root f f' \<and>
      (r = Inr () \<longrightarrow> fv_names V f' (sg_path s) = None)"
    using abort_unchanged [OF assms(1)] by blast
  show "\<forall>s. in_flight V root f s \<or> sg_committed s \<longrightarrow> unchanged F V root f (staged_drop F s f)"
    unfolding unchanged_def using staged_drop_effect [OF assms(1)] by blast
  show "\<forall>r f'. store_scan X F root f = (r, f') \<longrightarrow> unchanged F V root f f' \<and>
      (\<forall>sc. r = Inr sc \<longrightarrow> dom (artifacts V root f) \<subseteq> set (sc_artifacts sc))"
    using unchanged_view [OF assms(1) store_scan_view [OF laws]] store_scan_complete [OF laws] by blast
  show "\<forall>r f'. sweep_staging F root f = (r, f') \<longrightarrow> unchanged F V root f f' \<and>
      (\<forall>n. r = Inr n \<longrightarrow> (\<forall>p. staging_path root p \<longrightarrow> fv_names V f' p = None))"
    unfolding unchanged_def using sweep_staging_effect [OF assms(1)] by simp
qed

definition sample_artifact :: narurl where
  "sample_artifact = \<lparr>file_hash = sample_hash, compression = Zstd\<rparr>"

lemma sample_artifact_ok: "narurl_ok sample_artifact"
  by (simp add: narurl_ok_def sample_artifact_def sample_hash_ok)

theorem store_refines_blobs_witness:
  "artifacts mem_fs_views [''d''] (snd (staged_commit mem_fsys [''d''] (sample_staged 3) sample_artifact
     (staged_files ''nar''))) sample_artifact = Some ''nar''"
proof -
  obtain n g where c: "staged_commit mem_fsys [''d''] (sample_staged 3) sample_artifact (staged_files ''nar'') = (Inr n, g)"
    by (simp add: staged_commit_def Let_def io_run mem_fsys_def staged_files_def sample_staged_def)
  from staged_files_hold [of "''nar''"]
  have "holds mem_fs_views [''d''] (staged_files ''nar'') (sample_staged 3) ''nar''" by simp
  with store_refines_blobs [OF staged_files_good sample_artifact_ok, where root = "[''d'']"] c
  have "artifacts mem_fs_views [''d''] g = (artifacts mem_fs_views [''d''] (staged_files ''nar''))(sample_artifact \<mapsto> ''nar'')"
    by fastforce
  then show ?thesis using c by simp
qed

section \<open>Push credentials\<close>

text \<open>
  The credential that a header presents, independently of the code: a scheme in any case, a space,
  and the token itself, or the base64 of a user name without a colon, a colon and the token.
\<close>

definition presents :: "'e ext \<Rightarrow> string \<Rightarrow> string \<Rightarrow> bool" where
  "presents X h p \<longleftrightarrow>
     (\<exists>scheme rest. h = scheme @ CHR '' '' # rest \<and> CHR '' '' \<notin> set scheme \<and>
        (map ascii_lower scheme = ''bearer'' \<and> p = trim rest \<or>
         map ascii_lower scheme = ''basic'' \<and>
           (\<exists>bytes user. b64_decode X (trim rest) = Inr bytes \<and> string_of_bytes bytes = user @ colon # p \<and>
              colon \<notin> set user \<and> \<not> isl (from_utf8 (string_of_bytes bytes)))))"

lemma credential_iff: "credential X h = Some p \<longleftrightarrow> presents X h p"
  (is "?L \<longleftrightarrow> ?R")
proof -
  have lower: "map ascii_lower ''Bearer'' = ''bearer''" "map ascii_lower ''Basic'' = ''basic''" by code_simp+
  have names: "eq_ignore_ascii_case s ''Bearer'' \<longleftrightarrow> map ascii_lower s = ''bearer''"
    "eq_ignore_ascii_case s ''Basic'' \<longleftrightarrow> map ascii_lower s = ''basic''" for s
    by (simp_all only: eq_ignore_ascii_case_def lower)
  have utf8: "from_utf8 s = Inr t \<longleftrightarrow> t = s \<and> \<not> isl (from_utf8 s)" for s t
    by (auto simp: from_utf8_def)
  show ?thesis
  proof
    assume ?L
    then obtain scheme rest where h: "split_once [CHR '' ''] h = Some (scheme, rest)"
      and c: "(if map ascii_lower scheme = ''bearer'' then Some (trim rest)
        else if map ascii_lower scheme = ''basic'' then
          (case b64_decode X (trim rest) of Inl _ \<Rightarrow> None
           | Inr decoded \<Rightarrow> (case from_utf8 (string_of_bytes decoded) of Inl _ \<Rightarrow> None
              | Inr pair \<Rightarrow> map_option snd (split_once [colon] pair)))
        else None) = Some p"
      unfolding credential_def Let_def names by (auto simp: Option.bind_eq_Some_conv)
    have s: "h = scheme @ CHR '' '' # rest" "CHR '' '' \<notin> set scheme" using h by (simp_all add: split_once_char_eq_Some)
    show ?R
    proof (cases "map ascii_lower scheme = ''bearer''")
      case True
      then show ?thesis unfolding presents_def using s c by (intro exI [of _ scheme] exI [of _ rest]) simp
    next
      case False
      then obtain bytes pair user where b: "map ascii_lower scheme = ''basic''" "b64_decode X (trim rest) = Inr bytes"
        "from_utf8 (string_of_bytes bytes) = Inr pair" "split_once [colon] pair = Some (user, p)"
        using c by (auto split: if_splits sum.splits)
      then have "pair = string_of_bytes bytes" "\<not> isl (from_utf8 (string_of_bytes bytes))" using utf8 by auto
      with s b show ?thesis unfolding presents_def
        by (intro exI [of _ scheme] exI [of _ rest]) (auto simp: split_once_char_eq_Some)
    qed
  next
    assume ?R
    then obtain scheme rest where sh: "h = scheme @ CHR '' '' # rest" "CHR '' '' \<notin> set scheme"
      and c: "map ascii_lower scheme = ''bearer'' \<and> p = trim rest \<or>
         map ascii_lower scheme = ''basic'' \<and>
           (\<exists>bytes user. b64_decode X (trim rest) = Inr bytes \<and> string_of_bytes bytes = user @ colon # p \<and>
              colon \<notin> set user \<and> \<not> isl (from_utf8 (string_of_bytes bytes)))"
      unfolding presents_def by (elim exE conjE)
    have s: "split_once [CHR '' ''] h = Some (scheme, rest)" unfolding sh(1) by (rule split_once_char [OF sh(2)])
    from c show ?L
    proof (elim disjE conjE exE)
      assume "map ascii_lower scheme = ''bearer''" "p = trim rest"
      then show ?L by (simp add: credential_def s names)
    next
      fix bytes user assume b: "map ascii_lower scheme = ''basic''" "b64_decode X (trim rest) = Inr bytes"
        "string_of_bytes bytes = user @ colon # p" "colon \<notin> set user" "\<not> isl (from_utf8 (string_of_bytes bytes))"
      then have "split_once [colon] (string_of_bytes bytes) = Some (user, p)"
        "from_utf8 (string_of_bytes bytes) = Inr (string_of_bytes bytes)"
        by (simp_all only: split_once_char utf8 simp_thms)
      then show ?L using b(1,2) by (simp add: credential_def s names)
    qed
  qed
qed

text \<open>
  C27. A request is admitted exactly when it presents a credential whose digest is that of a
  configured token, as a \<open>Bearer\<close> token or as the password of a \<open>Basic\<close> pair; without configured
  tokens nobody is admitted, and a request without a credential never is.
\<close>

theorem admission_needs_token:
  assumes "sha_laws X" "ct_laws X"
  shows "(admission_of X (tokens_new X ts) rq = Admitted \<longleftrightarrow>
      (\<exists>h p t. rq_authorization rq = Some h \<and> presents X h p \<and> t \<in> set ts \<and> digest X t = digest X p)) \<and>
    (t = [] \<or> visible (hd t) \<and> visible (last t) \<longrightarrow> credential X (''Bearer '' @ t) = Some t) \<and>
    (b64_decode X e = Inr (map of_char (user @ colon # t)) \<longrightarrow> from_utf8 (user @ colon # t) = Inr (user @ colon # t) \<longrightarrow>
      colon \<notin> set user \<longrightarrow> e = [] \<or> visible (hd e) \<and> visible (last e) \<longrightarrow>
      credential X (''Basic '' @ e) = Some t)"
proof (intro conjI impI)
  show "admission_of X (tokens_new X ts) rq = Admitted \<longleftrightarrow>
      (\<exists>h p t. rq_authorization rq = Some h \<and> presents X h p \<and> t \<in> set ts \<and> digest X t = digest X p)"
    unfolding credential_iff [symmetric]
    using admits_iff [OF assms] by (auto simp: admission_of_def Option.bind_eq_Some_conv split: option.split)
qed (use credential_bearer credential_basic string_of_bytes_map in blast)+

definition sample_put :: "string \<Rightarrow> u64 \<Rightarrow> request" where
  "sample_put target len = \<lparr>rq_method = Put, rq_target = target, rq_framing = FrameLength len,
     rq_keep_alive = Keep, rq_expectation = ExpectNone, rq_range = None,
     rq_authorization = Some ''Bearer secret''\<rparr>"

theorem admission_needs_token_witness:
  "admission_of sample (tokens_new sample [''secret'']) (sample_put ''/metrics'' 0) =
     Admitted"
proof -
  have lower: "trim ''secret'' = ''secret''" "map ascii_lower ''Bearer'' = ''bearer''" by code_simp+
  have "presents sample ''Bearer secret'' ''secret''"
    unfolding presents_def by (intro exI [of _ "''Bearer''"] exI [of _ "''secret''"]) (simp only: lower, simp)
  then have "\<exists>h p t. rq_authorization (sample_put ''/metrics'' 0) = Some h \<and> presents sample h p \<and>
      t \<in> set [''secret''] \<and> digest sample t = digest sample p"
    by (intro exI [of _ "''Bearer secret''"] exI [of _ "''secret''"]) (simp add: sample_put_def)
  then show ?thesis
    by (rule iffD2 [OF conjunct1 [OF admission_needs_token [OF sample_sha_laws sample_ct_laws]]])
qed

section \<open>Maintenance\<close>

lemma resigned_fields:
  "ni_sigs (resign X dr k q) = [sign X k (fingerprint (resign X dr k q) dr)]"
  by (simp add: resign_def fingerprint_def)

text \<open>
  C24. A rotation changes signatures only. A finished rotation leaves on every record the one
  signature of the new key and reports how many records there are; one that failed half way has
  re-signed some of them and left the others as they were, so it can be run again.
\<close>

theorem rotate_resigns_all:
  assumes good: "index_good (e_redb E) V (e_rkyv E) d"
    and run: "maintain_rotate E dr key d = (r, d')"
  shows "nars V (e_rkyv E) d' = nars V (e_rkyv E) d \<and>
    (\<forall>h. infos V (e_rkyv E) d' h = infos V (e_rkyv E) d h \<or>
       infos V (e_rkyv E) d' h = map_option (resign (e_ext E) dr key) (infos V (e_rkyv E) d h)) \<and>
    (\<forall>n. r = Inr n \<longrightarrow> n = card (dom (infos V (e_rkyv E) d)) \<and>
       (\<forall>h q. infos V (e_rkyv E) d h = Some q \<longrightarrow>
          (\<exists>p. infos V (e_rkyv E) d' h = Some p \<and> p = resign (e_ext E) dr key q \<and>
             ni_sigs p = [sign (e_ext E) key (fingerprint p dr)])))"
proof -
  note eff = maintain_rotate_effect [OF good run]
  have "n = card (dom (infos V (e_rkyv E) d))" if "r = Inr n" for n
  proof -
    from run [unfolded that maintain_rotate_def] obtain rs where
      rs: "index_records (e_redb E) (e_rkyv E) d = Inr rs" "n = length rs"
      by (auto simp: io_run Let_def ctx_def split: sum.splits prod.splits)
    let ?key = "\<lambda>q. sp_hash (ni_store_path q)"
    note ix = index_records_Inr [OF good rs(1)]
    have ok: "rows_ok (e_rkyv E) (v_db V d)" using good by (simp add: index_good_def)
    have "dom (infos V (e_rkyv E) d) = ?key ` ran (infos V (e_rkyv E) d)"
      using infos_of_Some(1) [OF ok] unfolding infos_def dom_def ran_def by (auto simp: image_iff)
    also have "\<dots> = set (map ?key rs)" using ix(1) by simp
    finally show ?thesis using distinct_card [OF ix(2)] rs(2) by simp
  qed
  with eff show ?thesis by (simp add: resigned_fields)
qed

definition sample_rotated :: narinfo where
  "sample_rotated = resign sample (Dir ''/nix/store'') sample_key sample_record"

abbreviation rotated_env :: "(string, string \<times> string, memfs, nat, rows, rows, rows) env" where
  "rotated_env \<equiv> sample_env [sample_record, sample_rotated]"

lemma mem_records:
  "index_records mem_redb (sample_rkyv (sample_record # rs)) published_rows = Inr [sample_record]"
  by (simp add: index_records_def read_table_def mem_redb_def published_rows_def uploaded_rows_def
      decode_narinfo_def sample_rkyv_def known_rkyv_def at_place_def clearjunk.simps)

lemma mem_republish: "\<exists>d'. index_republish mem_redb (sample_rkyv [q, p]) [p] d = (Inr (), d')"
  by (cases "p = q")
    (simp_all add: index_republish_def with_write_def open_write_def io_run mem_redb_def sample_rkyv_def
      known_rkyv_def)

lemma mem_rotate:
  assumes "p = resign (e_ext E) dr key q" "index_records (e_redb E) (e_rkyv E) d = Inr [q]"
    and "index_republish (e_redb E) (e_rkyv E) [p] d = (Inr (), d')"
  shows "maintain_rotate E dr key d = (Inr 1, d')"
proof -
  have "chunks_of BATCH [p] = [[p]]"
    by (subst chunks_of.simps) (simp add: BATCH_def chunks_of.simps [of 1000 "[]"])
  then show ?thesis using assms by (simp add: maintain_rotate_def io_run Let_def)
qed

theorem rotate_resigns_all_witness:
  "\<exists>d'. maintain_rotate rotated_env (Dir ''/nix/store'') sample_key published_rows = (Inr 1, d') \<and>
     infos mem_views (e_rkyv rotated_env) d' (sp_hash (sample_path ''hello'')) = Some sample_rotated"
proof -
  let ?E = rotated_env and ?h = "sp_hash (sample_path ''hello'')"
  obtain d' where "index_republish mem_redb (sample_rkyv [sample_record, sample_rotated]) [sample_rotated]
      published_rows = (Inr (), d')"
    using mem_republish by blast
  then have run: "maintain_rotate ?E (Dir ''/nix/store'') sample_key published_rows = (Inr 1, d')"
    by (intro mem_rotate [where q = sample_record and p = sample_rotated])
      (simp_all only: sample_env_def env.simps mem_records sample_rotated_def)
  have good: "index_good (e_redb ?E) mem_views (e_rkyv ?E) published_rows"
    by (simp add: sample_env_def published_good)
  have "infos mem_views (e_rkyv ?E) published_rows ?h = Some sample_record"
    by (simp add: sample_env_def published_infos)
  with rotate_resigns_all [OF good run]
  have "infos mem_views (e_rkyv ?E) d' ?h = Some (resign (e_ext ?E) (Dir ''/nix/store'') sample_key sample_record)"
    by blast
  with run show ?thesis by (simp only: sample_env_def env.simps sample_rotated_def) blast
qed

text \<open>
  C25. A reconciliation changes no artifact and reports exactly the artifacts that no record points
  at, among them those of uploads whose record has not been published yet, and only records whose
  artifact is gone.
\<close>

theorem reconcile_exact:
  assumes good: "fs_good (e_fs E) V f" "index_good (e_redb E) U (e_rkyv E) d"
    and run: "maintain_reconcile E root d f = (Inr rl, f')"
  shows "artifacts V root f' = artifacts V root f \<and>
    (\<forall>u. artifacts V root f u \<noteq> None \<longrightarrow>
       (u \<in> set (rl_orphan_artifacts rl) \<longleftrightarrow> (\<forall>q \<in> ran (infos U (e_rkyv E) d). ni_nar q \<noteq> u))) \<and>
    (\<forall>h e. nars U (e_rkyv E) d h = Some e \<longrightarrow> artifacts V root f (entry_url e) \<noteq> None \<longrightarrow>
       (\<forall>q \<in> ran (infos U (e_rkyv E) d). ni_nar q \<noteq> entry_url e) \<longrightarrow>
       entry_url e \<in> set (rl_orphan_artifacts rl)) \<and>
    (\<forall>p \<in> set (rl_records_without_artifacts rl).
       \<exists>q \<in> ran (infos U (e_rkyv E) d). ni_store_path q = p \<and> artifacts V root f (ni_nar q) = None)"
  using maintain_reconcile_effect [OF good run] by blast

definition stored_file :: "narurl \<Rightarrow> string \<Rightarrow> memfs" where
  "stored_file u bs = \<lparr>mf_names = [(store_path [''d''] u, 1)], mf_data = (\<lambda>_. [])(1 := bs)\<rparr>"

lemma stored_file_good: "fs_good mem_fsys mem_fs_views (stored_file u bs)"
  unfolding fs_good_def
  by (simp add: mem_fs_laws) (auto simp: no_links_def stored_file_def mem_fs_views_def split: if_splits)

lemma stored_file_artifact: "narurl_ok u \<Longrightarrow> artifacts mem_fs_views [''d''] (stored_file u bs) u = Some bs"
  by (simp add: artifacts_def stored_file_def mem_fs_views_def)

lemma mem_entries: "\<exists>ps. entries mem_fsys p f = (Inr ps, f)"
proof -
  have "all_entries p (map Inr ps) = Inr ps" for ps by (induction ps) simp_all
  then show ?thesis by (simp add: entries_def mem_fsys_def io_run)
qed

lemma mem_scan: "\<exists>sc. store_scan X mem_fsys root f = (Inr sc, f)"
proof -
  have "\<exists>sc'. scan_shards X mem_fsys shards sc f = (Inr sc', f)" for shards sc
  proof (induction shards arbitrary: sc)
    case (Cons p shards)
    obtain ps where "entries mem_fsys p f = (Inr ps, f)" using mem_entries by blast
    with Cons show ?case by (simp add: io_run)
  qed simp
  moreover obtain ps where "entries mem_fsys (root @ [ARTIFACTS]) f = (Inr ps, f)" using mem_entries by blast
  ultimately show ?thesis by (simp add: store_scan_def io_run)
qed

theorem reconcile_exact_witness:
  "\<exists>rl. maintain_reconcile (sample_env []) [''d''] uploaded_rows (stored_file sample_artifact ''nar'') =
       (Inr rl, stored_file sample_artifact ''nar'') \<and>
     sample_artifact \<in> set (rl_orphan_artifacts rl)"
proof -
  let ?E = "sample_env []" and ?f = "stored_file sample_artifact ''nar''"
  obtain sc where sc: "store_scan sample mem_fsys [''d''] ?f = (Inr sc, ?f)" using mem_scan by blast
  have recs: "index_records mem_redb (sample_rkyv []) uploaded_rows = Inr []"
    by (simp add: index_records_def read_table_def mem_redb_def uploaded_rows_def)
  obtain rl where run: "maintain_reconcile ?E [''d''] uploaded_rows ?f = (Inr rl, ?f)"
    using sc recs by (simp add: maintain_reconcile_def sample_env_def io_run Let_def)
  have good: "fs_good (e_fs ?E) mem_fs_views ?f" "index_good (e_redb ?E) mem_views (e_rkyv ?E) uploaded_rows"
    by (simp_all add: sample_env_def stored_file_good uploaded_good)
  have "infos mem_views (sample_rkyv []) uploaded_rows = Map.empty"
    by (simp add: fun_eq_iff infos_def infos_of_def mem_views_def uploaded_rows_def)
  then have "infos mem_views (e_rkyv ?E) uploaded_rows = Map.empty" by (simp add: sample_env_def)
  with reconcile_exact [OF good run] stored_file_artifact [OF sample_artifact_ok, of "''nar''"] run
  show ?thesis by auto
qed

end
