(* ===== verification/HandlerTotal.thy ===== *)
theory HandlerTotal
  imports HandlerLaws
begin

text \<open>
  No request makes a handler panic or loop: the shard index stays inside the counters, and the pump
  needs no more turns than the span has bytes, whatever the file holds by then and however little a
  read answers.
\<close>

text \<open>The heartbeats, which no request touches.\<close>

definition hearts :: "shards \<Rightarrow> (u64 \<times> u64) list" where
  "hearts ss = map (\<lambda>s. (sh_heartbeat s, sh_heartbeats s)) ss"

lemma hearts_length [dest]: "hearts ss = hearts ts \<Longrightarrow> length ss = length ts"
  unfolding hearts_def by (rule map_eq_imp_length_eq)

lemma hearts_nth: "i < length ss \<Longrightarrow> hearts ss ! i = (sh_heartbeat (ss ! i), sh_heartbeats (ss ! i))"
  by (simp add: hearts_def)

lemma hearts_bump: "i < length ss \<Longrightarrow> hearts (ss[i := bump c n (ss ! i)]) = hearts ss"
  by (rule nth_equalityI) (simp_all add: hearts_def nth_list_update)

definition sane :: "nat \<Rightarrow> ('s, 'f, 'd, 'a) act \<Rightarrow> bool" where
  "sane i m \<longleftrightarrow> (\<forall>x r x'. m x = (r, x') \<longrightarrow> i < length (hs_stats x) \<longrightarrow>
     r \<noteq> Inl HE_Panic \<and> r \<noteq> Inl HE_Hang \<and> hearts (hs_stats x') = hearts (hs_stats x))"

named_theorems total \<open>operations that neither panic nor loop\<close>

lemma saneD:
  "sane i m \<Longrightarrow> m x = (r, x') \<Longrightarrow> i < length (hs_stats x) \<Longrightarrow>
     r \<noteq> Inl HE_Panic \<and> r \<noteq> Inl HE_Hang \<and> hearts (hs_stats x') = hearts (hs_stats x)"
  by (simp add: sane_def)

lemma sane_return [total]: "sane i (io_return a)"
  by (simp add: sane_def)

lemma sane_lift: "r \<noteq> Inl HE_Panic \<Longrightarrow> r \<noteq> Inl HE_Hang \<Longrightarrow> sane i (io_lift r)"
  by (auto simp: sane_def)

lemma sane_then [total]: "sane i m \<Longrightarrow> (\<And>a. sane i (f a)) \<Longrightarrow> sane i (io_then m f)"
  unfolding sane_def by (fastforce elim!: io_thenE dest: hearts_length)

lemma sane_state: "(\<And>y. sane i (m y)) \<Longrightarrow> sane i (\<lambda>x. m x x)"
  by (simp add: sane_def)

lemma sane_if [total]: "(b \<Longrightarrow> sane i m) \<Longrightarrow> (\<not> b \<Longrightarrow> sane i n) \<Longrightarrow> sane i (if b then m else n)"
  by simp

lemma sane_option [total]:
  "(c = None \<Longrightarrow> sane i m) \<Longrightarrow> (\<And>a. c = Some a \<Longrightarrow> sane i (n a)) \<Longrightarrow>
     sane i (case c of None \<Rightarrow> m | Some a \<Rightarrow> n a)"
  by (cases c) auto

lemma sane_on_conn [total]: "sane i (on_conn m)"
  by (auto simp: sane_def on_conn_def ctx_eq_Inl_iff split: prod.splits)

lemma sane_on_world [total]: "sane i (on_world HE_Store m)" "sane i (on_world HE_Upload n)"
  by (auto simp: sane_def on_world_def ctx_eq_Inl_iff split: prod.splits)

lemma sane_read_index [total]: "sane i (read_index q)"
  by (auto simp: sane_def read_index_def ctx_eq_Inl_iff)

lemma sane_bump [total]: "j = i \<Longrightarrow> sane i (h_bump j c n)"
  by (auto simp: sane_def h_bump_def shards_bump_def shards_get_def hearts_bump split: option.splits)

lemma sane_open_artifact [total]: "sane i (open_artifact E u)"
  unfolding open_artifact_def
  by (rule sane_state [where m = "\<lambda>x. on_world HE_Store (on_fs (store_read (e_fs E) (w_root (hs_world x)) u))"])
    (rule total)

lemma sane_answer [total]: "sane i (answer S rq st dr)"
  unfolding answer_def by (intro total)

lemma sane_refuse [total]: "sane i (refuse S rq rf dr)"
  unfolding refuse_def Let_def by (intro total)

lemma sane_send [total]: "sane i (send S rq h body)"
  unfolding send_def Let_def by (intro total)

lemma sane_proceed [total]: "sane i (proceed S rq)"
  unfolding proceed_def by (intro total)

lemma sane_admit [total]: "ex_shard ex = i \<Longrightarrow> sane i (admit X ca ex)"
  unfolding admit_def Let_def by (auto intro: total)

lemma sane_cache_info [total]: "sane i (h_cache_info S ca ex)"
  unfolding h_cache_info_def Let_def by (intro total)

lemma sane_metrics [total]: "sane i (h_metrics S E ex)"
proof -
  have "sane i (\<lambda>x. send S (ex_request ex) (h x) (b x) x)" for h b
    by (rule sane_state [where m = "\<lambda>x. send S (ex_request ex) (h x) (b x)"]) (rule total)
  then show ?thesis unfolding h_metrics_def Let_def by (intro total)
qed

section \<open>The pump\<close>

lemma pump_loop_sane:
  fixes S :: "'s sock" and F :: "('f, 'h) fsys"
  assumes "unat (last_byte sp) + 1 - unat offset \<le> fuel" "unat (last_byte sp) + 1 < 2 ^ 64"
    and "unat offset \<le> unat (last_byte sp) + 1"
  shows "sane i (pump_loop S F rd sp fuel offset :: ('s, 'f, 'd, u64) act)"
  using assms
proof (induction fuel arbitrary: offset)
  case 0
  then have "last_byte sp < offset" by (simp add: word_less_nat_alt)
  then show ?case by (subst pump_loop.simps) (simp add: total)
next
  case (Suc fuel)
  let ?last = "unat (last_byte sp)"
  let ?wanted = "min (last_byte sp - offset + 1) (u64_from_usize SEND_CHUNK)"
  have step: "sane i (pump_loop S F rd sp fuel (offset + u64_from_usize (length (take (unat ?wanted) s))) :: ('s, 'f, 'd, u64) act)"
    if ne: "s \<noteq> []" and le: "\<not> last_byte sp < offset" for s
  proof -
    have off: "unat offset \<le> ?last" using le by (simp add: word_less_nat_alt)
    have "unat (last_byte sp - offset) = ?last - unat offset" using le by (simp add: unat_sub)
    then have "unat (last_byte sp - offset + 1) = ?last - unat offset + 1"
      using Suc.prems(2) by (subst unat_add_lem [THEN iffD1]) simp_all
    then have "unat ?wanted = min (?last - unat offset + 1) SEND_CHUNK"
      by (simp add: unat_u64_from_usize SEND_CHUNK_def min_def word_le_nat_alt)
    then have w: "unat ?wanted \<le> ?last - unat offset + 1" "1 \<le> unat ?wanted"
      by (simp_all add: SEND_CHUNK_def)
    define n where "n = length (take (unat ?wanted) s)"
    have t: "1 \<le> n" "n \<le> ?last + 1 - unat offset" unfolding n_def using ne w off by (cases s; simp)+
    have "unat offset + n < 2 ^ 64" using t(2) off Suc.prems(2) by linarith
    then have "unat (offset + u64_from_usize n) = unat offset + n"
      by (subst unat_add_lem [THEN iffD1]) (simp_all add: unat_u64_from_usize)
    then have o: "?last + 1 - unat (offset + u64_from_usize n) \<le> fuel" "unat (offset + u64_from_usize n) \<le> ?last + 1"
      using t Suc.prems by linarith+
    show ?thesis unfolding n_def [symmetric] by (rule Suc.IH [OF o(1) Suc.prems(2) o(2)])
  qed
  show ?case
    unfolding pump_loop.simps [of S F rd sp "Suc fuel" offset] nat.case Let_def
    by (intro total step) assumption+
qed

lemma sane_pump:
  assumes "span_in sp len"
  shows "sane i (pump S F rd sp)"
proof -
  have le: "first sp \<le> last_byte sp" "last_byte sp < len" using assms by (simp_all add: span_in_def)
  then have last: "unat (last_byte sp) + 1 < 2 ^ 64"
    using unat_less64 [of len] by (simp add: word_less_nat_alt)
  show ?thesis unfolding pump_def
    using le last unat_span_len(1) [OF assms] by (intro pump_loop_sane) (simp_all add: word_le_nat_alt)
qed

lemma sane_stream_span:
  "span_in sp len \<Longrightarrow> ex_shard ex = i \<Longrightarrow> sane i (stream_span S E ex rd sp)"
  unfolding stream_span_def Let_def by (auto intro!: total sane_pump)

lemma sane_stream:
  assumes "ex_shard ex = i"
  shows "sane i (h_stream S E ex u)"
proof -
  have "span_in sp (rr_size rd)" if "range_resolve h (rr_size rd) = Partial sp" "rr_size rd \<noteq> 0" for rd sp h
    using range_resolve_in [OF that(1)] that(2) by simp
  moreover have "span_in \<lparr>first = 0, last_byte = rr_size rd - 1\<rparr> (rr_size rd)" if "rr_size rd \<noteq> 0" for rd
    using pred_less [OF that] by (simp add: span_in_def)
  ultimately show ?thesis unfolding h_stream_def Let_def
    by (auto split: requested.splits intro!: total sane_stream_span assms)
qed

section \<open>Pushes\<close>

lemma drop_upload_stats [simp]: "hs_stats (drop_upload E u x) = hs_stats x"
  by (simp add: drop_upload_def)

lemma put_fs_stats [simp]: "hs_stats (put_fs f x) = hs_stats x"
  by (simp add: put_fs_def)

lemma receive_loop_sane:
  "receive_loop S E u remaining x = (r, x') \<Longrightarrow>
     r \<noteq> Inl HE_Panic \<and> r \<noteq> Inl HE_Hang \<and> hs_stats x' = hs_stats x"
proof (induction S E u remaining x rule: receive_loop.induct)
  case (1 S E u remaining x)
  obtain q c where c: "conn_chunk S remaining (hs_conn x) = (q, c)" by fastforce
  note run = "1.prems" [unfolded receive_loop.simps [of S E u remaining x] c]
  show ?case
  proof (cases "remaining = 0 \<or> isl q")
    case True
    with run show ?thesis by (cases q) (auto split: if_splits)
  next
    case False
    then obtain bs m where q: "q = Inr (bs, m)" and rem: "remaining \<noteq> 0" by (cases q) auto
    obtain y v g where y: "upload_write (e_ext E) (e_zstd E) (e_fs E) bs (u, w_fs (hs_world x)) = (y, (v, g))"
      by (metis prod.exhaust)
    show ?thesis
    proof (cases "bs = [] \<or> isl y")
      case True
      with run rem q y show ?thesis by (cases y) (auto split: if_splits)
    next
      case False
      then obtain a where ok: "y = Inr a" and bs: "bs \<noteq> []" by (cases y) auto
      with run rem q y have "receive_loop S E v m (put_fs g (x\<lparr>hs_conn := c\<rparr>)) = (r, x')" by simp
      from "1.IH" [OF rem c [symmetric] q refl bs y [symmetric, simplified] ok refl this] show ?thesis by simp
    qed
  qed
qed

lemma sane_receive_loop [total]: "sane i (receive_loop S E u remaining)"
  using receive_loop_sane by (fastforce simp: sane_def)

lemma sane_settle [total]: "ex_shard ex = i \<Longrightarrow> sane i (settle_upload S E ex u)"
proof -
  assume ex: "ex_shard ex = i"
  have push: "sane i (\<lambda>x. on_world HE_Upload (on_fs_db
          (upload_store (e_fs E) (e_redb E) (e_rkyv E) (w_root (hs_world x)) v)) x)" for v
    by (rule sane_state [where m = "\<lambda>x. on_world HE_Upload (on_fs_db
          (upload_store (e_fs E) (e_redb E) (e_rkyv E) (w_root (hs_world x)) v))"]) (rule total)
  have body: "sane i (\<lambda>x. case upload_verify (e_fs E) c (w_fs (hs_world x)) of
      (Inl e, f) \<Rightarrow> refuse S (ex_request ex) (refusal_new (upload_fault e) (upload_display e)) Consumed (put_fs f x)
    | (Inr v, f) \<Rightarrow> io_then (\<lambda>x. on_world HE_Upload (on_fs_db
          (upload_store (e_fs E) (e_redb E) (e_rkyv E) (w_root (hs_world x)) v)) x)
        (\<lambda>_. io_then (h_bump (ex_shard ex) C_Uploads 1) (\<lambda>_. answer S (ex_request ex) S_Created Consumed)) (put_fs f x))"
    (is "sane i ?m") for c
    unfolding sane_def
  proof (intro allI impI)
    fix x r x' assume run: "?m x = (r, x')" and i: "i < length (hs_stats x)"
    obtain y f where y: "upload_verify (e_fs E) c (w_fs (hs_world x)) = (y, f)" by fastforce
    have i: "i < length (hs_stats (put_fs f x))" using i by simp
    have store: "sane i (io_then (\<lambda>x. on_world HE_Upload (on_fs_db
          (upload_store (e_fs E) (e_redb E) (e_rkyv E) (w_root (hs_world x)) v)) x)
        (\<lambda>_. io_then (h_bump (ex_shard ex) C_Uploads 1) (\<lambda>_. answer S (ex_request ex) S_Created Consumed)))" for v
      by (intro total push ex)
    show "r \<noteq> Inl HE_Panic \<and> r \<noteq> Inl HE_Hang \<and> hearts (hs_stats x') = hearts (hs_stats x)"
      using run y saneD [OF sane_refuse _ i] saneD [OF store _ i] by (cases y) auto
  qed
  show ?thesis unfolding settle_upload_def Let_def by (intro total body)
qed

lemma sane_receive [total]: "ex_shard ex = i \<Longrightarrow> sane i (h_receive S E ca ex u)"
proof -
  assume ex: "ex_shard ex = i"
  have "sane i (\<lambda>x. case ingest_receive E (ca_ingest ca) u (hs_world x) of
            (Inl err, w) \<Rightarrow>
              refuse S (ex_request ex) (refusal_new (ingest_fault err) (ingest_display err)) Unread (x\<lparr>hs_world := w\<rparr>)
          | (Inr u, w) \<Rightarrow>
              (case proceed S (ex_request ex) (x\<lparr>hs_world := w\<rparr>) of
                 (Inl e, x) \<Rightarrow> (Inl e, drop_upload E u x)
               | (Inr _, x) \<Rightarrow> io_then (receive_loop S E u n) (settle_upload S E ex) x))" (is "sane i ?m") for n
    unfolding sane_def
  proof (intro allI impI)
    fix x r x' assume run: "?m x = (r, x')" and i: "i < length (hs_stats x)"
    obtain y w where y: "ingest_receive E (ca_ingest ca) u (hs_world x) = (y, w)" by fastforce
    let ?x = "x\<lparr>hs_world := w\<rparr>"
    have i: "i < length (hs_stats ?x)" using i by simp
    show "r \<noteq> Inl HE_Panic \<and> r \<noteq> Inl HE_Hang \<and> hearts (hs_stats x') = hearts (hs_stats x)"
    proof (cases y)
      case (Inl err)
      with run y have "refuse S (ex_request ex) (refusal_new (ingest_fault err) (ingest_display err)) Unread ?x = (r, x')"
        by simp
      from saneD [OF sane_refuse this i] show ?thesis by simp
    next
      case (Inr v)
      obtain q x2 where q: "proceed S (ex_request ex) ?x = (q, x2)" by fastforce
      note p = saneD [OF sane_proceed q i]
      show ?thesis
      proof (cases q)
        case (Inl e)
        with run y \<open>y = Inr v\<close> q p show ?thesis by auto
      next
        case (Inr a)
        with run y \<open>y = Inr v\<close> q have "io_then (receive_loop S E v n) (settle_upload S E ex) x2 = (r, x')" by simp
        moreover have "sane i (io_then (receive_loop S E v n) (settle_upload S E ex))"
          by (intro total ex)
        ultimately show ?thesis using saneD p i by (fastforce dest: hearts_length)
      qed
    qed
  qed
  then show ?thesis unfolding h_receive_def Let_def
    by (auto split: framing.splits intro!: total ex)
qed

lemma sane_publish [total]: "ex_shard ex = i \<Longrightarrow> sane i (h_publish S E ca ex)"
proof -
  assume ex: "ex_shard ex = i"
  have "sane i (\<lambda>x. case on_db (ingest_publish E (ca_ingest ca) t) (hs_world x) of
                  (Inl err, w) \<Rightarrow>
                    refuse S (ex_request ex) (refusal_new (ingest_fault err) (ingest_display err)) Consumed (x\<lparr>hs_world := w\<rparr>)
                | (Inr _, w) \<Rightarrow> answer S (ex_request ex) S_Created Consumed (x\<lparr>hs_world := w\<rparr>))" (is "sane i ?m") for t
    unfolding sane_def
  proof (intro allI impI)
    fix x r x' assume run: "?m x = (r, x')" and i: "i < length (hs_stats x)"
    obtain y w where y: "on_db (ingest_publish E (ca_ingest ca) t) (hs_world x) = (y, w)" by fastforce
    have i: "i < length (hs_stats (x\<lparr>hs_world := w\<rparr>))" using i by simp
    show "r \<noteq> Inl HE_Panic \<and> r \<noteq> Inl HE_Hang \<and> hearts (hs_stats x') = hearts (hs_stats x)"
      using run y saneD [OF sane_refuse _ i] saneD [OF sane_answer _ i] by (cases y) auto
  qed
  then show ?thesis unfolding h_publish_def Let_def
    by (auto split: framing.splits sum.splits intro!: total ex)
qed

section \<open>Requests and sessions\<close>

lemma sane_handle: "ex_shard ex = i \<Longrightarrow> sane i (handle S E ca ex)"
proof -
  assume ex: "ex_shard ex = i"
  have info: "sane i (h_narinfo S E ca ex key)" for key
    unfolding h_narinfo_def Let_def using ex by (auto intro!: total)
  have probe: "sane i (h_probe S E ex u)" for u
    unfolding h_probe_def Let_def by (auto intro!: total)
  have nar: "sane i (h_nar S E ca ex u)" for u
    unfolding h_nar_def using ex probe sane_stream [OF ex] by (auto split: http_method.splits intro!: total)
  show ?thesis unfolding handle_def Let_def
    using ex info nar
    by (auto split: sum.splits route_error.splits route.splits intro!: total)
qed

lemma sane_session_turn: "sane i (session_turn S E ca i)"
  unfolding session_turn_def by (auto split: sum.splits intro!: total sane_handle)

lemma sane_session: "sane i (session S E ca i turns)"
  by (induction turns) (auto intro!: total sane_session_turn)

end
