(* ===== verification/Shard.thy ===== *)
theory Shard
  imports Handler
begin

text \<open>
  The serving shards (\<open>crates/bincache-serve/src/shard.rs\<close>) and the watchdog
  (\<open>crates/bincache/src/watchdog.rs\<close>): binding one listener per shard, spawning and joining the
  threads, and what they do while they run, one event at a time. Sockets, threads and the cores of
  the machine are parameters. Logging is left out; what the watchdog logs is its result.
\<close>

section \<open>What the machine provides\<close>

datatype addr_domain = Domain_IPv4 | Domain_IPv6

datatype socket_addr = SocketV4 "u8 list" u16 | SocketV6 "u16 list" u16

fun for_address :: "socket_addr \<Rightarrow> addr_domain" where
  "for_address (SocketV4 _ _) = Domain_IPv4"
| "for_address (SocketV6 _ _) = Domain_IPv6"

text \<open>\<open>Panicked\<close> names the shard.\<close>

datatype shard_error =
    SH_Socket io_error
  | SH_Bind socket_addr io_error
  | SH_Adopt io_error
  | SH_Runtime io_error
  | SH_Panicked nat

text \<open>
  What a spawned thread runs: a shard with its listener, pinned to a core or not, or the watchdog
  with the seconds after which a shard is stale.
\<close>

datatype 'l job = Job_Shard nat "nat option" 'l | Job_Watchdog u64

text \<open>
  \<open>ma_drop\<close> closes a socket that goes out of scope, \<open>ma_cores\<close> is \<open>get_core_ids\<close>, and \<open>ma_join\<close>
  answers \<open>None\<close> for a thread that panicked.
\<close>

record ('n, 'l, 't) machine =
  ma_socket :: "addr_domain \<Rightarrow> ('n, io_error, 'l) io"
  ma_reuse_address :: "'l \<Rightarrow> bool \<Rightarrow> ('n, io_error, unit) io"
  ma_reuse_port :: "'l \<Rightarrow> bool \<Rightarrow> ('n, io_error, unit) io"
  ma_nodelay :: "'l \<Rightarrow> bool \<Rightarrow> ('n, io_error, unit) io"
  ma_bind :: "'l \<Rightarrow> socket_addr \<Rightarrow> ('n, io_error, unit) io"
  ma_listen :: "'l \<Rightarrow> int \<Rightarrow> ('n, io_error, unit) io"
  ma_drop :: "'l \<Rightarrow> 'n \<Rightarrow> 'n"
  ma_cores :: "nat list option"
  ma_spawn :: "string \<Rightarrow> 'l job \<Rightarrow> ('n, io_error, 't) io"
  ma_join :: "'t \<Rightarrow> 'n \<Rightarrow> (shard_error + unit) option \<times> 'n"

section \<open>Starting the shards\<close>

definition BACKLOG :: int where "BACKLOG = 1024"

text \<open>The two timers, in milliseconds.\<close>

definition HEARTBEAT :: nat where "HEARTBEAT = 1000"
definition INTERVAL :: nat where "INTERVAL = 5000"

datatype pinning = Pinned | Unpinned

record config =
  cf_address :: socket_addr
  cf_shards :: nat          \<comment> \<open>\<open>NonZeroUsize\<close>\<close>
  cf_pinning :: pinning

definition shard_bind :: "('n, 'l, 't) machine \<Rightarrow> socket_addr \<Rightarrow> ('n, shard_error, 'l) io" where
  "shard_bind M address =
     io_then (io_ctx SH_Socket (ma_socket M (for_address address))) (\<lambda>socket n.
       case
         (io_then (io_ctx SH_Socket (ma_reuse_address M socket True)) (\<lambda>_.
          io_then (io_ctx SH_Socket (ma_reuse_port M socket True)) (\<lambda>_.
          io_then (io_ctx SH_Socket (ma_nodelay M socket True)) (\<lambda>_.
          io_then (io_ctx (SH_Bind address) (ma_bind M socket address)) (\<lambda>_.
          io_ctx (SH_Bind address) (ma_listen M socket BACKLOG)))))) n
       of
         (Inl e, n) \<Rightarrow> (Inl e, ma_drop M socket n)
       | (Inr _, n) \<Rightarrow> (Inr socket, n))"

text \<open>\<open>slice.get(i).copied()\<close>.\<close>

definition get_copied :: "'a list \<Rightarrow> nat \<Rightarrow> 'a option" where
  "get_copied xs i = (if i < length xs then Some (xs ! i) else None)"

text \<open>One turn of the loop that starts the threads.\<close>

definition start_shard ::
  "('n, 'l, 't) machine \<Rightarrow> config \<Rightarrow> nat list \<Rightarrow> nat \<Rightarrow> ('n, shard_error, 't) io" where
  "start_shard M config cores shard =
     io_then (shard_bind M (cf_address config)) (\<lambda>listener.
     let core = get_copied cores (shard mod max (length cores) 1);
         core = (if cf_pinning config = Pinned then core else None)
     in io_ctx SH_Runtime (ma_spawn M (''bincache-shard-'' @ show_nat shard) (Job_Shard shard core listener)))"

fun start_shards ::
  "('n, 'l, 't) machine \<Rightarrow> config \<Rightarrow> nat list \<Rightarrow> nat list \<Rightarrow> ('n, shard_error, 't list) io" where
  "start_shards M config cores [] = io_return []"
| "start_shards M config cores (shard # shards) =
     io_then (start_shard M config cores shard) (\<lambda>thread.
     io_then (start_shards M config cores shards) (\<lambda>threads.
     io_return (thread # threads)))"

fun join_shards :: "('n, 'l, 't) machine \<Rightarrow> nat \<Rightarrow> 't list \<Rightarrow> ('n, shard_error, unit) io" where
  "join_shards M shard [] = io_return ()"
| "join_shards M shard (thread # threads) = (\<lambda>n.
     case ma_join M thread n of
       (None, n) \<Rightarrow> (Inl (SH_Panicked shard), n)
     | (Some (Inl e), n) \<Rightarrow> (Inl e, n)
     | (Some (Inr _), n) \<Rightarrow> join_shards M (shard + 1) threads n)"

definition shard_run :: "('n, 'l, 't) machine \<Rightarrow> config \<Rightarrow> ('n, shard_error, unit) io" where
  "shard_run M config =
     (let cores = (case ma_cores M of None \<Rightarrow> [] | Some cores \<Rightarrow> cores) in
      io_then (start_shards M config cores [0..<cf_shards config]) (join_shards M 0))"

text \<open>
  \<open>serve\<close>, a shard's thread: the runtime starts and adopts the listener, and then it accepts for as
  long as the process lives.
\<close>

definition shard_serve :: "io_error + unit \<Rightarrow> io_error + 'l \<Rightarrow> shard_error + 'l" where
  "shard_serve runtime adopted =
     and_then (ctx SH_Runtime runtime) (\<lambda>_. ctx SH_Adopt adopted)"

section \<open>Running shards\<close>

text \<open>The counters and the world all shards share, and the open connections, each on its shard.\<close>

record ('s, 'f, 'd) running =
  rn_stats :: shards
  rn_world :: "('f, 'd) world"
  rn_conns :: "(nat \<times> 's conn) option list"

text \<open>
  What happens on a running server: a shard accepts a connection or fails to, one turn of one
  connection's session, one turn of the heartbeat timer at a time since the start.
\<close>

datatype 's event =
    Accepted nat 's
  | Accept_failed nat
  | Turned nat
  | Beat nat nat

text \<open>\<open>None\<close> is a panic or a loop that does not return. A session that ended leaves no connection.\<close>

fun shard_event ::
  "'s sock \<Rightarrow> ('e, 'z, 'f, 'h, 'd, 'r, 't) env \<Rightarrow> cache \<Rightarrow> 's event \<Rightarrow> ('s, 'f, 'd) running \<Rightarrow>
     ('s, 'f, 'd) running option" where
  "shard_event S E ca (Accepted shard stream) st =
     Some (st\<lparr>rn_conns := rn_conns st @ [Some (shard, conn_new stream)]\<rparr>)"
| "shard_event S E ca (Accept_failed shard) st = Some st"
| "shard_event S E ca (Turned c) st =
     (case Option.bind (get_copied (rn_conns st) c) id of
        None \<Rightarrow> Some st
      | Some (shard, conn) \<Rightarrow>
          (case session_turn S E ca shard \<lparr>hs_conn = conn, hs_stats = rn_stats st, hs_world = rn_world st\<rparr> of
             (r, x) \<Rightarrow>
               if r = Inl HE_Panic \<or> r = Inl HE_Hang then None
               else Some \<lparr>rn_stats = hs_stats x, rn_world = hs_world x,
                 rn_conns = (rn_conns st)[c := (if r = Inr False then Some (shard, hs_conn x) else None)]\<rparr>))"
| "shard_event S E ca (Beat elapsed shard) st =
     map_option (\<lambda>stats. st\<lparr>rn_stats := stats\<rparr>) (beat elapsed shard (rn_stats st))"

fun shard_events ::
  "'s sock \<Rightarrow> ('e, 'z, 'f, 'h, 'd, 'r, 't) env \<Rightarrow> cache \<Rightarrow> 's event list \<Rightarrow> ('s, 'f, 'd) running \<Rightarrow>
     ('s, 'f, 'd) running option" where
  "shard_events S E ca [] st = Some st"
| "shard_events S E ca (ev # evs) st = Option.bind (shard_event S E ca ev st) (shard_events S E ca evs)"

section \<open>The watchdog\<close>

text \<open>A thread that does not start is only logged.\<close>

definition watchdog_spawn :: "('n, 'l, 't) machine \<Rightarrow> u64 \<Rightarrow> 'n \<Rightarrow> 'n" where
  "watchdog_spawn M stale n = snd (ma_spawn M ''bincache-watchdog'' (Job_Watchdog stale) n)"

text \<open>
  One turn of \<open>watch\<close>, at a time in milliseconds since the start: the shards it reports, with the
  staleness in seconds, or nothing. \<open>Duration::from_secs\<close> counts seconds and \<open>stalled\<close> milliseconds.
\<close>

definition watch_turn :: "nat \<Rightarrow> u64 \<Rightarrow> shards \<Rightarrow> (nat list \<times> u64) option" where
  "watch_turn elapsed stale stats =
     (let st = stalled elapsed (unat stale * 1000) stats in
      if st = [] then None else Some (st, stale))"

end
