(* ===== verification/Boot.thy ===== *)
theory Boot
  imports Shard
begin

text \<open>
  The composition root (\<open>crates/bincache/src/boot.rs\<close>) and the arguments it is given (\<open>args.rs\<close>):
  every subcommand from its arguments to what it prints, and for \<open>serve\<close> the
  state that the shards are started with, and the launch itself. Parsing the command line and the
  tracing output are not modelled.
\<close>

section \<open>What the machine provides\<close>

text \<open>
  Starting a runtime, reading a file, the reported parallelism, the process id, the random bytes,
  how a path prints, and which database error is \<open>DatabaseAlreadyOpen\<close>.
\<close>

record host =
  ho_runtime :: "io_error + unit"
  ho_read :: "path \<Rightarrow> io_error + string"
  ho_parallelism :: "io_error + nat"
  ho_pid :: u32
  ho_entropy :: "u8 list"
  ho_display :: "path \<Rightarrow> string"
  ho_already_open :: "ext_error \<Rightarrow> bool"

section \<open>Arguments\<close>

record serve_args =
  sv_data_dir :: path
  sv_store_dir :: string
  sv_listen :: socket_addr
  sv_secret_key_file :: path
  sv_push_token :: "string list"
  sv_push_token_file :: "path option"
  sv_shards :: "nat option"          \<comment> \<open>\<open>NonZeroUsize\<close>\<close>
  sv_pin :: bool
  sv_zstd_level :: int
  sv_priority :: u32
  sv_want_mass_query :: bool
  sv_stall_seconds :: u64

record delete_args =
  de_data_dir :: path
  de_path :: string

record rotate_args =
  ro_data_dir :: path
  ro_store_dir :: string
  ro_secret_key_file :: path

datatype command =
    Cmd_Serve serve_args
  | Cmd_Keygen string
  | Cmd_Token
  | Cmd_Delete delete_args
  | Cmd_Reconcile path
  | Cmd_Rotate rotate_args

section \<open>Boot\<close>

definition PAYLOAD :: string where "PAYLOAD = ''payload''"
definition INDEX :: string where "INDEX = ''index.redb''"

text \<open>
  \<open>BE_Panic\<close> is not an error of the code: it is the panic of slicing inside a character.
\<close>

datatype boot_error =
    BE_Runtime io_error
  | BE_ReadFile path io_error
  | BE_SecretKey sign_error
  | BE_StoreDir sp_error
  | BE_Path string sp_error
  | BE_ZstdLevel int
  | BE_Parallelism io_error
  | BE_Store store_error
  | BE_Index index_error
  | BE_IndexLocked path
  | BE_Maintain maintain_error
  | BE_Serve shard_error
  | BE_Panic

text \<open>What a subcommand leaves: the lines it printed, or the state the shards start with.\<close>

record prepared =
  pr_cache :: cache
  pr_config :: config
  pr_stats :: shards
  pr_store :: store
  pr_stale_seconds :: u64

datatype outcome = Printed (stdout: "string list") (stderr: "string list")

definition on_files :: "('e \<Rightarrow> boot_error) \<Rightarrow> ('f, 'e, 'a) io \<Rightarrow> ('f \<times> 'd, boot_error, 'a) io" where
  "on_files k m = (\<lambda>(f, d). case m f of (r, f) \<Rightarrow> (ctx k r, (f, d)))"

definition on_index :: "('e \<Rightarrow> boot_error) \<Rightarrow> ('d, 'e, 'a) io \<Rightarrow> ('f \<times> 'd, boot_error, 'a) io" where
  "on_index k m = (\<lambda>(f, d). case m d of (r, d) \<Rightarrow> (ctx k r, (f, d)))"

definition open_error :: "host \<Rightarrow> path \<Rightarrow> index_error \<Rightarrow> boot_error" where
  "open_error H path e =
     (case e of
        IE_Open _ source \<Rightarrow> if ho_already_open H source then BE_IndexLocked path else BE_Index e
      | _ \<Rightarrow> BE_Index e)"

definition boot_open ::
  "host \<Rightarrow> ('e, 'z, 'f, 'h, 'd, 'r, 't) env \<Rightarrow> path \<Rightarrow> ('f \<times> 'd, boot_error, store) io" where
  "boot_open H E data_dir =
     io_then (io_lift (ctx BE_Runtime (ho_runtime H))) (\<lambda>_.
     io_then (on_files BE_Store (store_open (e_fs E) (data_dir @ [PAYLOAD]) (ho_pid H))) (\<lambda>store.
     let path = data_dir @ [INDEX] in
     io_then (on_index (open_error H path) (index_open (e_redb E) (ho_display H path))) (\<lambda>_.
     io_return store)))"

definition boot_dir :: "string \<Rightarrow> boot_error + dir" where
  "boot_dir store_dir = ctx BE_StoreDir (dir_new store_dir)"

definition boot_secret_key :: "host \<Rightarrow> 'e ext \<Rightarrow> path \<Rightarrow> boot_error + secret_key" where
  "boot_secret_key H X path =
     and_then (ctx (BE_ReadFile path) (ho_read H path)) (\<lambda>text.
     ctx BE_SecretKey (secret_parse X text))"

definition configured :: "host \<Rightarrow> serve_args \<Rightarrow> boot_error + string list" where
  "configured H args =
     (let tokens = filter (\<lambda>token. token \<noteq> []) (sv_push_token args) in
      case sv_push_token_file args of
        None \<Rightarrow> Inr tokens
      | Some path \<Rightarrow>
          and_then (ctx (BE_ReadFile path) (ho_read H path)) (\<lambda>text.
          Inr (tokens @ filter (\<lambda>line. line \<noteq> []) (map trim (lines text)))))"

definition push_tokens :: "host \<Rightarrow> 'e ext \<Rightarrow> serve_args \<Rightarrow> boot_error + tokens" where
  "push_tokens H X args = and_then (configured H args) (\<lambda>tokens. Inr (tokens_new X tokens))"

text \<open>
  \<open>serve\<close>, up to \<open>shard::run\<close>. The count of records is an argument of a log line, so the code reads it
  only when that level is logged, as it is by default; the model always reads it.
\<close>

definition boot_serve ::
  "host \<Rightarrow> ('e, 'z, 'f, 'h, 'd, 'r, 't) env \<Rightarrow> serve_args \<Rightarrow> ('f \<times> 'd, boot_error, prepared) io" where
  "boot_serve H E args =
     io_then (io_lift (boot_dir (sv_store_dir args))) (\<lambda>store_dir.
     io_then (io_lift (boot_secret_key H (e_ext E) (sv_secret_key_file args))) (\<lambda>key.
     io_then (io_lift (or_err (BE_ZstdLevel (sv_zstd_level args)) (level_new (sv_zstd_level args)))) (\<lambda>level.
     io_then (io_lift (case sv_shards args of
         Some shards \<Rightarrow> Inr shards | None \<Rightarrow> ctx BE_Parallelism (ho_parallelism H))) (\<lambda>shards.
     io_then (boot_open H E (sv_data_dir args)) (\<lambda>store.
     io_then (io_lift (ctx BE_Runtime (ho_runtime H))) (\<lambda>_.
     io_then (on_files BE_Store (sweep_staging (e_fs E) (st_root store))) (\<lambda>_.
     io_then (io_lift (push_tokens H (e_ext E) args)) (\<lambda>tokens.
     io_then (\<lambda>(f, d). (ctx BE_Index (index_count (e_redb E) d), (f, d))) (\<lambda>_.
     io_return \<lparr>
       pr_cache = cache_new \<lparr>ig_key = key, ig_dir = store_dir, ig_level = level\<rparr> tokens
         \<lparr>ci_store_dir = store_dir, ci_mass_query = (if sv_want_mass_query args then Wanted else Unwanted),
          ci_priority = Priority (sv_priority args)\<rparr>,
       pr_config = \<lparr>cf_address = sv_listen args, cf_shards = shards,
         cf_pinning = (if sv_pin args then Pinned else Unpinned)\<rparr>,
       pr_stats = shards_new shards, pr_store = store, pr_stale_seconds = sv_stall_seconds args\<rparr>)))))))))"

text \<open>The last two calls of \<open>serve\<close>: the watchdog's thread, then the shards until they exit.\<close>

definition boot_launch :: "('n, 'l, 't) machine \<Rightarrow> prepared \<Rightarrow> ('n, boot_error, unit) io" where
  "boot_launch M p = (\<lambda>n.
     io_ctx BE_Serve (shard_run M (pr_config p)) (watchdog_spawn M (pr_stale_seconds p) n))"

definition boot_keygen :: "host \<Rightarrow> 'e ext \<Rightarrow> string \<Rightarrow> outcome" where
  "boot_keygen H X name =
     (let key = secret_generate name (ho_entropy H) in
      Printed [secret_render X key] [''trusted-public-keys entry: '' @ public_render X (secret_public X key)])"

text \<open>\<open>&text[..n]\<close>, which panics when the cut falls inside a character.\<close>

definition char_boundary :: "string \<Rightarrow> nat \<Rightarrow> bool" where
  "char_boundary s n \<longleftrightarrow> n = 0 \<or> n = length s \<or> n < length s \<and> \<not> cont (of_char (s ! n))"

definition str_prefix :: "string \<Rightarrow> nat \<Rightarrow> string option" where
  "str_prefix s n = (if char_boundary s n then Some (take n s) else None)"

text \<open>The text that a delete reads its key from.\<close>

definition delete_text :: "string \<Rightarrow> string option" where
  "delete_text path =
     (let text = last (split_on (\<lambda>c. c = slash) path)
      in str_prefix text (min (length text) HASH_TEXT_LEN))"

fun deletion_debug :: "deletion \<Rightarrow> string" where
  "deletion_debug D_Removed = ''Removed''"
| "deletion_debug D_Absent = ''Absent''"

definition delete_key :: "string \<Rightarrow> boot_error + sp_hash" where
  "delete_key path =
     and_then (or_err BE_Panic (delete_text path)) (\<lambda>text. ctx (BE_Path path) (hash_parse text))"

definition boot_delete ::
  "host \<Rightarrow> ('e, 'z, 'f, 'h, 'd, 'r, 't) env \<Rightarrow> delete_args \<Rightarrow> ('f \<times> 'd, boot_error, outcome) io" where
  "boot_delete H E args =
     io_then (io_lift (delete_key (de_path args))) (\<lambda>key.
     io_then (boot_open H E (de_data_dir args)) (\<lambda>_.
     io_then (on_index BE_Maintain (maintain_delete (e_redb E) (e_rkyv E) key)) (\<lambda>deleted.
     io_return (Printed
       ((hash_display key @ '': '' @ deletion_debug deleted) #
        (if deleted = D_Removed
         then [''its artifact was left in place; run `reconcile` to list what is unreferenced''] else [])) []))))"

definition boot_reconcile ::
  "host \<Rightarrow> ('e, 'z, 'f, 'h, 'd, 'r, 't) env \<Rightarrow> path \<Rightarrow> ('f \<times> 'd, boot_error, outcome) io" where
  "boot_reconcile H E data_dir =
     io_then (boot_open H E data_dir) (\<lambda>store.
     io_then (\<lambda>(f, d). on_files BE_Maintain (maintain_reconcile E (st_root store) d) (f, d)) (\<lambda>found.
     io_return (Printed
       ([''orphan artifacts: '' @ show_nat (length (rl_orphan_artifacts found))] @
        map (\<lambda>url. ''  '' @ nar_name url) (rl_orphan_artifacts found) @
        [''records without artifacts: '' @ show_nat (length (rl_records_without_artifacts found))] @
        map (\<lambda>path. ''  '' @ path_display path) (rl_records_without_artifacts found) @
        [''unrecognized files: '' @ show_nat (length (rl_unrecognized_files found))] @
        map (\<lambda>path. ''  '' @ ho_display H path) (rl_unrecognized_files found)) [])))"

definition boot_rotate ::
  "host \<Rightarrow> ('e, 'z, 'f, 'h, 'd, 'r, 't) env \<Rightarrow> rotate_args \<Rightarrow> ('f \<times> 'd, boot_error, outcome) io" where
  "boot_rotate H E args =
     io_then (io_lift (boot_secret_key H (e_ext E) (ro_secret_key_file args))) (\<lambda>key.
     io_then (boot_open H E (ro_data_dir args)) (\<lambda>_.
     io_then (io_lift (boot_dir (ro_store_dir args))) (\<lambda>dir.
     io_then (on_index BE_Maintain (maintain_rotate E dir key)) (\<lambda>rotated.
     io_return (Printed
       [''re-signed '' @ show_nat rotated @ '' records under '' @ public_render (e_ext E) (secret_public (e_ext E) key)]
       [])))))"

text \<open>\<open>run\<close>: \<open>Inl\<close> is the state that \<open>serve\<close> hands to the shards.\<close>

definition boot_run ::
  "host \<Rightarrow> ('e, 'z, 'f, 'h, 'd, 'r, 't) env \<Rightarrow> command \<Rightarrow>
     ('f \<times> 'd, boot_error, prepared + outcome) io" where
  "boot_run H E cmd =
     (case cmd of
        Cmd_Serve args \<Rightarrow> io_then (boot_serve H E args) (\<lambda>p. io_return (Inl p))
      | Cmd_Keygen name \<Rightarrow> io_return (Inr (boot_keygen H (e_ext E) name))
      | Cmd_Token \<Rightarrow> io_return (Inr (Printed [token_generate (e_ext E) (ho_entropy H)] []))
      | Cmd_Delete args \<Rightarrow> io_then (boot_delete H E args) (\<lambda>out. io_return (Inr out))
      | Cmd_Reconcile data_dir \<Rightarrow> io_then (boot_reconcile H E data_dir) (\<lambda>out. io_return (Inr out))
      | Cmd_Rotate args \<Rightarrow> io_then (boot_rotate H E args) (\<lambda>out. io_return (Inr out)))"

end
