(* ===== verification/ServeSpec.thy ===== *)
theory ServeSpec
  imports UploadSpec HandlerTotal Boot
begin

text \<open>
  The properties of serving: who may change anything, what a client is sent, where one message
  ends and the next begins, and what the commands make of their arguments. The witnesses run on
  the instances of \<open>SampleWorld\<close>.
\<close>

section \<open>Dispatch\<close>

lemma handle_routed:
  assumes "handle S E ca ex x = (Inr k, x')" "rq_framing (ex_request ex) \<noteq> FrameChunked"
    and "route_resolve (e_ext E) (rq_target (ex_request ex)) = Inr rt"
  obtains x1 where "hs_world x1 = hs_world x" "hs_conn x1 = hs_conn x"
    "(case rt of
        R_CacheInfo \<Rightarrow> h_cache_info S ca ex
      | R_Metrics \<Rightarrow> h_metrics S E ex
      | R_Narinfo key \<Rightarrow> h_narinfo S E ca ex key
      | R_Nar url \<Rightarrow> h_nar S E ca ex url) x1 = (Inr k, x')"
proof -
  from assms(1) [unfolded handle_def Let_def] obtain u x1 where
    b: "h_bump (ex_shard ex) C_Requests 1 x = (Inr u, x1)" and
    k: "(if rq_framing (ex_request ex) = FrameChunked then answer S (ex_request ex) S_NotImplemented Unread
      else case route_resolve (e_ext E) (rq_target (ex_request ex)) of
        Inl (RE_Unknown _) \<Rightarrow> answer S (ex_request ex) S_NotFound Unread
      | Inl _ \<Rightarrow> answer S (ex_request ex) S_BadRequest Unread
      | Inr R_CacheInfo \<Rightarrow> h_cache_info S ca ex
      | Inr R_Metrics \<Rightarrow> h_metrics S E ex
      | Inr (R_Narinfo key) \<Rightarrow> h_narinfo S E ca ex key
      | Inr (R_Nar url) \<Rightarrow> h_nar S E ca ex url) x1 = (Inr k, x')"
    by (elim io_then_InrE) blast
  have "hs_world x1 = hs_world x" "hs_conn x1 = hs_conn x"
    using b by (auto simp: h_bump_def split: option.splits)
  then show ?thesis using that k assms(2,3) by (cases rt) auto
qed

section \<open>Authority\<close>

lemma world_is_artifacts:
  "world_is V w x \<Longrightarrow> w_store (hs_world x) = w_store w \<and> w_db (hs_world x) = w_db w \<and>
     artifacts V root (w_fs (hs_world x)) = artifacts V root (w_fs w)"
  using same_view_artifacts by (auto simp: world_is_def)

text \<open>
  C4. Only an admitted \<open>PUT\<close> changes anything durable: any other request, however it ends, leaves the
  index and every artifact as they were, and an error on the way does not help it.
\<close>

theorem only_admitted_puts_change:
  assumes "fs_laws (e_fs E) V"
    and "rq_method (ex_request ex) \<noteq> Put \<or> admission_of (e_ext E) (ca_tokens ca) (ex_request ex) = Denied"
    and "handle S E ca ex x = (r, x')"
  shows "w_db (hs_world x') = w_db (hs_world x) \<and> w_store (hs_world x') = w_store (hs_world x) \<and>
    artifacts V root (w_fs (hs_world x')) = artifacts V root (w_fs (hs_world x))"
  using world_is_artifacts [OF io_keepsD [OF keeps_handle [OF assms(1,2)] assms(3) world_is_refl]] by blast

definition sample_cache :: "string list \<Rightarrow> cache" where
  "sample_cache ts = \<lparr>ca_ingest = sample_ingest, ca_tokens = tokens_new sample ts, ca_info = ''StoreDir: /nix/store''\<rparr>"

definition sample_serving :: "string \<Rightarrow> memfs \<Rightarrow> rows \<Rightarrow> (string \<times> string, memfs, rows) serving" where
  "sample_serving inp f d = \<lparr>hs_conn = conn_new (inp, []), hs_stats = shards_new 1,
     hs_world = \<lparr>w_store = \<lparr>st_root = [''d''], st_sequence = 0, st_pid = 1\<rparr>, w_fs = f, w_db = d\<rparr>\<rparr>"

theorem only_admitted_puts_change_witness:
  "w_db (hs_world (snd (handle string_sock (sample_env []) (sample_cache [''other''])
     \<lparr>ex_shard = 0, ex_request = sample_put ''/metrics'' 0\<rparr> (sample_serving [] no_files empty_rows)))) = empty_rows"
proof -
  let ?ex = "\<lparr>ex_shard = 0, ex_request = sample_put ''/metrics'' 0\<rparr>"
  have "credential sample ''Bearer secret'' = Some ''secret''"
    using credential_bearer [of "''secret''" sample] by (simp add: visible_def)
  moreover have "digest sample ''other'' \<noteq> digest sample ''secret''" by code_simp
  then have "admits sample (tokens_new sample [''other'']) ''secret'' = Denied"
    using admits_iff [OF sample_sha_laws sample_ct_laws, of "[''other'']" "''secret''"]
      admits_cases [of sample "tokens_new sample [''other'']" "''secret''"] by simp
  ultimately have "admission_of (e_ext (sample_env [])) (ca_tokens (sample_cache [''other''])) (ex_request ?ex) = Denied"
    by (simp add: sample_env_def sample_cache_def admission_of_def sample_put_def)
  moreover have "fs_laws (e_fs (sample_env [])) mem_fs_views" by (simp add: sample_env_def mem_fs_laws)
  ultimately show ?thesis
    using only_admitted_puts_change [of "sample_env []" mem_fs_views ?ex "sample_cache [''other'']"
        string_sock "sample_serving [] no_files empty_rows"]
    by (simp add: sample_serving_def prod_eq_iff)
qed

lemma no_tokens_denied: "admission_of X (tokens_new X []) rq = Denied"
  by (auto simp: admission_of_def admits_def tokens_new_def split: option.split)

lemma keeps_session:
  assumes "fs_laws (e_fs E) V" "ca_tokens ca = tokens_new (e_ext E) []"
  shows "io_keeps (world_is V w) (session S E ca shard turns)"
proof -
  have "io_keeps (world_is V w) (handle S E ca ex)" for ex
    using keeps_handle [OF assms(1)] no_tokens_denied assms(2) by metis
  then have "io_keeps (world_is V w) (session_turn S E ca shard)"
    unfolding session_turn_def by (auto split: option.splits sum.splits intro: frames)
  then show ?thesis by (induction turns) auto
qed

text \<open>
  C17. A server started without push tokens is read-only: whatever a peer sends over however many
  requests of one connection, no artifact and no record changes.
\<close>

theorem read_only_without_tokens:
  assumes "fs_laws (e_fs E) V"
    and "set (sv_push_token args) \<subseteq> {[]}" "sv_push_token_file args = None"
    and "push_tokens H (e_ext E) args = Inr (ca_tokens ca)"
    and "session S E ca shard turns x = (r, x')"
  shows "w_db (hs_world x') = w_db (hs_world x) \<and>
    artifacts V root (w_fs (hs_world x')) = artifacts V root (w_fs (hs_world x))"
proof -
  have "filter (\<lambda>t. t \<noteq> []) (sv_push_token args) = []" using assms(2) by (auto simp: filter_empty_conv)
  then have "ca_tokens ca = tokens_new (e_ext E) []"
    using assms(3,4) by (simp add: push_tokens_def configured_def Let_def)
  from world_is_artifacts [OF io_keepsD [OF keeps_session [OF assms(1) this] assms(5) world_is_refl]]
  show ?thesis by blast
qed

definition sample_args :: "string list \<Rightarrow> serve_args" where
  "sample_args ts = \<lparr>sv_data_dir = [''d''], sv_store_dir = ''/nix/store'',
     sv_listen = SocketV4 [0, 0, 0, 0] 5000, sv_secret_key_file = [''k''],
     sv_push_token = ts, sv_push_token_file = None, sv_shards = Some 1, sv_pin = False, sv_zstd_level = 3,
     sv_priority = 30, sv_want_mass_query = True, sv_stall_seconds = 5\<rparr>"

theorem read_only_without_tokens_witness:
  "w_db (hs_world (snd (session string_sock (sample_env []) (sample_cache []) 0 3
     (sample_serving ''PUT / HTTP/1.1'' no_files empty_rows)))) = empty_rows"
proof -
  let ?x = "sample_serving ''PUT / HTTP/1.1'' no_files empty_rows"
  obtain r x' where run: "session string_sock (sample_env []) (sample_cache []) 0 3 ?x = (r, x')" by fastforce
  have "fs_laws (e_fs (sample_env [])) mem_fs_views"
    "set (sv_push_token (sample_args [[]])) \<subseteq> {[]}" "sv_push_token_file (sample_args [[]]) = None"
    "push_tokens H (e_ext (sample_env [])) (sample_args [[]]) = Inr (ca_tokens (sample_cache []))" for H
    by (simp_all add: sample_env_def mem_fs_laws sample_args_def push_tokens_def configured_def sample_cache_def)
  from read_only_without_tokens [OF this run] run show ?thesis by (simp add: sample_serving_def)
qed

section \<open>Downloads\<close>

text \<open>
  C13. A \<open>GET\<close> of a stored artifact that is answered sends exactly one response: the head for the
  requested span followed by exactly the bytes of that span, or, for a range outside the artifact,
  the refusal that states its length. The connection is kept as the request asked, and nothing of
  what the peer sends next is consumed.
\<close>

theorem get_sends_requested_span:
  assumes "sock_laws S W" "fs_laws (e_fs E) V" "narurl_ok u" "query q"
    and "rq_method (ex_request ex) = Get" "rq_framing (ex_request ex) \<noteq> FrameChunked"
    and "rq_target (ex_request ex) = slash # nar_url u @ q"
    and "artifacts V (w_root (hs_world x)) (w_fs (hs_world x)) u = Some bs" "bs \<noteq> []" "length bs < 2 ^ 64"
    and "handle S E ca ex x = (Inr k, x')"
  shows "k = rq_keep_alive (ex_request ex) \<and> to_come W x' = to_come W x \<and>
    (\<exists>answer. said W x' = said W x @ answer \<and>
      (case granted (rq_range (ex_request ex)) (u64_from_usize (length bs)) of
         Some sp \<Rightarrow> unat (first sp) \<le> unat (last_byte sp) \<and> unat (last_byte sp) < length bs \<and>
           answer = head_finish (partial_head (ex_request ex) sp (u64_from_usize (length bs))) @
             take (unat (span_len sp)) (drop (unat (first sp)) bs)
       | None \<Rightarrow> answer = head_finish (unsatisfiable_head (ex_request ex) (u64_from_usize (length bs)))))"
proof -
  let ?rq = "ex_request ex" and ?len = "u64_from_usize (length bs)"
  have "route_resolve (e_ext E) (rq_target ?rq) = Inr (R_Nar u)"
    using route_resolve_nar [OF assms(3,4)] assms(7) by simp
  from handle_routed [OF assms(11,6) this] obtain x1 where
    x1: "hs_world x1 = hs_world x" "hs_conn x1 = hs_conn x" and "h_nar S E ca ex u x1 = (Inr k, x')" by auto
  then have run: "h_stream S E ex u x1 = (Inr k, x')" using assms(5) by (simp add: h_nar_def)
  from h_stream_sends [OF assms(1-3) _ assms(9,10) run] assms(8) x1
  have sends: "to_come W x' = to_come W x" "k = rq_keep_alive ?rq" "said W x' = said W x @ payload_answer ?rq bs"
    by simp_all
  have len: "unat ?len = length bs" using assms(10) by (simp add: unat_u64_from_usize)
  have span: "unat (first sp) \<le> unat (last_byte sp) \<and> unat (last_byte sp) < length bs \<and>
      part bs (unat (first sp)) (unat (last_byte sp)) = take (unat (span_len sp)) (drop (unat (first sp)) bs)"
    if "granted (rq_range ?rq) ?len = Some sp" for sp
  proof -
    have "?len \<noteq> 0" using len assms(9) by (auto simp: unat_eq_zero)
    from granted_in [OF that this] have i: "span_in sp ?len" .
    then have n: "unat (first sp) \<le> unat (last_byte sp)" "unat (last_byte sp) < length bs"
      using len by (simp_all add: span_in_def word_le_nat_alt word_less_nat_alt)
    then show ?thesis using unat_span_len(1) [OF i] by (simp add: part_def Suc_diff_le)
  qed
  show ?thesis
    using sends span by (simp add: payload_answer_def Let_def split: option.split)
qed

definition sample_get :: "string \<Rightarrow> string option \<Rightarrow> request" where
  "sample_get target rg = \<lparr>rq_method = Get, rq_target = target, rq_framing = FrameEmpty,
     rq_keep_alive = Keep, rq_expectation = ExpectNone, rq_range = rg, rq_authorization = None\<rparr>"

lemma sample_get_simps [simp]:
  "rq_method (sample_get t rg) = Get" "rq_target (sample_get t rg) = t" "rq_framing (sample_get t rg) = FrameEmpty"
  "rq_keep_alive (sample_get t rg) = Keep" "rq_range (sample_get t rg) = rg"
  by (simp_all add: sample_get_def)

text \<open>Steps of the handlers on the instances of \<open>SampleWorld\<close>.\<close>

lemma mem_bump [simp]:
  "hs_stats x = [s] \<Longrightarrow> h_bump 0 c n x = (Inr (), x\<lparr>hs_stats := [bump c n s]\<rparr>)"
  by (simp add: h_bump_def shards_bump_def shards_get_def)

lemma mem_write [simp]:
  "on_conn (conn_write string_sock bs) x =
     (Inr (), x\<lparr>hs_conn := (hs_conn x)\<lparr>cn_stream := (fst (cn_stream (hs_conn x)), snd (cn_stream (hs_conn x)) @ bs)\<rparr>\<rparr>)"
  by (simp add: on_conn_def conn_write_def string_sock_def split: prod.split)

lemma sample_stats [simp]: "hs_stats (sample_serving i f d) = [shard_default]"
  by (simp add: sample_serving_def shards_new_def)

lemma mem_open_artifact:
  assumes "w_fs (hs_world x) = stored_file u bs" "w_root (hs_world x) = [''d'']" "length bs < 2 ^ 64"
  shows "open_artifact (sample_env rs) u x =
    (Inr (Some \<lparr>rr_file = 1, rr_path = store_path [''d''] u, rr_size = of_nat (length bs)\<rparr>), x)"
  using assms
  by (simp add: open_artifact_def on_world_def on_fs_def store_read_def sample_env_def mem_fsys_def stored_file_def
      Let_def io_run)

lemma mem_pump:
  assumes "w_fs (hs_world x) = stored_file u ''nar''" "rr_file rd = 1"
  shows "\<exists>n x'. pump string_sock mem_fsys rd \<lparr>first = 1, last_byte = 2\<rparr> x = (Inr n, x') \<and> hs_stats x' = hs_stats x"
proof -
  let ?sp = "\<lparr>first = 1, last_byte = 2\<rparr>"
  have read: "on_world HE_Store (on_fs (reader_read_at mem_fsys rd SEND_CHUNK 1)) x = (Inr ''ar'', x)"
    using assms by (simp add: on_world_def on_fs_def reader_read_at_def io_run mem_fsys_def stored_file_def SEND_CHUNK_def)
  have len: "u64_from_usize SEND_CHUNK = 262144" "u64_from_usize (Suc (Suc 0)) = 2"
    by (simp_all add: SEND_CHUNK_def u64_from_usize_def)
  have "\<exists>n x'. pump_loop string_sock mem_fsys rd ?sp (Suc k) 1 x = (Inr n, x') \<and> hs_stats x' = hs_stats x" for k
    by (subst pump_loop.simps) (simp add: io_then_def read Let_def len pump_loop.simps [of _ _ _ _ k])
  moreover have "unat (span_len ?sp) = Suc 1" by (simp add: span_len_def)
  ultimately show ?thesis unfolding pump_def by simp
qed

lemma range_one: "range_resolve (Some ''bytes=1-'') 3 = Partial \<lparr>first = 1, last_byte = 2\<rparr>"
proof -
  have "show_u64 1 = ''1''" by code_simp
  then show ?thesis using range_resolve_open [of 1 3] by (simp add: word_le_nat_alt)
qed

abbreviation sample_range :: request where
  "sample_range \<equiv> sample_get (slash # nar_url sample_artifact) (Some ''bytes=1-'')"

lemma mem_get_run:
  "\<exists>k x'. handle string_sock (sample_env []) (sample_cache []) \<lparr>ex_shard = 0, ex_request = sample_range\<rparr>
     (sample_serving [] (stored_file sample_artifact ''nar'') empty_rows) = (Inr k, x')"
proof -
  have route: "route_resolve (e_ext (sample_env [])) (rq_target sample_range) = Inr (R_Nar sample_artifact)"
    using route_resolve_nar [OF sample_artifact_ok, of "[]" sample]
    by (simp add: query_def sample_env_def)
  let ?x = "sample_serving [] (stored_file sample_artifact ''nar'') empty_rows"
  have op: "open_artifact (sample_env []) sample_artifact y =
    (Inr (Some \<lparr>rr_file = 1, rr_path = store_path [''d''] sample_artifact, rr_size = 3\<rparr>), y)"
    if "hs_world y = hs_world ?x" for y :: "(string \<times> string, memfs, rows) serving"
    using mem_open_artifact [of y sample_artifact "''nar''" "[]"] that by (simp add: sample_serving_def)
  show ?thesis
  proof -
    obtain x1 where x1: "h_bump 0 C_Requests 1 ?x = (Inr (), x1)" "hs_world x1 = hs_world ?x"
      "hs_stats x1 = [bump C_Requests 1 shard_default]" by simp
    let ?h = "head_finish (partial_head sample_range \<lparr>first = 1, last_byte = 2\<rparr> 3)"
    obtain x2 where x2: "on_conn (conn_write string_sock ?h) x1 = (Inr (), x2)" "hs_world x2 = hs_world x1"
      "hs_stats x2 = hs_stats x1" by simp
    let ?rd = "\<lparr>rr_file = 1, rr_path = store_path [''d''] sample_artifact, rr_size = 3\<rparr>"
    obtain n x3 where x3: "pump string_sock mem_fsys ?rd \<lparr>first = 1, last_byte = 2\<rparr> x2 = (Inr n, x3)"
      "hs_stats x3 = hs_stats x2"
      using mem_pump [of x2 sample_artifact ?rd] x1 x2 by (auto simp: sample_serving_def)
    have "hs_stats x3 = [bump C_Requests 1 shard_default]" using x1(3) x2(3) x3(2) by simp
    then have "\<exists>x'. h_stream string_sock (sample_env []) \<lparr>ex_shard = 0, ex_request = sample_range\<rparr> sample_artifact x1 =
        (Inr Keep, x')"
      using op [OF x1(2)] x2(1) x3(1)
      by (simp add: h_stream_def Let_def io_then_def range_one stream_span_def sample_env_def)
    then show ?thesis using x1(1) route
      by (auto simp: handle_def Let_def io_then_def h_nar_def)
  qed
qed

theorem get_sends_requested_span_witness:
  "said string_views (snd (handle string_sock (sample_env []) (sample_cache [])
     \<lparr>ex_shard = 0, ex_request = sample_range\<rparr> (sample_serving [] (stored_file sample_artifact ''nar'') empty_rows))) =
   head_finish (partial_head sample_range \<lparr>first = 1, last_byte = 2\<rparr> 3) @ ''ar''"
proof -
  let ?ex = "\<lparr>ex_shard = 0, ex_request = sample_range\<rparr>" and ?f = "stored_file sample_artifact ''nar''"
  let ?x = "sample_serving [] ?f empty_rows"
  obtain k x' where run: "handle string_sock (sample_env []) (sample_cache []) ?ex ?x = (Inr k, x')"
    using mem_get_run by blast
  have stored: "artifacts mem_fs_views (w_root (hs_world ?x)) (w_fs (hs_world ?x)) sample_artifact = Some ''nar''"
    using stored_file_artifact [OF sample_artifact_ok] by (simp add: sample_serving_def)
  have "granted (rq_range sample_range) (u64_from_usize (length ''nar'')) = Some \<lparr>first = 1, last_byte = 2\<rparr>"
    by (simp add: granted_def u64_from_usize_def range_one)
  with get_sends_requested_span [OF string_sock_laws _ sample_artifact_ok _ _ _ _ stored _ _ run, of "[]"]
  have "said string_views x' = said string_views ?x @ head_finish (partial_head sample_range
      \<lparr>first = 1, last_byte = 2\<rparr> 3) @ take (unat (span_len \<lparr>first = 1, last_byte = 2\<rparr>)) (drop (unat (1 :: u64)) ''nar'')"
    by (simp add: sample_env_def mem_fs_laws query_def u64_from_usize_def)
  then show ?thesis using run by (simp add: sample_serving_def string_views_def span_len_def)
qed

text \<open>
  Every request on every connection comes to an end: the shard's counters are there, and the
  pump returns although files may change under it and reads may answer as little as they like.
\<close>

lemma handlers_return:
  assumes "ex_shard ex < length (hs_stats x)" "shard < length (hs_stats x)"
  shows "fst (handle S E ca ex x) \<noteq> Inl HE_Hang \<and> fst (handle S E ca ex x) \<noteq> Inl HE_Panic \<and>
    fst (session S E ca shard turns x) \<noteq> Inl HE_Hang \<and> fst (session S E ca shard turns x) \<noteq> Inl HE_Panic"
  using saneD [OF sane_handle [OF refl] prod.collapse [symmetric] assms(1)]
    saneD [OF sane_session prod.collapse [symmetric] assms(2)] by metis

lemma handlers_return_witness:
  "fst (handle string_sock (sample_env []) (sample_cache []) \<lparr>ex_shard = 0, ex_request = sample_range\<rparr>
     (sample_serving [] (stored_file sample_artifact ''nar'') empty_rows)) \<noteq> Inl HE_Hang"
  using handlers_return [of "\<lparr>ex_shard = 0, ex_request = sample_range\<rparr>"
      "sample_serving [] (stored_file sample_artifact ''nar'') empty_rows" 0, where S = string_sock
      and E = "sample_env []" and ca = "sample_cache []"] by simp

section \<open>Message boundaries\<close>

text \<open>
  C18. Where a message ends depends on the bytes the peer sent and not on how they arrived: two
  connections with the same bytes outstanding hand out the same head and the same body and leave
  the same rest, whatever the reads return and whatever is buffered.
\<close>

theorem messages_split_by_content:
  assumes "sock_laws S V" "sock_laws T W" "pending V c = pending W d"
  shows "(conn_head S c = (Inr h, c') \<longrightarrow> conn_head T d = (Inr g, d') \<longrightarrow> h = g \<and> pending V c' = pending W d') \<and>
    (conn_body S n c = (Inr b, c') \<longrightarrow> conn_body T n d = (Inr a, d') \<longrightarrow> b = a \<and> pending V c' = pending W d') \<and>
    (conn_discard S n c = (Inr (), c') \<longrightarrow> conn_discard T n d = (Inr (), d') \<longrightarrow> pending V c' = pending W d')"
proof (intro conjI impI)
  assume run: "conn_head S c = (Inr h, c')" "conn_head T d = (Inr g, d')"
  note e1 = conn_head_effect [OF assms(1) run(1)] and e2 = conn_head_effect [OF assms(2) run(2)]
  have "h = g \<and> pending V c' = pending W d'"
  proof (cases h)
    case None
    then show ?thesis using e1 e2 assms(3) by (cases g) (auto simp: head_len_def)
  next
    case (Some s)
    then show ?thesis using e1 e2 assms(3) by (cases g) (auto simp: head_len_def append_eq_append_conv)
  qed
  then show "h = g" "pending V c' = pending W d'" by blast+
next
  assume run: "conn_body S n c = (Inr b, c')" "conn_body T n d = (Inr a, d')"
  have "b = a \<and> pending V c' = pending W d'"
    using conn_body_effect [OF assms(1) run(1)] conn_body_effect [OF assms(2) run(2)] assms(3)
    by (auto simp: append_eq_append_conv)
  then show "b = a" "pending V c' = pending W d'" by blast+
next
  assume run: "conn_discard S n c = (Inr (), c')" "conn_discard T n d = (Inr (), d')"
  then show "pending V c' = pending W d'"
    using conn_discard_effect [OF assms(1) run(1)] conn_discard_effect [OF assms(2) run(2)] assms(3)
    by (auto simp: append_eq_append_conv)
qed

theorem messages_split_by_content_witness:
  "\<exists>c'. conn_body string_sock 3 \<lparr>cn_stream = (''arGET'', []), cn_buffer = ''n''\<rparr> = (Inr ''nar'', c') \<and>
     pending string_views c' = ''GET''"
proof -
  let ?c = "\<lparr>cn_stream = (''arGET'', []), cn_buffer = ''n''\<rparr>" and ?d = "\<lparr>cn_stream = ([], []), cn_buffer = ''narGET''\<rparr>"
  have pend: "pending string_views ?c = pending string_views ?d" by (simp add: pending_def string_views_def)
  have d: "conn_body string_sock 3 ?d = (Inr ''nar'', \<lparr>cn_stream = ([], []), cn_buffer = ''GET''\<rparr>)"
    by (subst conn_body.simps) simp
  have "fill string_sock ?c = (Inr 5, ?d)" by (simp add: fill_def string_sock_def READ_CHUNK_def)
  then have "conn_body string_sock 3 ?c = conn_body string_sock 3 ?d"
    by (simp add: conn_body.simps [of string_sock 3 ?c])
  then obtain b c' where c: "conn_body string_sock 3 ?c = (Inr b, c')" using d by simp
  from messages_split_by_content [OF string_sock_laws string_sock_laws pend] c d
  have "b = ''nar'' \<and> pending string_views c' = pending string_views \<lparr>cn_stream = ([], []), cn_buffer = ''GET''\<rparr>"
    by blast
  with c show ?thesis by (simp add: pending_def string_views_def)
qed

end
