(* ===== verification/SampleServe.thy ===== *)
theory SampleServe
  imports ServeSpec
begin

text \<open>
  Whole requests on the instances of \<open>SampleWorld\<close>, step by step: a \<open>PUT\<close> of a NAR, a \<open>PUT\<close> of a narinfo
  and a \<open>HEAD\<close>. The witnesses of the push properties rest on them.
\<close>

definition nar_target :: narurl where
  "nar_target = \<lparr>file_hash = digest sample ''nar'', compression = NoCompression\<rparr>"

definition push_env :: "(string, string \<times> string, memfs, nat, rows, rows, rows) env" where
  "push_env = (sample_env [])\<lparr>e_rkyv := known_rkyv [] [stored_entry sample ''nar'' ''nar'']\<rparr>"

lemma sample_put_simps [simp]:
  "rq_method (sample_put t n) = Put" "rq_target (sample_put t n) = t" "rq_framing (sample_put t n) = FrameLength n"
  "rq_keep_alive (sample_put t n) = Keep" "rq_authorization (sample_put t n) = Some ''Bearer secret''"
  "rq_expectation (sample_put t n) = ExpectNone"
  by (simp_all add: sample_put_def)

lemma sample_serving_simps:
  "hs_conn (sample_serving i f d) = conn_new (i, [])" "w_fs (hs_world (sample_serving i f d)) = f"
  "w_db (hs_world (sample_serving i f d)) = d" "w_root (hs_world (sample_serving i f d)) = [''d'']"
  by (simp_all add: sample_serving_def)

lemma push_env_simps [simp]:
  "e_ext push_env = sample" "e_zstd push_env = copy_zstd" "e_fs push_env = mem_fsys" "e_redb push_env = mem_redb"
  "e_rkyv push_env = known_rkyv [] [stored_entry sample ''nar'' ''nar'']"
  by (simp_all add: push_env_def sample_env_def)

lemma sample_admitted:
  "admission_of sample (tokens_new sample [''secret'']) (sample_put t n) = Admitted"
proof -
  have "credential sample ''Bearer secret'' = Some ''secret''"
    using credential_bearer [of "''secret''" sample] by (simp add: visible_def)
  then show ?thesis using admits_iff [OF sample_sha_laws sample_ct_laws, of "[''secret'']" "''secret''"]
    by (simp add: admission_of_def)
qed

lemma sample_admit:
  "admit sample (sample_cache [''secret'']) \<lparr>ex_shard = 0, ex_request = sample_put t n\<rparr> x = (Inr Admitted, x)"
  using sample_admitted by (simp add: admit_def sample_cache_def Let_def io_return_def)

lemma mem_receive:
  assumes "w_fs w = no_files" "w_root w = [''d'']" "staging_name (w_store w) = ''1-0.nar''"
  shows "\<exists>w'. ingest_receive push_env sample_ingest nar_target w =
      (Inr \<lparr>up_staged = sample_staged 0, up_expected = digest sample ''nar'',
       up_state = \<lparr>rc_encoder = ([], []), rc_nar = hasher_default sample, rc_file = hasher_default sample, rc_nar_size = 0\<rparr>\<rparr>, w') \<and>
     w_fs w' = staged_files [] \<and> w_db w' = w_db w \<and> w_root w' = w_root w"
  using assms
  by (simp add: ingest_receive_def nar_target_def io_run on_store_def stage_def mem_fsys_def no_files_def Let_def
      fresh_file_def on_fs_def upload_new_def copy_zstd_def staged_files_def sample_staged_def)

lemma mem_chunk:
  "conn_chunk string_sock 3 \<lparr>cn_stream = (''narX'', out), cn_buffer = []\<rparr> =
     (Inr (''nar'', 0), \<lparr>cn_stream = ([], out), cn_buffer = ''X''\<rparr>)"
  by (simp add: conn_chunk_def fill_def string_sock_def READ_CHUNK_def take_chunk_def Let_def u64_from_usize_def)

lemma receive_loop_once:
  assumes "conn_chunk S n (hs_conn x) = (Inr (bs, 0), c)" "n \<noteq> 0" "bs \<noteq> []"
    and "upload_write (e_ext E) (e_zstd E) (e_fs E) bs (u, w_fs (hs_world x)) = (Inr (), (v, f))"
  shows "receive_loop S E u n x = (Inr v, put_fs f (x\<lparr>hs_conn := c\<rparr>))"
  using assms by (simp add: receive_loop.simps [of S E u n] receive_loop.simps [of S E v 0])

lemma mem_write_nar:
  assumes "up_state u = \<lparr>rc_encoder = ([], []), rc_nar = hasher_default sample, rc_file = hasher_default sample, rc_nar_size = 0\<rparr>"
  shows "upload_write sample copy_zstd mem_fsys ''nar'' (u, f) = (Inr (), (u\<lparr>up_state := \<lparr>rc_encoder = ([], ''nar''),
      rc_nar = hasher_update sample (hasher_default sample) ''nar'', rc_file = hasher_default sample, rc_nar_size = 3\<rparr>\<rparr>, f))"
  using assms by (simp add: upload_write_def Let_def copy_zstd_def DRAIN_THRESHOLD_def u64_from_usize_def)

lemma settle_done:
  assumes "upload_finish (e_ext E) (e_zstd E) (e_fs E) u (w_fs (hs_world x)) = (Inr c, f1)"
    and "upload_verify (e_fs E) c f1 = (Inr v, f2)"
    and "upload_store (e_fs E) (e_redb E) (e_rkyv E) (w_root (hs_world x)) v (f2, w_db (hs_world x)) = (Inr e, (f3, d3))"
    and "hs_stats x = [s]" "ex_shard ex = 0"
  shows "\<exists>x'. settle_upload string_sock E ex u x = (Inr (rq_keep_alive (ex_request ex)), x')"
  using assms
  by (simp add: settle_upload_def Let_def io_then_def on_world_def on_fs_def on_fs_db_def put_fs_def answer_def
      io_return_def kept_def)

lemma splice_end: "splice bs (length bs) new = bs @ new"
  by (simp add: splice_def)

lemma mem_staged_write:
  assumes "length bs + length new < 2 ^ 64"
  shows "staged_write mem_fsys new (sample_staged (of_nat (length bs))) (staged_files bs) =
     (Inr (sample_staged (of_nat (length bs) + of_nat (length new))), staged_files (bs @ new))"
  using assms
  by (simp add: staged_write_def io_run mem_fsys_def sample_staged_def staged_files_def splice_end unat_of_nat64
      u64_from_usize_def)

lemma mem_finish:
  "\<exists>c f1 v e fd. upload_finish sample copy_zstd mem_fsys \<lparr>up_staged = sample_staged 0, up_expected = digest sample ''nar'',
       up_state = \<lparr>rc_encoder = ([], ''nar''), rc_nar = hasher_update sample (hasher_default sample) ''nar'',
         rc_file = hasher_default sample, rc_nar_size = 3\<rparr>\<rparr> (staged_files []) = (Inr c, f1) \<and>
     upload_verify mem_fsys c f1 = (Inr v, f1) \<and>
     upload_store mem_fsys mem_redb (e_rkyv push_env) [''d''] v (f1, empty_rows) = (Inr e, fd)"
proof -
  let ?c = "\<lparr>up_staged = sample_staged 3, up_expected = digest sample ''nar'',
    up_state = \<lparr>cm_nar_hash = digest sample ''nar'', cm_nar_size = 3, cm_file_hash = digest sample ''nar'', cm_file_size = 3\<rparr>\<rparr>"
  have w: "staged_write mem_fsys ''nar'' (sample_staged 0) (staged_files []) = (Inr (sample_staged 3), staged_files ''nar'')"
    "staged_write mem_fsys [] (sample_staged 3) (staged_files ''nar'') = (Inr (sample_staged 3), staged_files ''nar'')"
    using mem_staged_write [of "[]" "''nar''"] mem_staged_write [of "''nar''" "[]"] by simp_all
  have c: "upload_finish sample copy_zstd mem_fsys \<lparr>up_staged = sample_staged 0, up_expected = digest sample ''nar'',
       up_state = \<lparr>rc_encoder = ([], ''nar''), rc_nar = hasher_update sample (hasher_default sample) ''nar'',
         rc_file = hasher_default sample, rc_nar_size = 3\<rparr>\<rparr> (staged_files []) = (Inr ?c, staged_files ''nar'')"
    by (simp add: upload_finish_def upload_drain_def copy_zstd_def Let_def w digest_def)
      (simp add: hasher_finish_def hasher_update_def sample_def sample_staged_def)
  let ?v = "\<lparr>up_staged = sample_staged 3, up_expected = digest sample ''nar'',
    up_state = \<lparr>vf_nar_hash = digest sample ''nar'', vf_nar_size = 3, vf_file_hash = digest sample ''nar'', vf_file_size = 3\<rparr>\<rparr>"
  have v: "upload_verify mem_fsys ?c (staged_files ''nar'') = (Inr ?v, staged_files ''nar'')"
    by (simp add: upload_verify_def)
  obtain n g where m: "staged_commit mem_fsys [''d''] (sample_staged 3) (verified_url (up_state ?v)) (staged_files ''nar'') = (Inr n, g)"
    by (simp add: staged_commit_def Let_def io_run mem_fsys_def staged_files_def sample_staged_def)
  have "verified_entry (up_state ?v) = stored_entry sample ''nar'' ''nar''"
    by (simp add: verified_entry_def stored_entry_def u64_from_usize_def)
  then obtain d where "index_put_nar mem_redb (e_rkyv push_env) (digest sample ''nar'') (verified_entry (up_state ?v)) empty_rows = (Inr (), d)"
    by (simp add: index_put_nar_def with_write_def open_write_def io_run mem_redb_def known_rkyv_def)
  with m have "upload_store mem_fsys mem_redb (e_rkyv push_env) [''d''] ?v (staged_files ''nar'', empty_rows) =
      (Inr (verified_entry (up_state ?v)), (g, d))"
    by (simp add: upload_store_def)
  with c v show ?thesis by blast
qed

abbreviation sample_push :: exchange where
  "sample_push \<equiv> \<lparr>ex_shard = 0, ex_request = sample_put (slash # nar_url nar_target) 3\<rparr>"

lemma mem_push_run:
  "\<exists>x'. handle string_sock push_env (sample_cache [''secret'']) sample_push
     (sample_serving ''narX'' no_files empty_rows) = (Inr Keep, x')"
proof -
  let ?x = "sample_serving ''narX'' no_files empty_rows" and ?ca = "sample_cache [''secret'']"
  have "narurl_ok nar_target" by (simp add: narurl_ok_def nar_target_def sha_ok_digest sample_sha_laws)
  then have route: "route_resolve sample (slash # nar_url nar_target) = Inr (R_Nar nar_target)"
    using route_resolve_nar [of nar_target "[]" sample] by (simp add: query_def)
  define x1 where "x1 = ?x\<lparr>hs_stats := [bump C_Requests 1 shard_default]\<rparr>"
  then have x1: "h_bump 0 C_Requests 1 ?x = (Inr (), x1)" "hs_world x1 = hs_world ?x" "hs_conn x1 = hs_conn ?x"
    "hs_stats x1 = [bump C_Requests 1 shard_default]" by simp_all
  have "staging_name (w_store (hs_world ?x)) = ''1-0.nar''" by code_simp
  then obtain u w' where u: "ingest_receive push_env sample_ingest nar_target (hs_world x1) =
      (Inr \<lparr>up_staged = sample_staged 0, up_expected = digest sample ''nar'',
       up_state = \<lparr>rc_encoder = ([], []), rc_nar = hasher_default sample, rc_file = hasher_default sample, rc_nar_size = 0\<rparr>\<rparr>, w')"
    and w': "w_fs w' = staged_files []" "w_db w' = empty_rows" "w_root w' = [''d'']"
    using mem_receive [of "hs_world x1"] x1(2) by (auto simp: sample_serving_def)
  let ?u = "\<lparr>up_staged = sample_staged 0, up_expected = digest sample ''nar'',
       up_state = \<lparr>rc_encoder = ([], []), rc_nar = hasher_default sample, rc_file = hasher_default sample, rc_nar_size = 0\<rparr>\<rparr>"
  let ?v = "?u\<lparr>up_state := \<lparr>rc_encoder = ([], ''nar''), rc_nar = hasher_update sample (hasher_default sample) ''nar'',
         rc_file = hasher_default sample, rc_nar_size = 3\<rparr>\<rparr>"
  let ?x2 = "x1\<lparr>hs_world := w'\<rparr>"
  have "hs_conn ?x2 = \<lparr>cn_stream = (''narX'', []), cn_buffer = []\<rparr>"
    using x1(3) by (simp add: sample_serving_def conn_new_def)
  then obtain x3 where loop: "receive_loop string_sock push_env ?u 3 ?x2 = (Inr ?v, x3)"
    and x3: "hs_world x3 = w'" "hs_stats x3 = [bump C_Requests 1 shard_default]"
    using receive_loop_once [of string_sock 3 ?x2 "''nar''" _ push_env ?u ?v "staged_files []"] mem_chunk
      mem_write_nar [of ?u "staged_files []"] w' x1(4) by (simp add: put_fs_def)
  obtain c f1 v e f3 d3 where fin:
    "upload_finish (e_ext push_env) (e_zstd push_env) (e_fs push_env) ?v (w_fs (hs_world x3)) = (Inr c, f1)"
    "upload_verify (e_fs push_env) c f1 = (Inr v, f1)"
    "upload_store (e_fs push_env) (e_redb push_env) (e_rkyv push_env) (w_root (hs_world x3)) v
       (f1, w_db (hs_world x3)) = (Inr e, (f3, d3))"
    using mem_finish w' x3(1) by auto
  obtain x' where st: "settle_upload string_sock push_env sample_push ?v x3 = (Inr Keep, x')"
    using settle_done [OF fin x3(2), of sample_push] by auto
  have "h_receive string_sock push_env ?ca sample_push nar_target x1 = (Inr Keep, x')"
    using sample_admit [of "slash # nar_url nar_target" 3 x1] u loop st
    by (simp add: h_receive_def Let_def io_then_def proceed_def io_return_def sample_cache_def)
  then show ?thesis using x1(1) route by (simp add: handle_def Let_def io_then_def h_nar_def)
qed

abbreviation sample_publish :: exchange where
  "sample_publish \<equiv> \<lparr>ex_shard = 0, ex_request =
     sample_put (slash # hash_display (SpHash (replicate 20 3)) @ NARINFO_SUFFIX) (of_nat (length sample_body))\<rparr>"

lemma ascii_encode [simp]: "ascii (encode bs)"
proof -
  have "ascii ALPHABET" by code_simp
  then show ?thesis using set_encode [of bs] by (auto simp: ascii_def)
qed

lemma sample_body_text: "length sample_body < 4096" "from_utf8 sample_body = Inr sample_body"
proof -
  have nums: "show_u64 10 = ''10''" "show_u64 20 = ''20''" by code_simp+
  have "ascii sample_body"
    using nar_name_ascii by (simp add: Narinfo.render_def sample_record_def nums dir_print_def path_display_def
        hash_display_def sha_display_def sha_base32_def nar_url_def PREFIX_def sample_path_def)
  then show "from_utf8 sample_body = Inr sample_body" by (rule from_utf8_ascii)
  show "length sample_body < 4096"
    by (simp add: Narinfo.render_def sample_record_def nums dir_print_def path_display_def sample_hash_def text_len_def
        BITS_def hash_display_def sha_display_def sha_base32_def nar_url_def nar_name_def PREFIX_def sample_path_def
        ni_nar_def)
qed

lemma mem_body:
  assumes "length bs < 4096"
  shows "conn_body string_sock (of_nat (length bs)) (conn_new (bs, out)) =
    (Inr bs, \<lparr>cn_stream = ([], out), cn_buffer = []\<rparr>)"
proof -
  have n: "unat (of_nat (length bs) :: u64) = length bs" using assms by (simp add: unat_of_nat64)
  have f: "fill string_sock (conn_new (bs, out)) = (Inr (length bs), \<lparr>cn_stream = ([], out), cn_buffer = bs\<rparr>)"
    using assms by (simp add: fill_def string_sock_def conn_new_def READ_CHUNK_def)
  have b: "conn_body string_sock (of_nat (length bs)) \<lparr>cn_stream = ([], out), cn_buffer = bs\<rparr> =
      (Inr bs, \<lparr>cn_stream = ([], out), cn_buffer = []\<rparr>)"
    by (subst conn_body.simps) (simp add: n)
  show ?thesis
  proof (cases "bs = []")
    case True
    with b show ?thesis by (simp add: conn_new_def)
  next
    case False
    then show ?thesis using f n b by (subst conn_body.simps) (simp add: conn_new_def)
  qed
qed

lemma mem_publish_run:
  "\<exists>x'. handle string_sock (sample_env [sample_published]) (sample_cache [''secret'']) sample_publish
     (sample_serving sample_body no_files uploaded_rows) = (Inr Keep, x')"
proof -
  let ?x = "sample_serving sample_body no_files uploaded_rows" and ?ca = "sample_cache [''secret'']"
  let ?E = "sample_env [sample_published]" and ?h = "SpHash (replicate 20 3)"
  have route: "route_resolve sample (slash # hash_display ?h @ NARINFO_SUFFIX) = Inr (R_Narinfo ?h)"
    using route_resolve_narinfo [of ?h "[]" sample] by (simp add: hash_ok_def query_def)
  define x1 where "x1 = ?x\<lparr>hs_stats := [bump C_Requests 1 shard_default]\<rparr>"
  then have x1: "h_bump 0 C_Requests 1 ?x = (Inr (), x1)" "hs_world x1 = hs_world ?x" "hs_conn x1 = conn_new (sample_body, [])"
    by (simp_all add: sample_serving_simps)
  define x2 where "x2 = x1\<lparr>hs_conn := \<lparr>cn_stream = ([], []), cn_buffer = []\<rparr>\<rparr>"
  then have x2: "on_conn (conn_body string_sock (of_nat (length sample_body))) x1 = (Inr sample_body, x2)"
    "hs_world x2 = hs_world x1"
    using mem_body [OF sample_body_text(1), of "[]"] x1(3) by (simp_all add: on_conn_def)
  have pub: "on_db (ingest_publish ?E sample_ingest sample_body) (hs_world x2) = (Inr sample_published,
      (hs_world x2)\<lparr>w_db := uploaded_rows(NARINFO := [(record_key sample_published, [])])\<rparr>)"
    using mem_ingest_publish x2(2) x1(2) by (simp add: on_db_def sample_serving_def)
  have len: "\<not> METADATA_BODY_MAX < of_nat (length sample_body)"
    using sample_body_text(1) by (simp add: METADATA_BODY_MAX_def word_less_nat_alt unat_of_nat64)
  have adm: "admit (e_ext ?E) ?ca sample_publish x1 = (Inr Admitted, x1)"
    using sample_admit by (simp add: sample_env_def)
  have "ca_ingest ?ca = sample_ingest" by (simp add: sample_cache_def)
  then have "\<exists>x'. h_publish string_sock ?E ?ca sample_publish x1 = (Inr Keep, x')"
    using adm x2(1) sample_body_text(2) pub len
    by (simp add: h_publish_def Let_def io_then_def proceed_def io_return_def answer_def kept_def)
  then show ?thesis using x1(1) route
    by (auto simp: handle_def Let_def io_then_def h_narinfo_def sample_env_def)
qed

definition sample_head :: exchange where
  "sample_head = \<lparr>ex_shard = 0, ex_request = (sample_get (slash # nar_url sample_artifact) None)\<lparr>rq_method := Head\<rparr>\<rparr>"

lemma mem_head_run:
  "\<exists>x'. handle string_sock (sample_env []) (sample_cache []) sample_head
     (sample_serving ''GET'' (stored_file sample_artifact ''nar'') empty_rows) = (Inr Keep, x')"
proof -
  let ?x = "sample_serving ''GET'' (stored_file sample_artifact ''nar'') empty_rows"
  define x1 where "x1 = ?x\<lparr>hs_stats := [bump C_Requests 1 shard_default]\<rparr>"
  then have x1: "h_bump 0 C_Requests 1 ?x = (Inr (), x1)" "hs_world x1 = hs_world ?x" by simp_all
  have route: "route_resolve sample (slash # nar_url sample_artifact) = Inr (R_Nar sample_artifact)"
    using route_resolve_nar [OF sample_artifact_ok, of "[]" sample] by (simp add: query_def)
  have op: "open_artifact (sample_env []) sample_artifact x1 =
      (Inr (Some \<lparr>rr_file = 1, rr_path = store_path [''d''] sample_artifact, rr_size = 3\<rparr>), x1)"
    using mem_open_artifact [of x1 sample_artifact "''nar''" "[]"] x1(2) by (simp add: sample_serving_def)
  have "\<exists>x'. h_probe string_sock (sample_env []) sample_head sample_artifact x1 = (Inr Keep, x')"
    using op by (simp add: h_probe_def Let_def io_then_def io_return_def sample_head_def sample_artifact_def)
  then show ?thesis using x1(1) route
    by (auto simp: handle_def Let_def io_then_def h_nar_def sample_head_def sample_env_def)
qed

end
