(* ===== verification/PushSpec.thy ===== *)
theory PushSpec
  imports SampleServe
begin

text \<open>
  The properties of pushing over HTTP, of \<open>HEAD\<close> requests, of the counters, and of what the delete
  command makes of its argument, with their witnesses on the instances of \<open>SampleWorld\<close>.
\<close>

section \<open>Pushes\<close>

text \<open>What is said to a \<open>PUT\<close> before its body is looked at, if anything.\<close>

definition unread_status :: "'e ext \<Rightarrow> tokens \<Rightarrow> request \<Rightarrow> u64 \<Rightarrow> status option" where
  "unread_status X ts rq limit =
     (if rq_framing rq = FrameChunked then Some S_NotImplemented
      else if admission_of X ts rq = Denied then Some S_Unauthorized
      else case rq_framing rq of
        FrameLength n \<Rightarrow> if limit < n then Some S_ContentTooLarge else None
      | _ \<Rightarrow> Some S_LengthRequired)"

definition answered_unread ::
  "'s sock_views \<Rightarrow> request \<Rightarrow> status \<Rightarrow> keep_alive \<Rightarrow> ('s, 'f, 'd) serving \<Rightarrow> ('s, 'f, 'd) serving \<Rightarrow> bool" where
  "answered_unread W rq st k x x' \<longleftrightarrow> k = kept rq Unread \<and> hs_world x' = hs_world x \<and> to_come W x' = to_come W x \<and>
     said W x' = said W x @ bare st k 0"

lemma answer_unread:
  assumes "sock_laws S W" "answer S rq st Unread x1 = (Inr k, x')" "hs_world x1 = hs_world x" "hs_conn x1 = hs_conn x"
  shows "answered_unread W rq st k x x'"
  using answer_says [OF assms(1,2)] assms(3,4) by (simp add: answered_unread_def says_def)

lemma put_unread:
  assumes sock: "sock_laws S W" and put: "rq_method (ex_request ex) = Put"
    and route: "route_resolve (e_ext E) (rq_target (ex_request ex)) = Inr rt"
    and rt: "rt = R_Narinfo key \<and> limit = METADATA_BODY_MAX \<or> rt = R_Nar url \<and> limit = - 1"
    and st: "unread_status (e_ext E) (ca_tokens ca) (ex_request ex) limit = Some st"
    and run: "handle S E ca ex x = (Inr k, x')"
  shows "answered_unread W (ex_request ex) st k x x'"
proof (cases "rq_framing (ex_request ex) = FrameChunked")
  case True
  then obtain u x1 where b: "h_bump (ex_shard ex) C_Requests 1 x = (Inr u, x1)"
    and a: "answer S (ex_request ex) S_NotImplemented Unread x1 = (Inr k, x')"
    using run by (auto simp: handle_def Let_def elim!: io_then_InrE)
  have "hs_world x1 = hs_world x" "hs_conn x1 = hs_conn x"
    using b by (auto simp: h_bump_def split: option.splits)
  then show ?thesis using answer_unread [OF sock a] st True by (simp add: unread_status_def)
next
  case False
  let ?rq = "ex_request ex"
  from handle_routed [OF run False route] obtain x1 where x1: "hs_world x1 = hs_world x" "hs_conn x1 = hs_conn x"
    and r: "(case rt of R_CacheInfo \<Rightarrow> h_cache_info S ca ex | R_Metrics \<Rightarrow> h_metrics S E ex
      | R_Narinfo key \<Rightarrow> h_narinfo S E ca ex key | R_Nar url \<Rightarrow> h_nar S E ca ex url) x1 = (Inr k, x')" by blast
  have "\<exists>x2. hs_world x2 = hs_world x \<and> hs_conn x2 = hs_conn x \<and> answer S ?rq st Unread x2 = (Inr k, x')"
    using rt
  proof (elim disjE conjE)
    assume n: "rt = R_Narinfo key" "limit = METADATA_BODY_MAX"
    then have "h_publish S E ca ex x1 = (Inr k, x')" using r put by (simp add: h_narinfo_def Let_def)
    then obtain a x2 where x2: "admit (e_ext E) ca ex x1 = (Inr a, x2)"
      and rest: "(if a = Denied then answer S ?rq S_Unauthorized Unread x2 = (Inr k, x')
        else case rq_framing ?rq of
          FrameLength len \<Rightarrow> METADATA_BODY_MAX < len \<longrightarrow> answer S ?rq S_ContentTooLarge Unread x2 = (Inr k, x')
        | _ \<Rightarrow> answer S ?rq S_LengthRequired Unread x2 = (Inr k, x'))"
      unfolding h_publish_def Let_def by (elim io_then_InrE) (auto split: framing.splits if_splits)
    note a = admit_Inr_world [OF x2]
    then show ?thesis using rest st x1 n(2) False
      by (intro exI [of _ x2]) (auto simp: unread_status_def split: if_splits framing.splits)
  next
    assume n: "rt = R_Nar url" "limit = - 1"
    then have "h_receive S E ca ex url x1 = (Inr k, x')" using r put by (simp add: h_nar_def)
    then obtain a x2 where x2: "admit (e_ext E) ca ex x1 = (Inr a, x2)"
      and rest: "(if a = Denied then answer S ?rq S_Unauthorized Unread x2 = (Inr k, x')
        else case rq_framing ?rq of
          FrameLength len \<Rightarrow> True
        | _ \<Rightarrow> answer S ?rq S_LengthRequired Unread x2 = (Inr k, x'))"
      unfolding h_receive_def Let_def by (elim io_then_InrE) (auto split: framing.splits if_splits)
    note a = admit_Inr_world [OF x2]
    then show ?thesis using rest st x1 n(2) False
      by (intro exI [of _ x2]) (auto simp: unread_status_def split: if_splits framing.splits)
  qed
  then show ?thesis using answer_unread [OF sock] by blast
qed


lemma ingest_publish_failed:
  assumes "index_good (e_redb E) V (e_rkyv E) d" "ingest_publish E ig body d = (Inl err, d')"
  shows "index_good (e_redb E) V (e_rkyv E) d' \<and> nars V (e_rkyv E) d' = nars V (e_rkyv E) d \<and>
    (infos V (e_rkyv E) d' = infos V (e_rkyv E) d \<or>
     (\<exists>e p. err = IG_Index e \<and> infos V (e_rkyv E) d' = (infos V (e_rkyv E) d)(sp_hash (ni_store_path p) \<mapsto> p)))"
proof -
  note eff = ingest_publish_effect [OF assms]
  from assms(2) show ?thesis
  proof (cases rule: ingest_publish_cases)
    case (commit q e x)
    then obtain e' where "err = IG_Index e'" by (cases x) auto
    moreover have "sp_hash (ni_store_path (resign X dr key (publish_record q' e'))) = sp_hash (ni_store_path q')"
      for X dr key q' e' by (simp add: resign_def publish_record_def)
    ultimately show ?thesis using eff unfolding Let_def by metis
  qed (use eff assms(1) in simp_all)
qed

text \<open>
  C16. A \<open>PUT\<close> of a narinfo that is answered and is chunked, not admitted, without a length or too
  long is refused before its body is looked at, and changes nothing. Any other consumes exactly its
  body, touches no artifact and no entry, and answers what happened: \<open>201\<close> when the record was
  stored; otherwise a refusal, with the reason when the client is at fault, and the records are as
  before, unless the commit itself reported the failure, which may have stored the record. The key
  in the URL plays no part in it.
\<close>

theorem publish_answered:
  assumes "sock_laws S W" "index_good (e_redb E) U (e_rkyv E) (w_db (hs_world x))"
    and "rq_method (ex_request ex) = Put"
    and "route_resolve (e_ext E) (rq_target (ex_request ex)) = Inr (R_Narinfo key)"
    and "handle S E ca ex x = (Inr k, x')"
  shows "case unread_status (e_ext E) (ca_tokens ca) (ex_request ex) METADATA_BODY_MAX of
      Some st \<Rightarrow> answered_unread W (ex_request ex) st k x x'
    | None \<Rightarrow>
        k = rq_keep_alive (ex_request ex) \<and> w_fs (hs_world x') = w_fs (hs_world x) \<and>
        nars U (e_rkyv E) (w_db (hs_world x')) = nars U (e_rkyv E) (w_db (hs_world x)) \<and>
        (\<exists>body reply. length body = unat (body_len (ex_request ex)) \<and> to_come W x = body @ to_come W x' \<and>
           said W x' = said W x @ interim (ex_request ex) @ reply \<and>
           (case from_utf8 body of
              Inl _ \<Rightarrow> w_db (hs_world x') = w_db (hs_world x) \<and> reply = bare S_BadRequest k 0
            | Inr t \<Rightarrow> \<exists>r. ingest_publish E (ca_ingest ca) t (w_db (hs_world x)) = (r, w_db (hs_world x')) \<and>
                (case r of
                   Inl err \<Rightarrow> reply = refusal_text (ex_request ex)
                       (refusal_new (ingest_fault err) (ingest_display err)) Consumed \<and>
                     (infos U (e_rkyv E) (w_db (hs_world x')) = infos U (e_rkyv E) (w_db (hs_world x)) \<or>
                      (\<exists>e p. err = IG_Index e \<and> infos U (e_rkyv E) (w_db (hs_world x')) =
                         (infos U (e_rkyv E) (w_db (hs_world x)))(sp_hash (ni_store_path p) \<mapsto> p)))
                 | Inr p \<Rightarrow> reply = bare S_Created k 0 \<and>
                     infos U (e_rkyv E) (w_db (hs_world x')) =
                       (infos U (e_rkyv E) (w_db (hs_world x)))(sp_hash (ni_store_path p) \<mapsto> p))))"
proof (cases "unread_status (e_ext E) (ca_tokens ca) (ex_request ex) METADATA_BODY_MAX")
  case (Some st)
  then show ?thesis using put_unread [OF assms(1,3,4) _ Some assms(5)] by simp
next
  case None
  let ?rq = "ex_request ex" and ?d = "w_db (hs_world x)"
  obtain n where n: "rq_framing ?rq = FrameLength n" "n \<le> METADATA_BODY_MAX"
    and adm: "admission_of (e_ext E) (ca_tokens ca) ?rq = Admitted"
    using None by (cases "admission_of (e_ext E) (ca_tokens ca) ?rq")
      (auto simp: unread_status_def split: if_splits framing.splits)
  have "rq_framing ?rq \<noteq> FrameChunked" using n by simp
  from handle_routed [OF assms(5) this assms(4)] obtain x1 where
    x1: "hs_world x1 = hs_world x" "hs_conn x1 = hs_conn x" and "h_narinfo S E ca ex key x1 = (Inr k, x')" by auto
  then have run: "h_publish S E ca ex x1 = (Inr k, x')" using assms(3) by (simp add: h_narinfo_def Let_def)
  from h_publish_reply [OF assms(1) adm n run, unfolded x1] obtain body reply d' where
    k: "k = rq_keep_alive ?rq" and b: "length body = unat n" "to_come W x = body @ to_come W x'"
      "said W x' = said W x @ interim ?rq @ reply" and
    p: "publish_reply E ca ?rq body ?d = (reply, d')" "hs_world x' = (hs_world x)\<lparr>w_db := d'\<rparr>" by blast
  have kept: "kept ?rq Consumed = k" by (simp add: kept_def k)
  have "nars U (e_rkyv E) d' = nars U (e_rkyv E) ?d \<and> (case from_utf8 body of
          Inl _ \<Rightarrow> d' = ?d \<and> reply = bare S_BadRequest k 0
        | Inr t \<Rightarrow> \<exists>r. ingest_publish E (ca_ingest ca) t ?d = (r, d') \<and>
            (case r of
               Inl err \<Rightarrow> reply = refusal_text ?rq (refusal_new (ingest_fault err) (ingest_display err)) Consumed \<and>
                 (infos U (e_rkyv E) d' = infos U (e_rkyv E) ?d \<or>
                  (\<exists>e p. err = IG_Index e \<and>
                     infos U (e_rkyv E) d' = (infos U (e_rkyv E) ?d)(sp_hash (ni_store_path p) \<mapsto> p)))
             | Inr p \<Rightarrow> reply = bare S_Created k 0 \<and>
                 infos U (e_rkyv E) d' = (infos U (e_rkyv E) ?d)(sp_hash (ni_store_path p) \<mapsto> p)))"
  proof (cases "from_utf8 body")
    case (Inl e)
    then show ?thesis using p(1) kept by (simp add: publish_reply_def)
  next
    case (Inr t)
    obtain r d where r: "ingest_publish E (ca_ingest ca) t ?d = (r, d)" by fastforce
    show ?thesis
    proof (cases r)
      case err: (Inl err)
      then have d': "d' = d" "reply = refusal_text ?rq (refusal_new (ingest_fault err) (ingest_display err)) Consumed"
        using p(1) Inr r by (simp_all add: publish_reply_def)
      show ?thesis unfolding d' using Inr r err ingest_publish_failed [OF assms(2) r [unfolded err]] by simp
    next
      case ok: (Inr q)
      have "infos U (e_rkyv E) d = (infos U (e_rkyv E) ?d)(sp_hash (ni_store_path q) \<mapsto> q)"
        using ingest_publish_effect [OF assms(2) r] ok by (auto simp: Let_def resign_def publish_record_def)
      then show ?thesis using p(1) Inr r kept ok ingest_publish_effect [OF assms(2) r]
        by (auto simp: publish_reply_def)
    qed
  qed
  moreover have "w_db (hs_world x') = d'" "w_fs (hs_world x') = w_fs (hs_world x)" using p(2) by simp_all
  moreover have "body_len ?rq = n" using n by (simp add: body_len_def)
  ultimately show ?thesis using None k b by auto
qed

theorem publish_answered_witness:
  "infos mem_views (sample_rkyv [sample_published]) (w_db (hs_world (snd (handle string_sock
     (sample_env [sample_published]) (sample_cache [''secret'']) sample_publish
     (sample_serving sample_body no_files uploaded_rows))))) (sp_hash (sample_path ''hello'')) = Some sample_published"
proof -
  let ?E = "sample_env [sample_published]" and ?x = "sample_serving sample_body no_files uploaded_rows"
  let ?h = "SpHash (replicate 20 3)" and ?n = "of_nat (length sample_body) :: u64"
  obtain x' where run: "handle string_sock ?E (sample_cache [''secret'']) sample_publish ?x = (Inr Keep, x')"
    using mem_publish_run by blast
  have n: "?n \<le> METADATA_BODY_MAX" "unat ?n = length sample_body"
    using sample_body_text(1) by (simp_all add: METADATA_BODY_MAX_def word_le_nat_alt unat_of_nat64)
  have route: "route_resolve (e_ext ?E) (rq_target (ex_request sample_publish)) = Inr (R_Narinfo ?h)"
    using route_resolve_narinfo [of ?h "[]" sample] by (simp add: hash_ok_def query_def sample_env_def)
  have adm: "admission_of (e_ext ?E) (ca_tokens (sample_cache [''secret''])) (ex_request sample_publish) = Admitted"
    using sample_admitted by (simp add: sample_env_def sample_cache_def)
  have good: "index_good (e_redb ?E) mem_views (e_rkyv ?E) (w_db (hs_world ?x))"
    using uploaded_good by (simp add: sample_env_def sample_serving_simps)
  have put: "rq_method (ex_request sample_publish) = Put" "rq_framing (ex_request sample_publish) = FrameLength ?n"
    by simp_all
  have none: "unread_status (e_ext ?E) (ca_tokens (sample_cache [''secret''])) (ex_request sample_publish) METADATA_BODY_MAX = None"
    using n(1) adm put(2) by (simp add: unread_status_def)
  have len: "body_len (ex_request sample_publish) = ?n" using put(2) by (simp add: body_len_def)
  note eff = publish_answered [OF string_sock_laws good put(1) route run, unfolded none len option.case]
  then obtain body reply where b: "length body = unat ?n" "to_come string_views ?x = body @ to_come string_views x'"
    and c: "case from_utf8 body of
          Inl _ \<Rightarrow> w_db (hs_world x') = w_db (hs_world ?x) \<and> reply = bare S_BadRequest Keep 0
        | Inr t \<Rightarrow> \<exists>r. ingest_publish ?E (ca_ingest (sample_cache [''secret''])) t (w_db (hs_world ?x)) =
            (r, w_db (hs_world x')) \<and>
            (case r of
               Inl err \<Rightarrow> reply = refusal_text (ex_request sample_publish)
                   (refusal_new (ingest_fault err) (ingest_display err)) Consumed \<and>
                 (infos mem_views (e_rkyv ?E) (w_db (hs_world x')) = infos mem_views (e_rkyv ?E) (w_db (hs_world ?x)) \<or>
                  (\<exists>e p. err = IG_Index e \<and> infos mem_views (e_rkyv ?E) (w_db (hs_world x')) =
                     (infos mem_views (e_rkyv ?E) (w_db (hs_world ?x)))(sp_hash (ni_store_path p) \<mapsto> p)))
             | Inr p \<Rightarrow> reply = bare S_Created Keep 0 \<and>
                 infos mem_views (e_rkyv ?E) (w_db (hs_world x')) =
                   (infos mem_views (e_rkyv ?E) (w_db (hs_world ?x)))(sp_hash (ni_store_path p) \<mapsto> p))"
    by blast
  have "to_come string_views ?x = sample_body" by (simp only: sample_serving_simps conn_new_view string_views_def sock_views.simps fst_conv)
  then have "body = sample_body" using b n(2) by (metis append_eq_append_conv append_Nil2)
  note c = c [unfolded this sample_body_text(2) sum.case]
  have "ca_ingest (sample_cache [''secret'']) = sample_ingest" by (simp add: sample_cache_def)
  from c [unfolded this sample_serving_simps mem_ingest_publish]
  have "infos mem_views (e_rkyv ?E) (w_db (hs_world x')) =
      (infos mem_views (e_rkyv ?E) uploaded_rows)(sp_hash (ni_store_path sample_published) \<mapsto> sample_published)"
    by (clarsimp simp only: prod.inject sum.case)
  moreover have "ni_store_path sample_published = sample_path ''hello''"
    by (simp only: sample_published_def published_fields sample_record_simps)
  ultimately show ?thesis using run by (simp add: sample_env_def)
qed

text \<open>
  C5. A \<open>PUT\<close> of a NAR that is answered and is chunked, not admitted or without a length is refused
  before its body is looked at, and changes nothing. An upload that cannot be opened, because the
  name is a compressed one or because staging or the encoder failed, consumes nothing and stores
  nothing, and the answer is that error. Any other consumes exactly its body. Then the body is
  stored, compressed, under the digest of what was stored, its entry is recorded under the digest of
  the body, which is the one in the URL, and the answer is \<open>201\<close>; or nothing is stored and the
  answer says that the digest is another or the body empty. Whenever a body stays unread the
  connection closes.
\<close>

theorem push_stores_what_arrived:
  assumes "sock_laws S W" "sha_laws (e_ext E)" "zstd_laws (e_zstd E) Y"
    and "files_good E V x" "index_good (e_redb E) U (e_rkyv E) (w_db (hs_world x))"
    and "rq_method (ex_request ex) = Put"
    and "route_resolve (e_ext E) (rq_target (ex_request ex)) = Inr (R_Nar url)"
    and "handle S E ca ex x = (Inr k, x')"
  shows "case unread_status (e_ext E) (ca_tokens ca) (ex_request ex) (- 1) of
      Some st \<Rightarrow> answered_unread W (ex_request ex) st k x x'
    | None \<Rightarrow>
        files_good E V x' \<and> index_good (e_redb E) U (e_rkyv E) (w_db (hs_world x')) \<and>
        infos U (e_rkyv E) (w_db (hs_world x')) = infos U (e_rkyv E) (w_db (hs_world x)) \<and>
        (case ingest_receive E (ca_ingest ca) url (hs_world x) of
           (Inl err, w) \<Rightarrow> hs_world x' = w \<and> w_db w = w_db (hs_world x) \<and>
             artifacts V (w_root (hs_world x)) (w_fs w) = artifacts V (w_root (hs_world x)) (w_fs (hs_world x)) \<and>
             (if compression url = NoCompression then (\<exists>e. err = IG_Stage e) \<or> (\<exists>e. err = IG_Upload (UE_Compress e))
              else err = IG_PreCompressed (compression url)) \<and>
             to_come W x' = to_come W x \<and> k = kept (ex_request ex) Unread \<and>
             said W x' = said W x @ refusal_text (ex_request ex)
               (refusal_new (ingest_fault err) (ingest_display err)) Unread
         | (Inr _, _) \<Rightarrow> \<exists>body reply. length body = unat (body_len (ex_request ex)) \<and>
             to_come W x = body @ to_come W x' \<and> k = rq_keep_alive (ex_request ex) \<and>
             said W x' = said W x @ interim (ex_request ex) @ reply \<and>
             upload_done (e_ext E) Y V U (e_rkyv E) (ex_request ex) url body (hs_world x) (hs_world x') reply)"
proof (cases "unread_status (e_ext E) (ca_tokens ca) (ex_request ex) (- 1)")
  case (Some st)
  then show ?thesis using put_unread [OF assms(1,6,7) _ Some assms(8)] by simp
next
  case None
  let ?rq = "ex_request ex"
  obtain n where n: "rq_framing ?rq = FrameLength n" and adm: "admission_of (e_ext E) (ca_tokens ca) ?rq = Admitted"
    using None by (cases "admission_of (e_ext E) (ca_tokens ca) ?rq")
      (auto simp: unread_status_def split: if_splits framing.splits)
  have "rq_framing ?rq \<noteq> FrameChunked" using n by simp
  from handle_routed [OF assms(8) this assms(7)] obtain x1 where
    x1: "hs_world x1 = hs_world x" "hs_conn x1 = hs_conn x" and "h_nar S E ca ex url x1 = (Inr k, x')" by auto
  then have run: "h_receive S E ca ex url x1 = (Inr k, x')" using assms(6) by (simp add: h_nar_def)
  have why: "if compression url = NoCompression then (\<exists>e. err = IG_Stage e) \<or> (\<exists>e. err = IG_Upload (UE_Compress e))
      else err = IG_PreCompressed (compression url)"
    if "ingest_receive E (ca_ingest ca) url (hs_world x) = (Inl err, w)" for err w
    using that by (auto simp: ingest_receive_def on_store_def on_fs_def upload_new_def ensure_def io_lift_def
        elim!: io_thenE io_ctxE split: if_splits prod.splits sum.splits)
  have len: "body_len ?rq = n" using n by (simp add: body_len_def)
  note effect = h_receive_effect [OF assms(1-3) _ _ adm n run, of V U, unfolded x1, OF assms(4,5)]
  show ?thesis
  proof (cases "ingest_receive E (ca_ingest ca) url (hs_world x)")
    case (Pair q w)
    show ?thesis
    proof (cases q)
      case (Inl err)
      with Pair have r: "ingest_receive E (ca_ingest ca) url (hs_world x) = (Inl err, w)" by simp
      show ?thesis using effect why [OF r] None unfolding r by (auto simp: x1)
    next
      case (Inr u)
      with Pair have r: "ingest_receive E (ca_ingest ca) url (hs_world x) = (Inr u, w)" by simp
      show ?thesis using effect None len unfolding r by (auto simp: x1)
    qed
  qed
qed

theorem push_stores_what_arrived_witness:
  "\<exists>x'. handle string_sock push_env (sample_cache [''secret'']) sample_push
       (sample_serving ''narX'' no_files empty_rows) = (Inr Keep, x') \<and>
     to_come string_views x' = ''X'' \<and>
     artifacts mem_fs_views [''d''] (w_fs (hs_world x')) (stored_url sample ''nar'') = Some ''nar''"
proof -
  let ?x = "sample_serving ''narX'' no_files empty_rows"
  obtain x' where run: "handle string_sock push_env (sample_cache [''secret'']) sample_push ?x = (Inr Keep, x')"
    using mem_push_run by blast
  have "narurl_ok nar_target" by (simp add: narurl_ok_def nar_target_def sha_ok_digest sample_sha_laws)
  then have route: "route_resolve (e_ext push_env) (rq_target (ex_request sample_push)) = Inr (R_Nar nar_target)"
    using route_resolve_nar [of nar_target "[]" sample] by (simp add: query_def)
  have good: "files_good push_env mem_fs_views ?x" "index_good (e_redb push_env) mem_views (e_rkyv push_env) (w_db (hs_world ?x))"
    unfolding sample_serving_simps push_env_simps fs_good_def index_good_def
    by (simp_all add: mem_fs_laws mem_redb_laws known_rkyv_laws)
      (simp_all add: no_links_def mem_fs_views_def no_files_def rows_ok_def mem_views_def)
  have adm: "admission_of (e_ext push_env) (ca_tokens (sample_cache [''secret''])) (ex_request sample_push) = Admitted"
    using sample_admitted by (simp add: sample_cache_def)
  have laws: "sha_laws (e_ext push_env)" "zstd_laws (e_zstd push_env) copy_views"
    by (simp_all add: sample_sha_laws copy_zstd_laws)
  have put: "rq_method (ex_request sample_push) = Put" "rq_framing (ex_request sample_push) = FrameLength 3" by simp_all
  have none: "unread_status (e_ext push_env) (ca_tokens (sample_cache [''secret''])) (ex_request sample_push) (- 1) = None"
    using adm put(2) by (simp add: unread_status_def)
  have len: "unat (body_len (ex_request sample_push)) = 3" using put(2) by (simp add: body_len_def)
  have keep: "kept (ex_request sample_push) Unread \<noteq> Keep" by (simp add: kept_def carries_body_def)
  note eff = push_stores_what_arrived [OF string_sock_laws laws good put(1) route run, unfolded none len option.case]
  obtain q w where q: "ingest_receive push_env (ca_ingest (sample_cache [''secret''])) nar_target (hs_world ?x) = (q, w)"
    by (metis prod.exhaust)
  from eff keep obtain body reply where
    b: "length body = 3" "to_come string_views ?x = body @ to_come string_views x'" and
    d: "upload_done (e_ext push_env) copy_views mem_fs_views mem_views (e_rkyv push_env) (ex_request sample_push)
       nar_target body (hs_world ?x) (hs_world x') reply"
    unfolding q by (cases q) auto
  have "''narX'' = body @ to_come string_views x'" using b(2) by (simp add: sample_serving_simps string_views_def)
  then have "body = take 3 ''narX'' \<and> to_come string_views x' = drop 3 ''narX''"
    using b(1) by (metis append_eq_conv_conj)
  then have body: "body = ''nar'' \<and> to_come string_views x' = ''X''" by simp
  have "\<not> upload_refused sample (file_hash nar_target) ''nar'' err" for err
    by (simp add: upload_refused_def nar_target_def)
  with d body have "artifacts mem_fs_views [''d''] (w_fs (hs_world x')) =
      (artifacts mem_fs_views [''d''] no_files)(stored_url sample ''nar'' \<mapsto> ''nar'')"
    by (auto simp: upload_done_def copy_views_def sample_serving_simps)
  with run body show ?thesis by simp
qed

section \<open>\<open>HEAD\<close>\<close>

text \<open>
  C38. A \<open>HEAD\<close> of an artifact that is answered promises the length of the stored file, or, for the
  uncompressed name a client would upload to, the length recorded for the NAR; it answers \<open>404\<close>
  when there is neither, reads nothing and changes nothing.
\<close>

theorem head_promises_length:
  assumes "sock_laws S W" "fs_laws (e_fs E) V" "index_good (e_redb E) U (e_rkyv E) (w_db (hs_world x))"
    and "narurl_ok url" "rq_method (ex_request ex) = Head" "rq_framing (ex_request ex) \<noteq> FrameChunked"
    and "route_resolve (e_ext E) (rq_target (ex_request ex)) = Inr (R_Nar url)"
    and "handle S E ca ex x = (Inr k, x')"
  shows "to_come W x' = to_come W x \<and> w_db (hs_world x') = w_db (hs_world x) \<and>
    (case (if compression url = NoCompression
           then map_option (\<lambda>e. unat (en_nar_size e)) (nars U (e_rkyv E) (w_db (hs_world x)) (file_hash url))
           else map_option length (artifacts V (w_root (hs_world x)) (w_fs (hs_world x)) url)) of
       None \<Rightarrow> k = kept (ex_request ex) Unread \<and> said W x' = said W x @ bare S_NotFound k 0
     | Some n \<Rightarrow> k = rq_keep_alive (ex_request ex) \<and> n < 2 ^ 64 \<and>
         said W x' = said W x @ head_finish (head_length (head_header (head_header (head_new S_Ok k)
           ''Content-Type'' NAR_CONTENT_TYPE) ''Accept-Ranges'' ''bytes'') (of_nat n)))"
proof -
  let ?rq = "ex_request ex"
  from handle_routed [OF assms(8,6,7)] obtain x1 where
    x1: "hs_world x1 = hs_world x" "hs_conn x1 = hs_conn x" and "h_nar S E ca ex url x1 = (Inr k, x')" by auto
  then have run: "h_probe S E ex url x1 = (Inr k, x')" using assms(5) by (simp add: h_nar_def)
  let ?fin = "\<lambda>len. case len of
           None \<Rightarrow> answer S ?rq S_NotFound Unread
         | Some len \<Rightarrow> io_then (on_conn (conn_write S (head_finish (head_length (head_header (head_header
             (head_new S_Ok (rq_keep_alive ?rq)) ''Content-Type'' NAR_CONTENT_TYPE) ''Accept-Ranges'' ''bytes'') len))))
             (\<lambda>_. io_return (rq_keep_alive ?rq))"
  have probe: "\<exists>len x2. hs_conn x2 = hs_conn x \<and> w_db (hs_world x2) = w_db (hs_world x) \<and>
      map_option unat len = (if compression url = NoCompression
           then map_option (\<lambda>e. unat (en_nar_size e)) (nars U (e_rkyv E) (w_db (hs_world x)) (file_hash url))
           else map_option length (artifacts V (w_root (hs_world x)) (w_fs (hs_world x)) url)) \<and>
      ?fin len x2 = (Inr k, x')"
  proof (cases "compression url = NoCompression")
    case True
    from run True obtain e where
      e: "index_nar (e_redb E) (e_rkyv E) (file_hash url) (w_db (hs_world x1)) = Inr e"
      by (auto simp: h_probe_def Let_def read_index_def io_run ctx_def split: sum.splits)
    have "e = nars U (e_rkyv E) (w_db (hs_world x)) (file_hash url)"
      using index_nar_Inr [OF assms(3)] e x1(1) by simp
    then have "map_option unat (map_option en_nar_size e) =
        map_option (\<lambda>e. unat (en_nar_size e)) (nars U (e_rkyv E) (w_db (hs_world x)) (file_hash url))"
      by (simp add: option.map_comp comp_def)
    moreover have "?fin (map_option en_nar_size e) x1 = (Inr k, x')"
      using run True e
      by (cases e) (simp_all add: h_probe_def Let_def read_index_def io_then_def io_return_def)
    ultimately show ?thesis using True x1 by (metis (no_types, lifting))
  next
    case False
    obtain q f1 where rd: "store_read (e_fs E) (w_root (hs_world x)) url (w_fs (hs_world x)) = (q, f1)" by fastforce
    let ?x2 = "x1\<lparr>hs_world := (hs_world x)\<lparr>w_fs := f1\<rparr>\<rparr>"
    have op: "open_artifact E url x1 = (ctx HE_Store q, ?x2)"
      using rd x1(1) by (simp add: open_artifact_def on_world_def on_fs_def)
    from run op False obtain found where q: "q = Inr found"
      by (cases q) (auto simp: h_probe_def Let_def io_run)
    from store_read_Inr [OF assms(2) rd [unfolded q] assms(4)]
    have "map_option unat (map_option rr_size found) =
        map_option length (artifacts V (w_root (hs_world x)) (w_fs (hs_world x)) url)"
      by (cases found) auto
    moreover have "?fin (map_option rr_size found) ?x2 = (Inr k, x')"
      using run op q False
      by (cases found) (simp_all add: h_probe_def Let_def io_then_def io_return_def)
    moreover have "hs_conn ?x2 = hs_conn x" "w_db (hs_world ?x2) = w_db (hs_world x)" using x1(2) by simp_all
    ultimately show ?thesis using False by (metis (no_types, lifting))
  qed
  then obtain len x2 where x2: "hs_conn x2 = hs_conn x" "w_db (hs_world x2) = w_db (hs_world x)" and
    len: "map_option unat len = (if compression url = NoCompression
           then map_option (\<lambda>e. unat (en_nar_size e)) (nars U (e_rkyv E) (w_db (hs_world x)) (file_hash url))
           else map_option length (artifacts V (w_root (hs_world x)) (w_fs (hs_world x)) url))" and
    fin: "?fin len x2 = (Inr k, x')" by blast
  show ?thesis unfolding len [symmetric]
  proof (cases len)
    case None
    with fin have run: "answer S ?rq S_NotFound Unread x2 = (Inr k, x')" by simp
    note a = answer_says [OF assms(1) run]
    from a have "k = kept ?rq Unread" by simp
    with a x2 None show "to_come W x' = to_come W x \<and> w_db (hs_world x') = w_db (hs_world x) \<and>
      (case map_option unat len of None \<Rightarrow> k = kept ?rq Unread \<and> said W x' = said W x @ bare S_NotFound k 0
       | Some n \<Rightarrow> k = rq_keep_alive ?rq \<and> n < 2 ^ 64 \<and>
         said W x' = said W x @ head_finish (head_length (head_header (head_header (head_new S_Ok k)
           ''Content-Type'' NAR_CONTENT_TYPE) ''Accept-Ranges'' ''bytes'') (of_nat n)))"
      by (simp add: says_def)
  next
    case (Some m)
    let ?h = "head_finish (head_length (head_header (head_header (head_new S_Ok (rq_keep_alive ?rq))
           ''Content-Type'' NAR_CONTENT_TYPE) ''Accept-Ranges'' ''bytes'') m)"
    have run: "io_then (on_conn (conn_write S ?h)) (\<lambda>_. io_return (rq_keep_alive ?rq)) x2 = (Inr k, x')"
      using fin Some by simp
    note a = write_then_says [OF assms(1) run]
    from a have "k = rq_keep_alive ?rq" by simp
    with a x2 Some unat_less64 [of m] show "to_come W x' = to_come W x \<and> w_db (hs_world x') = w_db (hs_world x) \<and>
      (case map_option unat len of None \<Rightarrow> k = kept ?rq Unread \<and> said W x' = said W x @ bare S_NotFound k 0
       | Some n \<Rightarrow> k = rq_keep_alive ?rq \<and> n < 2 ^ 64 \<and>
         said W x' = said W x @ head_finish (head_length (head_header (head_header (head_new S_Ok k)
           ''Content-Type'' NAR_CONTENT_TYPE) ''Accept-Ranges'' ''bytes'') (of_nat n)))"
      by (simp add: says_def)
  qed
qed

theorem head_promises_length_witness:
  "\<exists>x'. handle string_sock (sample_env []) (sample_cache []) sample_head
       (sample_serving ''GET'' (stored_file sample_artifact ''nar'') empty_rows) = (Inr Keep, x') \<and>
     to_come string_views x' = ''GET'' \<and>
     said string_views x' = head_finish (head_length (head_header (head_header (head_new S_Ok Keep)
       ''Content-Type'' NAR_CONTENT_TYPE) ''Accept-Ranges'' ''bytes'') 3)"
proof -
  let ?x = "sample_serving ''GET'' (stored_file sample_artifact ''nar'') empty_rows" and ?E = "sample_env []"
  obtain x' where run: "handle string_sock ?E (sample_cache []) sample_head ?x = (Inr Keep, x')"
    using mem_head_run by blast
  have laws: "fs_laws (e_fs ?E) mem_fs_views" "index_good (e_redb ?E) mem_views (e_rkyv ?E) (w_db (hs_world ?x))"
    by (simp_all add: sample_env_def mem_fs_laws sample_serving_simps empty_good)
  have route: "route_resolve (e_ext ?E) (rq_target (ex_request sample_head)) = Inr (R_Nar sample_artifact)"
    using route_resolve_nar [OF sample_artifact_ok, of "[]" sample]
    by (simp add: query_def sample_env_def sample_head_def)
  have "compression sample_artifact \<noteq> NoCompression" by (simp add: sample_artifact_def)
  with head_promises_length [OF string_sock_laws laws sample_artifact_ok _ _ route run]
    stored_file_artifact [OF sample_artifact_ok, of "''nar''"]
  have "to_come string_views x' = to_come string_views ?x"
    "said string_views x' = said string_views ?x @ head_finish (head_length (head_header (head_header (head_new S_Ok Keep)
       ''Content-Type'' NAR_CONTENT_TYPE) ''Accept-Ranges'' ''bytes'') 3)"
    by (simp_all add: sample_head_def sample_serving_simps)
  with run show ?thesis by (simp add: sample_serving_simps string_views_def)
qed

end
