(* ===== verification/BootSpec.thy ===== *)
theory BootSpec
  imports PushSpec
begin

text \<open>
  The properties of the counters, of the connection after an answer that did not read the request's
  body, and of the argument of the delete command.
\<close>

section \<open>Counters and stalls\<close>

text \<open>
  What \<open>/metrics\<close> reports is the sum over the shards, a bump adds to its own counter only and
  moves no heartbeat, and the watchdog reports, in order and once, exactly the shards that have
  beaten before and whose last beat is older than the limit; a shard that never started is not
  reported.
\<close>

lemma counters_and_stalls:
  assumes "elapsed < 2 ^ 64" "stale < 2 ^ 64" "shards_bump i c n ss = Some ss'"
  shows "total_count b (total ss') = total_count b (total ss) + (if b = c then n else 0) \<and>
    total_count b (total ss) = sum_list (map (slot_count b) ss) \<and>
    stalled elapsed stale ss' = stalled elapsed stale ss \<and>
    sorted (stalled elapsed stale ss) \<and> distinct (stalled elapsed stale ss) \<and>
    set (stalled elapsed stale ss) = {j. j < length ss \<and> sh_heartbeats (ss ! j) \<noteq> 0 \<and>
      unat (sh_heartbeat (ss ! j)) + stale < elapsed}"
proof -
  have st: "set (stalled elapsed stale ts) = {j. j < length ts \<and> sh_heartbeats (ts ! j) \<noteq> 0 \<and>
      unat (sh_heartbeat (ts ! j)) + stale < elapsed}" for ts
    using stalled_iff [OF assms(1,2)] by auto
  have "set (stalled elapsed stale ss') = set (stalled elapsed stale ss)"
    using assms(3) unfolding st by (auto simp: shards_bump_Some nth_list_update split: if_splits)
  then have "stalled elapsed stale ss' = stalled elapsed stale ss"
    by (intro sorted_distinct_set_unique stalled_sorted)
  then show ?thesis using st total_bump [OF assms(3)] stalled_sorted by (simp add: total_count_total)
qed

lemma counters_and_stalls_witness:
  "total_count C_Uploads (total [bump C_Uploads 2 shard_default, shard_default]) = 2 \<and>
   stalled 9000 5000 [shard_default] = []"
proof -
  have "shards_bump 0 C_Uploads 2 [shard_default, shard_default] = Some [bump C_Uploads 2 shard_default, shard_default]"
    by (simp add: shards_bump_def shards_get_def)
  from counters_and_stalls [OF _ _ this, of 9000 5000 C_Uploads]
  have "total_count C_Uploads (total [bump C_Uploads 2 shard_default, shard_default]) =
      total_count C_Uploads (total [shard_default, shard_default]) + 2" by simp
  moreover have "total_count C_Uploads (total [shard_default, shard_default]) = 0"
    by (simp add: total_count_total shard_default_def)
  moreover have "stalled 9000 5000 [shard_default] = []" by (simp add: stalled_def shard_default_def Let_def)
  ultimately show ?thesis by simp
qed

section \<open>Bodies nobody reads\<close>

text \<open>
  C39. A request for \<open>nix-cache-info\<close> that declares a body is answered without reading it and the
  connection is kept, so the next request is cut from the body: the head that the session reads next
  is the front of what the peer sent as the body of this one.
\<close>

theorem unread_body_is_next_request:
  assumes "sock_laws S W" "rq_framing (ex_request ex) = FrameLength n"
    and "route_resolve (e_ext E) (rq_target (ex_request ex)) = Inr R_CacheInfo"
    and "to_come W x = body @ rest" "length body = unat n"
    and "handle S E ca ex x = (Inr k, x')" "conn_head S (hs_conn x') = (Inr (Some h), c)"
  shows "k = rq_keep_alive (ex_request ex) \<and> to_come W x' = body @ rest \<and>
    (length h \<le> length body \<longrightarrow> h = take (length h) body)"
proof -
  have "rq_framing (ex_request ex) \<noteq> FrameChunked" using assms(2) by simp
  from handle_routed [OF assms(6) this assms(3)] obtain x1 where
    x1: "hs_conn x1 = hs_conn x" and "h_cache_info S ca ex x1 = (Inr k, x')" by auto
  then have s: "k = rq_keep_alive (ex_request ex) \<and> to_come W x' = body @ rest"
    using send_says [OF assms(1)] assms(4) by (fastforce simp: h_cache_info_def Let_def says_def)
  then have "body @ rest = h @ pending W c" using conn_head_effect [OF assms(1,7)] by simp
  then have "h = take (length h) (body @ rest)" by (metis append_eq_conv_conj)
  moreover have "take (length h) (body @ rest) = take (length h) body" if "length h \<le> length body"
    using that by simp
  ultimately show ?thesis using s by metis
qed

definition smuggled :: string where
  "smuggled = ''GET /metrics HTTP/1.1'' @ crlf @ crlf"

definition sample_body_get :: exchange where
  "sample_body_get = \<lparr>ex_shard = 0,
     ex_request = (sample_get ''/nix-cache-info'' None)\<lparr>rq_framing := FrameLength (of_nat (length smuggled))\<rparr>\<rparr>"

lemma cache_info_route: "route_resolve sample ''/nix-cache-info'' = Inr R_CacheInfo"
  by code_simp

lemma mem_cache_info_run:
  "\<exists>x'. handle string_sock (sample_env []) (sample_cache []) sample_body_get
     (sample_serving smuggled no_files empty_rows) = (Inr Keep, x') \<and>
     hs_conn x' = \<lparr>cn_stream = (smuggled, snd (cn_stream (hs_conn x'))), cn_buffer = []\<rparr>"
proof -
  show ?thesis using cache_info_route
    by (simp add: handle_def Let_def io_then_def sample_body_get_def sample_env_def h_cache_info_def send_def
        io_return_def sample_serving_simps conn_new_def)
qed

lemma smuggled_head: "head_len smuggled = Some (length smuggled)" "length smuggled < 4096"
  by code_simp+

lemma mem_head:
  assumes "head_len bs = Some (length bs)" "length bs < 4096"
  shows "conn_head string_sock \<lparr>cn_stream = (bs, out), cn_buffer = []\<rparr> =
    (Inr (Some bs), \<lparr>cn_stream = ([], out), cn_buffer = []\<rparr>)"
proof -
  have "head_len [] = None" by code_simp
  then have "bs \<noteq> []" using assms(1) by auto
  have "fill string_sock \<lparr>cn_stream = (bs, out), cn_buffer = []\<rparr> =
      (Inr (length bs), \<lparr>cn_stream = ([], out), cn_buffer = bs\<rparr>)"
    using assms(2) by (simp add: fill_def string_sock_def READ_CHUNK_def)
  moreover have "conn_head string_sock \<lparr>cn_stream = ([], out), cn_buffer = bs\<rparr> =
      (Inr (Some bs), \<lparr>cn_stream = ([], out), cn_buffer = []\<rparr>)"
    using assms(1) by (subst conn_head.simps) simp
  ultimately show ?thesis using \<open>head_len [] = None\<close> \<open>bs \<noteq> []\<close>
    by (subst conn_head.simps) simp
qed

theorem unread_body_is_next_request_witness:
  "\<exists>x' c. handle string_sock (sample_env []) (sample_cache []) sample_body_get
       (sample_serving smuggled no_files empty_rows) = (Inr Keep, x') \<and>
     conn_head string_sock (hs_conn x') = (Inr (Some smuggled), c)"
proof -
  let ?x = "sample_serving smuggled no_files empty_rows" and ?n = "of_nat (length smuggled) :: u64"
  obtain x' out where run: "handle string_sock (sample_env []) (sample_cache []) sample_body_get ?x = (Inr Keep, x')"
    and conn: "hs_conn x' = \<lparr>cn_stream = (smuggled, out), cn_buffer = []\<rparr>"
    using mem_cache_info_run by blast
  obtain h c where h: "conn_head string_sock (hs_conn x') = (Inr (Some h), c)"
    using mem_head [OF smuggled_head] conn by auto
  have fr: "rq_framing (ex_request sample_body_get) = FrameLength ?n" by (simp add: sample_body_get_def)
  have route: "route_resolve (e_ext (sample_env [])) (rq_target (ex_request sample_body_get)) = Inr R_CacheInfo"
    using cache_info_route by (simp add: sample_env_def sample_body_get_def)
  have n: "length smuggled = unat ?n" using smuggled_head(2) by (simp add: unat_of_nat64)
  have "to_come string_views ?x = smuggled @ []" by (simp add: sample_serving_simps string_views_def)
  from unread_body_is_next_request [OF string_sock_laws fr route this n run h]
  have "length h \<le> length smuggled \<longrightarrow> h = take (length h) smuggled" by simp
  moreover have "length h = length smuggled"
    using mem_head [OF smuggled_head] h conn by auto
  ultimately show ?thesis using run h by auto
qed

section \<open>The argument of the delete command\<close>

lemma last_split_on:
  assumes "f c"
  shows "last (split_on f (a @ c # b)) = last (split_on f b)"
proof -
  have "\<exists>p ps. split_on f (a @ c # b) = p # ps @ split_on f b"
    using assms by (induction a) (auto intro: exI [of _ "[]"])
  then show ?thesis by auto
qed

lemma encode_no_slash: "slash \<notin> set (encode bs)"
proof -
  have "slash \<notin> set ALPHABET" by code_simp
  then show ?thesis using set_encode by blast
qed

text \<open>
  C40. The delete command takes a bare hash or a whole store path to the key it names, and it
  panics exactly when the last component of its argument is longer than a hash and has a character
  of several bytes across that boundary.
\<close>

theorem delete_key_accepts:
  "(hash_ok h \<longrightarrow> delete_key (hash_display h) = Inr h) \<and>
   (path_ok p \<longrightarrow> delete_key (dir_print d p) = Inr (sp_hash p)) \<and>
   (delete_key path = Inl BE_Panic \<longleftrightarrow>
      (let t = last (split_on (\<lambda>c. c = slash) path)
       in HASH_TEXT_LEN < length t \<and> cont (of_char (t ! HASH_TEXT_LEN))))"
proof (intro conjI impI)
  assume h: "hash_ok h"
  have "split_on (\<lambda>c. c = slash) (hash_display h) = [hash_display h]"
    using encode_no_slash by (intro split_on_notin) (auto simp: hash_display_def)
  then show "delete_key (hash_display h) = Inr h" using h sp_hash_codec.parse_print [OF h]
    by (simp add: delete_key_def delete_text_def str_prefix_def char_boundary_def Let_def)
next
  assume p: "path_ok p"
  then have h: "hash_ok (sp_hash p)" by (simp add: path_ok_def)
  then have "slash \<notin> set (hash_display (sp_hash p))" using encode_no_slash by (simp add: hash_display_def)
  moreover have "slash \<notin> set (sp_str (sp_name p))"
    using p by (auto simp: path_ok_def name_ok_def list_all_iff name_char_def)
  ultimately have "slash \<notin> set (path_display p)" by (simp add: path_display_def)
  then have "split_on (\<lambda>c. c = slash) (path_display p) = [path_display p]" by (intro split_on_notin) auto
  then have "last (split_on (\<lambda>c. c = slash) (dir_print d p)) = path_display p"
    by (simp add: dir_print_def last_split_on)
  moreover have "take 32 (path_display p) = hash_display (sp_hash p)" "path_display p ! 32 = dash"
    "32 < length (path_display p)"
    using hash_display_length [OF h] by (simp_all add: path_display_def nth_append)
  moreover have "\<not> cont (of_char dash)" by (simp add: cont_def)
  ultimately show "delete_key (dir_print d p) = Inr (sp_hash p)" using sp_hash_codec.parse_print [OF h]
    by (simp add: delete_key_def delete_text_def str_prefix_def char_boundary_def Let_def)
next
  show "delete_key path = Inl BE_Panic \<longleftrightarrow>
      (let t = last (split_on (\<lambda>c. c = slash) path)
       in HASH_TEXT_LEN < length t \<and> cont (of_char (t ! HASH_TEXT_LEN)))"
    by (auto simp: delete_key_def delete_text_def str_prefix_def char_boundary_def Let_def min_def ctx_def
        split: sum.splits)
qed

theorem delete_key_accepts_witness:
  "delete_key (dir_print (Dir ''/nix/store'') (sample_path ''hello'')) = Inr (sp_hash (sample_path ''hello''))"
  using delete_key_accepts [of "sp_hash (sample_path ''hello'')" "sample_path ''hello''" "Dir ''/nix/store''" "[]"]
    sample_path_ok by blast

end
