(* ===== verification/Isolation.thy ===== *)
theory Isolation
  imports UploadLaws
begin

text \<open>
  Uploads do not disturb each other: what one upload does to its staging file leaves every other
  staging file as it was, so interleaved uploads receive what they would receive alone.
\<close>

section \<open>The other staging files\<close>

text \<open>Every staging file but the one at \<open>p\<close> keeps its name and its contents.\<close>

definition others :: "('f, 'h) fs_views \<Rightarrow> path \<Rightarrow> path \<Rightarrow> 'f \<Rightarrow> 'f \<Rightarrow> bool" where
  "others V root p f f' \<longleftrightarrow>
     (\<forall>q. staging_path root q \<longrightarrow> q \<noteq> p \<longrightarrow> fv_names V f' q = fv_names V f q \<and>
        (\<forall>i. fv_names V f q = Some i \<longrightarrow> fv_data V f' i = fv_data V f i))"

named_theorems apart \<open>operations of one upload that leave the other staging files alone\<close>

lemma others_trans: "others V root p f g \<Longrightarrow> others V root p g k \<Longrightarrow> others V root p f k"
  by (simp add: others_def)

lemma others_view: "same_view V f f' \<Longrightarrow> others V root p f f'"
  by (simp add: others_def same_view_def)

lemma others_refl [simp]: "others V root p f f"
  by (simp add: others_def)

lemma others_holds:
  assumes "others V root p f f'" "holds V root f s bs" "sg_path s \<noteq> p"
  shows "holds V root f' s bs"
proof -
  have "staging_path root (sg_path s)" "fv_names V f (sg_path s) = Some (fv_file V (sg_file s))"
    using assms(2) by (simp_all add: holds_def in_flight_def)
  with assms(1,3) have "fv_names V f' (sg_path s) = fv_names V f (sg_path s)"
    "fv_data V f' (fv_file V (sg_file s)) = fv_data V f (fv_file V (sg_file s))"
    by (auto simp: others_def)
  with assms(2) show ?thesis by (simp add: holds_def in_flight_def)
qed

lemma stage_others:
  assumes good: "fs_good F V f" and root: "st_root st = root" and run: "stage F (st, f) = (r, (st', f'))"
  shows "others V root (root @ [STAGING, staging_name st]) f f' \<and>
    (\<forall>s. r = Inr s \<longrightarrow> sg_path s = root @ [STAGING, staging_name st])"
proof -
  let ?p = "root @ [STAGING, staging_name st]"
  have laws: "fs_laws F V" and links: "no_links V f" using good by (simp_all add: fs_good_def)
  obtain x where x: "fs_create F ?p f = (x, f')"
    and r: "r = and_then (ctx (ST_Create ?p) x) (\<lambda>file.
      Inr \<lparr>sg_file = file, sg_path = ?p, sg_offset = 0, sg_committed = False\<rparr>)"
    using run by (auto simp: stage_def Let_def root io_ctx_def split: prod.splits)
  show ?thesis
  proof (cases x)
    case (Inl e)
    then show ?thesis using laws x r by (auto simp: fs_laws_def fs_update_laws_def others_view)
  next
    case (Inr h)
    then have n: "fv_names V f' = (fv_names V f)(?p \<mapsto> fv_file V h)"
        "fv_data V f' = (fv_data V f)(fv_file V h := [])"
      and fresh: "fv_names V f ?p = Some (fv_file V h) \<or> (\<forall>q. fv_names V f q \<noteq> Some (fv_file V h))"
      using laws x by (auto simp: fs_laws_def fs_update_laws_def)
    have "i \<noteq> fv_file V h" if "fv_names V f q = Some i" "q \<noteq> ?p" for q i
      using that fresh links by (auto simp: no_links_def)
    then show ?thesis using n r Inr by (auto simp: others_def)
  qed
qed

lemma staged_write_others [apart]:
  assumes good: "fs_good F V f" and fl: "in_flight V root f s" and run: "staged_write F new s f = (r, f')"
  shows "others V root (sg_path s) f f'"
proof -
  obtain x where x: "fs_write_all_at F (sg_file s) new (sg_offset s) f = (x, f')"
    using run by (auto simp: staged_write_def elim!: io_thenE io_ctxE)
  have n: "fv_names V f' = fv_names V f" "\<And>i. i \<noteq> fv_file V (sg_file s) \<Longrightarrow> fv_data V f' i = fv_data V f i"
    using good x by (auto simp: fs_good_def fs_laws_def fs_update_laws_def)
  have "i \<noteq> fv_file V (sg_file s)" if "fv_names V f q = Some i" "q \<noteq> sg_path s" for q i
    using that good fl by (auto simp: fs_good_def no_links_def in_flight_def)
  with n show ?thesis by (auto simp: others_def)
qed

lemma remove_others:
  assumes "fs_good F V f" "fs_remove_file F p f = (r, f')"
  shows "others V root p f f'"
  using assms by (cases r) (auto simp: fs_good_def others_def same_view_def dest: remove_law)

lemma staged_drop_others [apart]:
  "fs_good F V f \<Longrightarrow> others V root (sg_path s) f (staged_drop F s f)"
  by (cases "fs_remove_file F (sg_path s) f") (auto simp: staged_drop_def dest: remove_others)

lemma staged_commit_others [apart]:
  assumes good: "fs_good F V f" and fl: "in_flight V root f s" and run: "staged_commit F root s u f = (r, f')"
  shows "others V root (sg_path s) f f'"
proof -
  have laws: "fs_laws F V" using good by (simp add: fs_good_def)
  let ?t = "store_path root u"
  let ?p = "sg_path s"
  let ?steps = "io_then (io_ctx (ST_Sync ?p) (fs_sync_all F (sg_file s))) (\<lambda>_.
        io_then (io_ctx (ST_CreateDir (butlast ?t)) (fs_create_dir_all F (butlast ?t))) (\<lambda>_.
        io_ctx (ST_Rename ?p ?t) (fs_rename F ?p ?t)))"
  have t: "?t \<noteq> []" by (simp add: store_path_def Let_def)
  obtain x f3 where x: "?steps f = (x, f3)" by fastforce
  have run: "(case x of Inl e \<Rightarrow> (Inl e, staged_drop F s f3)
      | Inr _ \<Rightarrow> (Inr (sg_offset s), staged_drop F (s\<lparr>sg_committed := True\<rparr>) f3)) = (r, f')"
    using run x t by (simp add: staged_commit_def Let_def)
  have ren: "others V root ?p g k \<and> (\<forall>e. y = Inl e \<longrightarrow> same_view V g k)"
    if "fs_rename F ?p ?t g = (y, k)" for y g k
    using that staging_not_artifact [of root _ u] rename_law [OF laws, of ?p ?t g]
    by (cases y) (fastforce simp: others_def same_view_def)+
  have q: "fs_sync_all F h f = (y, g) \<Longrightarrow> same_view V f g" "fs_create_dir_all F d g = (y', k) \<Longrightarrow> same_view V g k"
    for h d f g k y y' by (rule query_view(5) [OF laws], assumption) (rule query_view(1) [OF laws], assumption)
  from x consider "same_view V f f3" | g y where "same_view V f g" "fs_rename F ?p ?t g = (y, f3)" "isl x = isl y"
    by (auto elim!: io_thenE io_ctxE dest!: q intro: same_view_trans) (metis same_view_trans sum.disc)+
  then have "others V root ?p f f3 \<and> (isl x \<longrightarrow> same_view V f f3)"
  proof cases
    case 1
    then show ?thesis by (simp add: others_view)
  next
    case (2 g y)
    with ren [OF 2(2)] show ?thesis
      by (cases y) (auto intro: others_trans [OF others_view] same_view_trans)
  qed
  then show ?thesis
    using run others_trans [OF _ staged_drop_others [of F V f3 root s]] good
    by (cases x) (auto simp: same_view_good staged_drop_def [of F "s\<lparr>sg_committed := True\<rparr>"])
qed

section \<open>The other uploads\<close>

abbreviation up_path :: "('h, 's) upload \<Rightarrow> path" where
  "up_path u \<equiv> sg_path (up_staged u)"

lemma staged_write_path: "staged_write F new s f = (Inr s', f') \<Longrightarrow> sg_path s' = sg_path s"
  by (auto simp: staged_write_def elim!: io_thenE io_ctxE)

lemma upload_new_others:
  assumes "fs_good F V f" "upload_new X Z F s expected lvl f = (r, f')"
  shows "others V root (sg_path s) f f' \<and> (\<forall>u. r = Inr u \<longrightarrow> up_path u = sg_path s)"
  using assms apart by (auto simp: upload_new_def split: sum.splits)

lemma upload_drain_others:
  assumes "fs_good F V f" "live_upload V root f u" "upload_drain X Z F (u, f) = (r, (u', f'))"
  shows "others V root (up_path u) f f' \<and> up_path u' = up_path u"
proof -
  let ?out = "zs_out Z (rc_encoder (up_state u))"
  obtain x g where x: "staged_write F ?out (up_staged u) f = (x, g)" by fastforce
  have "in_flight V root f (up_staged u)" using assms(2) by (simp add: live_upload_def)
  from staged_write_others [OF assms(1) this x] staged_write_path [of F ?out "up_staged u" f _ g] x assms(3)
  show ?thesis by (auto simp: upload_drain_def Let_def split: if_splits sum.splits)
qed

lemma upload_write_others:
  assumes "fs_good F V f" "live_upload V root f u" "upload_write X Z F chunk (u, f) = (r, (u', f'))"
  shows "others V root (up_path u) f f' \<and> up_path u' = up_path u"
proof -
  let ?st = "(up_state u)\<lparr>rc_nar := hasher_update X (rc_nar (up_state u)) chunk,
    rc_nar_size := rc_nar_size (up_state u) + u64_from_usize (length chunk)\<rparr>"
  obtain x enc where x: "zs_write_all Z chunk (rc_encoder (up_state u)) = (x, enc)" by fastforce
  let ?u = "u\<lparr>up_state := ?st\<lparr>rc_encoder := enc\<rparr>\<rparr>"
  have live: "live_upload V root f ?u" using assms(2) by (simp add: live_upload_def)
  have "upload_drain X Z F (?u, f) = (r, (u', f')) \<or> f' = f \<and> up_path u' = up_path u"
    using assms(3) x by (auto simp: upload_write_def Let_def split: sum.splits if_splits)
  with upload_drain_others [OF assms(1) live] show ?thesis by auto
qed

lemma upload_finish_others:
  assumes "fs_good F V f" "live_upload V root f u" "upload_finish X Z F u f = (r, f')"
  shows "others V root (up_path u) f f' \<and> (\<forall>c. r = Inr c \<longrightarrow> up_path c = up_path u)"
proof -
  obtain x u1 f1 where x: "upload_drain X Z F (u, f) = (x, (u1, f1))" by (metis prod.exhaust)
  note d = upload_drain_others [OF assms(1,2) x]
  note k = upload_drain_keeps [OF assms(1,2) x]
  then have fl: "in_flight V root f1 (up_staged u1)" by (simp add: live_upload_def)
  note drop1 = staged_drop_others [OF conjunct1 [OF k], of root "up_staged u1"]
  show ?thesis
  proof (cases "isl x \<or> isl (zs_finish Z (rc_encoder (up_state u1)))")
    case True
    then show ?thesis using assms(3) x d others_trans [OF _ drop1]
      by (cases x; cases "zs_finish Z (rc_encoder (up_state u1))") (auto simp: upload_finish_def Let_def)
  next
    case False
    then obtain tail where t: "x = Inr ()" "zs_finish Z (rc_encoder (up_state u1)) = Inr tail"
      by (cases x; cases "zs_finish Z (rc_encoder (up_state u1))") auto
    obtain y f2 where y: "staged_write F tail (up_staged u1) f1 = (y, f2)" by fastforce
    have good2: "fs_good F V f2" using staged_write_effect [OF conjunct1 [OF k] fl y] by blast
    have "others V root (up_path u) f f2"
      using d others_trans staged_write_others [OF conjunct1 [OF k] fl y] by fastforce
    with d others_trans [OF this] staged_drop_others [OF good2, of root "up_staged u1"]
      staged_write_path [of F tail "up_staged u1" f1 _ f2] assms(3) x t y
    show ?thesis by (cases y) (auto simp: upload_finish_def Let_def)
  qed
qed

lemma upload_verify_others:
  assumes "fs_good F V f" "upload_verify F u f = (r, f')"
  shows "others V root (up_path u) f f' \<and> (\<forall>v. r = Inr v \<longrightarrow> up_path v = up_path u)"
  using assms apart by (auto simp: upload_verify_def Let_def split: if_splits)

end
