(* ===== verification/System.thy ===== *)
theory System
  imports Boot Isolation IngestLaws
begin

text \<open>
  The whole server over time, as a step relation: any number of requests in progress at once, each
  upload at its own stage, the operator's commands while no server runs, and crashes at any point. A
  step is one call of the code between two points where another request may run; the state it
  leaves behind is that of the modelled operation, on success and on failure.
\<close>

section \<open>State\<close>

text \<open>
  What a request in progress holds: the three typestates of an upload; an artifact that is in place
  but not recorded yet (between the two halves of \<open>store\<close>); a record that a publish has built from
  the entry it looked up and not written yet.
\<close>

datatype ('h, 'e, 'z) task =
    Receiving "('h, 'e, 'z) receiving_upload"
  | Finished "('h, compressed) upload"
  | Ready "('h, verified) upload"
  | Placed sha256 entry
  | Built narinfo

fun task_file :: "('h, 'e, 'z) task \<Rightarrow> 'h staged option" where
  "task_file (Receiving u) = Some (up_staged u)"
| "task_file (Finished u) = Some (up_staged u)"
| "task_file (Ready u) = Some (up_staged u)"
| "task_file (Placed _ _) = None"
| "task_file (Built _) = None"

text \<open>Dropping the future of a request drops its upload, and that removes the staging file.\<close>

definition task_drop :: "('f, 'h) fsys \<Rightarrow> ('h, 'e, 'z) task \<Rightarrow> 'f \<Rightarrow> 'f" where
  "task_drop F t f = (case task_file t of None \<Rightarrow> f | Some sg \<Rightarrow> staged_drop F sg f)"

text \<open>\<open>sy_cache\<close> is \<open>None\<close> while no server runs.\<close>

record ('f, 'd, 'h, 'e, 'z) system =
  sy_world :: "('f, 'd) world"
  sy_cache :: "cache option"
  sy_tasks :: "nat \<Rightarrow> ('h, 'e, 'z) task option"

abbreviation sy_fs :: "('f, 'd, 'h, 'e, 'z) system \<Rightarrow> 'f" where
  "sy_fs s \<equiv> w_fs (sy_world s)"

abbreviation sy_db :: "('f, 'd, 'h, 'e, 'z) system \<Rightarrow> 'd" where
  "sy_db s \<equiv> w_db (sy_world s)"

definition put_files :: "'f \<Rightarrow> ('f, 'd, 'h, 'e, 'z) system \<Rightarrow> ('f, 'd, 'h, 'e, 'z) system" where
  "put_files f s = s\<lparr>sy_world := (sy_world s)\<lparr>w_fs := f\<rparr>\<rparr>"

definition put_rows :: "'d \<Rightarrow> ('f, 'd, 'h, 'e, 'z) system \<Rightarrow> ('f, 'd, 'h, 'e, 'z) system" where
  "put_rows d s = s\<lparr>sy_world := (sy_world s)\<lparr>w_db := d\<rparr>\<rparr>"

definition put_task ::
  "nat \<Rightarrow> ('h, 'e, 'z) task option \<Rightarrow> ('f, 'd, 'h, 'e, 'z) system \<Rightarrow> ('f, 'd, 'h, 'e, 'z) system" where
  "put_task i t s = s\<lparr>sy_tasks := (sy_tasks s)(i := t)\<rparr>"

lemma put_simps [simp]:
  "sy_world (put_files f s) = (sy_world s)\<lparr>w_fs := f\<rparr>" "sy_cache (put_files f s) = sy_cache s"
  "sy_tasks (put_files f s) = sy_tasks s" "sy_world (put_rows d s) = (sy_world s)\<lparr>w_db := d\<rparr>"
  "sy_cache (put_rows d s) = sy_cache s" "sy_tasks (put_rows d s) = sy_tasks s"
  "sy_world (put_task i t s) = sy_world s" "sy_cache (put_task i t s) = sy_cache s"
  "sy_tasks (put_task i t s) = (sy_tasks s)(i := t)"
  by (simp_all add: put_files_def put_rows_def put_task_def)

section \<open>The two halves of a publish\<close>

text \<open>
  \<open>publish\<close> reads the entry in one transaction and writes the record in another, so something may
  happen in between. The first half ends with the signed record.
\<close>

definition publish_build ::
  "('e, 'z, 'f, 'h, 'd, 'r, 't) env \<Rightarrow> ingest \<Rightarrow> string \<Rightarrow> 'd \<Rightarrow> ingest_error + narinfo" where
  "publish_build E ig body d =
     and_then (ctx IG_Narinfo (NarinfoParse.parse (e_ext E) body (ig_dir ig))) (\<lambda>declared.
     and_then (ctx IG_Index (index_nar (e_redb E) (e_rkyv E) (ni_nar_hash declared) d)) (\<lambda>found.
     and_then (or_err (IG_UnknownNar (ni_nar_hash declared)) found) (\<lambda>e.
     and_then (ensure (en_nar_size e = ni_nar_size declared)
       (IG_NarSizeMismatch (ni_nar_size declared) (en_nar_size e))) (\<lambda>_.
     Inr (resign (e_ext E) (ig_dir ig) (ig_key ig) (publish_record declared e))))))"

lemma ingest_publish_halves:
  "ingest_publish E ig body d =
     (case publish_build E ig body d of
        Inl e \<Rightarrow> (Inl e, d)
      | Inr p \<Rightarrow>
         (case index_publish (e_redb E) (e_rkyv E) p d of
            (Inl e, d) \<Rightarrow> (Inl (IG_Index e), d)
          | (Inr _, d) \<Rightarrow> (Inr p, d)))"
  unfolding ingest_publish_def publish_build_def Let_def
  by (cases "NarinfoParse.parse (e_ext E) body (ig_dir ig)";
      cases "index_nar (e_redb E) (e_rkyv E) (ni_nar_hash (projr (NarinfoParse.parse (e_ext E) body (ig_dir ig)))) d";
      cases "projr (index_nar (e_redb E) (e_rkyv E) (ni_nar_hash (projr (NarinfoParse.parse (e_ext E) body (ig_dir ig)))) d)")
    (auto simp: io_run ensure_def split: prod.splits sum.splits)

section \<open>Commands\<close>

text \<open>The data directory a command works on, and the key and store directory it signs with.\<close>

fun cmd_data_dir :: "command \<Rightarrow> path option" where
  "cmd_data_dir (Cmd_Serve args) = Some (sv_data_dir args)"
| "cmd_data_dir (Cmd_Delete args) = Some (de_data_dir args)"
| "cmd_data_dir (Cmd_Reconcile data_dir) = Some data_dir"
| "cmd_data_dir (Cmd_Rotate args) = Some (ro_data_dir args)"
| "cmd_data_dir (Cmd_Keygen _) = None"
| "cmd_data_dir Cmd_Token = None"

fun cmd_signs :: "host \<Rightarrow> 'e ext \<Rightarrow> command \<Rightarrow> secret_key \<Rightarrow> dir \<Rightarrow> bool" where
  "cmd_signs H X (Cmd_Serve args) k dr \<longleftrightarrow>
     boot_secret_key H X (sv_secret_key_file args) = Inr k \<and> boot_dir (sv_store_dir args) = Inr dr"
| "cmd_signs H X (Cmd_Rotate args) k dr \<longleftrightarrow>
     boot_secret_key H X (ro_secret_key_file args) = Inr k \<and> boot_dir (ro_store_dir args) = Inr dr"
| "cmd_signs H X _ k dr \<longleftrightarrow> False"

definition started ::
  "boot_error + prepared + outcome \<Rightarrow> ('f, 'd, 'h, 'e, 'z) system \<Rightarrow> ('f, 'd, 'h, 'e, 'z) system" where
  "started r s =
     (case r of
        Inr (Inl p) \<Rightarrow> s\<lparr>sy_world := (sy_world s)\<lparr>w_store := pr_store p\<rparr>, sy_cache := Some (pr_cache p)\<rparr>
      | _ \<Rightarrow> s)"

section \<open>Steps\<close>

text \<open>
  The parameters of the relation are the environment, the view of its file system, the data
  directory, the pairs of a key and a store directory that the operator signs with, and the set of
  artifacts that are ever placed. A server process takes fewer than \<open>2 ^ 64\<close> staging names.
\<close>

inductive sys_step ::
  "('e, 'z, 'f, 'h, 'd, 'r, 't) env \<Rightarrow> ('f, 'h) fs_views \<Rightarrow> path \<Rightarrow> (secret_key \<times> dir) set \<Rightarrow> string set \<Rightarrow>
     ('f, 'd, 'h, 'e, 'z) system \<Rightarrow> ('f, 'd, 'h, 'e, 'z) system \<Rightarrow> bool"
  for E V dd Cs As where
  look: "same_view V (sy_fs s) f \<Longrightarrow> sys_step E V dd Cs As s (put_files f s)"
| receive: "sy_cache s = Some ca \<Longrightarrow> sy_tasks s i = None \<Longrightarrow> unat (st_sequence (w_store (sy_world s))) + 1 < 2 ^ 64 \<Longrightarrow>
    ingest_receive E (ca_ingest ca) url (sy_world s) = (r, w) \<Longrightarrow>
    sys_step E V dd Cs As s
      (put_task i (case r of Inl _ \<Rightarrow> None | Inr u \<Rightarrow> Some (Receiving u)) (s\<lparr>sy_world := w\<rparr>))"
| take_chunk: "sy_tasks s i = Some (Receiving u) \<Longrightarrow>
    upload_write (e_ext E) (e_zstd E) (e_fs E) chunk (u, sy_fs s) = (Inr (), (v, f)) \<Longrightarrow>
    sys_step E V dd Cs As s (put_task i (Some (Receiving v)) (put_files f s))"
| chunk_fails: "sy_tasks s i = Some (Receiving u) \<Longrightarrow>
    upload_write (e_ext E) (e_zstd E) (e_fs E) chunk (u, sy_fs s) = (Inl e, (v, f)) \<Longrightarrow>
    sys_step E V dd Cs As s (put_task i None (put_files (staged_drop (e_fs E) (up_staged v) f) s))"
| complete: "sy_tasks s i = Some (Receiving u) \<Longrightarrow>
    upload_finish (e_ext E) (e_zstd E) (e_fs E) u (sy_fs s) = (r, f) \<Longrightarrow>
    sys_step E V dd Cs As s
      (put_task i (case r of Inl _ \<Rightarrow> None | Inr c \<Rightarrow> Some (Finished c)) (put_files f s))"
| judge: "sy_tasks s i = Some (Finished c) \<Longrightarrow> upload_verify (e_fs E) c (sy_fs s) = (r, f) \<Longrightarrow>
    sys_step E V dd Cs As s
      (put_task i (case r of Inl _ \<Rightarrow> None | Inr v \<Rightarrow> Some (Ready v)) (put_files f s))"
| place: "sy_tasks s i = Some (Ready v) \<Longrightarrow>
    staged_commit (e_fs E) (w_root (sy_world s)) (up_staged v) (verified_url (up_state v)) (sy_fs s) = (Inr n, f) \<Longrightarrow>
    ran (artifacts V (w_root (sy_world s)) f) \<subseteq> As \<Longrightarrow>
    sys_step E V dd Cs As s
      (put_task i (Some (Placed (vf_nar_hash (up_state v)) (verified_entry (up_state v)))) (put_files f s))"
| place_fails: "sy_tasks s i = Some (Ready v) \<Longrightarrow>
    staged_commit (e_fs E) (w_root (sy_world s)) (up_staged v) (verified_url (up_state v)) (sy_fs s) = (Inl e, f) \<Longrightarrow>
    sys_step E V dd Cs As s (put_task i None (put_files f s))"
| enter: "sy_tasks s i = Some (Placed h e) \<Longrightarrow>
    index_put_nar (e_redb E) (e_rkyv E) h e (sy_db s) = (r, d) \<Longrightarrow>
    sys_step E V dd Cs As s (put_task i None (put_rows d s))"
| build: "sy_cache s = Some ca \<Longrightarrow> sy_tasks s i = None \<Longrightarrow>
    publish_build E (ca_ingest ca) body (sy_db s) = Inr p \<Longrightarrow>
    sys_step E V dd Cs As s (put_task i (Some (Built p)) s)"
| publish: "sy_tasks s i = Some (Built p) \<Longrightarrow>
    index_publish (e_redb E) (e_rkyv E) p (sy_db s) = (r, d) \<Longrightarrow>
    sys_step E V dd Cs As s (put_task i None (put_rows d s))"
| abandon: "sy_tasks s i = Some t \<Longrightarrow>
    sys_step E V dd Cs As s (put_task i None (put_files (task_drop (e_fs E) t (sy_fs s)) s))"
| crash: "sys_step E V dd Cs As s (s\<lparr>sy_cache := None, sy_tasks := \<lambda>_. None\<rparr>)"
| command: "sy_cache s = None \<Longrightarrow> cmd_data_dir cmd \<in> {None, Some dd} \<Longrightarrow>
    (\<And>k dr. cmd_signs H (e_ext E) cmd k dr \<Longrightarrow> (k, dr) \<in> Cs) \<Longrightarrow>
    boot_run H E cmd (sy_fs s, sy_db s) = (r, (f, d)) \<Longrightarrow>
    sys_step E V dd Cs As s (started r (put_rows d (put_files f s)))"

abbreviation sys_steps ::
  "('e, 'z, 'f, 'h, 'd, 'r, 't) env \<Rightarrow> ('f, 'h) fs_views \<Rightarrow> path \<Rightarrow> (secret_key \<times> dir) set \<Rightarrow> string set \<Rightarrow>
     ('f, 'd, 'h, 'e, 'z) system \<Rightarrow> ('f, 'd, 'h, 'e, 'z) system \<Rightarrow> bool" where
  "sys_steps E V dd Cs As \<equiv> (sys_step E V dd Cs As)\<^sup>*\<^sup>*"

end
