(* ===== verification/SystemLaws.thy ===== *)
theory SystemLaws
  imports System
begin

text \<open>
  The invariant of the whole server: whatever is interleaved, whatever fails and wherever it
  crashes, every entry and every record of the index is backed by an artifact in the store.
\<close>

section \<open>What backs an entry and a record\<close>

text \<open>
  The artifact \<open>a\<close> decompresses to a NAR with the digest \<open>h\<close>; the other three values are the digest
  and the length of the artifact and the length of the NAR, which a 64-bit count can hold only below
  \<open>2 ^ 64\<close>.
\<close>

definition payload :: "'e ext \<Rightarrow> 'z zstd_views \<Rightarrow> string \<Rightarrow> sha256 \<Rightarrow> sha256 \<Rightarrow> u64 \<Rightarrow> u64 \<Rightarrow> bool" where
  "payload X Y a h file file_size nar_size \<longleftrightarrow>
     digest X a = file \<and> unat file_size = length a \<and>
     (\<exists>bs. unzstd Y a = Some bs \<and> digest X bs = h \<and> (length bs < 2 ^ 64 \<longrightarrow> unat nar_size = length bs))"

definition entry_backed ::
  "'e ext \<Rightarrow> 'z zstd_views \<Rightarrow> (narurl \<Rightarrow> string option) \<Rightarrow> sha256 \<Rightarrow> entry \<Rightarrow> bool" where
  "entry_backed X Y arts h e \<longleftrightarrow>
     (\<exists>a. arts (entry_url e) = Some a \<and> payload X Y a h (en_file_hash e) (en_file_size e) (en_nar_size e))"

definition record_backed :: "'e ext \<Rightarrow> 'z zstd_views \<Rightarrow> (narurl \<Rightarrow> string option) \<Rightarrow> narinfo \<Rightarrow> bool" where
  "record_backed X Y arts q \<longleftrightarrow>
     (\<exists>a. arts (ni_nar q) = Some a \<and> payload X Y a (ni_nar_hash q) (ni_file_hash q) (ni_file_size q) (ni_nar_size q))"

definition operator_signed :: "'e ext \<Rightarrow> (secret_key \<times> dir) set \<Rightarrow> narinfo \<Rightarrow> bool" where
  "operator_signed X Cs q \<longleftrightarrow> (\<exists>(k, dr) \<in> Cs. ni_sigs q = [sign X k (fingerprint q dr)])"

lemma entry_backed_mono: "entry_backed X Y m h e \<Longrightarrow> m \<subseteq>\<^sub>m m' \<Longrightarrow> entry_backed X Y m' h e"
  by (auto simp: entry_backed_def map_le_def dom_def)

lemma record_backed_mono: "record_backed X Y m q \<Longrightarrow> m \<subseteq>\<^sub>m m' \<Longrightarrow> record_backed X Y m' q"
  by (auto simp: record_backed_def map_le_def dom_def)

lemma built_backed:
  assumes "entry_backed X Y arts (ni_nar_hash q) e" "en_nar_size e = ni_nar_size q" "(k, dr) \<in> Cs"
  shows "record_backed X Y arts (resign X dr k (publish_record q e)) \<and>
    operator_signed X Cs (resign X dr k (publish_record q e))"
proof -
  let ?p = "resign X dr k (publish_record q e)"
  have "ni_nar ?p = entry_url e" "ni_file_hash ?p = en_file_hash e" "ni_file_size ?p = en_file_size e"
    "ni_nar_hash ?p = ni_nar_hash q" "ni_nar_size ?p = ni_nar_size q" "ni_sigs ?p = [sign X k (fingerprint ?p dr)]"
    by (simp_all add: resign_def publish_record_def fingerprint_def ni_nar_def entry_url_def)
  with assms show ?thesis by (auto simp: record_backed_def entry_backed_def operator_signed_def)
qed

lemma resigned_backed:
  assumes "record_backed X Y arts q" "(k, dr) \<in> Cs"
  shows "record_backed X Y arts (resign X dr k q) \<and> operator_signed X Cs (resign X dr k q)"
  using assms by (auto simp: record_backed_def operator_signed_def resign_def fingerprint_def ni_nar_def)

section \<open>Tasks\<close>

fun task_ok ::
  "'e ext \<Rightarrow> 'z zstd_views \<Rightarrow> ('f, 'h) fs_views \<Rightarrow> path \<Rightarrow> (secret_key \<times> dir) set \<Rightarrow> 'f \<Rightarrow> ('h, 'e, 'z) task \<Rightarrow> bool" where
  "task_ok X Y V root Cs f (Receiving u) \<longleftrightarrow> (\<exists>bs. receives X Y V root f u bs)"
| "task_ok X Y V root Cs f (Finished c) \<longleftrightarrow> (\<exists>bs a. finished X Y V root f c bs a)"
| "task_ok X Y V root Cs f (Ready v) \<longleftrightarrow>
     (\<exists>a. holds V root f (up_staged v) a \<and> vf_nar_size (up_state v) \<noteq> 0 \<and>
       payload X Y a (vf_nar_hash (up_state v)) (vf_file_hash (up_state v)) (vf_file_size (up_state v))
         (vf_nar_size (up_state v)))"
| "task_ok X Y V root Cs f (Placed h e) \<longleftrightarrow> entry_ok e \<and> entry_backed X Y (artifacts V root f) h e"
| "task_ok X Y V root Cs f (Built p) \<longleftrightarrow>
     core_ok p \<and> record_backed X Y (artifacts V root f) p \<and> operator_signed X Cs p"

definition task_path :: "('h, 'e, 'z) task \<Rightarrow> path option" where
  "task_path t = map_option sg_path (task_file t)"

lemma task_path_simps [simp]:
  "task_path (Receiving u) = Some (up_path u)" "task_path (Finished c) = Some (up_path c)"
  "task_path (Ready v) = Some (up_path v)" "task_path (Placed h e) = None" "task_path (Built p) = None"
  by (simp_all add: task_path_def)

lemma task_in_flight:
  "task_ok X Y V root Cs f t \<Longrightarrow> task_file t = Some sg \<Longrightarrow> in_flight V root f sg"
  by (cases t) (auto simp: receives_def finished_def holds_def Let_def)

lemma receives_frame:
  "receives X Y V root f u bs \<Longrightarrow> others V root p f f' \<Longrightarrow> up_path u \<noteq> p \<Longrightarrow> receives X Y V root f' u bs"
  using others_holds by (fastforce simp: receives_def Let_def)

lemma finished_frame:
  "finished X Y V root f c bs a \<Longrightarrow> others V root p f f' \<Longrightarrow> up_path c \<noteq> p \<Longrightarrow> finished X Y V root f' c bs a"
  using others_holds by (fastforce simp: finished_def Let_def)

text \<open>A task sees nothing of what another one does.\<close>

lemma task_ok_frame:
  assumes "task_ok X Y V root Cs f t" "others V root p f f'" "task_path t \<noteq> Some p"
    and "artifacts V root f \<subseteq>\<^sub>m artifacts V root f'"
  shows "task_ok X Y V root Cs f' t"
proof (cases t)
  case (Receiving u)
  then show ?thesis using assms(1,3) receives_frame [OF _ assms(2)] by (simp, blast)
next
  case (Finished c)
  then show ?thesis using assms(1,3) finished_frame [OF _ assms(2)] by (simp, blast)
next
  case (Ready v)
  then show ?thesis using assms others_holds [OF assms(2)] by auto
next
  case (Placed h e)
  then show ?thesis using assms entry_backed_mono by auto
next
  case (Built q)
  then show ?thesis using assms record_backed_mono by auto
qed

lemma verified_task_ok:
  assumes "finished X Y V root f c bs a" "upload_verify F c f = (Inr v, f')"
  shows "f' = f \<and> task_ok X Y V root Cs f (Ready v)"
proof -
  have "f' = f" using assms(2) by (auto simp: upload_verify_def Let_def split: if_splits)
  then show ?thesis using assms(1) upload_verify_Inr [OF assms(2)]
    by (auto simp: finished_def Let_def payload_def)
qed

section \<open>The invariant\<close>

text \<open>The staging names of the running server are those it has handed out.\<close>

definition staged_names :: "('f, 'd) world \<Rightarrow> path set" where
  "staged_names w = (\<lambda>n. w_root w @ [STAGING, staging_name ((w_store w)\<lparr>st_sequence := n\<rparr>)]) `
     {n. n < st_sequence (w_store w)}"

definition world_ok ::
  "('e, 'z, 'f, 'h, 'd, 'r, 't) env \<Rightarrow> ('f, 'h) fs_views \<Rightarrow> 'z zstd_views \<Rightarrow> ('d, 'r, 't) views \<Rightarrow> path \<Rightarrow>
     (secret_key \<times> dir) set \<Rightarrow> string set \<Rightarrow> ('f, 'd) world \<Rightarrow> bool" where
  "world_ok E V Y U root Cs As w \<longleftrightarrow>
     fs_good (e_fs E) V (w_fs w) \<and> index_good (e_redb E) U (e_rkyv E) (w_db w) \<and>
     ran (artifacts V root (w_fs w)) \<subseteq> As \<and>
     (\<forall>u a. artifacts V root (w_fs w) u = Some a \<longrightarrow> digest (e_ext E) a = file_hash u) \<and>
     (\<forall>h e. nars U (e_rkyv E) (w_db w) h = Some e \<longrightarrow>
        entry_backed (e_ext E) Y (artifacts V root (w_fs w)) h e) \<and>
     (\<forall>h q. infos U (e_rkyv E) (w_db w) h = Some q \<longrightarrow>
        record_backed (e_ext E) Y (artifacts V root (w_fs w)) q \<and> operator_signed (e_ext E) Cs q)"

definition sys_ok ::
  "('e, 'z, 'f, 'h, 'd, 'r, 't) env \<Rightarrow> ('f, 'h) fs_views \<Rightarrow> 'z zstd_views \<Rightarrow> ('d, 'r, 't) views \<Rightarrow> path \<Rightarrow>
     (secret_key \<times> dir) set \<Rightarrow> string set \<Rightarrow> ('f, 'd, 'h, 'e, 'z) system \<Rightarrow> bool" where
  "sys_ok E V Y U dd Cs As s \<longleftrightarrow>
     (let w = sy_world s; root = dd @ [PAYLOAD] in
      world_ok E V Y U root Cs As w \<and>
      (\<forall>i t. sy_tasks s i = Some t \<longrightarrow> task_ok (e_ext E) Y V root Cs (w_fs w) t) \<and>
      (\<forall>i t p. sy_tasks s i = Some t \<longrightarrow> task_path t = Some p \<longrightarrow> p \<in> staged_names w) \<and>
      (\<forall>i j t u p. sy_tasks s i = Some t \<longrightarrow> sy_tasks s j = Some u \<longrightarrow> task_path t = Some p \<longrightarrow>
         task_path u = Some p \<longrightarrow> i = j) \<and>
      (case sy_cache s of
         None \<Rightarrow> sy_tasks s = (\<lambda>_. None)
       | Some ca \<Rightarrow> w_root w = root \<and> (ig_key (ca_ingest ca), ig_dir (ca_ingest ca)) \<in> Cs))"

text \<open>Reading the invariant off, part by part.\<close>

lemma sys_okD:
  assumes "sys_ok E V Y U dd Cs As s"
  shows "world_ok E V Y U (dd @ [PAYLOAD]) Cs As (sy_world s)"
    and "sy_tasks s i = Some t \<Longrightarrow> task_ok (e_ext E) Y V (dd @ [PAYLOAD]) Cs (sy_fs s) t"
    and "sy_tasks s i = Some t \<Longrightarrow> task_path t = Some p \<Longrightarrow> p \<in> staged_names (sy_world s)"
    and "sy_tasks s i = Some t \<Longrightarrow> sy_tasks s j = Some u \<Longrightarrow> task_path t = Some p \<Longrightarrow> task_path u = Some p \<Longrightarrow> i = j"
    and "sy_cache s = None \<Longrightarrow> sy_tasks s = (\<lambda>_. None)"
    and "sy_cache s = Some ca \<Longrightarrow> w_root (sy_world s) = dd @ [PAYLOAD] \<and> (ig_key (ca_ingest ca), ig_dir (ca_ingest ca)) \<in> Cs"
    and "sy_tasks s i = Some t \<Longrightarrow> w_root (sy_world s) = dd @ [PAYLOAD]"
  using assms unfolding sys_ok_def Let_def by (auto split: option.splits)

lemma world_okD:
  assumes "world_ok E V Y U root Cs As w"
  shows "fs_good (e_fs E) V (w_fs w)" and "index_good (e_redb E) U (e_rkyv E) (w_db w)"
    and "ran (artifacts V root (w_fs w)) \<subseteq> As"
    and "artifacts V root (w_fs w) u = Some a \<Longrightarrow> digest (e_ext E) a = file_hash u"
    and "nars U (e_rkyv E) (w_db w) h = Some e \<Longrightarrow> entry_backed (e_ext E) Y (artifacts V root (w_fs w)) h e"
    and "infos U (e_rkyv E) (w_db w) g = Some q \<Longrightarrow>
      record_backed (e_ext E) Y (artifacts V root (w_fs w)) q \<and> operator_signed (e_ext E) Cs q"
  using assms unfolding world_ok_def by blast+

section \<open>The effects of a step on the world\<close>

lemma world_ok_files:
  assumes "world_ok E V Y U root Cs As w" "fs_good (e_fs E) V (w_fs w')" "w_db w' = w_db w"
    and "artifacts V root (w_fs w') = artifacts V root (w_fs w)"
  shows "world_ok E V Y U root Cs As w'"
  using assms unfolding world_ok_def by simp

lemma world_ok_place:
  assumes ok: "world_ok E V Y U root Cs As w" and inj: "inj_on (digest (e_ext E)) As"
    and w': "fs_good (e_fs E) V f" "artifacts V root f = (artifacts V root (w_fs w))(u \<mapsto> a)"
    and a: "a \<in> As" "digest (e_ext E) a = file_hash u"
  shows "artifacts V root (w_fs w) \<subseteq>\<^sub>m artifacts V root f \<and> world_ok E V Y U root Cs As (w\<lparr>w_fs := f\<rparr>)"
proof -
  note W = world_okD [OF ok]
  have "b = a" if "artifacts V root (w_fs w) u = Some b" for b
  proof -
    have "b \<in> As" using W(3) that by (auto simp: ran_def)
    moreover have "digest (e_ext E) b = digest (e_ext E) a" using W(4) [OF that] a(2) by simp
    ultimately show ?thesis using inj a(1) by (auto dest: inj_onD)
  qed
  then have le: "artifacts V root (w_fs w) \<subseteq>\<^sub>m artifacts V root f"
    by (auto simp: map_le_def w'(2) dom_def)
  have "ran (artifacts V root f) \<subseteq> As" using W(3) a(1) w'(2) by (auto simp: ran_def)
  moreover have "digest (e_ext E) b = file_hash t" if "artifacts V root f t = Some b" for t b
    using that W(4) [of t b] a(2) by (simp add: w'(2) split: if_splits)
  ultimately show ?thesis
    using le w'(1) W(2) W(5) [THEN entry_backed_mono, OF _ le] W(6) [THEN conjunct1, THEN record_backed_mono, OF _ le]
      W(6) [THEN conjunct2]
    unfolding world_ok_def by simp
qed

lemma world_ok_rows:
  assumes ok: "world_ok E V Y U root Cs As w" and d: "index_good (e_redb E) U (e_rkyv E) d"
    and "\<And>h e. nars U (e_rkyv E) d h = Some e \<Longrightarrow> nars U (e_rkyv E) (w_db w) h = Some e \<or>
      entry_backed (e_ext E) Y (artifacts V root (w_fs w)) h e"
    and "\<And>h q. infos U (e_rkyv E) d h = Some q \<Longrightarrow> infos U (e_rkyv E) (w_db w) h = Some q \<or>
      record_backed (e_ext E) Y (artifacts V root (w_fs w)) q \<and> operator_signed (e_ext E) Cs q"
  shows "world_ok E V Y U root Cs As (w\<lparr>w_db := d\<rparr>)"
  using assms unfolding world_ok_def by fastforce

section \<open>One task moves, the others stay\<close>

lemma sys_ok_update:
  assumes ok: "sys_ok E V Y U dd Cs As s" and cache: "sy_cache s \<noteq> None" "sy_cache s' = sy_cache s"
    and tasks: "sy_tasks s' = (sy_tasks s)(i := t')"
    and world: "world_ok E V Y U (dd @ [PAYLOAD]) Cs As (sy_world s')" "w_root (sy_world s') = w_root (sy_world s)"
    and names: "staged_names (sy_world s) \<subseteq> staged_names (sy_world s')"
    and frame: "others V (dd @ [PAYLOAD]) p (sy_fs s) (sy_fs s')"
      "artifacts V (dd @ [PAYLOAD]) (sy_fs s) \<subseteq>\<^sub>m artifacts V (dd @ [PAYLOAD]) (sy_fs s')"
    and own: "\<And>j u. j \<noteq> i \<Longrightarrow> sy_tasks s j = Some u \<Longrightarrow> task_path u \<noteq> Some p"
    and new: "\<And>t. t' = Some t \<Longrightarrow> task_ok (e_ext E) Y V (dd @ [PAYLOAD]) Cs (sy_fs s') t \<and>
      (\<forall>q. task_path t = Some q \<longrightarrow> q = p \<and> q \<in> staged_names (sy_world s'))"
  shows "sys_ok E V Y U dd Cs As s'"
proof -
  note O = sys_okD [OF ok]
  have rest: "task_ok (e_ext E) Y V (dd @ [PAYLOAD]) Cs (sy_fs s') u" if "j \<noteq> i" "sy_tasks s j = Some u" for j u
    using task_ok_frame [OF O(2) [OF that(2)] frame(1) own [OF that] frame(2)] .
  have tk: "task_ok (e_ext E) Y V (dd @ [PAYLOAD]) Cs (sy_fs s') u" if "sy_tasks s' j = Some u" for j u
    using that rest new by (cases "j = i") (auto simp: tasks)
  have nm: "q \<in> staged_names (sy_world s')" if "sy_tasks s' j = Some u" "task_path u = Some q" for j u q
    using that O(3) names new by (cases "j = i") (auto simp: tasks)
  have dist: "j = k" if "sy_tasks s' j = Some t" "sy_tasks s' k = Some u" "task_path t = Some q" "task_path u = Some q"
    for j k t u q
    using that O(4) own new by (cases "j = i"; cases "k = i") (auto simp: tasks)
  obtain ca where ca: "sy_cache s = Some ca" using cache(1) by blast
  show ?thesis
    unfolding sys_ok_def Let_def using world tk nm dist O(6) [OF ca] by (auto simp: cache(2) ca)
qed

section \<open>Opening an upload\<close>

text \<open>Two staging names of one process differ, so a new upload gets a file of its own.\<close>

lemma staging_name_inject:
  "staging_name (st\<lparr>st_sequence := m\<rparr>) = staging_name (st\<lparr>st_sequence := n\<rparr>) \<longleftrightarrow> m = n"
  by (auto simp: staging_name_def show_u64_def word_unat_eq_iff)

lemma staged_names_fresh:
  "w_root w @ [STAGING, staging_name (w_store w)] \<notin> staged_names w"
proof -
  have "staging_name ((w_store w)\<lparr>st_sequence := n\<rparr>) \<noteq> staging_name (w_store w)" if "n < st_sequence (w_store w)" for n
    using staging_name_inject [where st = "w_store w" and m = n and n = "st_sequence (w_store w)"] that by simp
  then show ?thesis by (auto simp: staged_names_def eq_commute [of "staging_name (w_store w)"])
qed

lemma staged_names_grow:
  assumes "unat (st_sequence (w_store w)) + 1 < 2 ^ 64" "w_store w' = (w_store w)\<lparr>st_sequence := st_sequence (w_store w) + 1\<rparr>"
  shows "insert (w_root w @ [STAGING, staging_name (w_store w)]) (staged_names w) \<subseteq> staged_names w'"
proof -
  let ?n = "st_sequence (w_store w)"
  have lt: "?n < ?n + 1" using assms(1) by (simp add: word_less_nat_alt unat_add_lem [THEN iffD1])
  have sub: "m < ?n \<Longrightarrow> m < ?n + 1" for m by (rule less_trans [OF _ lt])
  have "w_root w @ [STAGING, staging_name ((w_store w)\<lparr>st_sequence := ?n\<rparr>)] \<in> staged_names w'"
    unfolding staged_names_def assms(2) using lt by (intro image_eqI [of _ _ ?n]) simp_all
  moreover have "staged_names w \<subseteq> staged_names w'"
    unfolding staged_names_def assms(2) using sub by (auto intro!: image_eqI)
  ultimately show ?thesis by simp
qed

lemma ingest_receive_apart:
  assumes good: "fs_good (e_fs E) V (w_fs w)" and n: "unat (st_sequence (w_store w)) + 1 < 2 ^ 64"
    and run: "ingest_receive E ig url w = (r, w')"
  defines "p \<equiv> w_root w @ [STAGING, staging_name (w_store w)]"
  shows "others V (w_root w) p (w_fs w) (w_fs w') \<and> staged_names w \<subseteq> staged_names w' \<and>
    (\<forall>u. r = Inr u \<longrightarrow> up_path u = p \<and> p \<in> staged_names w')"
proof (cases "compression url = NoCompression")
  case False
  then show ?thesis using run by (auto simp: ingest_receive_def)
next
  case True
  obtain x st f1 where x: "stage (e_fs E) (w_store w, w_fs w) = (x, (st, f1))" by (metis prod.exhaust)
  have st: "st = (w_store w)\<lparr>st_sequence := st_sequence (w_store w) + 1\<rparr>"
    using x by (auto simp: stage_def Let_def split: prod.splits)
  note so = stage_others [OF good refl x, folded p_def]
  show ?thesis
  proof (cases x)
    case (Inl e)
    then have "w' = w\<lparr>w_store := st, w_fs := f1\<rparr>" "isl r" using run x True
      by (auto simp: ingest_receive_def io_run on_store_def)
    then show ?thesis using so staged_names_grow [OF n, of w'] st by (auto simp: p_def)
  next
    case (Inr sg)
    obtain y f2 where y: "upload_new (e_ext E) (e_zstd E) (e_fs E) sg (file_hash url) (ig_level ig) f1 = (y, f2)"
      by fastforce
    have w': "w' = w\<lparr>w_store := st, w_fs := f2\<rparr>" "r = ctx IG_Upload y"
      using run x y Inr True by (auto simp: ingest_receive_def io_run on_store_def on_fs_def)
    have "fs_good (e_fs E) V f1" using stage_effect [OF good refl x] by blast
    from upload_new_others [OF this y, of "w_root w"] so Inr
    have "others V (w_root w) p (w_fs w) f2" "\<forall>u. y = Inr u \<longrightarrow> up_path u = p"
      by (auto intro: others_trans)
    then show ?thesis using w' staged_names_grow [OF n, of w'] st by (auto simp: p_def)
  qed
qed

end
