(* ===== verification/CommandLaws.thy ===== *)
theory CommandLaws
  imports SystemLaws
begin

text \<open>
  What the subcommands leave: opening the data directory changes nothing that is stored, a delete
  only forgets, a rotation only re-signs, a reconciliation only looks, and a server starts on the
  store and the index it found.
\<close>

section \<open>Operations that keep a property and tell something of their result\<close>

definition io_post :: "('s \<Rightarrow> bool) \<Rightarrow> ('s, 'e, 'a) io \<Rightarrow> ('a \<Rightarrow> bool) \<Rightarrow> bool" where
  "io_post P m Q \<longleftrightarrow> (\<forall>s r s'. m s = (r, s') \<longrightarrow> P s \<longrightarrow> P s' \<and> (\<forall>a. r = Inr a \<longrightarrow> Q a))"

lemma io_postD: "io_post P m Q \<Longrightarrow> m s = (r, s') \<Longrightarrow> P s \<Longrightarrow> P s' \<and> (\<forall>a. r = Inr a \<longrightarrow> Q a)"
  by (simp add: io_post_def)

lemma io_post_then:
  "io_post P m Q \<Longrightarrow> (\<And>a. Q a \<Longrightarrow> io_post P (f a) R) \<Longrightarrow> io_post P (io_then m f) R"
  unfolding io_post_def by (fastforce elim!: io_thenE)

lemma io_post_return: "Q a \<Longrightarrow> io_post P (io_return a) Q"
  by (simp add: io_post_def)

lemma io_post_lift: "(\<And>a. m = Inr a \<Longrightarrow> Q a) \<Longrightarrow> io_post P (io_lift m) Q"
  by (simp add: io_post_def)

lemma io_post_weaken: "io_post P m Q \<Longrightarrow> (\<And>a. Q a \<Longrightarrow> R a) \<Longrightarrow> io_post P m R"
  by (auto simp: io_post_def)

lemma io_post_keeps: "io_keeps P m \<Longrightarrow> io_post P m (\<lambda>_. True)"
  by (auto simp: io_post_def io_keeps_def)

section \<open>The files and rows a command works on\<close>

text \<open>
  A property of the files and the database that depends on the artifacts and the rows alone, not on
  which staging files there are or what else a call did.
\<close>

definition durable ::
  "('e, 'z, 'f, 'h, 'd, 'r, 't) env \<Rightarrow> ('f, 'h) fs_views \<Rightarrow> ('d, 'r, 't) views \<Rightarrow> path \<Rightarrow> ('f \<times> 'd \<Rightarrow> bool) \<Rightarrow> bool" where
  "durable E V U root P \<longleftrightarrow>
     (\<forall>f d. P (f, d) \<longrightarrow> fs_good (e_fs E) V f \<and> redb_laws (e_redb E) U \<and>
        (\<forall>f'. fs_good (e_fs E) V f' \<longrightarrow> artifacts V root f' = artifacts V root f \<longrightarrow> P (f', d)) \<and>
        (\<forall>d'. v_db U d' = v_db U d \<longrightarrow> P (f, d')))"

lemma durableD:
  assumes "durable E V U root P" "P (f, d)"
  shows "fs_good (e_fs E) V f" "fs_laws (e_fs E) V" "redb_laws (e_redb E) U"
    and "fs_good (e_fs E) V f' \<Longrightarrow> artifacts V root f' = artifacts V root f \<Longrightarrow> P (f', d)"
    and "v_db U d' = v_db U d \<Longrightarrow> P (f, d')"
proof -
  have *: "fs_good (e_fs E) V f \<and> redb_laws (e_redb E) U \<and>
      (\<forall>f'. fs_good (e_fs E) V f' \<longrightarrow> artifacts V root f' = artifacts V root f \<longrightarrow> P (f', d)) \<and>
      (\<forall>d'. v_db U d' = v_db U d \<longrightarrow> P (f, d'))"
    using assms unfolding durable_def by blast
  then show "fs_good (e_fs E) V f" "redb_laws (e_redb E) U" "fs_laws (e_fs E) V" by (simp_all add: fs_good_def)
  show "fs_good (e_fs E) V f' \<Longrightarrow> artifacts V root f' = artifacts V root f \<Longrightarrow> P (f', d)"
    "v_db U d' = v_db U d \<Longrightarrow> P (f, d')" using * by blast+
qed

text \<open>The invariant of the server, with the store handle of no importance, and equality with what was there.\<close>

definition stored_ok ::
  "('e, 'z, 'f, 'h, 'd, 'r, 't) env \<Rightarrow> ('f, 'h) fs_views \<Rightarrow> 'z zstd_views \<Rightarrow> ('d, 'r, 't) views \<Rightarrow> path \<Rightarrow>
     (secret_key \<times> dir) set \<Rightarrow> string set \<Rightarrow> 'f \<times> 'd \<Rightarrow> bool" where
  "stored_ok E V Y U root Cs As fd \<longleftrightarrow>
     (\<exists>st. world_ok E V Y U root Cs As \<lparr>w_store = st, w_fs = fst fd, w_db = snd fd\<rparr>)"

definition stored_as ::
  "('e, 'z, 'f, 'h, 'd, 'r, 't) env \<Rightarrow> ('f, 'h) fs_views \<Rightarrow> ('d, 'r, 't) views \<Rightarrow> path \<Rightarrow>
     (narurl \<Rightarrow> string option) \<Rightarrow> contents \<Rightarrow> 'f \<times> 'd \<Rightarrow> bool" where
  "stored_as E V U root arts rows fd \<longleftrightarrow> fs_good (e_fs E) V (fst fd) \<and> redb_laws (e_redb E) U \<and>
     artifacts V root (fst fd) = arts \<and> v_db U (snd fd) = rows"

lemma stored_ok_world: "stored_ok E V Y U root Cs As (w_fs w, w_db w) \<longleftrightarrow> world_ok E V Y U root Cs As w"
  by (simp add: stored_ok_def world_ok_def)

lemma durable_stored_ok: "durable E V U root (stored_ok E V Y U root Cs As)"
  unfolding durable_def
proof (intro allI impI)
  fix f d assume "stored_ok E V Y U root Cs As (f, d)"
  then obtain st where w: "world_ok E V Y U root Cs As \<lparr>w_store = st, w_fs = f, w_db = d\<rparr>" (is "world_ok E V Y U root Cs As ?w")
    by (auto simp: stored_ok_def)
  note W = world_okD [OF w, simplified]
  have "stored_ok E V Y U root Cs As (f', d)"
    if "fs_good (e_fs E) V f'" "artifacts V root f' = artifacts V root f" for f'
    using world_ok_files [OF w, of "?w\<lparr>w_fs := f'\<rparr>"] that by (auto simp: stored_ok_def)
  moreover have "stored_ok E V Y U root Cs As (f, d')" if "v_db U d' = v_db U d" for d'
  proof -
    have i: "index_good (e_redb E) U (e_rkyv E) d'" "nars U (e_rkyv E) d' = nars U (e_rkyv E) d"
      "infos U (e_rkyv E) d' = infos U (e_rkyv E) d"
      using W(2) that by (simp_all add: index_good_def nars_def infos_def)
    have "world_ok E V Y U root Cs As (?w\<lparr>w_db := d'\<rparr>)"
      by (rule world_ok_rows [OF w i(1)]) (simp_all add: i)
    then show ?thesis by (auto simp: stored_ok_def)
  qed
  ultimately show "fs_good (e_fs E) V f \<and> redb_laws (e_redb E) U \<and>
      (\<forall>f'. fs_good (e_fs E) V f' \<longrightarrow> artifacts V root f' = artifacts V root f \<longrightarrow> stored_ok E V Y U root Cs As (f', d)) \<and>
      (\<forall>d'. v_db U d' = v_db U d \<longrightarrow> stored_ok E V Y U root Cs As (f, d'))"
    using W(1,2) by (simp add: index_good_def)
qed

lemma durable_stored_as: "durable E V U root (stored_as E V U root arts rows)"
  by (simp add: durable_def stored_as_def)

lemma post_view:
  assumes P: "durable E V U root P"
    and m: "\<And>f r f'. fs_laws (e_fs E) V \<Longrightarrow> m f = (r, f') \<Longrightarrow> same_view V f f' \<and> (\<forall>a. r = Inr a \<longrightarrow> Q a)"
  shows "io_post P (on_files k m) Q"
  unfolding io_post_def
proof (intro allI impI)
  fix fd r fd' assume run: "on_files k m fd = (r, fd')" and ok: "P fd"
  obtain f d where fd: "fd = (f, d)" by fastforce
  obtain q f' where q: "m f = (q, f')" "fd' = (f', d)" "r = ctx k q"
    using run fd by (auto simp: on_files_def split: prod.splits)
  note D = durableD [OF P ok [unfolded fd]]
  from m [OF D(2) q(1)] have v: "same_view V f f'" "\<forall>a. q = Inr a \<longrightarrow> Q a" by blast+
  have "P fd'" unfolding q(2) by (rule D(4)) (use D(1) v(1) in \<open>simp_all add: same_view_good same_view_artifacts\<close>)
  then show "P fd' \<and> (\<forall>a. r = Inr a \<longrightarrow> Q a)" using v(2) q(3) by simp
qed

lemma keeps_view_create_dirs:
  "fs_laws F V \<Longrightarrow> io_each (\<lambda>p. io_ctx (k p) (fs_create_dir_all F p)) ps f = (r, f') \<Longrightarrow> same_view V f f'"
proof (induction ps arbitrary: f)
  case (Cons p ps)
  from Cons.prems(2) show ?case
    by (auto elim!: io_thenE io_ctxE dest: query_view(1) [OF Cons.prems(1)] Cons.IH [OF Cons.prems(1)]
        intro: same_view_trans)
qed simp

lemma store_open_effect:
  assumes "fs_laws F V" "store_open F root pid f = (r, f')"
  shows "same_view V f f' \<and> (\<forall>st. r = Inr st \<longrightarrow> st = \<lparr>st_root = root, st_sequence = 0, st_pid = pid\<rparr>)"
  using assms(2) keeps_view_create_dirs [OF assms(1)] by (auto simp: store_open_def simp del: io_each.simps elim!: io_thenE)

lemma post_index_open:
  assumes P: "durable E V U root P"
  shows "io_post P (on_index k (index_open (e_redb E) p)) (\<lambda>_. True)"
  unfolding io_post_def
proof (intro allI impI)
  fix fd r fd' assume run: "on_index k (index_open (e_redb E) p) fd = (r, fd')" and ok: "P fd"
  obtain f d where fd: "fd = (f, d)" by fastforce
  obtain q d' where q: "index_open (e_redb E) p d = (q, d')" "fd' = (f, d')"
    using run fd by (auto simp: on_index_def split: prod.splits)
  note D = durableD [OF P ok [unfolded fd]]
  from D(5) [OF index_open_keeps [OF D(3) q(1)]] q(2) show "P fd' \<and> (\<forall>a. r = Inr a \<longrightarrow> True)" by simp
qed

lemma post_boot_open:
  assumes P: "durable E V U root P"
  shows "io_post P (boot_open H E data_dir) (\<lambda>st. st = \<lparr>st_root = data_dir @ [PAYLOAD], st_sequence = 0, st_pid = ho_pid H\<rparr>)"
    (is "io_post P _ ?Q")
  unfolding boot_open_def Let_def
proof (intro io_post_then)
  show "io_post P (io_lift (ctx BE_Runtime (ho_runtime H))) (\<lambda>_. True)"
    by (rule io_post_lift) simp
  show "io_post P (on_files BE_Store (store_open (e_fs E) (data_dir @ [PAYLOAD]) (ho_pid H))) ?Q"
    by (rule post_view [OF P]) (use store_open_effect in fastforce)
  fix st assume "?Q st"
  then show "io_post P (io_return st) ?Q" by (rule io_post_return)
qed (rule post_index_open [OF P])

section \<open>The commands that change the index\<close>

lemma maintain_delete_shrinks:
  assumes "index_good D U K d" "maintain_delete D K h d = (r, d')"
  shows "index_good D U K d' \<and> infos U K d' \<subseteq>\<^sub>m infos U K d \<and> nars U K d' \<subseteq>\<^sub>m nars U K d"
proof -
  obtain x where "index_unpublish D K h d = (x, d')"
    using assms(2) by (auto simp: maintain_delete_def elim!: io_thenE io_ctxE split: option.splits)
  from unpublish_good [OF assms(1) this] show ?thesis
    by (cases "infos U K d h") (auto simp: map_le_def split: if_splits)
qed

lemma post_rows:
  assumes "\<And>d r d'. index_good (e_redb E) U (e_rkyv E) d \<Longrightarrow> m d = (r, d') \<Longrightarrow>
      index_good (e_redb E) U (e_rkyv E) d' \<and> nars U (e_rkyv E) d' \<subseteq>\<^sub>m nars U (e_rkyv E) d \<and>
      (\<forall>h q. infos U (e_rkyv E) d' h = Some q \<longrightarrow> infos U (e_rkyv E) d h = Some q \<or>
         (\<exists>k dr p. (k, dr) \<in> Cs \<and> infos U (e_rkyv E) d h = Some p \<and> q = resign (e_ext E) dr k p))"
  shows "io_post (stored_ok E V Y U root Cs As) (on_index k m) (\<lambda>_. True)"
  unfolding io_post_def
proof (intro allI impI)
  fix fd r fd' assume run: "on_index k m fd = (r, fd')" and ok: "stored_ok E V Y U root Cs As fd"
  obtain f d where fd: "fd = (f, d)" by fastforce
  obtain q d' where q: "m d = (q, d')" "fd' = (f, d')"
    using run fd by (auto simp: on_index_def split: prod.splits)
  obtain st where w: "world_ok E V Y U root Cs As \<lparr>w_store = st, w_fs = f, w_db = d\<rparr>"
    using ok fd by (auto simp: stored_ok_def)
  note W = world_okD [OF w, simplified]
  note eff = assms [OF W(2) q(1)]
  have "world_ok E V Y U root Cs As (\<lparr>w_store = st, w_fs = f, w_db = d\<rparr>\<lparr>w_db := d'\<rparr>)"
  proof (rule world_ok_rows [OF w], simp_all)
    show "index_good (e_redb E) U (e_rkyv E) d'" using eff by blast
    fix h e assume "nars U (e_rkyv E) d' h = Some e"
    then show "nars U (e_rkyv E) d h = Some e \<or> entry_backed (e_ext E) Y (artifacts V root f) h e"
      using eff by (auto simp: map_le_def dom_def)
  next
    fix h p assume "infos U (e_rkyv E) d' h = Some p"
    then show "infos U (e_rkyv E) d h = Some p \<or>
        record_backed (e_ext E) Y (artifacts V root f) p \<and> operator_signed (e_ext E) Cs p"
      using eff W(6) resigned_backed by blast
  qed
  then show "stored_ok E V Y U root Cs As fd' \<and> (\<forall>a. r = Inr a \<longrightarrow> True)"
    using q(2) by (auto simp: stored_ok_def)
qed

lemma post_delete:
  "io_post (stored_ok E V Y U root Cs As) (on_index k (maintain_delete (e_redb E) (e_rkyv E) h)) (\<lambda>_. True)"
  by (rule post_rows) (use maintain_delete_shrinks in \<open>fastforce simp: map_le_def dom_def\<close>)

lemma post_rotate:
  assumes "(key, dr) \<in> Cs"
  shows "io_post (stored_ok E V Y U root Cs As) (on_index k (maintain_rotate E dr key)) (\<lambda>_. True)"
proof (rule post_rows)
  fix d r d' assume "index_good (e_redb E) U (e_rkyv E) d" "maintain_rotate E dr key d = (r, d')"
  from maintain_rotate_effect [OF this] have
    eff: "index_good (e_redb E) U (e_rkyv E) d'" "nars U (e_rkyv E) d' = nars U (e_rkyv E) d"
    "\<And>h. infos U (e_rkyv E) d' h = infos U (e_rkyv E) d h \<or>
      infos U (e_rkyv E) d' h = map_option (resign (e_ext E) dr key) (infos U (e_rkyv E) d h)" by blast+
  then have "infos U (e_rkyv E) d h = Some q \<or> (\<exists>k dr p. (k, dr) \<in> Cs \<and> infos U (e_rkyv E) d h = Some p \<and>
      q = resign (e_ext E) dr k p)" if "infos U (e_rkyv E) d' h = Some q" for h q
    using that assms eff(3) [of h] by (cases "infos U (e_rkyv E) d h") auto
  with eff(1,2) show "index_good (e_redb E) U (e_rkyv E) d' \<and> nars U (e_rkyv E) d' \<subseteq>\<^sub>m nars U (e_rkyv E) d \<and>
      (\<forall>h q. infos U (e_rkyv E) d' h = Some q \<longrightarrow> infos U (e_rkyv E) d h = Some q \<or>
         (\<exists>k dr p. (k, dr) \<in> Cs \<and> infos U (e_rkyv E) d h = Some p \<and> q = resign (e_ext E) dr k p))" by simp
qed

lemma post_reconcile:
  assumes P: "durable E V U root P"
  shows "io_post P (\<lambda>(f, d). on_files BE_Maintain (maintain_reconcile E data_dir d) (f, d)) (\<lambda>_. True)"
proof -
  have "same_view V f f'" if "fs_laws (e_fs E) V" "maintain_reconcile E data_dir d f = (r, f')" for d f r f'
    using that(2) store_scan_view [OF that(1)]
    by (auto simp: maintain_reconcile_def Let_def elim!: io_thenE io_ctxE)
  then have "io_post P (on_files BE_Maintain (maintain_reconcile E data_dir d)) (\<lambda>_. True)" for d
    by (intro post_view [OF P]) blast
  then show ?thesis unfolding io_post_def by fast
qed

section \<open>Starting a server\<close>

lemma post_sweep:
  assumes P: "durable E V U root P"
  shows "io_post P (on_files BE_Store (sweep_staging (e_fs E) root)) (\<lambda>_. True)"
  unfolding io_post_def
proof (intro allI impI)
  fix fd r fd' assume run: "on_files BE_Store (sweep_staging (e_fs E) root) fd = (r, fd')" and ok: "P fd"
  obtain f d where fd: "fd = (f, d)" by fastforce
  obtain q f' where q: "sweep_staging (e_fs E) root f = (q, f')" "fd' = (f', d)"
    using run fd by (auto simp: on_files_def split: prod.splits)
  note D = durableD [OF P ok [unfolded fd]]
  from sweep_staging_effect [OF D(1) q(1)] D(4) [of f'] q(2)
  show "P fd' \<and> (\<forall>a. r = Inr a \<longrightarrow> True)" by simp
qed

lemma post_serve:
  assumes P: "durable E V U root P" and root: "sv_data_dir args @ [PAYLOAD] = root"
  shows "io_post P (boot_serve H E args)
    (\<lambda>p. pr_store p = \<lparr>st_root = root, st_sequence = 0, st_pid = ho_pid H\<rparr> \<and>
      cmd_signs H (e_ext E) (Cmd_Serve args) (ig_key (ca_ingest (pr_cache p))) (ig_dir (ca_ingest (pr_cache p))))"
proof -
  have count: "io_post P (\<lambda>(f, d). (ctx BE_Index (index_count (e_redb E) d), (f, d))) (\<lambda>_. True)"
    by (auto simp: io_post_def)
  show ?thesis
    unfolding boot_serve_def Let_def
    apply (rule io_post_then [OF io_post_lift [where Q = "\<lambda>d. boot_dir (sv_store_dir args) = Inr d"]], assumption)
    apply (rule io_post_then [OF io_post_lift [where
      Q = "\<lambda>k. boot_secret_key H (e_ext E) (sv_secret_key_file args) = Inr k"]], assumption)
    apply (rule io_post_then [OF io_post_lift [where Q = "\<lambda>_. True"]], simp)+
    apply (rule io_post_then [OF post_boot_open [OF P]])
    apply (rule io_post_then [OF io_post_lift [where Q = "\<lambda>_. True"]], simp)
    apply (simp only: root store.simps)
    apply (rule io_post_then [OF post_sweep [OF P]])
    apply (rule io_post_then [OF io_post_lift [where Q = "\<lambda>_. True"]], simp)
    apply (rule io_post_then [OF count])
    by (rule io_post_return) (simp add: cache_new_def)
qed

text \<open>Every command keeps a durable property that its own change of the index keeps.\<close>

lemma post_run:
  fixes E :: "('e, 'z, 'f, 'h, 'd, 'r, 't) env"
  assumes P: "durable E V U (dd @ [PAYLOAD]) P" and dir: "cmd_data_dir cmd \<in> {None, Some dd}"
    and del: "\<And>h. io_post P (on_index BE_Maintain (maintain_delete (e_redb E) (e_rkyv E) h)) (\<lambda>_. True)"
    and rot: "\<And>k dr. cmd_signs H (e_ext E) cmd k dr \<Longrightarrow> io_post P (on_index BE_Maintain (maintain_rotate E dr k)) (\<lambda>_. True)"
  shows "io_post P (boot_run H E cmd)
    (\<lambda>out. case out of
       Inl p \<Rightarrow> st_root (pr_store p) = dd @ [PAYLOAD] \<and>
         cmd_signs H (e_ext E) cmd (ig_key (ca_ingest (pr_cache p))) (ig_dir (ca_ingest (pr_cache p)))
     | Inr _ \<Rightarrow> True)"
    (is "io_post P _ ?Q")
proof -
  have silent: "io_post P (io_then m (\<lambda>out. io_return (Inr out))) ?Q" if "io_post P m (\<lambda>_. True)" for m
    by (rule io_post_then [OF that]) (simp add: io_post_return)
  have printed: "io_post P (io_then m (\<lambda>x. io_return (g x))) (\<lambda>_. True)" if "io_post P m (\<lambda>_. True)"
    for m :: "('f \<times> 'd, boot_error, 'x) io" and g :: "'x \<Rightarrow> outcome"
    by (rule io_post_then [OF that]) (simp add: io_post_return)
  have opened: "io_post P (boot_open H E data_dir) (\<lambda>_. True)" for data_dir
    by (rule io_post_weaken [OF post_boot_open [OF P] TrueI])
  show ?thesis
  proof (cases cmd)
    case (Cmd_Serve args)
    then have "sv_data_dir args @ [PAYLOAD] = dd @ [PAYLOAD]" using dir by simp
    from post_serve [OF P this] have "io_post P (io_then (boot_serve H E args) (\<lambda>p. io_return (Inl p))) ?Q"
      by (rule io_post_then) (use Cmd_Serve in \<open>simp add: io_post_return\<close>)
    with Cmd_Serve show ?thesis by (simp add: boot_run_def)
  next
    case (Cmd_Keygen name)
    then show ?thesis by (simp add: boot_run_def io_post_return)
  next
    case Cmd_Token
    then show ?thesis by (simp add: boot_run_def io_post_return)
  next
    case (Cmd_Delete args)
    have "io_post P (boot_delete H E args) (\<lambda>_. True)"
      unfolding boot_delete_def by (intro io_post_then [OF io_post_lift] io_post_then [OF opened] printed del TrueI)
    with Cmd_Delete silent show ?thesis by (simp add: boot_run_def)
  next
    case (Cmd_Reconcile data_dir)
    have "io_post P (boot_reconcile H E data_dir) (\<lambda>_. True)"
      unfolding boot_reconcile_def by (intro io_post_then [OF opened] printed post_reconcile [OF P])
    with Cmd_Reconcile silent show ?thesis by (simp add: boot_run_def)
  next
    case (Cmd_Rotate args)
    have "io_post P (boot_rotate H E args) (\<lambda>_. True)"
      unfolding boot_rotate_def
    proof (intro io_post_then [OF io_post_lift] io_post_then [OF opened] printed)
      fix k dr assume "boot_secret_key H (e_ext E) (ro_secret_key_file args) = Inr k" "boot_dir (ro_store_dir args) = Inr dr"
      then show "io_post P (on_index BE_Maintain (maintain_rotate E dr k)) (\<lambda>_. True)"
        using Cmd_Rotate by (intro rot) simp
    qed
    with Cmd_Rotate silent show ?thesis by (simp add: boot_run_def)
  qed
qed

section \<open>Restarting\<close>

lemma serve_sweeps:
  assumes P: "durable E V U root P" "P (f, d)" and root: "sv_data_dir args @ [PAYLOAD] = root"
    and run: "boot_serve H E args (f, d) = (Inr p, (f', d'))"
  shows "P (f', d') \<and> pr_store p = \<lparr>st_root = root, st_sequence = 0, st_pid = ho_pid H\<rparr> \<and>
    (\<forall>q. staging_path root q \<longrightarrow> fv_names V f' q = None)"
proof -
  from run obtain st g d1 m where o: "boot_open H E (sv_data_dir args) (f, d) = (Inr st, (g, d1))"
    and sw: "sweep_staging (e_fs E) (st_root st) g = (Inr m, f')"
    unfolding boot_serve_def Let_def by (elim io_then_InrE) (auto simp: on_files_def split: prod.splits)
  note b = io_postD [OF post_boot_open [OF P(1)] o P(2)]
  then have "st_root st = root" "fs_good (e_fs E) V g" using root durableD(1) [OF P(1)] by auto
  then have "\<forall>q. staging_path root q \<longrightarrow> fv_names V f' q = None" using sweep_staging_effect sw by fastforce
  with io_postD [OF post_serve [OF P(1) root] run P(2)] show ?thesis by blast
qed

end
