(* ===== verification/SystemInv.thy ===== *)
theory SystemInv
  imports CommandLaws
begin

text \<open>
  Every step keeps the invariant of the whole server, one lemma per kind of step, and the empty
  data directory establishes it.
\<close>

section \<open>Steps of one upload\<close>

text \<open>A task that goes on, or ends, under its own staging path and without touching an artifact.\<close>

lemma task_moves:
  assumes ok: "sys_ok E V Y U dd Cs As s" and t: "sy_tasks s i = Some t" "task_path t = Some p"
    and f: "fs_good (e_fs E) V f" "artifacts V (dd @ [PAYLOAD]) f = artifacts V (dd @ [PAYLOAD]) (sy_fs s)"
      "others V (dd @ [PAYLOAD]) p (sy_fs s) f"
    and t': "\<And>u. t' = Some u \<Longrightarrow> task_ok (e_ext E) Y V (dd @ [PAYLOAD]) Cs f u \<and> task_path u = Some p"
  shows "sys_ok E V Y U dd Cs As (put_task i t' (put_files f s))"
proof (rule sys_ok_update [OF ok])
  note O = sys_okD [OF ok]
  show "sy_cache s \<noteq> None" using O(5) t(1) by fastforce
  show "world_ok E V Y U (dd @ [PAYLOAD]) Cs As (sy_world (put_task i t' (put_files f s)))"
    by (rule world_ok_files [OF O(1)]) (simp_all add: f)
  show "staged_names (sy_world s) \<subseteq> staged_names (sy_world (put_task i t' (put_files f s)))"
    by (simp add: staged_names_def)
  show "task_path u \<noteq> Some p" if "j \<noteq> i" "sy_tasks s j = Some u" for j u
    using O(4) [OF that(2) t(1) _ t(2)] that(1) by blast
  show "task_ok (e_ext E) Y V (dd @ [PAYLOAD]) Cs (sy_fs (put_task i t' (put_files f s))) u \<and>
      (\<forall>q. task_path u = Some q \<longrightarrow> q = p \<and> q \<in> staged_names (sy_world (put_task i t' (put_files f s))))"
    if "t' = Some u" for u
    using t' [OF that] O(3) [OF t] by (simp add: staged_names_def)
qed (simp_all add: f)

lemma keep_look:
  assumes ok: "sys_ok E V Y U dd Cs As s" and f: "same_view V (sy_fs s) f"
  shows "sys_ok E V Y U dd Cs As (put_files f s)"
proof -
  note O = sys_okD [OF ok] and W = world_okD [OF sys_okD(1) [OF ok]]
  have w: "world_ok E V Y U (dd @ [PAYLOAD]) Cs As (sy_world (put_files f s))"
    by (rule world_ok_files [OF O(1)]) (use W(1) f in \<open>simp_all add: same_view_good same_view_artifacts\<close>)
  have "task_ok (e_ext E) Y V (dd @ [PAYLOAD]) Cs f t" if "sy_tasks s i = Some t" for i t
    using task_ok_frame [OF O(2) [OF that] others_view [OF f], of "[]"] that O(3) [OF that]
      same_view_artifacts [OF f] by (auto simp: staged_names_def)
  then show ?thesis using ok w unfolding sys_ok_def Let_def
    by (auto simp: staged_names_def split: option.splits)
qed

lemma keep_receive:
  assumes ok: "sys_ok E V Y U dd Cs As s" and laws: "sha_laws (e_ext E)" "zstd_laws (e_zstd E) Y"
    and c: "sy_cache s = Some ca" "sy_tasks s i = None" "unat (st_sequence (w_store (sy_world s))) + 1 < 2 ^ 64"
    and run: "ingest_receive E (ca_ingest ca) url (sy_world s) = (r, w)"
  shows "sys_ok E V Y U dd Cs As
    (put_task i (case r of Inl _ \<Rightarrow> None | Inr u \<Rightarrow> Some (Receiving u)) (s\<lparr>sy_world := w\<rparr>))"
proof (rule sys_ok_update [OF ok])
  let ?root = "dd @ [PAYLOAD]" and ?w = "sy_world s"
  let ?p = "w_root ?w @ [STAGING, staging_name (w_store ?w)]"
  note O = sys_okD [OF ok] and W = world_okD [OF sys_okD(1) [OF ok]]
  have root: "w_root ?w = ?root" using O(6) [OF c(1)] by blast
  note eff = ingest_receive_effect [OF W(1) run, of Y, unfolded root]
  note ap = ingest_receive_apart [OF W(1) c(3) run]
  let ?s' = "put_task i (case r of Inl _ \<Rightarrow> None | Inr u \<Rightarrow> Some (Receiving u)) (s\<lparr>sy_world := w\<rparr>)"
  show "world_ok E V Y U ?root Cs As (sy_world ?s')"
    by (rule world_ok_files [OF O(1)]) (use eff in simp_all)
  show "w_root (sy_world ?s') = w_root ?w" using eff root by simp
  show "others V ?root ?p (sy_fs s) (sy_fs ?s')" "staged_names ?w \<subseteq> staged_names (sy_world ?s')"
    using ap root by simp_all
  show "artifacts V ?root (sy_fs s) \<subseteq>\<^sub>m artifacts V ?root (sy_fs ?s')" using eff by simp
  show "task_path u \<noteq> Some ?p" if "j \<noteq> i" "sy_tasks s j = Some u" for j u
    using O(3) [OF that(2)] staged_names_fresh by blast
  show "task_ok (e_ext E) Y V ?root Cs (sy_fs ?s') t \<and>
      (\<forall>q. task_path t = Some q \<longrightarrow> q = ?p \<and> q \<in> staged_names (sy_world ?s'))"
    if new: "(case r of Inl _ \<Rightarrow> None | Inr u \<Rightarrow> Some (Receiving u)) = Some t" for t
  proof -
    obtain u where u: "r = Inr u" "t = Receiving u" using new by (cases r) auto
    have "receives (e_ext E) Y V ?root (w_fs w) u []" using eff laws u(1) by simp
    then show ?thesis using u ap by auto
  qed
qed (use c in simp_all)

lemma keep_chunk:
  assumes ok: "sys_ok E V Y U dd Cs As s" and laws: "sha_laws (e_ext E)" "zstd_laws (e_zstd E) Y"
    and t: "sy_tasks s i = Some (Receiving u)"
    and run: "upload_write (e_ext E) (e_zstd E) (e_fs E) chunk (u, sy_fs s) = (r, (v, f))"
  shows "r = Inr () \<Longrightarrow> sys_ok E V Y U dd Cs As (put_task i (Some (Receiving v)) (put_files f s))"
    and "sys_ok E V Y U dd Cs As (put_task i None (put_files (staged_drop (e_fs E) (up_staged v) f) s))"
proof -
  let ?root = "dd @ [PAYLOAD]"
  note O = sys_okD [OF ok] and W = world_okD [OF sys_okD(1) [OF ok]]
  obtain bs where bs: "receives (e_ext E) Y V ?root (sy_fs s) u bs" using O(2) [OF t] by auto
  note k = upload_write_keeps [OF W(1) receives_live [OF bs] run]
  note a = upload_write_others [OF W(1) receives_live [OF bs] run]
  show "sys_ok E V Y U dd Cs As (put_task i (Some (Receiving v)) (put_files f s))" if "r = Inr ()"
    by (rule task_moves [OF ok t])
      (use k a upload_write_receives [OF laws W(1) bs run [unfolded that]] in auto)
  have live: "in_flight V ?root f (up_staged v)" using k by (simp add: live_upload_def)
  show "sys_ok E V Y U dd Cs As (put_task i None (put_files (staged_drop (e_fs E) (up_staged v) f) s))"
  proof (rule task_moves [OF ok t])
    let ?f = "staged_drop (e_fs E) (up_staged v) f"
    show "fs_good (e_fs E) V ?f" "artifacts V ?root ?f = artifacts V ?root (sy_fs s)"
      using nar_store.discard_keeps [OF _ live] k by auto
    show "others V ?root (up_path u) (sy_fs s) ?f"
      using others_trans [of V ?root "up_path u" "sy_fs s" f] a staged_drop_others [of "e_fs E" V f ?root "up_staged v"] k
      by simp
  qed simp_all
qed

lemma keep_complete:
  assumes ok: "sys_ok E V Y U dd Cs As s" and laws: "sha_laws (e_ext E)" "zstd_laws (e_zstd E) Y"
    and t: "sy_tasks s i = Some (Receiving u)"
    and run: "upload_finish (e_ext E) (e_zstd E) (e_fs E) u (sy_fs s) = (r, f)"
  shows "sys_ok E V Y U dd Cs As (put_task i (case r of Inl _ \<Rightarrow> None | Inr c \<Rightarrow> Some (Finished c)) (put_files f s))"
proof -
  let ?root = "dd @ [PAYLOAD]"
  note O = sys_okD [OF ok] and W = world_okD [OF sys_okD(1) [OF ok]]
  obtain bs where bs: "receives (e_ext E) Y V ?root (sy_fs s) u bs" using O(2) [OF t] by auto
  note k = upload_finish_keeps [OF W(1) receives_live [OF bs] run]
  note a = upload_finish_others [OF W(1) receives_live [OF bs] run]
  have "task_ok (e_ext E) Y V ?root Cs f (Finished c)" if "r = Inr c" for c
    using upload_finish_finished [OF laws W(1) bs run [unfolded that]] by auto
  then show ?thesis
    by (intro task_moves [OF ok t]) (use k a in \<open>auto simp del: task_ok.simps split: sum.splits\<close>)
qed

lemma keep_judge:
  assumes ok: "sys_ok E V Y U dd Cs As s" and t: "sy_tasks s i = Some (Finished c)"
    and run: "upload_verify (e_fs E) c (sy_fs s) = (r, f)"
  shows "sys_ok E V Y U dd Cs As (put_task i (case r of Inl _ \<Rightarrow> None | Inr v \<Rightarrow> Some (Ready v)) (put_files f s))"
proof -
  let ?root = "dd @ [PAYLOAD]"
  note O = sys_okD [OF ok] and W = world_okD [OF sys_okD(1) [OF ok]]
  obtain bs a where c: "finished (e_ext E) Y V ?root (sy_fs s) c bs a" using O(2) [OF t] by auto
  then have "live_upload V ?root (sy_fs s) c" by (simp add: finished_def live_upload_def holds_def Let_def)
  note k = upload_verify_keeps [OF W(1) this run]
  note a = upload_verify_others [OF W(1) run, of ?root]
  show ?thesis
  proof (cases r)
    case (Inl e)
    with k a show ?thesis by (intro task_moves [OF ok t]) simp_all
  next
    case (Inr v)
    with run have y: "upload_verify (e_fs E) c (sy_fs s) = (Inr v, f)" by simp
    have v: "f = sy_fs s" "task_ok (e_ext E) Y V ?root Cs f (Ready v)" "up_path v = up_path c"
      using verified_task_ok [OF c y, where Cs = Cs] a Inr by blast+
    show ?thesis unfolding Inr sum.case
      by (rule task_moves [OF ok t]) (use v W(1) in \<open>simp_all del: task_ok.simps\<close>)
  qed
qed

lemma keep_abandon:
  assumes ok: "sys_ok E V Y U dd Cs As s" and t: "sy_tasks s i = Some t"
  shows "sys_ok E V Y U dd Cs As (put_task i None (put_files (task_drop (e_fs E) t (sy_fs s)) s))"
proof (cases "task_file t")
  case None
  note O = sys_okD [OF ok]
  have "sy_cache s \<noteq> None" using O(5) t by fastforce
  moreover have "task_drop (e_fs E) t (sy_fs s) = sy_fs s" by (simp add: task_drop_def None)
  ultimately show ?thesis using O(1)
    by (intro sys_ok_update [OF ok, where p = "[]"]) (auto simp: staged_names_def dest: O(3))
next
  case (Some sg)
  let ?root = "dd @ [PAYLOAD]"
  note O = sys_okD [OF ok] and W = world_okD [OF sys_okD(1) [OF ok]]
  have p: "task_path t = Some (sg_path sg)" by (simp add: task_path_def Some)
  note d = nar_store.discard_keeps [OF W(1) task_in_flight [OF O(2) [OF t] Some]]
  show ?thesis
    by (rule task_moves [OF ok t p]) (use d staged_drop_others [OF W(1)] in \<open>auto simp: task_drop_def Some\<close>)
qed

section \<open>Artifacts, entries and records\<close>

text \<open>The artifact is placed before its entry is written, so the entry never points at nothing.\<close>

lemma ready_commit:
  assumes ok: "sys_ok E V Y U dd Cs As s" and sha: "sha_laws (e_ext E)" and t: "sy_tasks s i = Some (Ready v)"
    and run: "staged_commit (e_fs E) (w_root (sy_world s)) (up_staged v) (verified_url (up_state v)) (sy_fs s) = (r, f)"
  obtains a where "digest (e_ext E) a = file_hash (verified_url (up_state v))"
    and "vf_nar_size (up_state v) \<noteq> 0" "narurl_ok (verified_url (up_state v))"
    and "payload (e_ext E) Y a (vf_nar_hash (up_state v)) (vf_file_hash (up_state v)) (vf_file_size (up_state v))
      (vf_nar_size (up_state v))"
    and "fs_good (e_fs E) V f" "others V (dd @ [PAYLOAD]) (up_path v) (sy_fs s) f"
    and "artifacts V (dd @ [PAYLOAD]) f = (case r of Inl _ \<Rightarrow> artifacts V (dd @ [PAYLOAD]) (sy_fs s)
      | Inr _ \<Rightarrow> (artifacts V (dd @ [PAYLOAD]) (sy_fs s))(verified_url (up_state v) \<mapsto> a))"
proof -
  let ?root = "dd @ [PAYLOAD]" and ?u = "verified_url (up_state v)"
  note O = sys_okD [OF ok] and W = world_okD [OF sys_okD(1) [OF ok]]
  have root: "w_root (sy_world s) = ?root" using O(7) [OF t] .
  from O(2) [OF t] obtain a where h: "holds V ?root (sy_fs s) (up_staged v) a"
    and a: "vf_nar_size (up_state v) \<noteq> 0" "payload (e_ext E) Y a (vf_nar_hash (up_state v)) (vf_file_hash (up_state v))
      (vf_file_size (up_state v)) (vf_nar_size (up_state v))" by auto
  have fl: "in_flight V ?root (sy_fs s) (up_staged v)" using h by (simp add: holds_def)
  have fh: "digest (e_ext E) a = file_hash ?u" using a(2) by (simp add: payload_def verified_url_def)
  then have u: "narurl_ok ?u" using sha_ok_digest [OF sha, of a] by (simp add: narurl_ok_def)
  note eff = staged_commit_effect [OF W(1) h u run [unfolded root]]
  then have f: "artifacts V ?root f = (case r of Inl _ \<Rightarrow> artifacts V ?root (sy_fs s)
      | Inr _ \<Rightarrow> (artifacts V ?root (sy_fs s))(?u \<mapsto> a))" by (cases r) simp_all
  show thesis
    by (rule that [OF fh a(1) u a(2) conjunct1 [OF eff] staged_commit_others [OF W(1) fl run [unfolded root]] f])
qed

lemma keep_place:
  assumes ok: "sys_ok E V Y U dd Cs As s" and sha: "sha_laws (e_ext E)" and inj: "inj_on (digest (e_ext E)) As"
    and t: "sy_tasks s i = Some (Ready v)"
    and run: "staged_commit (e_fs E) (w_root (sy_world s)) (up_staged v) (verified_url (up_state v)) (sy_fs s) = (r, f)"
  shows "isl r \<Longrightarrow> sys_ok E V Y U dd Cs As (put_task i None (put_files f s))"
    and "r = Inr n \<Longrightarrow> ran (artifacts V (w_root (sy_world s)) f) \<subseteq> As \<Longrightarrow>
      artifacts V (dd @ [PAYLOAD]) (sy_fs s) \<subseteq>\<^sub>m artifacts V (dd @ [PAYLOAD]) f \<and> sys_ok E V Y U dd Cs As
      (put_task i (Some (Placed (vf_nar_hash (up_state v)) (verified_entry (up_state v)))) (put_files f s))"
proof -
  let ?root = "dd @ [PAYLOAD]" and ?u = "verified_url (up_state v)" and ?e = "verified_entry (up_state v)"
  note O = sys_okD [OF ok]
  from ready_commit [OF ok sha t run] obtain a where
    a: "digest (e_ext E) a = file_hash ?u" "vf_nar_size (up_state v) \<noteq> 0" "narurl_ok ?u"
      "payload (e_ext E) Y a (vf_nar_hash (up_state v)) (vf_file_hash (up_state v)) (vf_file_size (up_state v))
        (vf_nar_size (up_state v))"
    and f: "fs_good (e_fs E) V f" "others V ?root (up_path v) (sy_fs s) f"
    and arts: "artifacts V ?root f = (case r of Inl _ \<Rightarrow> artifacts V ?root (sy_fs s)
      | Inr _ \<Rightarrow> (artifacts V ?root (sy_fs s))(?u \<mapsto> a))" by blast
  show "sys_ok E V Y U dd Cs As (put_task i None (put_files f s))" if "isl r"
    by (rule task_moves [OF ok t]) (use that arts f in \<open>auto split: sum.splits\<close>)
  assume "r = Inr n" and As: "ran (artifacts V (w_root (sy_world s)) f) \<subseteq> As"
  then have arts: "artifacts V ?root f = (artifacts V ?root (sy_fs s))(?u \<mapsto> a)" using arts by simp
  have "a \<in> As" using As ranI [of "artifacts V ?root f" ?u a] O(7) [OF t] by (auto simp: arts)
  note w = world_ok_place [OF O(1) inj f(1) arts this a(1)]
  let ?s' = "put_task i (Some (Placed (vf_nar_hash (up_state v)) ?e)) (put_files f s)"
  have "sys_ok E V Y U dd Cs As ?s'"
  proof (rule sys_ok_update [OF ok, where p = "up_path v"])
    show "sy_cache s \<noteq> None" using O(5) t by fastforce
    show "world_ok E V Y U ?root Cs As (sy_world ?s')" "artifacts V ?root (sy_fs s) \<subseteq>\<^sub>m artifacts V ?root (sy_fs ?s')"
      using w by simp_all
    show "task_path q \<noteq> Some (up_path v)" if "j \<noteq> i" "sy_tasks s j = Some q" for j q
      using O(4) [OF that(2) t] that(1) by auto
    have "entry_backed (e_ext E) Y (artifacts V ?root f) (vf_nar_hash (up_state v)) ?e" "entry_ok ?e"
      using a arts by (auto simp: entry_backed_def entry_url_def verified_entry_def verified_url_def entry_ok_def
          narurl_ok_def)
    then show "task_ok (e_ext E) Y V ?root Cs (sy_fs ?s') q \<and>
        (\<forall>p. task_path q = Some p \<longrightarrow> p = up_path v \<and> p \<in> staged_names (sy_world ?s'))"
      if "Some (Placed (vf_nar_hash (up_state v)) ?e) = Some q" for q using that by auto
  qed (use f in \<open>simp_all add: staged_names_def\<close>)
  with w show "artifacts V ?root (sy_fs s) \<subseteq>\<^sub>m artifacts V ?root f \<and> sys_ok E V Y U dd Cs As ?s'" by blast
qed

text \<open>A step of a task that works on the index.\<close>

lemma task_rows:
  assumes ok: "sys_ok E V Y U dd Cs As s" and c: "sy_cache s \<noteq> None"
    and w: "world_ok E V Y U (dd @ [PAYLOAD]) Cs As ((sy_world s)\<lparr>w_db := d\<rparr>)"
    and t': "\<And>t. t' = Some t \<Longrightarrow> task_ok (e_ext E) Y V (dd @ [PAYLOAD]) Cs (sy_fs s) t \<and> task_path t = None"
  shows "sys_ok E V Y U dd Cs As (put_task i t' (put_rows d s))"
  by (rule sys_ok_update [OF ok, where p = "[]"])
    (use c w t' sys_okD(3) [OF ok] in \<open>auto simp: staged_names_def\<close>)

lemma keep_enter:
  assumes ok: "sys_ok E V Y U dd Cs As s" and t: "sy_tasks s i = Some (Placed h e)"
    and run: "index_put_nar (e_redb E) (e_rkyv E) h e (sy_db s) = (r, d)"
  shows "sys_ok E V Y U dd Cs As (put_task i None (put_rows d s))"
proof (rule task_rows [OF ok])
  note O = sys_okD [OF ok] and W = world_okD [OF sys_okD(1) [OF ok]]
  show "sy_cache s \<noteq> None" using O(5) t by fastforce
  have e: "entry_ok e" "entry_backed (e_ext E) Y (artifacts V (dd @ [PAYLOAD]) (sy_fs s)) h e"
    using O(2) [OF t] by simp_all
  from put_nar_good [OF W(2) e(1) run] e(2) show "world_ok E V Y U (dd @ [PAYLOAD]) Cs As ((sy_world s)\<lparr>w_db := d\<rparr>)"
    by (intro world_ok_rows [OF O(1)]) (auto split: if_splits)
qed simp

lemma keep_build:
  assumes ok: "sys_ok E V Y U dd Cs As s" and c: "sy_cache s = Some ca" "sy_tasks s i = None"
    and run: "publish_build E (ca_ingest ca) body (sy_db s) = Inr p"
  shows "sys_ok E V Y U dd Cs As (put_task i (Some (Built p)) s)"
proof -
  let ?ig = "ca_ingest ca" and ?arts = "artifacts V (dd @ [PAYLOAD]) (sy_fs s)"
  note O = sys_okD [OF ok] and W = world_okD [OF sys_okD(1) [OF ok]]
  from run obtain q e where q: "NarinfoParse.parse (e_ext E) body (ig_dir ?ig) = Inr q"
      "index_nar (e_redb E) (e_rkyv E) (ni_nar_hash q) (sy_db s) = Inr (Some e)" "en_nar_size e = ni_nar_size q"
    and p: "p = resign (e_ext E) (ig_dir ?ig) (ig_key ?ig) (publish_record q e)"
    by (auto simp: publish_build_def result_iffs)
  have e: "nars U (e_rkyv E) (sy_db s) (ni_nar_hash q) = Some e" using index_nar_Inr [OF W(2) q(2)] by simp
  then have "entry_ok e" using W(2) nars_of_Some by (fastforce simp: index_good_def nars_def)
  then have core: "core_ok p" using parse_core_ok [OF q(1)] publish_record_ok p by simp
  have "record_backed (e_ext E) Y ?arts p \<and> operator_signed (e_ext E) Cs p"
    unfolding p using O(6) [OF c(1)] by (intro built_backed [OF W(5) [OF e] q(3)]) blast
  with core have "sys_ok E V Y U dd Cs As (put_task i (Some (Built p)) (put_rows (sy_db s) s))"
    using c O(1) by (intro task_rows [OF ok]) auto
  then show ?thesis by (simp add: put_rows_def)
qed

lemma keep_publish:
  assumes ok: "sys_ok E V Y U dd Cs As s" and t: "sy_tasks s i = Some (Built p)"
    and run: "index_publish (e_redb E) (e_rkyv E) p (sy_db s) = (r, d)"
  shows "sys_ok E V Y U dd Cs As (put_task i None (put_rows d s))"
proof (rule task_rows [OF ok])
  note O = sys_okD [OF ok] and W = world_okD [OF sys_okD(1) [OF ok]]
  show "sy_cache s \<noteq> None" using O(5) t by fastforce
  have p: "core_ok p" "record_backed (e_ext E) Y (artifacts V (dd @ [PAYLOAD]) (sy_fs s)) p \<and> operator_signed (e_ext E) Cs p"
    using O(2) [OF t] by simp_all
  from publish_good [OF W(2) p(1) run] p(2) show "world_ok E V Y U (dd @ [PAYLOAD]) Cs As ((sy_world s)\<lparr>w_db := d\<rparr>)"
    by (intro world_ok_rows [OF O(1)]) (auto split: if_splits)
qed simp

section \<open>Crashes, commands, and every step\<close>

lemma keep_crash: "sys_ok E V Y U dd Cs As s \<Longrightarrow> sys_ok E V Y U dd Cs As (s\<lparr>sy_cache := None, sy_tasks := \<lambda>_. None\<rparr>)"
  by (simp add: sys_ok_def Let_def)

lemma keep_command:
  assumes ok: "sys_ok E V Y U dd Cs As s" and c: "sy_cache s = None"
    and dir: "cmd_data_dir cmd \<in> {None, Some dd}" and keys: "\<And>k dr. cmd_signs H (e_ext E) cmd k dr \<Longrightarrow> (k, dr) \<in> Cs"
    and run: "boot_run H E cmd (sy_fs s, sy_db s) = (r, (f, d))"
  shows "sys_ok E V Y U dd Cs As (started r (put_rows d (put_files f s)))"
proof -
  let ?root = "dd @ [PAYLOAD]" and ?s = "put_rows d (put_files f s)"
  note O = sys_okD [OF ok]
  have "stored_ok E V Y U ?root Cs As (sy_fs s, sy_db s)" using O(1) by (simp add: stored_ok_world)
  note p = io_postD [OF post_run [OF durable_stored_ok dir post_delete post_rotate [OF keys]] run this]
  then obtain st where st: "world_ok E V Y U ?root Cs As \<lparr>w_store = st, w_fs = f, w_db = d\<rparr>"
    by (auto simp: stored_ok_def)
  then have w: "world_ok E V Y U ?root Cs As w" if "w_fs w = f" "w_db w = d" for w
    using that by (simp add: world_ok_def)
  have none: "sy_tasks s = (\<lambda>_. None)" using O(5) [OF c] .
  have idle: "sys_ok E V Y U dd Cs As ?s" using w by (simp add: sys_ok_def Let_def none c)
  show ?thesis
  proof (cases r)
    case (Inl e)
    with idle show ?thesis by (simp add: started_def)
  next
    case (Inr out)
    show ?thesis
    proof (cases out)
      case (Inr o)
      with idle \<open>r = Inr out\<close> show ?thesis by (simp add: started_def)
    next
      case (Inl pr)
      with p \<open>r = Inr out\<close> w keys show ?thesis by (simp add: started_def sys_ok_def Let_def none)
    qed
  qed
qed

lemma step_keeps:
  assumes ok: "sys_ok E V Y U dd Cs As s" and laws: "sha_laws (e_ext E)" "zstd_laws (e_zstd E) Y"
    and inj: "inj_on (digest (e_ext E)) As" and step: "sys_step E V dd Cs As s s'"
  shows "sys_ok E V Y U dd Cs As s'"
  using step
proof cases
  case (look f)
  then show ?thesis using keep_look [OF ok] by simp
next
  case (receive ca i url r w)
  then show ?thesis using keep_receive [OF ok laws] by simp
next
  case (take_chunk i u chunk v f)
  then show ?thesis using keep_chunk(1) [OF ok laws] by simp
next
  case (chunk_fails i u chunk e v f)
  then show ?thesis using keep_chunk(2) [OF ok laws] by simp
next
  case (complete i u r f)
  then show ?thesis using keep_complete [OF ok laws] by simp
next
  case (judge i c r f)
  then show ?thesis using keep_judge [OF ok] by simp
next
  case (place i v n f)
  then show ?thesis using keep_place(2) [OF ok laws(1) inj] by simp
next
  case (place_fails i v e f)
  then show ?thesis using keep_place(1) [OF ok laws(1) inj] by simp
next
  case (enter i h e r d)
  then show ?thesis using keep_enter [OF ok] by simp
next
  case (build ca i body p)
  then show ?thesis using keep_build [OF ok] by simp
next
  case (publish i p r d)
  then show ?thesis using keep_publish [OF ok] by simp
next
  case (abandon i t)
  then show ?thesis using keep_abandon [OF ok] by simp
next
  case crash
  then show ?thesis using keep_crash [OF ok] by simp
next
  case (command cmd H r f d)
  then show ?thesis using keep_command [OF ok, of cmd H] by simp
qed

lemma steps_keep:
  assumes "sys_steps E V dd Cs As s s'" "sys_ok E V Y U dd Cs As s"
    and "sha_laws (e_ext E)" "zstd_laws (e_zstd E) Y" "inj_on (digest (e_ext E)) As"
  shows "sys_ok E V Y U dd Cs As s'"
  using assms(1,2) by (induction rule: rtranclp_induct) (auto intro: step_keeps assms(3-5))

text \<open>A data directory in which nothing is stored yet, with no server running.\<close>

definition fresh_system ::
  "('e, 'z, 'f, 'h, 'd, 'r, 't) env \<Rightarrow> ('f, 'h) fs_views \<Rightarrow> ('d, 'r, 't) views \<Rightarrow> path \<Rightarrow>
     ('f, 'd, 'h, 'e, 'z) system \<Rightarrow> bool" where
  "fresh_system E V U dd s \<longleftrightarrow>
     sy_cache s = None \<and> sy_tasks s = (\<lambda>_. None) \<and>
     fs_good (e_fs E) V (sy_fs s) \<and> index_good (e_redb E) U (e_rkyv E) (sy_db s) \<and>
     artifacts V (dd @ [PAYLOAD]) (sy_fs s) = (\<lambda>_. None) \<and>
     nars U (e_rkyv E) (sy_db s) = (\<lambda>_. None) \<and> infos U (e_rkyv E) (sy_db s) = (\<lambda>_. None)"

lemma fresh_ok: "fresh_system E V U dd s \<Longrightarrow> sys_ok E V Y U dd Cs As s"
  by (simp add: fresh_system_def sys_ok_def world_ok_def Let_def)

lemma reachable_ok:
  assumes "fresh_system E V U dd s0" "sys_steps E V dd Cs As s0 s"
    and "sha_laws (e_ext E)" "zstd_laws (e_zstd E) Y" "inj_on (digest (e_ext E)) As"
  shows "sys_ok E V Y U dd Cs As s"
  by (rule steps_keep [OF assms(2) fresh_ok [OF assms(1)] assms(3-5)])

section \<open>Artifacts stay\<close>

text \<open>No step removes or changes an artifact: a delete forgets a record, never the bytes.\<close>

lemma command_artifacts:
  fixes E :: "('e, 'z, 'f, 'h, 'd, 'r, 't) env"
  assumes ok: "fs_good (e_fs E) V f" "redb_laws (e_redb E) U" and dir: "cmd_data_dir cmd \<in> {None, Some dd}"
    and run: "boot_run H E cmd (f, d) = (r, (f', d'))"
  shows "artifacts V (dd @ [PAYLOAD]) f' = artifacts V (dd @ [PAYLOAD]) f"
proof -
  let ?P = "\<lambda>fd :: 'f \<times> 'd. fs_good (e_fs E) V (fst fd) \<and> redb_laws (e_redb E) U \<and>
    artifacts V (dd @ [PAYLOAD]) (fst fd) = artifacts V (dd @ [PAYLOAD]) f"
  have rows: "io_post ?P (on_index k m) (\<lambda>_. True)" for k and m :: "('d, 'x, 'y) io"
    by (auto simp: io_post_def on_index_def split: prod.splits)
  have "durable E V U (dd @ [PAYLOAD]) ?P" by (simp add: durable_def)
  from io_postD [OF post_run [OF this dir rows rows] run] ok show ?thesis by simp
qed

lemma step_grows:
  assumes ok: "sys_ok E V Y U dd Cs As s" and laws: "sha_laws (e_ext E)" "zstd_laws (e_zstd E) Y"
    and inj: "inj_on (digest (e_ext E)) As" and step: "sys_step E V dd Cs As s s'"
  shows "artifacts V (dd @ [PAYLOAD]) (sy_fs s) \<subseteq>\<^sub>m artifacts V (dd @ [PAYLOAD]) (sy_fs s')"
proof -
  let ?root = "dd @ [PAYLOAD]"
  note O = sys_okD [OF ok] and W = world_okD [OF sys_okD(1) [OF ok]]
  from step show ?thesis
  proof cases
    case (look f)
    then show ?thesis by (simp add: same_view_artifacts)
  next
    case (receive ca i url r w)
    then show ?thesis using ingest_receive_effect [OF W(1) receive(5)] O(6) [OF receive(2)] by simp
  next
    case (take_chunk i u chunk v f)
    then show ?thesis using O(2) [OF take_chunk(2)] upload_write_keeps [OF W(1) _ take_chunk(3)] receives_live by fastforce
  next
    case (chunk_fails i u chunk e v f)
    then have "fs_good (e_fs E) V f \<and> artifacts V ?root f = artifacts V ?root (sy_fs s) \<and> live_upload V ?root f v"
      using O(2) [OF chunk_fails(2)] upload_write_keeps [OF W(1) _ chunk_fails(3)] receives_live by fastforce
    then show ?thesis using chunk_fails(1) nar_store.discard_keeps [of "e_fs E" V f ?root "up_staged v"]
      by (simp add: live_upload_def)
  next
    case (complete i u r f)
    then show ?thesis using O(2) [OF complete(2)] upload_finish_keeps [OF W(1) _ complete(3)] receives_live by fastforce
  next
    case (judge i c r f)
    have "live_upload V ?root (sy_fs s) c" using task_in_flight [OF O(2) [OF judge(2)]] by (simp add: live_upload_def)
    then show ?thesis using judge upload_verify_keeps [OF W(1) _ judge(3)] by fastforce
  next
    case (place i v n f)
    then show ?thesis using keep_place(2) [OF ok laws(1) inj place(2,3)] by simp
  next
    case (place_fails i v e f)
    have "artifacts V ?root f = artifacts V ?root (sy_fs s)" by (cases rule: ready_commit [OF ok laws(1) place_fails(2,3)]) simp
    with place_fails(1) show ?thesis by simp
  next
    case (abandon i t)
    show ?thesis
    proof (cases "task_file t")
      case (Some sg)
      with nar_store.discard_keeps [OF W(1) task_in_flight [OF O(2) [OF abandon(2)] Some]] abandon(1)
      show ?thesis by (simp add: task_drop_def)
    qed (use abandon(1) in \<open>simp add: task_drop_def\<close>)
  next
    case (command cmd H r f d)
    have "redb_laws (e_redb E) U" using W(2) by (simp add: index_good_def)
    from command_artifacts [OF W(1) this command(3,5)] command(1) show ?thesis
      by (cases r) (auto simp: started_def split: sum.splits)
  qed simp_all
qed

lemma steps_grow:
  assumes "sys_steps E V dd Cs As s s'" "sys_ok E V Y U dd Cs As s"
    and laws: "sha_laws (e_ext E)" "zstd_laws (e_zstd E) Y" "inj_on (digest (e_ext E)) As"
  shows "artifacts V (dd @ [PAYLOAD]) (sy_fs s) \<subseteq>\<^sub>m artifacts V (dd @ [PAYLOAD]) (sy_fs s')"
  using assms(1,2)
proof (induction rule: rtranclp_induct)
  case (step t u)
  have "sys_ok E V Y U dd Cs As t" by (rule steps_keep [OF step(1) step(4) laws])
  from map_le_trans [OF step(3) [OF step(4)] step_grows [OF this laws step(2)]] show ?case .
qed simp

end
