(* ===== verification/SystemRuns.thy ===== *)
theory SystemRuns
  imports SystemInv PushLaws
begin

text \<open>
  The handlers refine the step relation: what one request does to the world, however it ends, is a
  run of steps of a free task. Reading, answering and counting are steps that only look.
\<close>

section \<open>Runs\<close>

text \<open>
  \<open>m\<close> is a run of task \<open>i\<close> of the server \<open>ca\<close>, from any state of the system in which that task is free
  and to the same state with the new world, provided the artifacts at its end are among \<open>As\<close>.
\<close>

definition is_run ::
  "('e, 'z, 'f, 'h, 'd, 'r, 't) env \<Rightarrow> ('f, 'h) fs_views \<Rightarrow> path \<Rightarrow> (secret_key \<times> dir) set \<Rightarrow> string set \<Rightarrow> cache \<Rightarrow>
     nat \<Rightarrow> ('s, 'f, 'd, 'a) act \<Rightarrow> bool" where
  "is_run E V dd Cs As ca i m \<longleftrightarrow>
     (\<forall>x r x' (s :: ('f, 'd, 'h, 'e, 'z) system). m x = (r, x') \<longrightarrow> sy_world s = hs_world x \<longrightarrow>
        sy_cache s = Some ca \<longrightarrow> sy_tasks s i = None \<longrightarrow>
        unat (st_sequence (w_store (hs_world x))) + 1 < 2 ^ 64 \<longrightarrow>
        ran (artifacts V (w_root (hs_world x)) (w_fs (hs_world x'))) \<subseteq> As \<longrightarrow>
        sys_steps E V dd Cs As s (s\<lparr>sy_world := hs_world x'\<rparr>))"

lemma is_runD:
  assumes "is_run E V dd Cs As ca i m" "m x = (r, x')" "sy_world s = hs_world x" "sy_cache s = Some ca"
    and "sy_tasks s i = None" "unat (st_sequence (w_store (hs_world x))) + 1 < 2 ^ 64"
    and "ran (artifacts V (w_root (hs_world x)) (w_fs (hs_world x'))) \<subseteq> As"
  shows "sys_steps E V dd Cs As s (s\<lparr>sy_world := hs_world x'\<rparr>)"
  using assms by (simp add: is_run_def)

text \<open>An operation that leaves the store, the index and what the files hold is a step that looks.\<close>

lemma look_world:
  assumes "world_is V (sy_world s) x"
  shows "sys_step E V dd Cs As s (s\<lparr>sy_world := hs_world x\<rparr>)"
proof -
  have "hs_world x = (sy_world s)\<lparr>w_fs := w_fs (hs_world x)\<rparr>" "same_view V (sy_fs s) (w_fs (hs_world x))"
    using assms by (simp_all add: world_is_def)
  then show ?thesis using sys_step.look [of V s "w_fs (hs_world x)" E dd Cs As] by (simp add: put_files_def)
qed

lemma frame_world: "(\<And>w. io_keeps (world_is V w) m) \<Longrightarrow> m x = (r, x') \<Longrightarrow> world_is V (hs_world x) x'"
  using io_keepsD [of "world_is V (hs_world x)"] world_is_refl by blast

lemma run_frame:
  fixes E :: "('e, 'z, 'f, 'h, 'd, 'r, 't) env" and m :: "('s, 'f, 'd, 'a) act"
  assumes "\<And>w. io_keeps (world_is V w) m"
  shows "is_run E V dd Cs As ca i m"
  unfolding is_run_def
proof (intro allI impI)
  fix x r x' and s :: "('f, 'd, 'h, 'e, 'z) system"
  assume "m x = (r, x')" "sy_world s = hs_world x"
  with frame_world [OF assms] have "world_is V (sy_world s) x'" by simp
  from r_into_rtranclp [of "sys_step E V dd Cs As", OF look_world [OF this]]
  show "sys_steps E V dd Cs As s (s\<lparr>sy_world := hs_world x'\<rparr>)" .
qed

lemma run_then:
  fixes E :: "('e, 'z, 'f, 'h, 'd, 'r, 't) env" and m :: "('s, 'f, 'd, 'a) act"
  assumes m: "\<And>w. io_keeps (world_is V w) m" and f: "\<And>a. is_run E V dd Cs As ca i (f a)"
  shows "is_run E V dd Cs As ca i (io_then m f)"
  unfolding is_run_def
proof (intro allI impI)
  fix x r x' and s :: "('f, 'd, 'h, 'e, 'z) system"
  assume run: "io_then m f x = (r, x')" and s: "sy_world s = hs_world x" "sy_cache s = Some ca" "sy_tasks s i = None"
    and n: "unat (st_sequence (w_store (hs_world x))) + 1 < 2 ^ 64"
    and As: "ran (artifacts V (w_root (hs_world x)) (w_fs (hs_world x'))) \<subseteq> As"
  from run show "sys_steps E V dd Cs As s (s\<lparr>sy_world := hs_world x'\<rparr>)"
  proof (cases rule: io_thenE)
    case (1 e)
    from is_runD [OF run_frame [OF m] 1(1) s n As] show ?thesis .
  next
    case (2 a y)
    have w: "world_is V (sy_world s) y" using frame_world [OF m 2(1)] s(1) by simp
    then have "w_store (hs_world y) = w_store (hs_world x)" using s(1) by (simp add: world_is_def)
    with is_runD [OF f 2(2), of "s\<lparr>sy_world := hs_world y\<rparr>"] s n As
    have "sys_steps E V dd Cs As (s\<lparr>sy_world := hs_world y\<rparr>) (s\<lparr>sy_world := hs_world x'\<rparr>)" by simp
    with look_world [OF w] show ?thesis by (rule converse_rtranclp_into_rtranclp)
  qed
qed

section \<open>A task in its slot\<close>

text \<open>The state in which task \<open>i\<close> is \<open>t\<close> and the world is \<open>w\<close>.\<close>

definition held ::
  "nat \<Rightarrow> ('h, 'e, 'z) task option \<Rightarrow> ('f, 'd) world \<Rightarrow> ('f, 'd, 'h, 'e, 'z) system \<Rightarrow> ('f, 'd, 'h, 'e, 'z) system" where
  "held i t w s = put_task i t (s\<lparr>sy_world := w\<rparr>)"

lemma held_simps [simp]:
  "sy_world (held i t w s) = w" "sy_cache (held i t w s) = sy_cache s" "sy_tasks (held i t w s) i = t"
  "put_task i u (held i t w s) = held i u w s"
  "put_files f (held i t w s) = held i t (w\<lparr>w_fs := f\<rparr>) s"
  "put_rows d (held i t w s) = held i t (w\<lparr>w_db := d\<rparr>) s"
  "(held i t w s)\<lparr>sy_world := v\<rparr> = held i t v s"
  by (simp_all add: held_def put_task_def put_files_def put_rows_def)

lemma held_free: "sy_tasks s i = None \<Longrightarrow> held i None w s = s\<lparr>sy_world := w\<rparr>"
  by (simp add: held_def put_task_def fun_upd_idem)

lemma held_world: "sy_tasks s i = None \<Longrightarrow> held i None (sy_world s) s = s"
  by (simp add: held_free)

section \<open>Publishing\<close>

lemma publish_run:
  assumes c: "sy_cache s = Some ca" and run: "ingest_publish E (ca_ingest ca) body (w_db w) = (r, d)"
  shows "sys_steps E V dd Cs As (held i None w s) (held i None (w\<lparr>w_db := d\<rparr>) s)"
proof (cases "publish_build E (ca_ingest ca) body (w_db w)")
  case (Inl e)
  then have "d = w_db w" using run by (simp add: ingest_publish_halves)
  then show ?thesis by simp
next
  case (Inr p)
  obtain q d' where q: "index_publish (e_redb E) (e_rkyv E) p (w_db w) = (q, d')" by fastforce
  then have "d = d'" using run Inr by (cases q) (auto simp: ingest_publish_halves)
  have "sys_step E V dd Cs As (held i None w s) (held i (Some (Built p)) w s)"
    using sys_step.build [of "held i None w s" ca i E body p V dd Cs As] c Inr by simp
  moreover have "sys_step E V dd Cs As (held i (Some (Built p)) w s) (held i None (w\<lparr>w_db := d\<rparr>) s)"
    using sys_step.publish [of "held i (Some (Built p)) w s" i p E q d V dd Cs As] q \<open>d = d'\<close> by simp
  ultimately show ?thesis by (meson r_into_rtranclp rtranclp.rtrancl_into_rtrancl)
qed

section \<open>Receiving\<close>

text \<open>The loop leaves the upload where it was, or the slot empty and the staging file dropped.\<close>

lemma receive_loop_run:
  assumes "receive_loop S E u remaining x = (r, x')"
  shows "sys_steps E V dd Cs As (held i (Some (Receiving u)) (hs_world x) s)
    (held i (case r of Inl _ \<Rightarrow> None | Inr v \<Rightarrow> Some (Receiving v)) (hs_world x') s)"
  using assms
proof (induction S E u remaining x rule: receive_loop.induct)
  case (1 S E u remaining x)
  show ?case
  proof (cases "remaining = 0")
    case True
    then show ?thesis using "1.prems" by (auto simp: receive_loop.simps [of S E u 0 x])
  next
    case rem: False
    obtain q c where c: "conn_chunk S remaining (hs_conn x) = (q, c)" by fastforce
    let ?h = "held i (Some (Receiving u)) (hs_world x) s"
    show ?thesis
    proof (cases q)
      case (Inl e)
      then have "r = Inl (HE_Connection e)" "x' = drop_upload E u (x\<lparr>hs_conn := c\<rparr>)"
        using "1.prems" rem c by (auto simp: receive_loop.simps [of S E u remaining x])
      then show ?thesis using sys_step.abandon [of ?h i "Receiving u" E V dd Cs As]
        by (simp add: drop_upload_def task_drop_def r_into_rtranclp)
    next
      case (Inr p)
      obtain bs m where p: "p = (bs, m)" by fastforce
      show ?thesis
      proof (cases "bs = []")
        case True
        then show ?thesis using "1.prems" rem c Inr p by (auto simp: receive_loop.simps [of S E u remaining x])
      next
        case ne: False
        obtain y v g where y: "upload_write (e_ext E) (e_zstd E) (e_fs E) bs (u, w_fs (hs_world x)) = (y, (v, g))"
          by (metis prod.exhaust)
        let ?x = "put_fs g (x\<lparr>hs_conn := c\<rparr>)"
        show ?thesis
        proof (cases y)
          case err: (Inl e)
          then have "r = Inl (HE_Upload e)" "x' = drop_upload E v ?x"
            using "1.prems" rem c Inr p ne y by (auto simp: receive_loop.simps [of S E u remaining x])
          then show ?thesis using sys_step.chunk_fails [of ?h i u E bs e v g V dd Cs As] y err
            by (simp add: drop_upload_def put_fs_def r_into_rtranclp)
        next
          case ok: (Inr a)
          have loop: "receive_loop S E v m ?x = (r, x')"
            using "1.prems" rem c Inr p ne y ok by (simp add: receive_loop.simps [of S E u remaining x])
          have "sys_step E V dd Cs As ?h (held i (Some (Receiving v)) (hs_world ?x) s)"
            using sys_step.take_chunk [of ?h i u E bs v g V dd Cs As] y ok by (simp add: put_fs_def)
          moreover have "sys_steps E V dd Cs As (held i (Some (Receiving v)) (hs_world ?x) s)
              (held i (case r of Inl _ \<Rightarrow> None | Inr v \<Rightarrow> Some (Receiving v)) (hs_world x') s)"
            using "1.IH" [OF rem c [symmetric] Inr p [symmetric] ne y [symmetric, simplified] ok refl] loop
            by simp
          ultimately show ?thesis by (rule converse_rtranclp_into_rtranclp)
        qed
      qed
    qed
  qed
qed

lemma receive_loop_store: "receive_loop S E u remaining x = (r, x') \<Longrightarrow> w_store (hs_world x') = w_store (hs_world x)"
proof (induction S E u remaining x rule: receive_loop.induct)
  case (1 S E u remaining x)
  show ?case
    using "1.prems" "1.IH" unfolding receive_loop.simps [of S E u remaining x]
    by (auto simp: drop_upload_def put_fs_def split: if_splits prod.splits sum.splits)
qed

lemma look_held:
  assumes "world_is V w x"
  shows "sys_step E V dd Cs As (held i t w s) (held i t (hs_world x) s)"
  using look_world [of V "held i t w s" x E dd Cs As] assms by simp

lemma settle_run:
  fixes S :: "'s sock" and x x' :: "('s, 'f, 'd) serving" and V :: "('f, 'h) fs_views"
  assumes run: "settle_upload S E ex u x = (r, x')"
    and As: "ran (artifacts V (w_root (hs_world x)) (w_fs (hs_world x'))) \<subseteq> As"
  shows "sys_steps E V dd Cs As (held i (Some (Receiving u)) (hs_world x) s) (held i None (hs_world x') s)"
proof -
  let ?w = "hs_world x" and ?rq = "ex_request ex"
  let ?on = "\<lambda>w. x\<lparr>hs_world := w\<rparr>"
  note one = converse_rtranclp_into_rtranclp [of "sys_step E V dd Cs As"]
  obtain q f1 where fin: "upload_finish (e_ext E) (e_zstd E) (e_fs E) u (w_fs ?w) = (q, f1)" by fastforce
  have s1: "sys_step E V dd Cs As (held i (Some (Receiving u)) ?w s)
      (held i (case q of Inl _ \<Rightarrow> None | Inr c \<Rightarrow> Some (Finished c)) (?w\<lparr>w_fs := f1\<rparr>) s)"
    using sys_step.complete [of "held i (Some (Receiving u)) ?w s" i u E q f1 V dd Cs As] fin by simp
  show ?thesis
  proof (cases q)
    case (Inl e)
    then have "hs_world x' = ?w\<lparr>w_fs := f1\<rparr>"
      using run fin by (auto simp: settle_upload_def Let_def io_run on_world_def on_fs_def)
    with s1 Inl show ?thesis by (simp add: r_into_rtranclp)
  next
    case c: (Inr c)
    obtain y f2 where y: "upload_verify (e_fs E) c f1 = (y, f2)" by fastforce
    let ?w2 = "?w\<lparr>w_fs := f2\<rparr>"
    have s2: "sys_step E V dd Cs As (held i (Some (Finished c)) (?w\<lparr>w_fs := f1\<rparr>) s)
        (held i (case y of Inl _ \<Rightarrow> None | Inr v \<Rightarrow> Some (Ready v)) ?w2 s)"
      using sys_step.judge [of "held i (Some (Finished c)) (?w\<lparr>w_fs := f1\<rparr>) s" i c E y f2 V dd Cs As] y by simp
    show ?thesis
    proof (cases y)
      case (Inl e)
      have "refuse S ?rq (refusal_new (upload_fault e) (upload_display e)) Consumed (?on ?w2) = (r, x')"
        using run fin c y Inl by (simp add: settle_upload_def Let_def io_run on_world_def on_fs_def put_fs_def)
      from frame_world [OF keeps_refuse this] have "world_is V ?w2 x'" by simp
      from one [OF s1 [unfolded c sum.case] one [OF s2 [unfolded Inl sum.case] r_into_rtranclp, OF look_held [OF this]]]
      show ?thesis .
    next
      case v: (Inr v)
      let ?url = "verified_url (up_state v)" and ?h = "vf_nar_hash (up_state v)" and ?e = "verified_entry (up_state v)"
      obtain z f3 where z: "staged_commit (e_fs E) (w_root ?w) (up_staged v) ?url f2 = (z, f3)" by fastforce
      let ?rest = "\<lambda>r w. io_then (\<lambda>x. (ctx HE_Upload r, ?on w)) (\<lambda>_. io_then (h_bump (ex_shard ex) C_Uploads 1)
          (\<lambda>_. answer S ?rq S_Created Consumed)) (?on ?w2)"
      show ?thesis
      proof (cases z)
        case (Inl e)
        have "?rest (Inl (UE_Stage e) :: upload_error + entry) (?w\<lparr>w_fs := f3\<rparr>) = (r, x')"
          using run fin c y v z Inl
          by (simp add: settle_upload_def Let_def io_then_def on_world_def on_fs_def on_fs_db_def put_fs_def upload_store_def)
        then have "hs_world x' = ?w\<lparr>w_fs := f3\<rparr>" by (auto simp: io_then_def)
        moreover have "sys_step E V dd Cs As (held i (Some (Ready v)) ?w2 s) (held i None (?w\<lparr>w_fs := f3\<rparr>) s)"
          using sys_step.place_fails [of "held i (Some (Ready v)) ?w2 s" i v E e f3 V dd Cs As] z Inl by simp
        ultimately show ?thesis
          using one [OF s1 [unfolded c sum.case] one [OF s2 [unfolded v sum.case] r_into_rtranclp]] by simp
      next
        case n: (Inr n)
        obtain k d3 where k: "index_put_nar (e_redb E) (e_rkyv E) ?h ?e (w_db ?w) = (k, d3)" by fastforce
        let ?w3 = "?w\<lparr>w_fs := f3\<rparr>" and ?w4 = "?w\<lparr>w_fs := f3, w_db := d3\<rparr>"
        have rest: "?rest (case k of Inl e \<Rightarrow> Inl (UE_Record e) | Inr _ \<Rightarrow> Inr ?e) ?w4 = (r, x')"
          using run fin c y v z n k
          by (simp add: settle_upload_def Let_def io_then_def on_world_def on_fs_def on_fs_db_def put_fs_def
              upload_store_def split: sum.splits)
        have x': "world_is V ?w4 x'"
        proof (cases k)
          case (Inl e)
          with rest show ?thesis by (auto simp: io_then_def world_is_def)
        next
          case (Inr b)
          have "io_then (h_bump (ex_shard ex) C_Uploads 1) (\<lambda>_. answer S ?rq S_Created Consumed) (?on ?w4) = (r, x')"
            using rest Inr by (simp add: io_then_def)
          from frame_world [OF io_keeps_then [OF keeps_bump keeps_answer] this] show ?thesis by simp
        qed
        have "ran (artifacts V (w_root ?w) f3) \<subseteq> As"
          using As same_view_artifacts [of V f3 "w_fs (hs_world x')"] x' by (simp add: world_is_def)
        then have s3: "sys_step E V dd Cs As (held i (Some (Ready v)) ?w2 s) (held i (Some (Placed ?h ?e)) ?w3 s)"
          using sys_step.place [of "held i (Some (Ready v)) ?w2 s" i v E n f3 V As dd Cs] z n by simp
        have s4: "sys_step E V dd Cs As (held i (Some (Placed ?h ?e)) ?w3 s) (held i None ?w4 s)"
          using sys_step.enter [of "held i (Some (Placed ?h ?e)) ?w3 s" i ?h ?e E k d3 V dd Cs As] k by simp
        show ?thesis
          using one [OF s1 [unfolded c sum.case] one [OF s2 [unfolded v sum.case] one [OF s3 one [OF s4
            r_into_rtranclp [of "sys_step E V dd Cs As"]]]], OF look_held [OF x']] .
      qed
    qed
  qed
qed

section \<open>Requests\<close>

lemma run_if: "(b \<Longrightarrow> is_run E V dd Cs As ca i m) \<Longrightarrow> (\<not> b \<Longrightarrow> is_run E V dd Cs As ca i n) \<Longrightarrow>
    is_run E V dd Cs As ca i (if b then m else n)"
  by simp

lemma run_framing:
  "(\<And>n. is_run E V dd Cs As ca i (m n)) \<Longrightarrow> is_run E V dd Cs As ca i a \<Longrightarrow> is_run E V dd Cs As ca i b \<Longrightarrow>
     is_run E V dd Cs As ca i (case fr of FrameLength n \<Rightarrow> m n | FrameEmpty \<Rightarrow> a | FrameChunked \<Rightarrow> b)"
  by (cases fr) auto

lemma publish_text_run:
  fixes E :: "('e, 'z, 'f, 'h, 'd, 'r, 't) env" and S :: "'s sock"
  shows "is_run E V dd Cs As ca i (\<lambda>x.
    case on_db (ingest_publish E (ca_ingest ca) str) (hs_world x) of
      (Inl err, w) \<Rightarrow> refuse S rq (refusal_new (ingest_fault err) (ingest_display err)) Consumed (x\<lparr>hs_world := w\<rparr>)
    | (Inr _, w) \<Rightarrow> answer S rq S_Created Consumed (x\<lparr>hs_world := w\<rparr>))"
    (is "is_run E V dd Cs As ca i ?m")
  unfolding is_run_def
proof (intro allI impI)
  fix x r x' and s :: "('f, 'd, 'h, 'e, 'z) system"
  assume run: "?m x = (r, x')" and s: "sy_world s = hs_world x" "sy_cache s = Some ca" "sy_tasks s i = None"
  obtain q d where q: "ingest_publish E (ca_ingest ca) str (w_db (hs_world x)) = (q, d)" by fastforce
  let ?w = "(hs_world x)\<lparr>w_db := d\<rparr>"
  have "world_is V ?w x'"
  proof (cases q)
    case (Inl err)
    with run q have "refuse S rq (refusal_new (ingest_fault err) (ingest_display err)) Consumed (x\<lparr>hs_world := ?w\<rparr>) = (r, x')"
      by (simp add: on_db_def)
    from frame_world [OF keeps_refuse this] show ?thesis by simp
  next
    case (Inr p)
    with run q have "answer S rq S_Created Consumed (x\<lparr>hs_world := ?w\<rparr>) = (r, x')" by (simp add: on_db_def)
    from frame_world [OF keeps_answer this] show ?thesis by simp
  qed
  from rtranclp.rtrancl_into_rtrancl [OF publish_run [OF s(2) q] look_held [OF this]]
  show "sys_steps E V dd Cs As s (s\<lparr>sy_world := hs_world x'\<rparr>)"
    using held_free [OF s(3)] held_world [OF s(3)] s(1) by metis
qed

lemma h_publish_run: "is_run E V dd Cs As ca i (h_publish S E ca ex)"
  unfolding h_publish_def Let_def
  by (intro run_then run_if run_framing)
    (auto intro: frames run_frame run_then publish_text_run split: sum.splits)

lemma receive_run:
  fixes E :: "('e, 'z, 'f, 'h, 'd, 'r, 't) env" and S :: "'s sock"
  shows "is_run E V dd Cs As ca i (\<lambda>x.
    case ingest_receive E (ca_ingest ca) url (hs_world x) of
      (Inl err, w) \<Rightarrow> refuse S rq (refusal_new (ingest_fault err) (ingest_display err)) Unread (x\<lparr>hs_world := w\<rparr>)
    | (Inr u, w) \<Rightarrow>
        (case proceed S rq (x\<lparr>hs_world := w\<rparr>) of
           (Inl e, x) \<Rightarrow> (Inl e, drop_upload E u x)
         | (Inr _, x) \<Rightarrow> io_then (receive_loop S E u remaining) (settle_upload S E ex) x))"
    (is "is_run E V dd Cs As ca i ?m")
  unfolding is_run_def
proof (intro allI impI)
  fix x r x' and s :: "('f, 'd, 'h, 'e, 'z) system"
  assume run: "?m x = (r, x')" and s: "sy_world s = hs_world x" "sy_cache s = Some ca" "sy_tasks s i = None"
    and n: "unat (st_sequence (w_store (hs_world x))) + 1 < 2 ^ 64"
    and As: "ran (artifacts V (w_root (hs_world x)) (w_fs (hs_world x'))) \<subseteq> As"
  obtain q w where q: "ingest_receive E (ca_ingest ca) url (hs_world x) = (q, w)" by fastforce
  let ?x = "x\<lparr>hs_world := w\<rparr>"
  have s1: "sys_step E V dd Cs As s (held i (case q of Inl _ \<Rightarrow> None | Inr u \<Rightarrow> Some (Receiving u)) w s)"
    using sys_step.receive [of s ca i E url q w V dd Cs As] s q n by (simp add: held_def put_task_def)
  have "sys_steps E V dd Cs As s (held i None (hs_world x') s)"
  proof (cases q)
    case (Inl err)
    with run q have "refuse S rq (refusal_new (ingest_fault err) (ingest_display err)) Unread ?x = (r, x')" by simp
    from frame_world [OF keeps_refuse this, of V] have "world_is V w x'" by simp
    from converse_rtranclp_into_rtranclp [of "sys_step E V dd Cs As", OF _ r_into_rtranclp, OF s1 [unfolded Inl sum.case]
        look_held [OF this]] show ?thesis .
  next
    case u: (Inr u)
    obtain p y where p: "proceed S rq ?x = (p, y)" by fastforce
    have s2: "sys_step E V dd Cs As (held i (Some (Receiving u)) w s) (held i (Some (Receiving u)) (hs_world y) s)"
      using look_held [OF frame_world [OF keeps_proceed p]] by simp
    have root: "w_root (hs_world y) = w_root (hs_world x)"
    proof -
      have "w_root w = w_root (hs_world x)"
        using q by (auto simp: ingest_receive_def on_store_def stage_def on_fs_def Let_def elim!: io_thenE io_ctxE
            split: prod.splits)
      moreover have "world_is V w y" using frame_world [OF keeps_proceed p] by simp
      ultimately show ?thesis by (simp add: world_is_def)
    qed
    have s3: "sys_steps E V dd Cs As (held i (Some (Receiving u)) (hs_world y) s) (held i None (hs_world x') s)"
    proof (cases p)
      case (Inl e)
      with run q u p have "x' = drop_upload E u y" by simp
      then show ?thesis
        using sys_step.abandon [of "held i (Some (Receiving u)) (hs_world y) s" i "Receiving u" E V dd Cs As]
        by (simp add: drop_upload_def task_drop_def r_into_rtranclp)
    next
      case (Inr a)
      with run q u p have "io_then (receive_loop S E u remaining) (settle_upload S E ex) y = (r, x')" by simp
      then show ?thesis
      proof (cases rule: io_thenE)
        case (1 e)
        from receive_loop_run [OF 1(1)] show ?thesis by simp
      next
        case (2 v z)
        have loop: "sys_steps E V dd Cs As (held i (Some (Receiving u)) (hs_world y) s)
            (held i (Some (Receiving v)) (hs_world z) s)" using receive_loop_run [OF 2(1)] by simp
        have "w_root (hs_world z) = w_root (hs_world y)"
          using receive_loop_store [OF 2(1)] by simp
        with As root have "ran (artifacts V (w_root (hs_world z)) (w_fs (hs_world x'))) \<subseteq> As" by simp
        from rtranclp_trans [OF loop settle_run [OF 2(2) this]] show ?thesis .
      qed
    qed
    from s1 u have "sys_step E V dd Cs As s (held i (Some (Receiving u)) w s)" by simp
    from converse_rtranclp_into_rtranclp [OF this converse_rtranclp_into_rtranclp [of "sys_step E V dd Cs As", OF s2 s3]]
    show ?thesis .
  qed
  then show "sys_steps E V dd Cs As s (s\<lparr>sy_world := hs_world x'\<rparr>)" by (simp add: held_free [OF s(3)])
qed

lemma h_receive_run: "is_run E V dd Cs As ca i (h_receive S E ca ex url)"
  unfolding h_receive_def Let_def
  by (intro run_then run_if run_framing) (auto intro: frames run_frame receive_run)

lemma handle_run:
  assumes laws: "fs_laws (e_fs E) V"
  shows "is_run E V dd Cs As ca i (handle S E ca ex)"
proof (cases "rq_method (ex_request ex) = Put")
  case False
  with keeps_handle [OF laws] show ?thesis by (intro run_frame) blast
next
  case True
  have "is_run E V dd Cs As ca i (h_narinfo S E ca ex key)" "is_run E V dd Cs As ca i (h_nar S E ca ex url)" for key url
    using True h_publish_run h_receive_run by (simp_all add: h_narinfo_def h_nar_def Let_def)
  then have "is_run E V dd Cs As ca i (case route_resolve (e_ext E) (rq_target (ex_request ex)) of
        Inl (RE_Unknown _) \<Rightarrow> answer S (ex_request ex) S_NotFound Unread
      | Inl _ \<Rightarrow> answer S (ex_request ex) S_BadRequest Unread
      | Inr R_CacheInfo \<Rightarrow> h_cache_info S ca ex
      | Inr R_Metrics \<Rightarrow> h_metrics S E ex
      | Inr (R_Narinfo key) \<Rightarrow> h_narinfo S E ca ex key
      | Inr (R_Nar url) \<Rightarrow> h_nar S E ca ex url)"
    by (auto split: sum.splits route_error.splits route.splits intro: run_frame frames)
  then show ?thesis unfolding handle_def Let_def
    by (intro run_then run_if) (auto intro: frames run_frame)
qed

end
