(* ===== verification/SampleSystem.thy ===== *)
theory SampleSystem
  imports SystemRuns PushSpec
begin

text \<open>
  One run of a whole server on the instances of \<open>SampleWorld\<close>, from an empty data directory: the server
  starts, a NAR is received, stored and recorded, and a narinfo for it is published.
\<close>

section \<open>The machine and the state\<close>

definition sample_host :: host where
  "sample_host = \<lparr>ho_runtime = Inr (), ho_read = (\<lambda>_. Inr (secret_render sample sample_key)), ho_parallelism = Inr 1,
     ho_pid = 1, ho_entropy = [], ho_display = (\<lambda>_. []), ho_already_open = (\<lambda>_. False)\<rparr>"

definition fetch_entry :: entry where
  "fetch_entry = stored_entry sample ''nar'' ''nar''"

definition fetch_decl :: narinfo where
  "fetch_decl = sample_record\<lparr>ni_nar_hash := digest sample ''nar'', ni_nar_size := 3\<rparr>"

definition fetch_record :: narinfo where
  "fetch_record = resign sample (Dir ''/nix/store'') sample_key (publish_record fetch_decl fetch_entry)"

definition fetch_env :: "(string, string \<times> string, memfs, nat, rows, rows, rows) env" where
  "fetch_env = (sample_env [])\<lparr>e_rkyv := known_rkyv [fetch_record] [fetch_entry]\<rparr>"

lemma fetch_env_simps [simp]:
  "e_ext fetch_env = sample" "e_zstd fetch_env = copy_zstd" "e_fs fetch_env = mem_fsys" "e_redb fetch_env = mem_redb"
  "e_rkyv fetch_env = known_rkyv [fetch_record] [fetch_entry]"
  by (simp_all add: fetch_env_def sample_env_def)

type_synonym sample_system = "(memfs, rows, nat, string, string \<times> string) system"

definition sample_world :: "u64 \<Rightarrow> memfs \<Rightarrow> rows \<Rightarrow> (memfs, rows) world" where
  "sample_world n f d = \<lparr>w_store = \<lparr>st_root = [''d'', PAYLOAD], st_sequence = n, st_pid = 1\<rparr>, w_fs = f, w_db = d\<rparr>"

lemma sample_world_simps [simp]:
  "w_store (sample_world n f d) = \<lparr>st_root = [''d'', PAYLOAD], st_sequence = n, st_pid = 1\<rparr>"
  "w_fs (sample_world n f d) = f" "w_db (sample_world n f d) = d"
  "(sample_world n f d)\<lparr>w_fs := f'\<rparr> = sample_world n f' d" "(sample_world n f d)\<lparr>w_db := d'\<rparr> = sample_world n f d'"
  by (simp_all add: sample_world_def)

definition idle :: sample_system where
  "idle = \<lparr>sy_world = sample_world 0 no_files empty_rows, sy_cache = None, sy_tasks = \<lambda>_. None\<rparr>"

lemma idle_fresh: "fresh_system fetch_env mem_fs_views mem_views [''d''] idle"
proof -
  have "fs_good mem_fsys mem_fs_views no_files" unfolding fs_good_def
    by (simp add: mem_fs_laws) (simp add: no_links_def mem_fs_views_def no_files_def)
  moreover have "index_good mem_redb mem_views (known_rkyv rs es) empty_rows" for rs es
    unfolding index_good_def by (simp add: mem_redb_laws known_rkyv_laws) (simp add: rows_ok_def mem_views_def)
  moreover have "artifacts mem_fs_views root no_files = (\<lambda>_. None)" for root
    by (simp add: fun_eq_iff artifacts_def mem_fs_views_def no_files_def)
  moreover have "nars mem_views K empty_rows = (\<lambda>_. None)" "infos mem_views K empty_rows = (\<lambda>_. None)" for K
    by (simp_all add: fun_eq_iff nars_def infos_def nars_of_def infos_of_def mem_views_def)
  ultimately show ?thesis by (simp add: fresh_system_def idle_def)
qed

section \<open>The server starts\<close>

abbreviation up_config :: config where
  "up_config \<equiv> \<lparr>cf_address = SocketV4 [0, 0, 0, 0] 5000, cf_shards = 1, cf_pinning = Unpinned\<rparr>"

definition up_cache :: cache where
  "up_cache = cache_new sample_ingest (tokens_new sample [''secret''])
     \<lparr>ci_store_dir = Dir ''/nix/store'', ci_mass_query = Wanted, ci_priority = Priority 30\<rparr>"

lemma up_cache_simps [simp]: "ca_ingest up_cache = sample_ingest" "ca_tokens up_cache = tokens_new sample [''secret'']"
  by (simp_all add: up_cache_def cache_new_def)

definition up :: sample_system where
  "up = idle\<lparr>sy_cache := Some up_cache\<rparr>"

abbreviation sample_signers :: "(secret_key \<times> dir) set" where
  "sample_signers \<equiv> {(sample_key, Dir ''/nix/store'')}"

abbreviation run_step :: "sample_system \<Rightarrow> sample_system \<Rightarrow> bool" where
  "run_step \<equiv> sys_step fetch_env mem_fs_views [''d''] sample_signers {''nar''}"

lemma sample_boot_sweeps:
  assumes sweep: "sweep_staging mem_fsys [''d'', PAYLOAD] f = (Inr n, f')"
  shows "boot_run sample_host fetch_env (Cmd_Serve (sample_args [''secret''])) (f, empty_rows) =
     (Inr (Inl \<lparr>pr_cache = up_cache, pr_config = up_config, pr_stats = shards_new 1,
       pr_store = \<lparr>st_root = [''d'', PAYLOAD], st_sequence = 0, st_pid = 1\<rparr>, pr_stale_seconds = 5\<rparr>),
      (f', empty_rows))"
proof -
  have key: "boot_secret_key sample_host sample [''k''] = Inr sample_key"
    using secret_parse_render [OF sample_b64_laws sample_ed_laws sample_key_ok]
    by (simp add: boot_secret_key_def sample_host_def)
  have dir: "boot_dir ''/nix/store'' = Inr (Dir ''/nix/store'')" by (simp add: boot_dir_def dir_new_def)
  have open_up: "boot_open sample_host fetch_env [''d''] (f, empty_rows) =
      (Inr \<lparr>st_root = [''d'', PAYLOAD], st_sequence = 0, st_pid = 1\<rparr>, (f, empty_rows))"
    by (simp add: boot_open_def on_files_def on_index_def store_open_def index_open_def with_write_def open_write_def
        io_run mem_fsys_def mem_redb_def sample_host_def Let_def)
  have count: "index_count mem_redb empty_rows = Inr 0"
    by (simp add: index_count_def read_table_def mem_redb_def rows_len_def)
  show ?thesis
    using key dir open_up sweep count
    by (simp add: boot_run_def boot_serve_def io_then_def io_lift_def io_return_def sample_args_def level_new_def
        on_files_def push_tokens_def configured_def sample_host_def up_cache_def sample_ingest_def Let_def)
qed

lemma sample_boot:
  "boot_run sample_host fetch_env (Cmd_Serve (sample_args [''secret''])) (no_files, empty_rows) =
     (Inr (Inl \<lparr>pr_cache = up_cache, pr_config = up_config, pr_stats = shards_new 1,
       pr_store = \<lparr>st_root = [''d'', PAYLOAD], st_sequence = 0, st_pid = 1\<rparr>, pr_stale_seconds = 5\<rparr>),
      (no_files, empty_rows))"
  by (rule sample_boot_sweeps [where n = 0])
    (simp add: sweep_staging_def entries_def io_run mem_fsys_def children_def no_files_def)

lemma step_up: "run_step idle up"
proof -
  have "boot_run sample_host fetch_env (Cmd_Serve (sample_args [''secret''])) (sy_fs idle, sy_db idle) =
     (Inr (Inl \<lparr>pr_cache = up_cache, pr_config = up_config, pr_stats = shards_new 1,
       pr_store = \<lparr>st_root = [''d'', PAYLOAD], st_sequence = 0, st_pid = 1\<rparr>, pr_stale_seconds = 5\<rparr>),
      (no_files, empty_rows))"
    by (simp add: idle_def sample_boot)
  moreover have "(k, dr) \<in> sample_signers" if "cmd_signs sample_host (e_ext fetch_env) (Cmd_Serve (sample_args [''secret''])) k dr"
    for k dr
    using that secret_parse_render [OF sample_b64_laws sample_ed_laws sample_key_ok]
    by (simp add: sample_args_def boot_secret_key_def sample_host_def boot_dir_def dir_new_def)
  ultimately have "run_step idle (started (Inr (Inl \<lparr>pr_cache = up_cache, pr_config = up_config, pr_stats = shards_new 1,
       pr_store = \<lparr>st_root = [''d'', PAYLOAD], st_sequence = 0, st_pid = 1\<rparr>, pr_stale_seconds = 5\<rparr>))
      (put_rows empty_rows (put_files no_files idle)))"
    by (intro sys_step.command) (simp_all add: idle_def sample_args_def)
  then show ?thesis by (simp add: started_def put_rows_def put_files_def up_def idle_def sample_world_def)
qed

section \<open>A NAR is received\<close>

definition up_files :: "string \<Rightarrow> memfs" where
  "up_files bs = \<lparr>mf_names = [([''d'', PAYLOAD, STAGING, ''1-0.nar''], 1)], mf_data = (\<lambda>_. [])(1 := bs)\<rparr>"

definition up_staged_file :: "u64 \<Rightarrow> nat staged" where
  "up_staged_file n = \<lparr>sg_file = 1, sg_path = [''d'', PAYLOAD, STAGING, ''1-0.nar''], sg_offset = n, sg_committed = False\<rparr>"

lemma up_staged_simps [simp]:
  "sg_file (up_staged_file n) = 1" "sg_path (up_staged_file n) = [''d'', PAYLOAD, STAGING, ''1-0.nar'']"
  "sg_offset (up_staged_file n) = n" "sg_committed (up_staged_file n) = False"
  "(up_staged_file n)\<lparr>sg_offset := m\<rparr> = up_staged_file m"
  by (simp_all add: up_staged_file_def)

definition up_receiving :: "string \<Rightarrow> u64 \<Rightarrow> (nat, string, string \<times> string) receiving_upload" where
  "up_receiving bs n = \<lparr>up_staged = up_staged_file 0, up_expected = digest sample ''nar'',
     up_state = \<lparr>rc_encoder = ([], bs), rc_nar = hasher_update sample (hasher_default sample) bs,
       rc_file = hasher_default sample, rc_nar_size = n\<rparr>\<rparr>"

definition up_compressed :: "(nat, compressed) upload" where
  "up_compressed = \<lparr>up_staged = up_staged_file 3, up_expected = digest sample ''nar'',
     up_state = \<lparr>cm_nar_hash = digest sample ''nar'', cm_nar_size = 3, cm_file_hash = digest sample ''nar'', cm_file_size = 3\<rparr>\<rparr>"

definition up_verified :: "(nat, verified) upload" where
  "up_verified = \<lparr>up_staged = up_staged_file 3, up_expected = digest sample ''nar'',
     up_state = \<lparr>vf_nar_hash = digest sample ''nar'', vf_nar_size = 3, vf_file_hash = digest sample ''nar'', vf_file_size = 3\<rparr>\<rparr>"

abbreviation slot :: "(nat, string, string \<times> string) task option \<Rightarrow> (memfs, rows) world \<Rightarrow> sample_system" where
  "slot t w \<equiv> held 0 t w up"

lemma up_simps [simp]: "sy_world up = sample_world 0 no_files empty_rows" "sy_cache up = Some up_cache" "sy_tasks up i = None"
  by (simp_all add: up_def idle_def)

text \<open>A predecessor crashed in the middle of an upload.\<close>

lemma sample_reboot:
  "boot_run sample_host fetch_env (Cmd_Serve (sample_args [''secret''])) (up_files bs, empty_rows) =
     (Inr (Inl \<lparr>pr_cache = up_cache, pr_config = up_config, pr_stats = shards_new 1,
       pr_store = \<lparr>st_root = [''d'', PAYLOAD], st_sequence = 0, st_pid = 1\<rparr>, pr_stale_seconds = 5\<rparr>),
      (\<lparr>mf_names = [], mf_data = (\<lambda>_. [])(1 := bs)\<rparr>, empty_rows))"
  by (rule sample_boot_sweeps [where n = 1])
    (simp add: sweep_staging_def entries_def io_run mem_fsys_def children_def up_files_def without_def)

lemma up_files_good: "fs_good mem_fsys mem_fs_views (up_files bs)"
  unfolding fs_good_def
  by (simp add: mem_fs_laws) (auto simp: no_links_def up_files_def mem_fs_views_def split: if_splits)

lemma up_write:
  assumes "length bs + length new < 2 ^ 64"
  shows "staged_write mem_fsys new (up_staged_file (of_nat (length bs))) (up_files bs) =
     (Inr (up_staged_file (of_nat (length bs) + of_nat (length new))), up_files (bs @ new))"
  using assms by (simp add: staged_write_def io_run mem_fsys_def up_files_def splice_end unat_of_nat64 u64_from_usize_def)

lemma step_receive: "run_step up (slot (Some (Receiving (up_receiving [] 0))) (sample_world 1 (up_files []) empty_rows))"
proof -
  have "staging_name \<lparr>st_root = [''d'', PAYLOAD], st_sequence = 0, st_pid = 1\<rparr> = ''1-0.nar''" by code_simp
  then have "ingest_receive fetch_env (ca_ingest up_cache) nar_target (sy_world up) =
      (Inr (up_receiving [] 0), sample_world 1 (up_files []) empty_rows)"
    by (simp add: ingest_receive_def nar_target_def io_run on_store_def stage_def mem_fsys_def no_files_def Let_def
        fresh_file_def on_fs_def upload_new_def copy_zstd_def up_files_def up_staged_file_def up_receiving_def
        sample_world_def hasher_update_def sha_nil [OF sample_sha_laws])
  from sys_step.receive [OF up_simps(2) up_simps(3) _ this, of mem_fs_views "[''d'']" sample_signers "{''nar''}" 0]
  show ?thesis by (simp add: held_def put_task_def)
qed

lemma step_chunk:
  "run_step (slot (Some (Receiving (up_receiving [] 0))) (sample_world 1 (up_files []) empty_rows))
     (slot (Some (Receiving (up_receiving ''nar'' 3))) (sample_world 1 (up_files []) empty_rows))"
proof -
  have "upload_write sample copy_zstd mem_fsys ''nar'' (up_receiving [] 0, up_files []) =
      (Inr (), (up_receiving ''nar'' 3, up_files []))"
    by (simp add: upload_write_def Let_def copy_zstd_def DRAIN_THRESHOLD_def u64_from_usize_def up_receiving_def
        hasher_update_def sha_nil [OF sample_sha_laws])
  with sys_step.take_chunk [of "slot (Some (Receiving (up_receiving [] 0))) (sample_world 1 (up_files []) empty_rows)"
      0 "up_receiving [] 0" fetch_env "''nar''" "up_receiving ''nar'' 3" "up_files []"] show ?thesis by simp
qed

lemma step_complete:
  "run_step (slot (Some (Receiving (up_receiving ''nar'' 3))) (sample_world 1 (up_files []) empty_rows))
     (slot (Some (Finished up_compressed)) (sample_world 1 (up_files ''nar'') empty_rows))"
proof -
  have w: "staged_write mem_fsys ''nar'' (up_staged_file 0) (up_files []) = (Inr (up_staged_file 3), up_files ''nar'')"
    "staged_write mem_fsys [] (up_staged_file 3) (up_files ''nar'') = (Inr (up_staged_file 3), up_files ''nar'')"
    using up_write [of "[]" "''nar''"] up_write [of "''nar''" "[]"] by simp_all
  have "upload_finish sample copy_zstd mem_fsys (up_receiving ''nar'' 3) (up_files []) = (Inr up_compressed, up_files ''nar'')"
    by (simp add: upload_finish_def upload_drain_def copy_zstd_def Let_def w up_receiving_def up_compressed_def
        digest_def hasher_update_def sha_nil [OF sample_sha_laws])
  with sys_step.complete [of "slot (Some (Receiving (up_receiving ''nar'' 3))) (sample_world 1 (up_files []) empty_rows)"
      0 "up_receiving ''nar'' 3" fetch_env "Inr up_compressed" "up_files ''nar''"] show ?thesis by simp
qed

lemma step_judge:
  "run_step (slot (Some (Finished up_compressed)) (sample_world 1 (up_files ''nar'') empty_rows))
     (slot (Some (Ready up_verified)) (sample_world 1 (up_files ''nar'') empty_rows))"
proof -
  have "upload_verify mem_fsys up_compressed (up_files ''nar'') = (Inr up_verified, up_files ''nar'')"
    by (simp add: upload_verify_def up_compressed_def up_verified_def)
  with sys_step.judge [of "slot (Some (Finished up_compressed)) (sample_world 1 (up_files ''nar'') empty_rows)"
      0 up_compressed fetch_env "Inr up_verified" "up_files ''nar''"] show ?thesis by simp
qed

section \<open>It is stored and recorded\<close>

definition nar_url_stored :: narurl where
  "nar_url_stored = stored_url sample ''nar''"

definition stored_files :: memfs where
  "stored_files = \<lparr>mf_names = [(store_path [''d'', PAYLOAD] nar_url_stored, 1)], mf_data = (\<lambda>_. [])(1 := ''nar'')\<rparr>"

lemma verified_is: "verified_url (up_state up_verified) = nar_url_stored" "verified_entry (up_state up_verified) = fetch_entry"
  "vf_nar_hash (up_state up_verified) = digest sample ''nar''"
  by (simp_all add: up_verified_def verified_url_def verified_entry_def nar_url_stored_def stored_url_def fetch_entry_def
      stored_entry_def u64_from_usize_def)

lemma nar_url_stored_ok: "narurl_ok nar_url_stored"
  by (simp add: nar_url_stored_def stored_url_def narurl_ok_def sha_ok_digest sample_sha_laws)

lemma stored_artifacts: "artifacts mem_fs_views [''d'', PAYLOAD] stored_files = [nar_url_stored \<mapsto> ''nar'']"
proof
  fix u show "artifacts mem_fs_views [''d'', PAYLOAD] stored_files u = [nar_url_stored \<mapsto> ''nar''] u"
    using store_path_inject [OF _ nar_url_stored_ok, of u "[''d'', PAYLOAD]"] nar_url_stored_ok
    by (auto simp: artifacts_def mem_fs_views_def stored_files_def)
qed

lemma step_place:
  "run_step (slot (Some (Ready up_verified)) (sample_world 1 (up_files ''nar'') empty_rows))
     (slot (Some (Placed (digest sample ''nar'') fetch_entry)) (sample_world 1 stored_files empty_rows))"
proof -
  have "staged_commit mem_fsys [''d'', PAYLOAD] (up_staged_file 3) nar_url_stored (up_files ''nar'') = (Inr 3, stored_files)"
    by (simp add: staged_commit_def Let_def io_run mem_fsys_def up_files_def stored_files_def without_def staged_drop_def)
  moreover have "up_staged up_verified = up_staged_file 3" by (simp add: up_verified_def)
  moreover have "ran (artifacts mem_fs_views [''d'', PAYLOAD] stored_files) \<subseteq> {''nar''}"
    unfolding stored_artifacts by (auto simp: ran_def split: if_splits)
  ultimately show ?thesis
    using sys_step.place [of "slot (Some (Ready up_verified)) (sample_world 1 (up_files ''nar'') empty_rows)"
      0 up_verified fetch_env 3 stored_files mem_fs_views "{''nar''}" "[''d'']" sample_signers]
    by (simp add: verified_is)
qed

definition entered_rows :: rows where
  "entered_rows = empty_rows(NAR := [(sha_bytes (digest sample ''nar''), [])])"

lemma step_enter:
  "run_step (slot (Some (Placed (digest sample ''nar'') fetch_entry)) (sample_world 1 stored_files empty_rows))
     (slot None (sample_world 1 stored_files entered_rows))"
proof -
  have "index_put_nar mem_redb (known_rkyv [fetch_record] [fetch_entry]) (digest sample ''nar'') fetch_entry empty_rows =
      (Inr (), entered_rows)"
    by (simp add: index_put_nar_def with_write_def open_write_def io_run mem_redb_def known_rkyv_def entered_rows_def)
  with sys_step.enter [of "slot (Some (Placed (digest sample ''nar'') fetch_entry)) (sample_world 1 stored_files empty_rows)"
      0 "digest sample ''nar''" fetch_entry fetch_env] show ?thesis by simp
qed

section \<open>A narinfo is published\<close>

abbreviation fetch_body :: string where
  "fetch_body \<equiv> Narinfo.render sample (Dir ''/nix/store'') fetch_decl"

definition fetch_rows :: rows where
  "fetch_rows = entered_rows(NARINFO := [(record_key fetch_record, [])])"

lemma parse_fetch_body: "NarinfoParse.parse sample fetch_body (Dir ''/nix/store'') = Inr fetch_decl"
proof (rule parse_render [OF sample_b64_laws])
  have "core_ok fetch_decl" using sample_record_ok
    by (simp add: core_ok_def fetch_decl_def sha_ok_digest sample_sha_laws)
  then show "narinfo_ok fetch_decl" by (simp add: narinfo_ok_def fetch_decl_def sample_record_def)
qed (simp_all add: fetch_decl_def sample_record_def)

lemma fetch_decl_simps: "ni_nar_hash fetch_decl = digest sample ''nar''" "ni_nar_size fetch_decl = 3"
    "ni_store_path fetch_decl = sample_path ''hello''"
  by (simp_all add: fetch_decl_def sample_record_def)

lemma step_build:
  "run_step (slot None (sample_world 1 stored_files entered_rows))
     (slot (Some (Built fetch_record)) (sample_world 1 stored_files entered_rows))"
proof -
  have "index_nar mem_redb (known_rkyv [fetch_record] [fetch_entry]) (digest sample ''nar'') entered_rows = Inr (Some fetch_entry)"
    by (simp add: index_nar_def read_table_def mem_redb_def entered_rows_def known_rkyv_def decode_nar_def at_place_def)
  moreover have "en_nar_size fetch_entry = 3" by (simp add: fetch_entry_def stored_entry_def u64_from_usize_def)
  ultimately have "publish_build fetch_env sample_ingest fetch_body entered_rows = Inr fetch_record"
    by (simp only: publish_build_def fetch_env_simps sample_ingest_def ingest.simps parse_fetch_body fetch_decl_simps
        ctx_simps and_then_simps or_err_simps ensure_simps simp_thms refl) (simp only: fetch_record_def)
  with sys_step.build [of "slot None (sample_world 1 stored_files entered_rows)" up_cache 0 fetch_env fetch_body fetch_record]
  show ?thesis by simp
qed

lemma step_publish:
  "run_step (slot (Some (Built fetch_record)) (sample_world 1 stored_files entered_rows))
     (slot None (sample_world 1 stored_files fetch_rows))"
proof -
  have "index_publish mem_redb (known_rkyv [fetch_record] [fetch_entry]) fetch_record entered_rows = (Inr (), fetch_rows)"
    by (simp add: index_publish_def with_write_def open_write_def io_run mem_redb_def known_rkyv_def fetch_rows_def
        entered_rows_def)
  with sys_step.publish [of "slot (Some (Built fetch_record)) (sample_world 1 stored_files entered_rows)" 0 fetch_record fetch_env]
  show ?thesis by simp
qed

definition served :: sample_system where
  "served = up\<lparr>sy_world := sample_world 1 stored_files fetch_rows\<rparr>"

lemma served_slot: "slot None (sample_world 1 stored_files fetch_rows) = served"
  by (simp add: held_free served_def)

abbreviation run_steps :: "sample_system \<Rightarrow> sample_system \<Rightarrow> bool" where
  "run_steps \<equiv> sys_steps fetch_env mem_fs_views [''d''] sample_signers {''nar''}"

lemma served_reachable: "run_steps idle served"
proof -
  have "run_steps idle up" using step_up by (rule r_into_rtranclp)
  from this step_receive have "run_steps idle (slot (Some (Receiving (up_receiving [] 0))) (sample_world 1 (up_files []) empty_rows))"
    by (rule rtranclp.rtrancl_into_rtrancl)
  from this step_chunk have "run_steps idle (slot (Some (Receiving (up_receiving ''nar'' 3))) (sample_world 1 (up_files []) empty_rows))"
    by (rule rtranclp.rtrancl_into_rtrancl)
  from this step_complete have "run_steps idle (slot (Some (Finished up_compressed)) (sample_world 1 (up_files ''nar'') empty_rows))"
    by (rule rtranclp.rtrancl_into_rtrancl)
  from this step_judge have "run_steps idle (slot (Some (Ready up_verified)) (sample_world 1 (up_files ''nar'') empty_rows))"
    by (rule rtranclp.rtrancl_into_rtrancl)
  from this step_place
  have "run_steps idle (slot (Some (Placed (digest sample ''nar'') fetch_entry)) (sample_world 1 stored_files empty_rows))"
    by (rule rtranclp.rtrancl_into_rtrancl)
  from this step_enter have "run_steps idle (slot None (sample_world 1 stored_files entered_rows))"
    by (rule rtranclp.rtrancl_into_rtrancl)
  from this step_build have "run_steps idle (slot (Some (Built fetch_record)) (sample_world 1 stored_files entered_rows))"
    by (rule rtranclp.rtrancl_into_rtrancl)
  from this step_publish show ?thesis unfolding served_slot by (rule rtranclp.rtrancl_into_rtrancl)
qed

lemma served_record:
  "infos mem_views (known_rkyv [fetch_record] [fetch_entry]) fetch_rows (sp_hash (sample_path ''hello'')) = Some fetch_record"
proof -
  have "ni_store_path fetch_record = sample_path ''hello''"
    by (simp only: fetch_record_def published_fields fetch_decl_simps)
  then show ?thesis
    by (simp add: infos_def infos_of_def mem_views_def fetch_rows_def record_key_def known_rkyv_def decode_narinfo_def
        at_place_def)
qed

end
