(* ===== verification/SystemSpec.thy ===== *)
theory SystemSpec
  imports SampleSystem
begin

text \<open>
  The properties of the whole server, over every interleaving, failure and restart, with their
  witnesses on one run of a server from an empty data directory.
\<close>

section \<open>What the index promises\<close>

text \<open>
  C1. Whatever was received, published, deleted, rotated, interrupted or restarted, in whatever order
  and however it failed: every entry of the index names an artifact that is in the store, has the
  recorded digest and length, and decompresses to a NAR with the digest it is filed under and the
  recorded length; and every record does so too, carries exactly one signature, made by a key of the
  operator over the record's own fingerprint, and is filed under its own store path.
\<close>

theorem index_is_backed:
  assumes "sha_laws (e_ext E)" "zstd_laws (e_zstd E) Y" "inj_on (digest (e_ext E)) As"
    and "fresh_system E V U dd s0" "sys_steps E V dd Cs As s0 s"
  shows "(\<forall>h e. nars U (e_rkyv E) (sy_db s) h = Some e \<longrightarrow>
      (\<exists>a nar. artifacts V (dd @ [PAYLOAD]) (sy_fs s) (entry_url e) = Some a \<and>
         digest (e_ext E) a = en_file_hash e \<and> length a = unat (en_file_size e) \<and>
         unzstd Y a = Some nar \<and> digest (e_ext E) nar = h \<and>
         (length nar < 2 ^ 64 \<longrightarrow> length nar = unat (en_nar_size e)))) \<and>
    (\<forall>g q. infos U (e_rkyv E) (sy_db s) g = Some q \<longrightarrow> sp_hash (ni_store_path q) = g \<and>
      (\<exists>a nar. artifacts V (dd @ [PAYLOAD]) (sy_fs s) (ni_nar q) = Some a \<and>
         digest (e_ext E) a = ni_file_hash q \<and> length a = unat (ni_file_size q) \<and>
         unzstd Y a = Some nar \<and> digest (e_ext E) nar = ni_nar_hash q \<and>
         (length nar < 2 ^ 64 \<longrightarrow> length nar = unat (ni_nar_size q))) \<and>
      (\<exists>k dr. (k, dr) \<in> Cs \<and> ni_sigs q = [sign (e_ext E) k (fingerprint q dr)]))"
proof (intro conjI allI impI)
  note W = world_okD [OF sys_okD(1) [OF reachable_ok [OF assms(4,5,1-3)]]]
  show "\<exists>a nar. artifacts V (dd @ [PAYLOAD]) (sy_fs s) (entry_url e) = Some a \<and>
         digest (e_ext E) a = en_file_hash e \<and> length a = unat (en_file_size e) \<and>
         unzstd Y a = Some nar \<and> digest (e_ext E) nar = h \<and>
         (length nar < 2 ^ 64 \<longrightarrow> length nar = unat (en_nar_size e))"
    if "nars U (e_rkyv E) (sy_db s) h = Some e" for h e
    using W(5) [OF that] by (auto simp: entry_backed_def payload_def)
  fix g q assume q: "infos U (e_rkyv E) (sy_db s) g = Some q"
  show "sp_hash (ni_store_path q) = g"
    using W(2) infos_of_Some [of "e_rkyv E" "v_db U (sy_db s)" g q] q by (simp add: index_good_def infos_def)
  show "\<exists>a nar. artifacts V (dd @ [PAYLOAD]) (sy_fs s) (ni_nar q) = Some a \<and>
         digest (e_ext E) a = ni_file_hash q \<and> length a = unat (ni_file_size q) \<and>
         unzstd Y a = Some nar \<and> digest (e_ext E) nar = ni_nar_hash q \<and>
         (length nar < 2 ^ 64 \<longrightarrow> length nar = unat (ni_nar_size q))"
    using W(6) [OF q] by (auto simp: record_backed_def payload_def)
  show "\<exists>k dr. (k, dr) \<in> Cs \<and> ni_sigs q = [sign (e_ext E) k (fingerprint q dr)]"
    using W(6) [OF q] by (auto simp: operator_signed_def)
qed

theorem index_is_backed_witness:
  "\<exists>nar. digest sample nar = ni_nar_hash fetch_record \<and>
     artifacts mem_fs_views [''d'', PAYLOAD] (sy_fs served) (ni_nar fetch_record) = Some nar"
proof -
  have laws: "sha_laws (e_ext fetch_env)" "zstd_laws (e_zstd fetch_env) copy_views" "inj_on (digest (e_ext fetch_env)) {''nar''}"
    by (simp_all add: sample_sha_laws copy_zstd_laws)
  have "infos mem_views (e_rkyv fetch_env) (sy_db served) (sp_hash (sample_path ''hello'')) = Some fetch_record"
    using served_record by (simp add: served_def)
  with index_is_backed [OF laws idle_fresh served_reachable] show ?thesis
    by (simp add: copy_views_def) blast
qed

section \<open>Requests are runs\<close>

text \<open>
  C9. The step relation is what the handlers do: any request, answered or failed, in any state in
  which a task slot is free, changes the world exactly as a run of steps of that task does.
\<close>

theorem requests_are_runs:
  assumes "fs_laws (e_fs E) V" "handle S E ca ex x = (r, x')"
    and "sy_world s = hs_world x" "sy_cache s = Some ca" "sy_tasks s i = None"
    and "unat (st_sequence (w_store (hs_world x))) + 1 < 2 ^ 64"
    and "ran (artifacts V (w_root (hs_world x)) (w_fs (hs_world x'))) \<subseteq> As"
  shows "sys_steps E V dd Cs As s (s\<lparr>sy_world := hs_world x'\<rparr>)"
  by (rule is_runD [OF handle_run [OF assms(1)] assms(2-7)])

theorem requests_are_runs_witness:
  "\<exists>x'. handle string_sock push_env (sample_cache [''secret'']) sample_push (sample_serving ''narX'' no_files empty_rows) =
       (Inr Keep, x') \<and>
     sys_steps push_env mem_fs_views [''d''] {} UNIV
       \<lparr>sy_world = hs_world (sample_serving ''narX'' no_files empty_rows), sy_cache = Some (sample_cache [''secret'']),
         sy_tasks = \<lambda>_. None\<rparr>
       \<lparr>sy_world = hs_world x', sy_cache = Some (sample_cache [''secret'']), sy_tasks = \<lambda>_. None\<rparr>"
proof -
  let ?x = "sample_serving ''narX'' no_files empty_rows" and ?ca = "sample_cache [''secret'']"
  obtain x' where run: "handle string_sock push_env ?ca sample_push ?x = (Inr Keep, x')" using mem_push_run by blast
  let ?s = "\<lparr>sy_world = hs_world ?x, sy_cache = Some ?ca, sy_tasks = \<lambda>_. None\<rparr>"
  have "fs_laws (e_fs push_env) mem_fs_views" by (simp add: mem_fs_laws)
  from requests_are_runs [OF this run, of ?s 0 UNIV "[''d'']" "{}"]
  have "sys_steps push_env mem_fs_views [''d''] {} UNIV ?s (?s\<lparr>sy_world := hs_world x'\<rparr>)"
    by (simp add: sample_serving_def)
  with run show ?thesis by auto
qed

section \<open>Restarting\<close>

text \<open>
  C7. A server that starts, after whatever end its predecessor met, finds every artifact, entry and
  record as it was, starts its staging names from zero, and leaves no staging file behind.
\<close>

theorem restart_recovers:
  assumes "fs_good (e_fs E) V f" "redb_laws (e_redb E) U"
    and "boot_run H E (Cmd_Serve args) (f, d) = (Inr (Inl p), (f', d'))"
  shows "pr_store p = \<lparr>st_root = sv_data_dir args @ [PAYLOAD], st_sequence = 0, st_pid = ho_pid H\<rparr> \<and>
    artifacts V (st_root (pr_store p)) f' = artifacts V (st_root (pr_store p)) f \<and>
    nars U (e_rkyv E) d' = nars U (e_rkyv E) d \<and> infos U (e_rkyv E) d' = infos U (e_rkyv E) d \<and>
    (\<forall>q. staging_path (st_root (pr_store p)) q \<longrightarrow> fv_names V f' q = None)"
proof -
  let ?root = "sv_data_dir args @ [PAYLOAD]"
  from assms(3) have run: "boot_serve H E args (f, d) = (Inr p, (f', d'))"
    by (auto simp: boot_run_def elim: io_then_InrE)
  let ?P = "stored_as E V U ?root (artifacts V ?root f) (v_db U d)"
  have "?P (f, d)" using assms(1,2) by (simp add: stored_as_def)
  from serve_sweeps [OF durable_stored_as this refl run] show ?thesis
    by (auto simp: stored_as_def nars_def infos_def)
qed

theorem restart_recovers_witness:
  "fv_names mem_fs_views (up_files ''half'') [''d'', PAYLOAD, STAGING, ''1-0.nar''] = Some 1 \<and>
   fv_names mem_fs_views (fst (snd (boot_run sample_host fetch_env (Cmd_Serve (sample_args [''secret'']))
     (up_files ''half'', empty_rows)))) [''d'', PAYLOAD, STAGING, ''1-0.nar''] = None"
proof
  show "fv_names mem_fs_views (up_files ''half'') [''d'', PAYLOAD, STAGING, ''1-0.nar''] = Some 1"
    by (simp add: mem_fs_views_def up_files_def)
  have "fs_good (e_fs fetch_env) mem_fs_views (up_files ''half'')" "redb_laws (e_redb fetch_env) mem_views"
    by (simp_all add: up_files_good mem_redb_laws)
  from restart_recovers [OF this sample_reboot]
  show "fv_names mem_fs_views (fst (snd (boot_run sample_host fetch_env (Cmd_Serve (sample_args [''secret'']))
     (up_files ''half'', empty_rows)))) [''d'', PAYLOAD, STAGING, ''1-0.nar''] = None"
    unfolding sample_reboot fst_conv snd_conv by (simp add: staging_path_def)
qed

section \<open>Fetching\<close>

lemma get_narinfo_answer:
  assumes sock: "sock_laws S W" and good: "index_good (e_redb E) U (e_rkyv E) (w_db (hs_world x))"
    and rec: "infos U (e_rkyv E) (w_db (hs_world x)) g = Some q"
    and rq: "rq_method (ex_request ex) = Get" "rq_framing (ex_request ex) \<noteq> FrameChunked"
      "route_resolve (e_ext E) (rq_target (ex_request ex)) = Inr (R_Narinfo g)"
    and run: "handle S E ca ex x = (Inr k, x')"
  shows "said W x' = said W x @ with_body (head_header (head_new S_Ok (rq_keep_alive (ex_request ex)))
    ''Content-Type'' NARINFO_CONTENT_TYPE) (Narinfo.render (e_ext E) (ig_dir (ca_ingest ca)) q)"
proof -
  from handle_routed [OF run rq(2,3)] obtain x1 where
    x1: "hs_world x1 = hs_world x" "hs_conn x1 = hs_conn x" and "h_narinfo S E ca ex g x1 = (Inr k, x')" by auto
  then obtain found y where y: "read_index (index_narinfo (e_redb E) (e_rkyv E) g) x1 = (Inr found, y)"
    and rest: "(case found of
          None \<Rightarrow> io_then (h_bump (ex_shard ex) C_Misses 1) (\<lambda>_. answer S (ex_request ex) S_NotFound Unread)
        | Some record \<Rightarrow> io_then (h_bump (ex_shard ex) C_Hits 1) (\<lambda>_. send S (ex_request ex)
            (head_header (head_new S_Ok (rq_keep_alive (ex_request ex))) ''Content-Type'' NARINFO_CONTENT_TYPE)
            (Narinfo.render (e_ext E) (ig_dir (ca_ingest ca)) record))) y = (Inr k, x')"
    using rq(1) by (auto simp: h_narinfo_def Let_def elim!: io_then_InrE)
  have "y = x1" "index_narinfo (e_redb E) (e_rkyv E) g (w_db (hs_world x)) = Inr found"
    using y x1(1) by (auto simp: read_index_def)
  with index_narinfo_Inr [OF good] rec have "found = Some q" by fastforce
  with rest \<open>y = x1\<close> obtain u x2 where x2: "h_bump (ex_shard ex) C_Hits 1 x1 = (Inr u, x2)"
    and "send S (ex_request ex) (head_header (head_new S_Ok (rq_keep_alive (ex_request ex))) ''Content-Type'' NARINFO_CONTENT_TYPE)
            (Narinfo.render (e_ext E) (ig_dir (ca_ingest ca)) q) x2 = (Inr k, x')"
    by (auto elim!: io_then_InrE)
  from send_says [OF sock this(2)] have "said W x' = said W x2 @ with_body (head_header (head_new S_Ok
      (rq_keep_alive (ex_request ex))) ''Content-Type'' NARINFO_CONTENT_TYPE) (Narinfo.render (e_ext E) (ig_dir (ca_ingest ca)) q)"
    using rq(1) by (simp add: says_def sent_text_def)
  moreover have "hs_conn x2 = hs_conn x1" using x2 by (auto simp: h_bump_def split: option.splits)
  ultimately show ?thesis using x1(2) by simp
qed

lemma whole_answer:
  assumes "bs \<noteq> []" "length bs < 2 ^ 64" "rq_range rq = None"
  shows "payload_answer rq bs = with_body (head_header (head_header (head_new S_Ok (rq_keep_alive rq))
    ''Content-Type'' NAR_CONTENT_TYPE) ''Accept-Ranges'' ''bytes'') bs"
proof -
  let ?n = "u64_from_usize (length bs)"
  have n: "unat ?n = length bs" using assms(2) by (simp add: unat_u64_from_usize)
  then have "?n \<noteq> 0" using assms(1) by (auto simp: unat_eq_zero)
  then have "unat (?n - 1) = length bs - 1" using n by (metis One_nat_def Suc_pred' unat_minus_one)
  then have "part bs 0 (unat (?n - 1)) = bs" by (simp add: part_def)
  moreover have "granted (rq_range rq) ?n = Some \<lparr>first = 0, last_byte = ?n - 1\<rparr>"
    using assms(3) by (simp add: granted_def range_resolve_def)
  ultimately show ?thesis
    by (simp add: payload_answer_def Let_def partial_head_def span_len_def with_body_def)
qed

text \<open>
  C2. What a client is told is what it gets. A \<open>GET\<close> of the narinfo of a published path sends the
  stored record; and from then on, whatever happens to the server in between (uploads, publishes,
  deletes, key rotations, crashes, restarts), a \<open>GET\<close> of the URL in that record that is answered sends
  an artifact of the promised length and digest, which decompresses to a NAR of the promised digest
  and length. The record is signed by a key of the operator.
\<close>

theorem fetch_is_sound:
  assumes "sha_laws (e_ext E)" "zstd_laws (e_zstd E) Y" "inj_on (digest (e_ext E)) As"
    and "sock_laws S W" "unzstd Y [] \<in> {None, Some []}"
    and "fresh_system E V U dd s0" "sys_steps E V dd Cs As s0 s" "sys_steps E V dd Cs As s s'"
    and "infos U (e_rkyv E) (sy_db s) g = Some q"
  shows "(\<forall>ca ex x k x'. hs_world x = sy_world s \<longrightarrow> rq_method (ex_request ex) = Get \<longrightarrow>
      rq_framing (ex_request ex) \<noteq> FrameChunked \<longrightarrow>
      route_resolve (e_ext E) (rq_target (ex_request ex)) = Inr (R_Narinfo g) \<longrightarrow>
      handle S E ca ex x = (Inr k, x') \<longrightarrow>
      said W x' = said W x @ with_body (head_header (head_new S_Ok (rq_keep_alive (ex_request ex)))
        ''Content-Type'' NARINFO_CONTENT_TYPE) (Narinfo.render (e_ext E) (ig_dir (ca_ingest ca)) q)) \<and>
    (\<exists>a nar. digest (e_ext E) a = ni_file_hash q \<and> length a = unat (ni_file_size q) \<and>
      unzstd Y a = Some nar \<and> digest (e_ext E) nar = ni_nar_hash q \<and>
      (length nar < 2 ^ 64 \<longrightarrow> length nar = unat (ni_nar_size q)) \<and>
      (\<forall>ca ex x k x'. hs_world x = sy_world s' \<longrightarrow> sy_cache s' = Some ca \<longrightarrow> rq_method (ex_request ex) = Get \<longrightarrow>
         rq_framing (ex_request ex) \<noteq> FrameChunked \<longrightarrow> rq_range (ex_request ex) = None \<longrightarrow>
         rq_target (ex_request ex) = slash # nar_url (ni_nar q) \<longrightarrow>
         handle S E ca ex x = (Inr k, x') \<longrightarrow>
         said W x' = said W x @ with_body (head_header (head_header (head_new S_Ok (rq_keep_alive (ex_request ex)))
           ''Content-Type'' NAR_CONTENT_TYPE) ''Accept-Ranges'' ''bytes'') a)) \<and>
    (\<exists>k dr. (k, dr) \<in> Cs \<and> ni_sigs q = [sign (e_ext E) k (fingerprint q dr)])"
proof -
  let ?root = "dd @ [PAYLOAD]"
  have ok: "sys_ok E V Y U dd Cs As s" by (rule reachable_ok [OF assms(6,7,1-3)])
  have ok': "sys_ok E V Y U dd Cs As s'" by (rule steps_keep [OF assms(8) ok assms(1-3)])
  note W = world_okD [OF sys_okD(1) [OF ok]] and W' = world_okD [OF sys_okD(1) [OF ok']]
  from W(6) [OF assms(9)] obtain a nar where arts: "artifacts V ?root (sy_fs s) (ni_nar q) = Some a"
    and a: "digest (e_ext E) a = ni_file_hash q" "length a = unat (ni_file_size q)" "unzstd Y a = Some nar"
      "digest (e_ext E) nar = ni_nar_hash q" "length nar < 2 ^ 64 \<longrightarrow> length nar = unat (ni_nar_size q)"
    by (auto simp: record_backed_def payload_def)
  have core: "core_ok q" using W(2) infos_of_Some [of "e_rkyv E" "v_db U (sy_db s)" g q] assms(9)
    by (simp add: index_good_def infos_def)
  then have "nar \<noteq> []" using a(5) by (auto simp: core_ok_def unat_eq_zero)
  then have ne: "a \<noteq> []" using a(3) assms(5) by auto
  have len: "length a < 2 ^ 64" using a(2) unat_less64 [of "ni_file_size q"] by simp
  have url: "narurl_ok (ni_nar q)" using core by (simp add: core_ok_def ni_nar_def narurl_ok_def)
  have arts': "artifacts V ?root (sy_fs s') (ni_nar q) = Some a"
    using steps_grow [OF assms(8) ok assms(1-3)] arts by (auto simp: map_le_def dom_def)
  have get: "said W x' = said W x @ with_body (head_header (head_header (head_new S_Ok (rq_keep_alive (ex_request ex)))
       ''Content-Type'' NAR_CONTENT_TYPE) ''Accept-Ranges'' ''bytes'') a"
    if x: "hs_world x = sy_world s'" "sy_cache s' = Some ca" and rq: "rq_method (ex_request ex) = Get"
      "rq_framing (ex_request ex) \<noteq> FrameChunked" "rq_range (ex_request ex) = None"
      "rq_target (ex_request ex) = slash # nar_url (ni_nar q)" and run: "handle S E ca ex x = (Inr k, x')"
    for ca ex x k x'
  proof -
    have "route_resolve (e_ext E) (rq_target (ex_request ex)) = Inr (R_Nar (ni_nar q))"
      using route_resolve_nar [OF url, of "[]"] rq(4) by (simp add: query_def)
    from handle_routed [OF run rq(2) this] obtain x1 where x1: "hs_world x1 = hs_world x" "hs_conn x1 = hs_conn x"
      and "h_nar S E ca ex (ni_nar q) x1 = (Inr k, x')" by auto
    then have st: "h_stream S E ex (ni_nar q) x1 = (Inr k, x')" using rq(1) by (simp add: h_nar_def)
    have "w_root (sy_world s') = ?root" using sys_okD(6) [OF ok' x(2)] by blast
    then have "artifacts V (w_root (hs_world x1)) (w_fs (hs_world x1)) (ni_nar q) = Some a" using arts' x1(1) x(1) by simp
    from h_stream_sends [OF assms(4) _ url this ne len st] W'(1) x1(2) whole_answer [OF ne len rq(3)]
    show ?thesis by (simp add: fs_good_def)
  qed
  have info: "said W x' = said W x @ with_body (head_header (head_new S_Ok (rq_keep_alive (ex_request ex)))
        ''Content-Type'' NARINFO_CONTENT_TYPE) (Narinfo.render (e_ext E) (ig_dir (ca_ingest ca)) q)"
    if "hs_world x = sy_world s" "rq_method (ex_request ex) = Get" "rq_framing (ex_request ex) \<noteq> FrameChunked"
      "route_resolve (e_ext E) (rq_target (ex_request ex)) = Inr (R_Narinfo g)" "handle S E ca ex x = (Inr k, x')"
    for ca ex x k x'
    using get_narinfo_answer [OF assms(4) _ _ that(2-5), of U q] that(1) W(2) assms(9) by simp
  have signed: "\<exists>k dr. (k, dr) \<in> Cs \<and> ni_sigs q = [sign (e_ext E) k (fingerprint q dr)]"
    using W(6) [OF assms(9)] by (auto simp: operator_signed_def)
  show ?thesis using info get a signed by blast
qed

theorem fetch_is_sound_witness:
  "\<exists>a nar. digest sample a = ni_file_hash fetch_record \<and> unzstd copy_views a = Some nar \<and>
     digest sample nar = ni_nar_hash fetch_record \<and>
     ni_sigs fetch_record = [sign sample sample_key (fingerprint fetch_record (Dir ''/nix/store''))]"
proof -
  have laws: "sha_laws (e_ext fetch_env)" "zstd_laws (e_zstd fetch_env) copy_views" "inj_on (digest (e_ext fetch_env)) {''nar''}"
    by (simp_all add: sample_sha_laws copy_zstd_laws)
  have rec: "infos mem_views (e_rkyv fetch_env) (sy_db served) (sp_hash (sample_path ''hello'')) = Some fetch_record"
    using served_record by (simp add: served_def)
  have "unzstd copy_views [] \<in> {None, Some []}" by (simp add: copy_views_def)
  from fetch_is_sound [OF laws string_sock_laws this idle_fresh served_reachable rtranclp.rtrancl_refl rec]
  show ?thesis by auto
qed

end
