(* ===== verification/ShardLaws.thy ===== *)
theory ShardLaws
  imports Shard HandlerTotal
begin

text \<open>
  What the shards do to the counters: no event panics on shards that exist, and the heartbeats are
  those of the timer, however many requests run in between.
\<close>

lemma get_copied_Some: "get_copied xs i = Some x \<longleftrightarrow> i < length xs \<and> x = xs ! i"
  by (auto simp: get_copied_def)

section \<open>Starting\<close>

definition refuses :: "('n, 'l, 't) machine \<Rightarrow> socket_addr \<Rightarrow> bool" where
  "refuses M address \<longleftrightarrow> (\<forall>l n. isl (fst (ma_bind M l address n)))"

definition quiet :: "('n, 'l, 't) machine \<Rightarrow> ('n \<Rightarrow> bool) \<Rightarrow> bool" where
  "quiet M P \<longleftrightarrow> (\<forall>d. io_keeps P (ma_socket M d)) \<and> (\<forall>l b. io_keeps P (ma_reuse_address M l b)) \<and>
     (\<forall>l b. io_keeps P (ma_reuse_port M l b)) \<and> (\<forall>l b. io_keeps P (ma_nodelay M l b)) \<and>
     (\<forall>l a. io_keeps P (ma_bind M l a)) \<and> (\<forall>l b. io_keeps P (ma_listen M l b)) \<and>
     (\<forall>l n. P n \<longrightarrow> P (ma_drop M l n))"

text \<open>
  An address that cannot be bound ends the start with an error before any thread is spawned: whatever
  the socket calls keep of the machine's state still holds.
\<close>

lemma bind_refused:
  assumes "refuses M address" "shard_bind M address n = (r, n')"
  shows "isl r"
proof -
  have no: "ma_bind M l address n \<noteq> (Inr u, n')" for l n u n'
    using assms(1) by (metis refuses_def fst_conv sum.disc(2))
  show ?thesis
  proof (cases r)
    case (Inr l)
    with assms(2) no show ?thesis
      unfolding shard_bind_def by (auto elim!: io_thenE io_ctxE split: prod.splits sum.splits)
  qed simp
qed

lemma bind_quiet:
  assumes "quiet M P"
  shows "io_keeps P (shard_bind M address)"
proof -
  have k: "io_keeps P (io_then (io_ctx SH_Socket (ma_reuse_address M socket True)) (\<lambda>_.
          io_then (io_ctx SH_Socket (ma_reuse_port M socket True)) (\<lambda>_.
          io_then (io_ctx SH_Socket (ma_nodelay M socket True)) (\<lambda>_.
          io_then (io_ctx (SH_Bind address) (ma_bind M socket address)) (\<lambda>_.
          io_ctx (SH_Bind address) (ma_listen M socket BACKLOG))))))" (is "io_keeps P (?m socket)") for socket
    using assms by (intro io_keeps_then io_keeps_ctx) (simp_all add: quiet_def)
  have "io_keeps P (\<lambda>n. case ?m socket n of (Inl e, n) \<Rightarrow> (Inl e, ma_drop M socket n) | (Inr _, n) \<Rightarrow> (Inr socket, n))" for socket
    unfolding io_keeps_def
  proof (intro allI impI)
    fix n r n' assume run: "(case ?m socket n of (Inl e, n) \<Rightarrow> (Inl e, ma_drop M socket n) | (Inr _, n) \<Rightarrow> (Inr socket, n)) = (r, n')"
      and P: "P n"
    obtain q m where q: "?m socket n = (q, m)" by fastforce
    then have "P m" using io_keepsD [OF k q P] by simp
    with run q assms show "P n'" by (cases q) (auto simp: quiet_def)
  qed
  then show ?thesis unfolding shard_bind_def using assms by (intro io_keeps_then io_keeps_ctx) (simp_all add: quiet_def)
qed

lemma refused_starts_nothing:
  assumes "refuses M (cf_address config)" "quiet M P" "0 < cf_shards config" "P n"
    and "shard_run M config n = (r, n')"
  shows "isl r \<and> P n'"
proof -
  obtain q n1 where q: "shard_bind M (cf_address config) n = (q, n1)" by fastforce
  from bind_refused [OF assms(1) q] obtain e where e: "q = Inl e" by (cases q) auto
  have "P n1" by (rule io_keepsD [OF bind_quiet [OF assms(2)] q assms(4)])
  moreover have "[0..<cf_shards config] = 0 # [1..<cf_shards config]" using assms(3) by (simp add: upt_conv_Cons)
  then have "shard_run M config n = (Inl e, n1)" using q e
    by (simp add: shard_run_def start_shard_def io_then_def Let_def)
  ultimately show ?thesis using assms(5) by simp
qed

section \<open>Events\<close>

fun on_shards :: "nat \<Rightarrow> 's event \<Rightarrow> bool" where
  "on_shards n (Accepted shard _) \<longleftrightarrow> shard < n"
| "on_shards n (Accept_failed shard) \<longleftrightarrow> shard < n"
| "on_shards n (Turned _) \<longleftrightarrow> True"
| "on_shards n (Beat _ shard) \<longleftrightarrow> shard < n"

definition running_ok :: "nat \<Rightarrow> ('s, 'f, 'd) running \<Rightarrow> bool" where
  "running_ok n st \<longleftrightarrow> length (rn_stats st) = n \<and>
     (\<forall>shard conn. Some (shard, conn) \<in> set (rn_conns st) \<longrightarrow> shard < n)"

text \<open>The times at which a shard's timer beat, in order.\<close>

fun beats :: "nat \<Rightarrow> 's event list \<Rightarrow> nat list" where
  "beats i [] = []"
| "beats i (Beat t j # evs) = (if j = i then t # beats i evs else beats i evs)"
| "beats i (Accepted _ _ # evs) = beats i evs"
| "beats i (Accept_failed _ # evs) = beats i evs"
| "beats i (Turned _ # evs) = beats i evs"

lemma beats_short: "length (beats i evs) \<le> length evs"
  by (induction i evs rule: beats.induct) auto

definition beaten :: "nat list \<Rightarrow> u64 \<times> u64 \<Rightarrow> u64 \<times> u64" where
  "beaten ts h = (if ts = [] then fst h else u64_from_usize (last ts), snd h + of_nat (length ts))"

lemma beaten_append: "beaten (ts @ us) h = beaten us (beaten ts h)"
  by (simp add: beaten_def)

lemma event_turn:
  assumes "get_copied (rn_conns st) c = Some (Some (shard, conn))" "running_ok n st"
  obtains r x where
    "session_turn S E ca shard \<lparr>hs_conn = conn, hs_stats = rn_stats st, hs_world = rn_world st\<rparr> = (r, x)"
    "shard_event S E ca (Turned c) st = Some \<lparr>rn_stats = hs_stats x, rn_world = hs_world x,
       rn_conns = (rn_conns st)[c := (if r = Inr False then Some (shard, hs_conn x) else None)]\<rparr>"
    "hearts (hs_stats x) = hearts (rn_stats st)" "shard < n"
proof -
  let ?x = "\<lparr>hs_conn = conn, hs_stats = rn_stats st, hs_world = rn_world st\<rparr>"
  obtain r x where run: "session_turn S E ca shard ?x = (r, x)" by fastforce
  have "Some (shard, conn) \<in> set (rn_conns st)" using assms(1) by (auto simp: get_copied_Some)
  then have sh: "shard < n" "length (rn_stats st) = n" using assms(2) by (auto simp: running_ok_def)
  with saneD [OF sane_session_turn run]
  have "r \<noteq> Inl HE_Panic" "r \<noteq> Inl HE_Hang" "hearts (hs_stats x) = hearts (rn_stats st)" by simp_all
  with that [OF run _ _ sh(1)] assms(1) run show ?thesis by simp
qed

lemma event_runs:
  assumes "running_ok n st" "on_shards n ev"
  shows "\<exists>st'. shard_event S E ca ev st = Some st' \<and> running_ok n st' \<and>
    (\<forall>i < n. hearts (rn_stats st') ! i = beaten (beats i [ev]) (hearts (rn_stats st) ! i))"
proof (cases ev)
  case (Accepted shard stream)
  then show ?thesis using assms by (auto simp: running_ok_def beaten_def)
next
  case (Accept_failed shard)
  then show ?thesis using assms by (auto simp: running_ok_def beaten_def)
next
  case (Beat t j)
  then show ?thesis using assms
    by (auto simp: running_ok_def beaten_def beat_def shards_get_def hearts_def nth_list_update)
next
  case (Turned c)
  show ?thesis
  proof (cases "Option.bind (get_copied (rn_conns st) c) id")
    case None
    then show ?thesis using Turned assms by (auto simp: beaten_def)
  next
    case (Some p)
    obtain shard conn where "p = (shard, conn)" by fastforce
    with Some have c: "get_copied (rn_conns st) c = Some (Some (shard, conn))"
      by (auto simp: Option.bind_eq_Some_conv)
    obtain r x where
      "session_turn S E ca shard \<lparr>hs_conn = conn, hs_stats = rn_stats st, hs_world = rn_world st\<rparr> = (r, x)"
      and e: "shard_event S E ca (Turned c) st = Some \<lparr>rn_stats = hs_stats x, rn_world = hs_world x,
         rn_conns = (rn_conns st)[c := (if r = Inr False then Some (shard, hs_conn x) else None)]\<rparr>" (is "_ = Some ?st")
      and h: "hearts (hs_stats x) = hearts (rn_stats st)" "shard < n"
      by (rule event_turn [OF c assms(1)])
    have "running_ok n ?st" unfolding running_ok_def
    proof (intro conjI allI impI)
      show "length (rn_stats ?st) = n" using hearts_length [OF h(1)] assms(1) by (simp add: running_ok_def)
      fix s k assume "Some (s, k) \<in> set (rn_conns ?st)"
      then have "Some (s, k) \<in> insert (Some (shard, hs_conn x)) (set (rn_conns st))"
        by (auto split: if_splits dest: set_update_subset_insert [THEN subsetD])
      then show "s < n" using assms(1) h(2) by (auto simp: running_ok_def)
    qed
    then show ?thesis using e h(1) Turned by (simp add: beaten_def del: shard_event.simps)
  qed
qed

lemma events_run:
  assumes "running_ok n st" "list_all (on_shards n) evs"
  shows "\<exists>st'. shard_events S E ca evs st = Some st' \<and> running_ok n st' \<and>
    (\<forall>i < n. hearts (rn_stats st') ! i = beaten (beats i evs) (hearts (rn_stats st) ! i))"
  using assms
proof (induction evs arbitrary: st)
  case Nil
  then show ?case by (simp add: beaten_def)
next
  case (Cons ev evs)
  then obtain st1 where 1: "shard_event S E ca ev st = Some st1" "running_ok n st1"
    "\<forall>i < n. hearts (rn_stats st1) ! i = beaten (beats i [ev]) (hearts (rn_stats st) ! i)"
    using event_runs [of n st ev S E ca] by auto
  from Cons.IH [OF 1(2)] Cons.prems(2) obtain st2 where 2: "shard_events S E ca evs st1 = Some st2" "running_ok n st2"
    "\<forall>i < n. hearts (rn_stats st2) ! i = beaten (beats i evs) (hearts (rn_stats st1) ! i)" by auto
  have "beats i (ev # evs) = beats i [ev] @ beats i evs" for i by (cases ev) simp_all
  then have "\<forall>i < n. hearts (rn_stats st2) ! i = beaten (beats i (ev # evs)) (hearts (rn_stats st) ! i)"
    using 1(3) 2(3) by (simp add: beaten_append)
  then show ?case using 1(1) 2(1,2) by simp
qed

section \<open>What the watchdog sees\<close>

lemma beaten_default:
  assumes "length ts < 2 ^ 64" "\<forall>t \<in> set ts. t < 2 ^ 64"
  shows "snd (beaten ts (0, 0)) \<noteq> 0 \<longleftrightarrow> ts \<noteq> []"
    "ts \<noteq> [] \<Longrightarrow> unat (fst (beaten ts (0, 0))) = last ts"
proof -
  have "unat (of_nat (length ts) :: u64) = length ts" using assms(1) by (simp add: unat_of_nat64)
  then show "snd (beaten ts (0, 0)) \<noteq> 0 \<longleftrightarrow> ts \<noteq> []" by (auto simp: beaten_def)
  show "unat (fst (beaten ts (0, 0))) = last ts" if "ts \<noteq> []"
    using that assms(2) by (simp add: beaten_def unat_u64_from_usize)
qed

lemma stalled_beats:
  assumes "shard_events S E ca evs st = Some st'" "rn_stats st = shards_new n" "rn_conns st = []"
    and "list_all (on_shards n) evs" "length evs < 2 ^ 64"
    and "\<forall>i. \<forall>t \<in> set (beats i evs). t < 2 ^ 64" "now < 2 ^ 64" "stale < 2 ^ 64"
  shows "stalled now stale (rn_stats st') =
    filter (\<lambda>i. beats i evs \<noteq> [] \<and> last (beats i evs) + stale < now) [0..<n]"
proof (rule sorted_distinct_set_unique)
  show "sorted (stalled now stale (rn_stats st'))" "distinct (stalled now stale (rn_stats st'))"
    by (rule stalled_sorted)+
  show "sorted (filter (\<lambda>i. beats i evs \<noteq> [] \<and> last (beats i evs) + stale < now) [0..<n])"
    by (simp add: sorted_wrt_filter)
  show "distinct (filter (\<lambda>i. beats i evs \<noteq> [] \<and> last (beats i evs) + stale < now) [0..<n])" by simp
  have "running_ok n st" using assms(2,3) by (simp add: running_ok_def shards_new_def)
  from events_run [OF this assms(4), of S E ca] assms(1) have ok: "running_ok n st'"
    and h: "\<And>i. i < n \<Longrightarrow> hearts (rn_stats st') ! i = beaten (beats i evs) (hearts (rn_stats st) ! i)" by auto
  have len: "length (rn_stats st') = n" using ok by (simp add: running_ok_def)
  have z: "hearts (rn_stats st) ! i = (0, 0)" if "i < n" for i
    using that assms(2) by (simp add: hearts_def shards_new_def shard_default_def)
  show "set (stalled now stale (rn_stats st')) =
      set (filter (\<lambda>i. beats i evs \<noteq> [] \<and> last (beats i evs) + stale < now) [0..<n])"
  proof (rule set_eqI)
    fix i
    show "i \<in> set (stalled now stale (rn_stats st')) \<longleftrightarrow>
        i \<in> set (filter (\<lambda>i. beats i evs \<noteq> [] \<and> last (beats i evs) + stale < now) [0..<n])"
    proof (cases "i < n")
      case True
      have "length (beats i evs) < 2 ^ 64" using beats_short [of i evs] assms(5) by linarith
      note b = beaten_default [OF this, of] 
      have "(sh_heartbeat (rn_stats st' ! i), sh_heartbeats (rn_stats st' ! i)) = beaten (beats i evs) (0, 0)"
        using h [OF True] z [OF True] hearts_nth [of i "rn_stats st'"] len True by simp
      then have e: "sh_heartbeat (rn_stats st' ! i) = fst (beaten (beats i evs) (0, 0))"
        "sh_heartbeats (rn_stats st' ! i) = snd (beaten (beats i evs) (0, 0))" by (metis fst_conv snd_conv)+
      show ?thesis unfolding stalled_iff [OF assms(7,8)] e using b assms(6) len True by auto
    next
      case False
      then show ?thesis using stalled_iff [OF assms(7,8)] len by auto
    qed
  qed
qed

end
