(* ===== verification/ShardSpec.thy ===== *)
theory ShardSpec
  imports SampleSystem ShardLaws
begin

text \<open>
  The properties of the running shards and of the watchdog, from the arguments of \<open>serve\<close> on, with
  their witnesses on the server that the sample command starts.
\<close>

definition fresh_shards :: "prepared \<Rightarrow> ('f, 'd) world \<Rightarrow> ('s, 'f, 'd) running" where
  "fresh_shards p w = \<lparr>rn_stats = pr_stats p, rn_world = w, rn_conns = []\<rparr>"

lemma serve_stats:
  assumes "boot_run H E (Cmd_Serve args) w = (Inr (Inl p), w')"
  shows "pr_stats p = shards_new (cf_shards (pr_config p))" "cf_address (pr_config p) = sv_listen args"
    "pr_stale_seconds p = sv_stall_seconds args"
  using assms by (auto simp: boot_run_def boot_serve_def elim!: io_then_InrE)

lemma fresh_shards_ok: "boot_run H E (Cmd_Serve args) w = (Inr (Inl p), w') \<Longrightarrow>
    running_ok (cf_shards (pr_config p)) (fresh_shards p wo)"
  by (simp add: running_ok_def fresh_shards_def serve_stats shards_new_def)

text \<open>
  C22. A server that the serve command started neither panics nor hangs, whatever its sockets, files
  and database answer: over any sequence of accepted and failed connections, turns of any session and
  heartbeats of any shard, every step returns, each session stays on a shard that exists and the
  counters keep one slot per shard.
\<close>

theorem serving_never_stops:
  assumes "boot_run H E (Cmd_Serve args) w = (Inr (Inl p), w')"
    and "list_all (on_shards (cf_shards (pr_config p))) evs"
  shows "\<exists>st. shard_events S E (pr_cache p) evs (fresh_shards p wo) = Some st \<and>
    shards_len (rn_stats st) = cf_shards (pr_config p) \<and>
    (\<forall>shard conn. Some (shard, conn) \<in> set (rn_conns st) \<longrightarrow> shard < cf_shards (pr_config p))"
  using events_run [OF fresh_shards_ok [OF assms(1)] assms(2), of S E "pr_cache p" wo]
  by (auto simp: running_ok_def shards_len_def)

definition up_prepared :: prepared where
  "up_prepared = \<lparr>pr_cache = up_cache, pr_config = up_config, pr_stats = shards_new 1,
     pr_store = \<lparr>st_root = [''d'', PAYLOAD], st_sequence = 0, st_pid = 1\<rparr>, pr_stale_seconds = 5\<rparr>"

theorem serving_never_stops_witness:
  "\<exists>st. shard_events string_sock fetch_env up_cache
      [Accepted 0 (''GET /metrics HTTP/1.1'' @ crlf @ crlf, []), Turned 0, Beat 1000 0, Turned 0]
      (fresh_shards up_prepared (sy_world up)) = Some st"
  using serving_never_stops [OF sample_boot [folded up_prepared_def],
      of "[Accepted 0 (''GET /metrics HTTP/1.1'' @ crlf @ crlf, []), Turned 0, Beat 1000 0, Turned 0]" string_sock "sy_world up"]
  by (auto simp: up_prepared_def)

text \<open>
  C23. The watchdog reports exactly the shards that are wedged: at any moment it names the shards whose
  timer has beaten at least once and last did so more than the configured seconds ago, in order, and
  says nothing when there are none. So a shard that stops is reported at every look from then on,
  and neither requests nor connections, however many, delay or cause a report.
\<close>

theorem watchdog_sees_stalls:
  assumes "boot_run H E (Cmd_Serve args) w = (Inr (Inl p), w')"
    and "list_all (on_shards (cf_shards (pr_config p))) evs"
    and "shard_events S E (pr_cache p) evs (fresh_shards p wo) = Some st"
    and "length evs < 2 ^ 64" "\<forall>i. \<forall>t \<in> set (beats i evs). t < 2 ^ 64"
    and "now < 2 ^ 64" "unat (sv_stall_seconds args) * 1000 < 2 ^ 64"
  shows "watch_turn now (pr_stale_seconds p) (rn_stats st) =
    (let wedged = filter (\<lambda>i. beats i evs \<noteq> [] \<and> last (beats i evs) + unat (sv_stall_seconds args) * 1000 < now)
           [0..<cf_shards (pr_config p)]
     in if wedged = [] then None else Some (wedged, sv_stall_seconds args))"
proof -
  have "rn_stats (fresh_shards p wo) = shards_new (cf_shards (pr_config p))" "rn_conns (fresh_shards p wo) = []"
    by (simp_all add: fresh_shards_def serve_stats [OF assms(1)])
  from stalled_beats [OF assms(3) this assms(2,4-7)] show ?thesis
    by (simp add: watch_turn_def serve_stats [OF assms(1)])
qed

theorem watchdog_sees_stalls_witness:
  "\<exists>st. shard_events string_sock fetch_env up_cache [Beat 1000 0, Accept_failed 0] (fresh_shards up_prepared (sy_world up)) = Some st \<and>
     watch_turn 6000 5 (rn_stats st) = None \<and> watch_turn 6001 5 (rn_stats st) = Some ([0], 5)"
proof -
  let ?evs = "[Beat 1000 0, Accept_failed 0] :: (string \<times> string) event list"
  have on: "list_all (on_shards (cf_shards (pr_config up_prepared))) ?evs" by (simp add: up_prepared_def)
  obtain st where run: "shard_events string_sock fetch_env (pr_cache up_prepared) ?evs (fresh_shards up_prepared (sy_world up)) = Some st"
    using events_run [OF fresh_shards_ok [OF sample_boot [folded up_prepared_def]] on] by blast
  have stall: "sv_stall_seconds (sample_args [''secret'']) = 5" by (simp add: sample_args_def)
  have b: "\<forall>i. \<forall>t \<in> set (beats i ?evs). t < 2 ^ 64" by auto
  note seen = watchdog_sees_stalls [OF sample_boot [folded up_prepared_def] on run _ b, unfolded stall]
  have "watch_turn 6000 5 (rn_stats st) = None" "watch_turn 6001 5 (rn_stats st) = Some ([0], 5)"
    using seen [of 6000] seen [of 6001] by (simp_all add: up_prepared_def)
  then show ?thesis using run by (auto simp: up_prepared_def)
qed

end
