(* ===== verification/PushLive.thy ===== *)
theory PushLive
  imports PushLaws HandlerTotal
begin

text \<open>
  A push succeeds on a machine that works: when no call of the file system, the database, the encoder
  or the socket fails, the two halves of a push are answered, not merely answered correctly when they
  happen to be.
\<close>

section \<open>Working parameters\<close>

definition fs_works :: "('f, 'h) fsys \<Rightarrow> ('f, 'h) fs_views \<Rightarrow> path \<Rightarrow> bool" where
  "fs_works F V root \<longleftrightarrow>
     (\<forall>p f. staging_path root p \<longrightarrow> (\<exists>h f'. fs_create F p f = (Inr h, f'))) \<and>
     (\<forall>h bs at f. unat at + length bs < 2 ^ 64 \<longrightarrow> (\<exists>f'. fs_write_all_at F h bs at f = (Inr (), f'))) \<and>
     (\<forall>h f. \<exists>f'. fs_sync_all F h f = (Inr (), f')) \<and>
     (\<forall>u f. \<exists>f'. fs_create_dir_all F (butlast (store_path root u)) f = (Inr (), f')) \<and>
     (\<forall>p u f. staging_path root p \<longrightarrow> fv_names V f p \<noteq> None \<longrightarrow>
        (\<exists>f'. fs_rename F p (store_path root u) f = (Inr (), f')))"

definition redb_works :: "('d, 'r, 't) redb \<Rightarrow> bool" where
  "redb_works D \<longleftrightarrow>
     (\<forall>d. \<exists>r. rd_begin_read D d = Inr r) \<and> (\<forall>t r. rd_open_read D t r = Inr ()) \<and>
     (\<forall>t k r. \<exists>v. rd_get D t k r = Inr v) \<and>
     (\<forall>d. \<exists>t d'. rd_begin_write D d = (Inr t, d')) \<and> (\<forall>tb t. \<exists>t'. rd_open_write D tb t = (Inr (), t')) \<and>
     (\<forall>tb k v t. \<exists>t'. rd_insert D tb k v t = (Inr (), t')) \<and> (\<forall>t d. \<exists>d'. rd_commit D t d = (Inr (), d'))"

text \<open>An input of fewer than \<open>2 ^ 63\<close> bytes compresses to fewer than \<open>2 ^ 64\<close>.\<close>

definition zstd_works :: "'z zstd \<Rightarrow> 'z zstd_views \<Rightarrow> bool" where
  "zstd_works Z Y \<longleftrightarrow>
     (\<forall>l. - 7 \<le> l \<longrightarrow> l \<le> 22 \<longrightarrow> \<not> isl (zs_new Z l)) \<and>
     (\<forall>bs z. \<exists>z'. zs_write_all Z bs z = (Inr (), z')) \<and>
     (\<forall>z. length (zv_in Y z) < 2 ^ 63 \<longrightarrow> length (zv_gone Y z) + length (zs_out Z z) < 2 ^ 64 \<and>
        (\<exists>tail. zs_finish Z z = Inr tail \<and> length (zv_gone Y z) + length tail < 2 ^ 64))"

definition sock_works :: "'s sock \<Rightarrow> 's sock_views \<Rightarrow> bool" where
  "sock_works S W \<longleftrightarrow>
     (\<forall>n s. sv_in W s \<noteq> [] \<longrightarrow> \<not> isl (fst (so_read S n s))) \<and>
     (\<forall>bs s. \<exists>s'. so_write_all S bs s = (Inr (), s'))"

section \<open>The upload\<close>

lemma stage_works: "fs_works F V (st_root s) \<Longrightarrow> \<exists>sg s' f'. stage F (s, f) = (Inr sg, (s', f'))"
proof -
  assume w: "fs_works F V (st_root s)"
  have "staging_path (st_root s) (st_root s @ [STAGING, staging_name s])" by (simp add: staging_path_def)
  then obtain h f' where "fs_create F (st_root s @ [STAGING, staging_name s]) f = (Inr h, f')"
    using conjunct1 [OF w [unfolded fs_works_def]] by blast
  then show ?thesis by (simp add: stage_def Let_def io_ctx_def)
qed

lemma staged_write_works:
  assumes "fs_works F V root" "holds V root f s bs" "length bs + length bytes < 2 ^ 64"
  shows "\<exists>s' f'. staged_write F bytes s f = (Inr s', f')"
proof -
  have "unat (sg_offset s) + length bytes < 2 ^ 64" using assms(2,3) by (simp add: holds_def)
  then obtain f' where "fs_write_all_at F (sg_file s) bytes (sg_offset s) f = (Inr (), f')"
    using assms(1) unfolding fs_works_def by blast
  then show ?thesis by (simp add: staged_write_def io_run)
qed

lemma upload_drain_works:
  assumes "fs_works F V root" "zstd_works Z Y" "receives X Y V root f u bs" "length bs < 2 ^ 63"
  shows "\<exists>u' f'. upload_drain X Z F (u, f) = (Inr (), (u', f'))"
proof -
  let ?z = "rc_encoder (up_state u)"
  have h: "holds V root f (up_staged u) (zv_gone Y ?z)" "zv_in Y ?z = bs"
    using assms(3) by (simp_all add: receives_def Let_def)
  have "length (zv_gone Y ?z) + length (zs_out Z ?z) < 2 ^ 64"
    using assms(2,4) h(2) unfolding zstd_works_def by blast
  from staged_write_works [OF assms(1) h(1) this] show ?thesis by (auto simp: upload_drain_def Let_def)
qed

lemma upload_write_works:
  assumes "fs_works F V root" "zstd_works Z Y" "zstd_laws Z Y" "sha_laws X" "receives X Y V root f u bs"
    and "length (bs @ chunk) < 2 ^ 63"
  shows "\<exists>u' f'. upload_write X Z F chunk (u, f) = (Inr (), (u', f'))"
proof -
  let ?st = "(up_state u)\<lparr>rc_nar := hasher_update X (rc_nar (up_state u)) chunk,
    rc_nar_size := rc_nar_size (up_state u) + u64_from_usize (length chunk)\<rparr>"
  obtain enc where x: "zs_write_all Z chunk (rc_encoder (up_state u)) = (Inr (), enc)"
    using assms(2) unfolding zstd_works_def by blast
  let ?u = "u\<lparr>up_state := ?st\<lparr>rc_encoder := enc\<rparr>\<rparr>"
  have z: "zv_in Y enc = zv_in Y (rc_encoder (up_state u)) @ chunk" "zv_gone Y enc = zv_gone Y (rc_encoder (up_state u))"
    using assms(3) x by (auto simp: zstd_laws_def)
  have h: "holds V root f (up_staged ?u) (zv_gone Y enc)" "zv_in Y enc = bs @ chunk"
    using assms(5) z by (simp_all add: receives_def Let_def)
  have "length (zv_gone Y enc) + length (zs_out Z enc) < 2 ^ 64"
    using assms(2,6) h(2) unfolding zstd_works_def by metis
  from staged_write_works [OF assms(1) h(1) this] show ?thesis using x
    by (auto simp: upload_write_def upload_drain_def Let_def)
qed

lemma upload_finish_works:
  assumes "fs_works F V root" "zstd_works Z Y" "zstd_laws Z Y" "sha_laws X" "fs_good F V f"
    and "receives X Y V root f u bs" "length bs < 2 ^ 63"
  shows "\<exists>c f'. upload_finish X Z F u f = (Inr c, f')"
proof -
  obtain u1 f1 where d: "upload_drain X Z F (u, f) = (Inr (), (u1, f1))"
    using upload_drain_works [OF assms(1,2,6,7)] by blast
  note rc = upload_drain_receives [OF assms(4,3,5,6) d]
  let ?z = "rc_encoder (up_state u1)"
  have h: "holds V root f1 (up_staged u1) (zv_gone Y ?z)" "zv_in Y ?z = bs"
    using rc by (simp_all add: receives_def Let_def)
  then obtain tail where t: "zs_finish Z ?z = Inr tail" "length (zv_gone Y ?z) + length tail < 2 ^ 64"
    using assms(2,7) unfolding zstd_works_def by blast
  from staged_write_works [OF assms(1) h(1) t(2)] t(1) d show ?thesis
    by (auto simp: upload_finish_def Let_def)
qed

lemma staged_commit_works:
  assumes "fs_works F V root" "fs_good F V f" "in_flight V root f s"
  shows "\<exists>n f'. staged_commit F root s url f = (Inr n, f')"
proof -
  let ?target = "store_path root url"
  obtain f1 where f1: "fs_sync_all F (sg_file s) f = (Inr (), f1)" using assms(1) unfolding fs_works_def by blast
  obtain f2 where f2: "fs_create_dir_all F (butlast ?target) f1 = (Inr (), f2)"
    using assms(1) unfolding fs_works_def by blast
  have laws: "fs_laws F V" using assms(2) by (simp add: fs_good_def)
  have "fv_names V f2 = fv_names V f"
    using query_view(5) [OF laws f1] query_view(1) [OF laws f2] by (simp add: same_view_def)
  then obtain f3 where f3: "fs_rename F (sg_path s) ?target f2 = (Inr (), f3)"
    using assms(1,3) unfolding fs_works_def in_flight_def by (metis option.distinct(1))
  have "?target \<noteq> []" by (simp add: store_path_def Let_def)
  then show ?thesis using f1 f2 f3 by (simp add: staged_commit_def Let_def io_run)
qed

section \<open>The index\<close>

lemma index_put_nar_works:
  assumes "redb_works D" "\<not> isl (rk_entry_bytes K e)"
  shows "\<exists>d'. index_put_nar D K h e d = (Inr (), d')"
proof -
  obtain b where b: "rk_entry_bytes K e = Inr b" using assms(2) by (cases "rk_entry_bytes K e") auto
  obtain t d1 where t: "rd_begin_write D d = (Inr t, d1)" using assms(1) unfolding redb_works_def by blast
  obtain t1 where t1: "rd_open_write D NAR t = (Inr (), t1)" using assms(1) unfolding redb_works_def by blast
  obtain t2 where t2: "rd_insert D NAR (sha_bytes h) b t1 = (Inr (), t2)" using assms(1) unfolding redb_works_def by blast
  obtain d2 where "rd_commit D t2 d1 = (Inr (), d2)" using assms(1) unfolding redb_works_def by blast
  with b t t1 t2 show ?thesis by (simp add: index_put_nar_def with_write_def open_write_def io_run)
qed

lemma index_publish_works:
  assumes "redb_works D" "\<not> isl (rk_narinfo_bytes K q)"
  shows "\<exists>d'. index_publish D K q d = (Inr (), d')"
proof -
  obtain b where b: "rk_narinfo_bytes K q = Inr b" using assms(2) by (cases "rk_narinfo_bytes K q") auto
  obtain t d1 where t: "rd_begin_write D d = (Inr t, d1)" using assms(1) unfolding redb_works_def by blast
  obtain t1 where t1: "rd_open_write D NARINFO t = (Inr (), t1)" using assms(1) unfolding redb_works_def by blast
  obtain t2 where t2: "rd_insert D NARINFO (record_key q) b t1 = (Inr (), t2)"
    using assms(1) unfolding redb_works_def by blast
  obtain d2 where "rd_commit D t2 d1 = (Inr (), d2)" using assms(1) unfolding redb_works_def by blast
  with b t t1 t2 show ?thesis by (simp add: index_publish_def with_write_def open_write_def io_run)
qed

lemma index_nar_works:
  assumes "redb_works D" "index_good D U K d"
  shows "index_nar D K h d = Inr (nars U K d h)"
proof -
  obtain r where r: "rd_begin_read D d = Inr r" using assms(1) unfolding redb_works_def by blast
  obtain v where v: "rd_get D NAR (sha_bytes h) r = Inr v" using assms(1) unfolding redb_works_def by blast
  have o: "rd_open_read D NAR r = Inr ()" using assms(1) unfolding redb_works_def by blast
  have "v_db U d NAR (sha_bytes h) = v"
    using assms(2) r v unfolding index_good_def redb_laws_def read_laws_def by metis
  moreover from this have "\<exists>e. decode_nar K b = Inr e" if "v = Some b" for b
    using assms(2) that unfolding index_good_def rows_ok_def by metis
  ultimately show ?thesis using r v o
    by (cases v) (auto simp: index_nar_def read_table_def nars_def nars_of_def)
qed

lemma upload_store_works:
  assumes "fs_works F V root" "redb_works D" "fs_good F V f" "in_flight V root f (up_staged u)"
    and "\<not> isl (rk_entry_bytes K (verified_entry (up_state u)))"
  shows "\<exists>w. upload_store F D K root u (f, d) = (Inr (verified_entry (up_state u)), w)"
  using staged_commit_works [OF assms(1,3,4), of "verified_url (up_state u)"]
    index_put_nar_works [OF assms(2,5), of "vf_nar_hash (up_state u)" d]
  by (auto simp: upload_store_def Let_def)

section \<open>The connection\<close>

lemma write_works: "sock_works S W \<Longrightarrow> \<exists>c'. conn_write S bs c = (Inr (), c')"
proof -
  assume "sock_works S W"
  then obtain s' where "so_write_all S bs (cn_stream c) = (Inr (), s')" unfolding sock_works_def by blast
  then show ?thesis by (simp add: conn_write_def)
qed

lemma fill_works:
  assumes "sock_works S W" "sock_laws S W" "sv_in W (cn_stream c) \<noteq> []"
  shows "\<exists>n c'. fill S c = (Inr n, c') \<and> n \<noteq> 0"
proof -
  have "\<not> isl (fst (so_read S READ_CHUNK (cn_stream c)))" using assms(1,3) unfolding sock_works_def by blast
  then obtain bs s' where r: "so_read S READ_CHUNK (cn_stream c) = (Inr bs, s')"
    by (metis prod.collapse sum.collapse(2))
  have "READ_CHUNK \<noteq> 0" by (simp add: READ_CHUNK_def)
  with r have "bs \<noteq> []" using assms(2,3) unfolding sock_laws_def by metis
  then show ?thesis using r by (simp add: fill_def)
qed

lemma conn_chunk_works:
  assumes "sock_works S W" "sock_laws S W" "remaining \<noteq> 0" "pending W c \<noteq> []"
  shows "\<exists>bs m c'. conn_chunk S remaining c = (Inr (bs, m), c')"
proof (cases "cn_buffer c = []")
  case True
  then have "sv_in W (cn_stream c) \<noteq> []" using assms(4) by (simp add: pending_def)
  from fill_works [OF assms(1,2) this] obtain n c1 where "fill S c = (Inr n, c1)" "n \<noteq> 0" by blast
  with True assms(3) show ?thesis by (cases "take_chunk remaining c1") (auto simp: conn_chunk_def)
next
  case False
  with assms(3) show ?thesis by (cases "take_chunk remaining c") (auto simp: conn_chunk_def)
qed

lemma conn_body_works:
  assumes "sock_works S W" "sock_laws S W" "unat n \<le> length (pending W c)"
  shows "\<exists>bs c'. conn_body S n c = (Inr bs, c')"
  using assms
proof (induction S n c rule: conn_body.induct)
  case (1 S n c)
  show ?case
  proof (cases "length (cn_buffer c) < unat n")
    case True
    then have "sv_in W (cn_stream c) \<noteq> []" using "1.prems"(3) by (auto simp: pending_def)
    from fill_works [OF "1.prems"(1,2) this] obtain m c1 where f: "fill S c = (Inr m, c1)" "m \<noteq> 0" by blast
    have "pending W c1 = pending W c"
      using f(1) "1.prems"(2) by (auto simp: fill_def pending_def sock_laws_def split: prod.splits sum.splits)
    with "1.IH" [OF True f(1) [symmetric] refl f(2) "1.prems"(1,2)] "1.prems"(3)
    show ?thesis using True f by (subst conn_body.simps) simp
  next
    case False
    then show ?thesis by (subst conn_body.simps) simp
  qed
qed

section \<open>The handlers\<close>

lemma said_works: "sock_works S W \<Longrightarrow> \<exists>x'. on_conn (conn_write S bs) x = (Inr (), x')"
  using write_works [of S W bs "hs_conn x"] by (auto simp: on_conn_def)

lemma answer_works: "sock_works S W \<Longrightarrow> \<exists>x'. answer S rq st dr x = (Inr (kept rq dr), x')"
  using said_works [of S W "bare st (kept rq dr) 0" x] by (auto simp: answer_def io_run)

lemma proceed_works: "sock_works S W \<Longrightarrow> \<exists>x'. proceed S rq x = (Inr (), x')"
  using said_works by (auto simp: proceed_def)

lemma bump_works: "i < length (hs_stats x) \<Longrightarrow> \<exists>ss. h_bump i c n x = (Inr (), x\<lparr>hs_stats := ss\<rparr>)"
  by (auto simp: h_bump_def shards_bump_def shards_get_def)

lemma ingest_receive_works:
  assumes "fs_works (e_fs E) V (w_root w)" "zstd_works (e_zstd E) Y"
    and "compression url = NoCompression" "- 7 \<le> level_get (ig_level ig)" "level_get (ig_level ig) \<le> 22"
  shows "\<exists>u w'. ingest_receive E ig url w = (Inr u, w')"
proof -
  obtain sg st f where sg: "stage (e_fs E) (w_store w, w_fs w) = (Inr sg, (st, f))"
    using stage_works [OF assms(1)] by blast
  obtain z where "zs_new (e_zstd E) (level_get (ig_level ig)) = Inr z"
    using assms(2,4,5) unfolding zstd_works_def by (metis sum.collapse(2))
  with sg assms(3) show ?thesis
    by (simp add: ingest_receive_def ensure_def on_store_def on_fs_def upload_new_def io_run)
qed

lemma receive_loop_works:
  assumes "sock_works S W" "sock_laws S W" "fs_works (e_fs E) V (w_root (hs_world x))"
    and "zstd_works (e_zstd E) Y" "zstd_laws (e_zstd E) Y" "sha_laws (e_ext E)" "files_good E V x"
    and "receives (e_ext E) Y V (w_root (hs_world x)) (w_fs (hs_world x)) u b0"
    and "unat remaining \<le> length (to_come W x)" "length b0 + unat remaining < 2 ^ 63"
  shows "\<exists>v x'. receive_loop S E u remaining x = (Inr v, x')"
  using assms
proof (induction S E u remaining x arbitrary: b0 rule: receive_loop.induct)
  case (1 S E u remaining x)
  note sock = "1.prems"(2) and good = "1.prems"(7) and rc = "1.prems"(8)
  show ?case
  proof (cases "remaining = 0")
    case True
    then show ?thesis by (simp add: receive_loop.simps [of S E u 0 x])
  next
    case rem: False
    then have "to_come W x \<noteq> []" using "1.prems"(9) by (auto simp: unat_eq_zero)
    from conn_chunk_works [OF "1.prems"(1) sock rem this] obtain bs m c
      where c: "conn_chunk S remaining (hs_conn x) = (Inr (bs, m), c)" by blast
    have b: "bs \<noteq> []" "unat m + length bs = unat remaining" "to_come W x = bs @ pending W c"
      using conn_chunk_effect [OF sock c] rem by auto
    have "length (b0 @ bs) < 2 ^ 63" using b(2) "1.prems"(10) by simp
    from upload_write_works [OF "1.prems"(3,4,5,6) rc this] obtain v g
      where w: "upload_write (e_ext E) (e_zstd E) (e_fs E) bs (u, w_fs (hs_world x)) = (Inr (), (v, g))" by blast
    let ?x = "put_fs g (x\<lparr>hs_conn := c\<rparr>)"
    have x: "hs_conn ?x = c" "w_fs (hs_world ?x) = g" "w_store (hs_world ?x) = w_store (hs_world x)"
      by (simp_all add: put_fs_def)
    note keep = upload_write_keeps [OF good receives_live [OF rc] w]
    note rc' = upload_write_receives [OF "1.prems"(6,5) good rc w]
    have "\<exists>v' x'. receive_loop S E v m ?x = (Inr v', x')"
    proof (rule "1.IH" [OF rem c [symmetric] refl refl b(1) w [symmetric] refl refl])
      show "fs_works (e_fs E) V (w_root (hs_world ?x))" using "1.prems"(3) x(3) by simp
      show "files_good E V ?x" using keep x by simp
      show "receives (e_ext E) Y V (w_root (hs_world ?x)) (w_fs (hs_world ?x)) v (b0 @ bs)" using rc' x by simp
      show "unat m \<le> length (to_come W ?x)" using b "1.prems"(9) x by simp
      show "length (b0 @ bs) + unat m < 2 ^ 63" using b(2) "1.prems"(10) by simp
    qed (use "1.prems" in auto)
    then show ?thesis using rem c b(1) w by (simp add: receive_loop.simps [of S E u remaining x])
  qed
qed

lemma settle_upload_works:
  assumes "sock_works S W" "fs_works (e_fs E) V (w_root (hs_world x))" "redb_works (e_redb E)"
    and "zstd_works (e_zstd E) Y" "zstd_laws (e_zstd E) Y" "sha_laws (e_ext E)" "files_good E V x"
    and "receives (e_ext E) Y V (w_root (hs_world x)) (w_fs (hs_world x)) u bs" "length bs < 2 ^ 63" "bs \<noteq> []"
    and "digest (e_ext E) bs = up_expected u" "ex_shard ex < length (hs_stats x)"
    and "\<And>a. unzstd Y a = Some bs \<Longrightarrow> \<not> isl (rk_entry_bytes (e_rkyv E) (stored_entry (e_ext E) a bs))"
  shows "\<exists>x'. settle_upload S E ex u x = (Inr (rq_keep_alive (ex_request ex)), x')"
proof -
  let ?rq = "ex_request ex" and ?root = "w_root (hs_world x)"
  obtain c f1 where fin: "upload_finish (e_ext E) (e_zstd E) (e_fs E) u (w_fs (hs_world x)) = (Inr c, f1)"
    using upload_finish_works [OF assms(2,4,5,6,7,8,9)] by blast
  obtain a where a: "finished (e_ext E) Y V ?root f1 c bs a"
    using upload_finish_finished [OF assms(6,5,7,8) fin] by blast
  have fk: "fs_good (e_fs E) V f1" "live_upload V ?root f1 c" "up_expected c = up_expected u"
    using upload_finish_keeps [OF assms(7) receives_live [OF assms(8)] fin] by simp_all
  have len: "length bs < 2 ^ 64" using assms(9) by simp
  have "unat (cm_nar_size (up_state c)) \<noteq> 0" "cm_nar_hash (up_state c) = up_expected c"
    using a len assms(10,11) fk(3) by (simp_all add: finished_def Let_def)
  then obtain v where v: "upload_verify (e_fs E) c f1 = (Inr v, f1)"
    by (auto simp: upload_verify_def Let_def unat_eq_zero)
  note ver = finished_verified [OF a len v]
  have "unzstd Y a = Some bs" using a by (simp add: finished_def Let_def)
  then have enc: "\<not> isl (rk_entry_bytes (e_rkyv E) (verified_entry (up_state v)))" using assms(13) ver by simp
  have "live_upload V ?root f1 v" using upload_verify_keeps [OF fk(1,2) v] by blast
  then have fl: "in_flight V ?root f1 (up_staged v)" by (simp add: live_upload_def)
  obtain f2 d2 where st: "upload_store (e_fs E) (e_redb E) (e_rkyv E) ?root v (f1, w_db (hs_world x)) =
      (Inr (verified_entry (up_state v)), (f2, d2))"
    using upload_store_works [OF assms(2,3) fk(1) fl enc] by (metis prod.exhaust)
  let ?x = "x\<lparr>hs_world := (hs_world x)\<lparr>w_fs := f2, w_db := d2\<rparr>\<rparr>"
  obtain ss where b: "h_bump (ex_shard ex) C_Uploads 1 ?x = (Inr (), ?x\<lparr>hs_stats := ss\<rparr>)"
    using bump_works [of "ex_shard ex" ?x] assms(12) by auto
  obtain x' where "answer S ?rq S_Created Consumed (?x\<lparr>hs_stats := ss\<rparr>) = (Inr (kept ?rq Consumed), x')"
    using answer_works [OF assms(1)] by blast
  then show ?thesis using fin v st b
    by (simp add: settle_upload_def Let_def io_then_def on_world_def on_fs_def on_fs_db_def put_fs_def kept_def)
qed

text \<open>What must hold of the machine, and of a push, for the push to succeed.\<close>

definition machine ::
  "'s sock \<Rightarrow> 's sock_views \<Rightarrow> ('e, 'z, 'f, 'h, 'd, 'r, 't) env \<Rightarrow> 'z zstd_views \<Rightarrow> ('f, 'h) fs_views \<Rightarrow>
     ('d, 'r, 't) views \<Rightarrow> cache \<Rightarrow> nat \<Rightarrow> ('s, 'f, 'd) serving \<Rightarrow> bool" where
  "machine S W E Y V U ca i x \<longleftrightarrow>
     sock_laws S W \<and> sock_works S W \<and> sha_laws (e_ext E) \<and> zstd_laws (e_zstd E) Y \<and> zstd_works (e_zstd E) Y \<and>
     files_good E V x \<and> fs_works (e_fs E) V (w_root (hs_world x)) \<and>
     index_good (e_redb E) U (e_rkyv E) (w_db (hs_world x)) \<and> redb_works (e_redb E) \<and>
     (\<exists>l. level_new l = Some (ig_level (ca_ingest ca))) \<and> i < length (hs_stats x)"

definition push_ready ::
  "'s sock \<Rightarrow> 's sock_views \<Rightarrow> ('e, 'z, 'f, 'h, 'd, 'r, 't) env \<Rightarrow> 'z zstd_views \<Rightarrow> ('f, 'h) fs_views \<Rightarrow>
     ('d, 'r, 't) views \<Rightarrow> cache \<Rightarrow> exchange \<Rightarrow> ('s, 'f, 'd) serving \<Rightarrow> bool" where
  "push_ready S W E Y V U ca ex x \<longleftrightarrow>
     machine S W E Y V U ca (ex_shard ex) x \<and> rq_method (ex_request ex) = Put \<and>
     admission_of (e_ext E) (ca_tokens ca) (ex_request ex) = Admitted"

lemma h_receive_works:
  assumes ready: "push_ready S W E Y V U ca ex x"
    and url: "compression url = NoCompression" "rq_framing (ex_request ex) = FrameLength n"
    and body: "to_come W x = body @ rest" "length body = unat n" "length body < 2 ^ 63" "body \<noteq> []"
      "digest (e_ext E) body = file_hash url"
    and enc: "\<And>a. unzstd Y a = Some body \<Longrightarrow> \<not> isl (rk_entry_bytes (e_rkyv E) (stored_entry (e_ext E) a body))"
  shows "\<exists>x'. h_receive S E ca ex url x = (Inr (rq_keep_alive (ex_request ex)), x') \<and> to_come W x' = rest \<and>
    said W x' = said W x @ interim (ex_request ex) @ bare S_Created (rq_keep_alive (ex_request ex)) 0"
proof -
  let ?rq = "ex_request ex" and ?w = "hs_world x"
  note R = ready [unfolded push_ready_def machine_def]
  obtain l where "level_new l = Some (ig_level (ca_ingest ca))" using R by blast
  then have "ig_level (ca_ingest ca) = Level l" "- 7 \<le> l" "l \<le> 22" by (auto simp: level_new_def split: if_splits)
  then have lvl: "- 7 \<le> level_get (ig_level (ca_ingest ca))" "level_get (ig_level (ca_ingest ca)) \<le> 22" by simp_all
  have adm: "admit (e_ext E) ca ex x = (Inr Admitted, x)" using R by (simp add: admit_def)
  obtain u w1 where u: "ingest_receive E (ca_ingest ca) url ?w = (Inr u, w1)"
    using ingest_receive_works [of E V ?w Y url "ca_ingest ca"] R url(1) lvl by blast
  have good: "fs_good (e_fs E) V (w_fs ?w)" using R by simp
  have w1: "fs_good (e_fs E) V (w_fs w1)" "w_root w1 = w_root ?w" "w_db w1 = w_db ?w" "up_expected u = file_hash url"
      "live_upload V (w_root ?w) (w_fs w1) u" "receives (e_ext E) Y V (w_root ?w) (w_fs w1) u []"
    using ingest_receive_effect [OF good u, of Y] R by simp_all
  let ?x1 = "x\<lparr>hs_world := w1\<rparr>"
  obtain x2 where x2: "proceed S ?rq ?x1 = (Inr (), x2)" using proceed_works R by blast
  have e2: "hs_world x2 = w1" "to_come W x2 = to_come W x" "said W x2 = said W x @ interim ?rq"
    using says_Inr [OF proceed_says [OF _ x2] refl, of W] R by simp_all
  have s2: "length (hs_stats x2) = length (hs_stats x)"
    using saneD [OF sane_proceed [of "ex_shard ex"] x2] R by (auto dest: hearts_length)
  have works: "fs_works (e_fs E) V (w_root (hs_world x2))" using R e2(1) w1(2) by simp
  obtain v x3 where x3: "receive_loop S E u n x2 = (Inr v, x3)"
    using receive_loop_works [OF _ _ works, of S W Y u "[]" n] R e2 w1 body by auto
  have live2: "files_good E V x2" "live V x2 u" using e2(1) w1 by simp_all
  from receive_loop_effect [OF _ live2 x3, of W] R obtain bs where
    e3: "files_good E V x3" "unmoved V x2 x3" "length bs = unat n" "to_come W x2 = bs @ to_come W x3"
      "said W x3 = said W x2" "up_expected v = up_expected u"
      "receives (e_ext E) Y V (w_root (hs_world x2)) (w_fs (hs_world x2)) u [] \<longrightarrow>
         receives (e_ext E) Y V (w_root (hs_world x2)) (w_fs (hs_world x3)) v ([] @ bs)" by blast
  have bs: "bs = body" "to_come W x3 = rest" using e3(3,4) e2(2) body(1,2) by (simp_all add: append_eq_append_conv)
  have w3: "w_root (hs_world x3) = w_root ?w" "w_db (hs_world x3) = w_db ?w"
    using e3(2) e2(1) w1 by (simp_all add: unmoved_def)
  have rc: "receives (e_ext E) Y V (w_root (hs_world x3)) (w_fs (hs_world x3)) v body"
    using e3(7) w1(2,6) e2(1) bs w3(1) by simp
  have s3: "hs_stats x3 = hs_stats x2" using receive_loop_sane [OF x3] by simp
  have works3: "fs_works (e_fs E) V (w_root (hs_world x3))" using R w3(1) by simp
  have dig: "digest (e_ext E) body = up_expected v" using body(5) e3(6) w1(4) by simp
  have sh: "ex_shard ex < length (hs_stats x3)" using R s2 s3 by simp
  obtain x' where x': "settle_upload S E ex v x3 = (Inr (rq_keep_alive ?rq), x')"
    using settle_upload_works [OF _ works3 _ _ _ _ e3(1) rc body(3,4) dig sh enc, of S W] R by blast
  have idx: "index_good (e_redb E) U (e_rkyv E) (w_db (hs_world x3))" using R w3(2) by simp
  have "length body < 2 ^ 64" using body(3) by simp
  note se = settle_upload_effect [OF _ _ _ e3(1) idx rc this x', of W]
  have "said W x' = said W x3 @ bare S_Created (rq_keep_alive ?rq) 0" "to_come W x' = to_come W x3"
    using se R dig body(4) by (auto simp: upload_refused_def)
  moreover have "h_receive S E ca ex url x = (Inr (rq_keep_alive ?rq), x')"
    using adm u x2 x3 x' url(2) by (simp add: h_receive_def Let_def io_then_def)
  ultimately show ?thesis using bs(2) e3(5) e2(3) by simp
qed

lemma ingest_publish_works:
  assumes "redb_works (e_redb E)" "index_good (e_redb E) U (e_rkyv E) d"
    and "NarinfoParse.parse (e_ext E) text (ig_dir ig) = Inr q"
    and "nars U (e_rkyv E) d (ni_nar_hash q) = Some e" "en_nar_size e = ni_nar_size q"
  defines "p \<equiv> resign (e_ext E) (ig_dir ig) (ig_key ig) (publish_record q e)"
  assumes "\<not> isl (rk_narinfo_bytes (e_rkyv E) p)"
  shows "\<exists>d'. ingest_publish E ig text d = (Inr p, d')"
proof -
  have "index_nar (e_redb E) (e_rkyv E) (ni_nar_hash q) d = Inr (Some e)"
    using index_nar_works [OF assms(1,2)] assms(4) by simp
  moreover obtain d' where "index_publish (e_redb E) (e_rkyv E) p d = (Inr (), d')"
    using index_publish_works [OF assms(1,7)] by blast
  ultimately show ?thesis using assms(3,5) by (simp add: ingest_publish_def ensure_def Let_def p_def io_run)
qed

lemma h_publish_works:
  assumes ready: "push_ready S W E Y V U ca ex x"
    and len: "rq_framing (ex_request ex) = FrameLength n" "n \<le> METADATA_BODY_MAX"
    and body: "to_come W x = body @ rest" "length body = unat n" "from_utf8 body = Inr str"
    and pub: "ingest_publish E (ca_ingest ca) str (w_db (hs_world x)) = (Inr p, d')"
  shows "\<exists>x'. h_publish S E ca ex x = (Inr (rq_keep_alive (ex_request ex)), x') \<and> to_come W x' = rest \<and>
    hs_world x' = (hs_world x)\<lparr>w_db := d'\<rparr> \<and> w_db (hs_world x') = d' \<and>
    said W x' = said W x @ interim (ex_request ex) @ bare S_Created (rq_keep_alive (ex_request ex)) 0"
proof -
  let ?rq = "ex_request ex"
  note R = ready [unfolded push_ready_def machine_def]
  have adm: "admit (e_ext E) ca ex x = (Inr Admitted, x)" using R by (simp add: admit_def)
  obtain x2 where x2: "proceed S ?rq x = (Inr (), x2)" using proceed_works R by blast
  have e2: "hs_world x2 = hs_world x" "to_come W x2 = to_come W x"
    using says_Inr [OF proceed_says [OF _ x2] refl, of W] R by simp_all
  obtain bs c where c: "conn_body S n (hs_conn x2) = (Inr bs, c)"
    using conn_body_works [of S W n "hs_conn x2"] R e2(2) body(1,2) by auto
  then have bs: "bs = body" using conn_body_effect [OF _ c, of W] R e2(2) body(1,2) by (auto simp: append_eq_append_conv)
  let ?x3 = "x2\<lparr>hs_conn := c\<rparr>"
  have pub3: "on_db (ingest_publish E (ca_ingest ca) str) (hs_world ?x3) = (Inr p, (hs_world x)\<lparr>w_db := d'\<rparr>)"
    using pub e2(1) by (simp add: on_db_def)
  obtain x' where "answer S ?rq S_Created Consumed (?x3\<lparr>hs_world := (hs_world x)\<lparr>w_db := d'\<rparr>\<rparr>) = (Inr (kept ?rq Consumed), x')"
    using answer_works R by blast
  moreover have "\<not> METADATA_BODY_MAX < n" using len(2) by simp
  ultimately have run: "h_publish S E ca ex x = (Inr (rq_keep_alive ?rq), x')"
    using adm x2 c bs body(3) pub3 len(1) by (simp add: h_publish_def Let_def io_then_def on_conn_def kept_def)
  from h_publish_reply [OF _ _ len run, of W] R obtain b reply d where
    r: "length b = unat n" "to_come W x = b @ to_come W x'" "publish_reply E ca ?rq b (w_db (hs_world x)) = (reply, d)"
      "hs_world x' = (hs_world x)\<lparr>w_db := d\<rparr>" "said W x' = said W x @ interim ?rq @ reply" by blast
  have b: "b = body" "to_come W x' = rest" using r(1,2) body(1,2) by (simp_all add: append_eq_append_conv)
  then have "reply = bare S_Created (rq_keep_alive ?rq) 0" "d = d'"
    using r(3) body(3) pub by (simp_all add: publish_reply_def kept_def)
  with run b(2) r(4,5) show ?thesis by simp
qed

section \<open>Whole requests\<close>

text \<open>Dispatch: the request is counted and its handler runs.\<close>

lemma handle_dispatch:
  assumes "ex_shard ex < length (hs_stats x)" "rq_framing (ex_request ex) \<noteq> FrameChunked"
    and "route_resolve (e_ext E) (rq_target (ex_request ex)) = Inr r"
  obtains ss where "length ss = length (hs_stats x)"
    "handle S E ca ex x =
      (case r of
         R_CacheInfo \<Rightarrow> h_cache_info S ca ex
       | R_Metrics \<Rightarrow> h_metrics S E ex
       | R_Narinfo key \<Rightarrow> h_narinfo S E ca ex key
       | R_Nar url \<Rightarrow> h_nar S E ca ex url) (x\<lparr>hs_stats := ss\<rparr>)"
proof -
  obtain ss where b: "shards_bump (ex_shard ex) C_Requests 1 (hs_stats x) = Some ss"
    using assms(1) by (simp add: shards_bump_def shards_get_def)
  then show thesis
    using that [OF shards_bump_length [OF b]] assms(2,3)
    by (simp add: handle_def Let_def io_then_def h_bump_def split: route.splits)
qed

lemma machine_stats:
  "machine S W E Y V U ca i x \<Longrightarrow> length ss = length (hs_stats x) \<Longrightarrow> machine S W E Y V U ca i (x\<lparr>hs_stats := ss\<rparr>)"
  by (simp add: machine_def)

lemma push_ready_stats:
  "push_ready S W E Y V U ca ex x \<Longrightarrow> length ss = length (hs_stats x) \<Longrightarrow>
     push_ready S W E Y V U ca ex (x\<lparr>hs_stats := ss\<rparr>)"
  by (simp add: push_ready_def machine_stats)

lemma handle_stats:
  assumes "handle S E ca ex x = (r, x')" "ex_shard ex < length (hs_stats x)"
  shows "length (hs_stats x') = length (hs_stats x)"
  using saneD [OF sane_handle [OF refl] assms] by (auto dest: hearts_length)

text \<open>A push of a NAR: what is sent, what is stored, and the machine goes on working.\<close>

lemma push_completes:
  assumes ready: "push_ready S W E Y V U ca ex x"
    and route: "route_resolve (e_ext E) (rq_target (ex_request ex)) = Inr (R_Nar url)" "compression url = NoCompression"
    and body: "rq_framing (ex_request ex) = FrameLength n" "to_come W x = body @ rest" "length body = unat n"
      "body \<noteq> []" "length body < 2 ^ 63" "digest (e_ext E) body = file_hash url"
    and enc: "\<And>a. unzstd Y a = Some body \<Longrightarrow> \<not> isl (rk_entry_bytes (e_rkyv E) (stored_entry (e_ext E) a body))"
  obtains x' a where "handle S E ca ex x = (Inr (rq_keep_alive (ex_request ex)), x')" "to_come W x' = rest"
    "said W x' = said W x @ interim (ex_request ex) @ bare S_Created (rq_keep_alive (ex_request ex)) 0"
    "unzstd Y a = Some body" "length a < 2 ^ 64" "machine S W E Y V U ca (ex_shard ex) x'" "w_root (hs_world x') = w_root (hs_world x)"
    "artifacts V (w_root (hs_world x)) (w_fs (hs_world x')) =
       (artifacts V (w_root (hs_world x)) (w_fs (hs_world x)))(stored_url (e_ext E) a \<mapsto> a)"
    "nars U (e_rkyv E) (w_db (hs_world x')) =
       (nars U (e_rkyv E) (w_db (hs_world x)))(file_hash url \<mapsto> stored_entry (e_ext E) a body)"
proof -
  let ?rq = "ex_request ex"
  note R = ready [unfolded push_ready_def machine_def]
  obtain ss where ss: "length ss = length (hs_stats x)"
    and h: "handle S E ca ex x = h_receive S E ca ex url (x\<lparr>hs_stats := ss\<rparr>)"
    using handle_dispatch [of ex x E "R_Nar url" S ca] route(1) body(1) R by (auto simp: h_nar_def)
  let ?x = "x\<lparr>hs_stats := ss\<rparr>"
  have come: "to_come W ?x = body @ rest" using body(2) by simp
  obtain x' where x': "handle S E ca ex x = (Inr (rq_keep_alive ?rq), x')" "to_come W x' = rest"
    "said W x' = said W x @ interim ?rq @ bare S_Created (rq_keep_alive ?rq) 0"
    using h_receive_works [OF push_ready_stats [OF ready ss] route(2) body(1) come body(3,5,4,6)] enc h by auto
  have laws: "sock_laws S W" "sha_laws (e_ext E)" "zstd_laws (e_zstd E) Y" "files_good E V ?x"
    "index_good (e_redb E) U (e_rkyv E) (w_db (hs_world ?x))"
    "admission_of (e_ext E) (ca_tokens ca) ?rq = Admitted" using R by simp_all
  have "to_come W ?x \<noteq> to_come W x'" using body(2,4) x'(2) by simp
  with h_receive_effect [OF laws body(1) x'(1) [unfolded h]] obtain b reply where
    b: "length b = unat n" "to_come W x = b @ to_come W x'"
      "upload_done (e_ext E) Y V U (e_rkyv E) ?rq url b (hs_world x) (hs_world x') reply"
    and good: "files_good E V x'" "index_good (e_redb E) U (e_rkyv E) (w_db (hs_world x'))"
      "w_root (hs_world x') = w_root (hs_world x)" by auto
  have "b = body" using b(1,2) body(2,3) x'(2) by (simp add: append_eq_append_conv)
  with b(3) body(4,6) obtain a where a: "unzstd Y a = Some body" "length a < 2 ^ 64"
    "artifacts V (w_root (hs_world x)) (w_fs (hs_world x')) =
       (artifacts V (w_root (hs_world x)) (w_fs (hs_world x)))(stored_url (e_ext E) a \<mapsto> a)"
    "nars U (e_rkyv E) (w_db (hs_world x')) =
       (nars U (e_rkyv E) (w_db (hs_world x)))(file_hash url \<mapsto> stored_entry (e_ext E) a body)"
    by (auto simp: upload_done_def upload_refused_def)
  have "machine S W E Y V U ca (ex_shard ex) x'"
    using R good handle_stats [OF x'(1)] by (simp add: machine_def)
  with that x' a good(3) show thesis by blast
qed

text \<open>A publish: the record is in the index, and nothing else has changed.\<close>

lemma publish_completes:
  assumes ready: "push_ready S W E Y V U ca ex x"
    and route: "route_resolve (e_ext E) (rq_target (ex_request ex)) = Inr (R_Narinfo key)"
    and body: "rq_framing (ex_request ex) = FrameLength n" "n \<le> METADATA_BODY_MAX" "to_come W x = body @ rest"
      "length body = unat n" "from_utf8 body = Inr str"
    and info: "NarinfoParse.parse (e_ext E) str (ig_dir (ca_ingest ca)) = Inr q"
      "nars U (e_rkyv E) (w_db (hs_world x)) (ni_nar_hash q) = Some e" "en_nar_size e = ni_nar_size q"
  defines "p \<equiv> resign (e_ext E) (ig_dir (ca_ingest ca)) (ig_key (ca_ingest ca)) (publish_record q e)"
  assumes enc: "\<not> isl (rk_narinfo_bytes (e_rkyv E) p)"
  obtains x' where "handle S E ca ex x = (Inr (rq_keep_alive (ex_request ex)), x')" "to_come W x' = rest"
    "said W x' = said W x @ interim (ex_request ex) @ bare S_Created (rq_keep_alive (ex_request ex)) 0"
    "infos U (e_rkyv E) (w_db (hs_world x')) =
       (infos U (e_rkyv E) (w_db (hs_world x)))(sp_hash (ni_store_path q) \<mapsto> p)"
    "hs_world x' = (hs_world x)\<lparr>w_db := w_db (hs_world x')\<rparr>" "machine S W E Y V U ca (ex_shard ex) x'"
proof -
  let ?d = "w_db (hs_world x)"
  note R = ready [unfolded push_ready_def machine_def]
  obtain ss where ss: "length ss = length (hs_stats x)"
    and h: "handle S E ca ex x = h_publish S E ca ex (x\<lparr>hs_stats := ss\<rparr>)"
    using handle_dispatch [of ex x E "R_Narinfo key" S ca] route body(1) R by (auto simp: h_narinfo_def Let_def)
  let ?x = "x\<lparr>hs_stats := ss\<rparr>"
  obtain d' where d': "ingest_publish E (ca_ingest ca) str ?d = (Inr p, d')"
    using ingest_publish_works [OF _ _ info enc [unfolded p_def]] R unfolding p_def by blast
  have come: "to_come W ?x = body @ rest" "w_db (hs_world ?x) = ?d" using body(3) by simp_all
  obtain x' where x': "handle S E ca ex x = (Inr (rq_keep_alive (ex_request ex)), x')" "to_come W x' = rest"
    "w_db (hs_world x') = d'" "hs_world x' = (hs_world x)\<lparr>w_db := d'\<rparr>"
    "said W x' = said W x @ interim (ex_request ex) @ bare S_Created (rq_keep_alive (ex_request ex)) 0"
    using h_publish_works [OF push_ready_stats [OF ready ss] body(1,2) come(1) body(4,5), of p d'] d' come(2) h by auto
  have eff: "index_good (e_redb E) U (e_rkyv E) d'"
    "infos U (e_rkyv E) d' = (infos U (e_rkyv E) ?d)(sp_hash (ni_store_path q) \<mapsto> p)"
    using ingest_publish_effect [OF _ d', of U] R info by (auto simp: Let_def p_def)
  then have "machine S W E Y V U ca (ex_shard ex) x'"
    using R x'(3,4) handle_stats [OF x'(1)] by (simp add: machine_def)
  with that [OF x'(1,2,5)] eff(2) x'(3,4) show thesis by simp
qed

end
