(* ===== verification/FetchLive.thy ===== *)
theory FetchLive
  imports PushLive ServeSpec
begin

text \<open>
  The other direction on a machine that works: heads arrive, a record and an artifact that are stored
  are sent, and a session takes one turn per request.
\<close>

section \<open>Downloads\<close>

definition fs_serves :: "('f, 'h) fsys \<Rightarrow> ('f, 'h) fs_views \<Rightarrow> bool" where
  "fs_serves F V \<longleftrightarrow>
     (\<forall>p f. fv_names V f p \<noteq> None \<longrightarrow> (\<exists>h f'. fs_open F p f = (Inr h, f'))) \<and>
     (\<forall>h f. length (fv_data V f (fv_file V h)) < 2 ^ 64 \<longrightarrow> (\<exists>n f'. fs_metadata_len F h f = (Inr n, f'))) \<and>
     (\<forall>h cap at f. \<exists>s f'. fs_read_at F h cap at f = (Inr s, f'))"

text \<open>An operation that fails on a working machine can only have run out of fuel.\<close>

definition answers :: "nat \<Rightarrow> ('s, 'f, 'd, 'a) act \<Rightarrow> bool" where
  "answers i m \<longleftrightarrow> (\<forall>x r x'. m x = (r, x') \<longrightarrow> i < length (hs_stats x) \<longrightarrow>
     length (hs_stats x') = length (hs_stats x) \<and> (\<forall>e. r = Inl e \<longrightarrow> e = HE_Hang))"

lemma answers_then:
  assumes "answers i m" "\<And>a. answers i (k a)"
  shows "answers i (io_then m k)"
  unfolding answers_def
proof (intro allI impI)
  fix x r x' assume run: "io_then m k x = (r, x')" and i: "i < length (hs_stats x)"
  from run show "length (hs_stats x') = length (hs_stats x) \<and> (\<forall>e. r = Inl e \<longrightarrow> e = HE_Hang)"
  proof (cases rule: io_thenE)
    case (1 e)
    then show ?thesis using assms(1) i unfolding answers_def by blast
  next
    case (2 a t)
    then have "length (hs_stats t) = length (hs_stats x)" using assms(1) i unfolding answers_def by blast
    then show ?thesis using 2 assms(2) [of a] i unfolding answers_def by metis
  qed
qed

lemma answers_return: "answers i (io_return a)" "answers i (io_lift (Inl HE_Hang))"
  by (simp_all add: answers_def)

lemma answers_write: "sock_works S W \<Longrightarrow> answers i (on_conn (conn_write S bs))"
  unfolding answers_def on_conn_def conn_write_def sock_works_def
  by (auto split: prod.splits) (metis ctx_simps(2) prod.inject sum.distinct(1))+

lemma answers_read: "fs_serves F V \<Longrightarrow> answers i (on_world HE_Store (on_fs (reader_read_at F rd cap at)))"
  unfolding answers_def on_world_def on_fs_def reader_read_at_def fs_serves_def
  by (auto simp: io_ctx_def split: prod.splits) (metis ctx_simps(2) prod.inject sum.distinct(1))+

lemma answers_bump: "answers i (h_bump i c n)"
  by (auto simp: answers_def h_bump_def shards_bump_def shards_get_def dest: shards_bump_length split: option.splits)

lemma answers_pump_loop:
  assumes "sock_works S W" "fs_serves F V"
  shows "answers i (pump_loop S F rd sp fuel offset)"
proof (induction fuel arbitrary: offset)
  case 0
  then show ?case by (subst pump_loop.simps) (simp add: answers_return)
next
  case (Suc fuel)
  then show ?case using answers_read [OF assms(2), of i rd SEND_CHUNK offset]
    by (subst pump_loop.simps) (auto simp: Let_def answers_return intro!: answers_then answers_write [OF assms(1)])
qed

lemma answers_stream_span:
  assumes "sock_works S W" "fs_serves (e_fs E) V" "ex_shard ex = i"
  shows "answers i (stream_span S E ex rd sp)"
  unfolding stream_span_def pump_def Let_def assms(3)
  by (intro answers_then answers_write [OF assms(1)] answers_pump_loop [OF assms(1,2)] answers_bump answers_return)

lemma open_artifact_works:
  assumes "fs_serves (e_fs E) V" "fs_laws (e_fs E) V" "narurl_ok u"
    and "artifacts V (w_root (hs_world x)) (w_fs (hs_world x)) u = Some bs" "length bs < 2 ^ 64"
  shows "\<exists>rd x'. open_artifact E u x = (Inr (Some rd), x') \<and> hs_stats x' = hs_stats x"
proof -
  let ?F = "e_fs E" and ?f = "w_fs (hs_world x)" and ?p = "store_path (w_root (hs_world x)) u"
  obtain i where i: "fv_names V ?f ?p = Some i" "fv_data V ?f i = bs"
    using assms(3,4) by (auto simp: artifacts_def)
  then obtain h f1 where h: "fs_open ?F ?p ?f = (Inr h, f1)" using assms(1) unfolding fs_serves_def by blast
  have "same_view V ?f f1" "fv_names V ?f ?p = Some (fv_file V h)"
    using h assms(2) unfolding fs_laws_def fs_query_laws_def by metis+
  then have "fv_data V f1 (fv_file V h) = bs" using i by (simp add: same_view_def)
  then obtain n f2 where "fs_metadata_len ?F h f1 = (Inr n, f2)"
    using assms(1,5) unfolding fs_serves_def by metis
  with h show ?thesis
    by (simp add: open_artifact_def on_world_def on_fs_def store_read_def Let_def io_run)
qed

lemma h_stream_works:
  assumes "sock_works S W" "fs_serves (e_fs E) V" "fs_laws (e_fs E) V" "narurl_ok u"
    and "artifacts V (w_root (hs_world x)) (w_fs (hs_world x)) u = Some bs" "length bs < 2 ^ 64"
    and "ex_shard ex < length (hs_stats x)"
  shows "\<exists>k x'. h_stream S E ex u x = (Inr k, x')"
proof -
  let ?i = "ex_shard ex" and ?rq = "ex_request ex"
  obtain rd x1 where o: "open_artifact E u x = (Inr (Some rd), x1)" "hs_stats x1 = hs_stats x"
    using open_artifact_works [OF assms(2-6)] by blast
  obtain r x' where run: "h_stream S E ex u x = (r, x')" by fastforce
  have sane: "r \<noteq> Inl HE_Hang" using saneD [OF sane_stream [OF refl] run assms(7)] by blast
  have ans: "answers ?i (answer S ?rq st dr)" for st dr
    unfolding answer_def by (intro answers_then answers_write [OF assms(1)] answers_return)
  have "answers ?i (let size = rr_size rd in
          if size = 0 then answer S ?rq S_ServerError Unread
          else case range_resolve (rq_range ?rq) size of
            Whole \<Rightarrow> stream_span S E ex rd \<lparr>first = 0, last_byte = size - 1\<rparr>
          | Partial sp \<Rightarrow> stream_span S E ex rd sp
          | Unsatisfiable \<Rightarrow> io_then (on_conn (conn_write S (head_finish (unsatisfiable_head ?rq size)))) (\<lambda>_.
              io_return (rq_keep_alive ?rq)))" (is "answers ?i ?m")
    using ans answers_stream_span [OF assms(1,2) refl]
    by (auto simp: Let_def answers_return split: requested.splits intro!: answers_then answers_write [OF assms(1)])
  moreover have "?m x1 = (r, x')" using run o(1) by (simp add: h_stream_def io_then_def Let_def)
  ultimately have "\<forall>e. r = Inl e \<longrightarrow> e = HE_Hang" using assms(7) o(2) unfolding answers_def by metis
  with sane run show ?thesis by (cases r) auto
qed

lemma index_narinfo_works:
  assumes "redb_works D" "index_good D U K d"
  shows "index_narinfo D K g d = Inr (infos U K d g)"
proof -
  obtain r where r: "rd_begin_read D d = Inr r" using assms(1) unfolding redb_works_def by blast
  obtain v where v: "rd_get D NARINFO (sp_bytes g) r = Inr v" using assms(1) unfolding redb_works_def by blast
  have o: "rd_open_read D NARINFO r = Inr ()" using assms(1) unfolding redb_works_def by blast
  have "v_db U d NARINFO (sp_bytes g) = v"
    using assms(2) r v unfolding index_good_def redb_laws_def read_laws_def by metis
  moreover from this have "\<exists>e. decode_narinfo K b = Inr e" if "v = Some b" for b
    using assms(2) that unfolding index_good_def rows_ok_def by metis
  ultimately show ?thesis using r v o
    by (cases v) (auto simp: index_narinfo_def read_table_def infos_def infos_of_def)
qed

text \<open>A stored artifact and a stored record are sent when they are asked for.\<close>

lemma artifact_is_sent:
  assumes "sock_laws S W" "sock_works S W" "fs_laws (e_fs E) V" "fs_serves (e_fs E) V" "narurl_ok u"
    and bs: "artifacts V (w_root (hs_world x)) (w_fs (hs_world x)) u = Some bs" "bs \<noteq> []" "length bs < 2 ^ 64"
    and rq: "rq_method (ex_request ex) = Get" "rq_framing (ex_request ex) \<noteq> FrameChunked"
      "route_resolve (e_ext E) (rq_target (ex_request ex)) = Inr (R_Nar u)" "ex_shard ex < length (hs_stats x)"
  obtains x' where "handle S E ca ex x = (Inr (rq_keep_alive (ex_request ex)), x')" "to_come W x' = to_come W x"
    "said W x' = said W x @ payload_answer (ex_request ex) bs"
proof -
  obtain ss where ss: "length ss = length (hs_stats x)"
    and h: "handle S E ca ex x = h_stream S E ex u (x\<lparr>hs_stats := ss\<rparr>)"
    using handle_dispatch [OF rq(4,2,3), of S ca] rq(1) by (auto simp: h_nar_def)
  let ?x = "x\<lparr>hs_stats := ss\<rparr>"
  have st: "artifacts V (w_root (hs_world ?x)) (w_fs (hs_world ?x)) u = Some bs" "ex_shard ex < length (hs_stats ?x)"
    using bs(1) rq(4) ss by simp_all
  obtain k x' where run: "h_stream S E ex u ?x = (Inr k, x')"
    using h_stream_works [OF assms(2,4,3,5) st(1) bs(3) st(2)] by blast
  from h_stream_sends [OF assms(1,3,5) st(1) bs(2,3) run] that h run show thesis by simp
qed

lemma record_is_sent:
  assumes "sock_laws S W" "sock_works S W" "redb_works (e_redb E)"
    and good: "index_good (e_redb E) U (e_rkyv E) (w_db (hs_world x))"
    and rec: "infos U (e_rkyv E) (w_db (hs_world x)) g = Some q"
    and rq: "rq_method (ex_request ex) = Get" "rq_framing (ex_request ex) \<noteq> FrameChunked"
      "route_resolve (e_ext E) (rq_target (ex_request ex)) = Inr (R_Narinfo g)" "ex_shard ex < length (hs_stats x)"
  obtains x' where "handle S E ca ex x = (Inr (rq_keep_alive (ex_request ex)), x')" "to_come W x' = to_come W x"
    "hs_world x' = hs_world x"
    "said W x' = said W x @ with_body (head_header (head_new S_Ok (rq_keep_alive (ex_request ex)))
       ''Content-Type'' NARINFO_CONTENT_TYPE) (Narinfo.render (e_ext E) (ig_dir (ca_ingest ca)) q)"
proof -
  let ?rq = "ex_request ex"
  obtain ss where ss: "length ss = length (hs_stats x)"
    and h: "handle S E ca ex x = h_narinfo S E ca ex g (x\<lparr>hs_stats := ss\<rparr>)"
    using handle_dispatch [OF rq(4,2,3), of S ca] by auto
  have i: "ex_shard ex < length (hs_stats (x\<lparr>hs_stats := ss\<rparr>))" using rq(4) ss by simp
  obtain s2 where b: "h_bump (ex_shard ex) C_Hits 1 (x\<lparr>hs_stats := ss\<rparr>) = (Inr (), x\<lparr>hs_stats := s2\<rparr>)"
    using bump_works [OF i, of C_Hits 1] by auto
  let ?h = "head_header (head_new S_Ok (rq_keep_alive ?rq)) ''Content-Type'' NARINFO_CONTENT_TYPE"
  let ?b = "Narinfo.render (e_ext E) (ig_dir (ca_ingest ca)) q"
  obtain x' where "on_conn (conn_write S (with_body ?h ?b)) (x\<lparr>hs_stats := s2\<rparr>) = (Inr (), x')"
    using said_works [OF assms(2)] by blast
  then have x': "send S ?rq ?h ?b (x\<lparr>hs_stats := s2\<rparr>) = (Inr (rq_keep_alive ?rq), x')"
    by (simp add: send_def Let_def io_run rq(1))
  have "index_narinfo (e_redb E) (e_rkyv E) g (w_db (hs_world x)) = Inr (Some q)"
    using index_narinfo_works [OF assms(3) good] rec by simp
  then have "handle S E ca ex x = (Inr (rq_keep_alive ?rq), x')"
    using h b x' rq(1) by (simp add: h_narinfo_def Let_def io_then_def read_index_def)
  with that send_says [OF assms(1) x'] show thesis by (simp add: says_def sent_text_def rq(1))
qed

section \<open>Turns of a session\<close>

text \<open>The bytes of a request head, as the connection and the parser see them.\<close>

definition asks :: "string \<Rightarrow> request \<Rightarrow> bool" where
  "asks h rq \<longleftrightarrow> head_len h = Some (length h) \<and> length h \<le> HEAD_LEN_MAX \<and> http_parse h = Inr rq"

lemma conn_head_read_only:
  assumes "sock_works S W" "sock_laws S W" "head_len (pending W c) \<noteq> None" "conn_head S c = (Inl e, c')"
  shows "e = CN_Truncated \<or> e = CN_HeadTooLong"
  using assms
proof (induction S c rule: conn_head.induct)
  case (1 S c)
  show ?case
  proof (cases "head_len (cn_buffer c) = None \<and> length (cn_buffer c) \<le> HEAD_LEN_MAX")
    case False
    with "1.prems"(4) show ?thesis by (auto simp: conn_head.simps [of S c] split: option.splits if_splits)
  next
    case True
    then have "sv_in W (cn_stream c) \<noteq> []" using "1.prems"(3) by (auto simp: pending_def)
    from fill_works [OF "1.prems"(1,2) this] obtain n d where d: "fill S c = (Inr n, d)" "n \<noteq> 0" by blast
    with True "1.prems"(4) have run: "conn_head S d = (Inl e, c')" by (simp add: conn_head.simps [of S c])
    have "pending W d = pending W c" using fill_Inr [OF "1.prems"(2) d(1)] by blast
    with "1.IH" [OF conjunct1 [OF True] _ d(1) [symmetric] refl d(2) "1.prems"(1,2)] "1.prems"(3) True run
    show ?thesis by simp
  qed
qed

lemma conn_head_works:
  assumes "sock_works S W" "sock_laws S W" "asks h rq" "pending W c = h @ rest"
  obtains c' where "conn_head S c = (Inr (Some h), c')" "pending W c' = rest" "sent W c' = sent W c"
proof -
  have len: "head_len (pending W c) = Some (length h)" "length h \<le> HEAD_LEN_MAX"
    using assms(3,4) head_len_append by (auto simp: asks_def)
  obtain r c' where run: "conn_head S c = (r, c')" by fastforce
  note e = conn_head_effect [OF assms(2) run]
  have "\<exists>g. r = Inr (Some g)"
  proof (cases r)
    case (Inl x)
    with conn_head_read_only [OF assms(1,2) _ run [unfolded Inl]] e len show ?thesis by (cases x) auto
  next
    case (Inr g)
    with e len assms(4) show ?thesis by (cases g) (auto simp: head_len_def)
  qed
  then obtain g where "r = Inr (Some g)" by blast
  with e len assms(4) have "g = h" "pending W c' = rest" "sent W c' = sent W c" by (auto simp: append_eq_append_conv)
  with run \<open>r = Inr (Some g)\<close> that show thesis by simp
qed

text \<open>One turn: the next head is read and its request handled.\<close>

lemma turn_handles:
  assumes "sock_works S W" "sock_laws S W" "asks h rq" "to_come W x = h @ rest"
  obtains c where "to_come W (x\<lparr>hs_conn := c\<rparr>) = rest" "said W (x\<lparr>hs_conn := c\<rparr>) = said W x"
    "\<And>k x' n. handle S E ca \<lparr>ex_shard = i, ex_request = rq\<rparr> (x\<lparr>hs_conn := c\<rparr>) = (Inr k, x') \<Longrightarrow>
       session S E ca i (Suc n) x = (if k = Close then (Inr True, x') else session S E ca i n x')"
proof -
  obtain c where c: "conn_head S (hs_conn x) = (Inr (Some h), c)" "pending W c = rest" "sent W c = sent W (hs_conn x)"
    by (rule conn_head_works [OF assms])
  have parse: "http_parse h = Inr rq" using assms(3) by (simp add: asks_def)
  show thesis
    by (rule that [of c]) (use c parse in \<open>simp_all add: session_turn_def io_run on_conn_def\<close>)
qed

end
