(* ===== verification/SampleLive.thy ===== *)
theory SampleLive
  imports FetchLive SystemSpec
begin

text \<open>
  The bytes of a client's session: request heads as a client writes them, and that the instances of the
  samples work.
\<close>

section \<open>Request heads\<close>

definition plain_target :: "string \<Rightarrow> bool" where
  "plain_target t \<longleftrightarrow> ascii t \<and> cr \<notin> set t \<and> CHR '' '' \<notin> set t \<and> length t \<le> 4096"

definition put_head :: "string \<Rightarrow> u64 \<Rightarrow> string" where
  "put_head t n = head_text [''PUT '' @ t @ '' HTTP/1.1'', ''Content-Length: '' @ show_u64 n, ''Authorization: Bearer secret'']"

definition get_head :: "string \<Rightarrow> string" where
  "get_head t = head_text [''GET '' @ t @ '' HTTP/1.1'']"

lemma split_on_none: "list_all (\<lambda>c. \<not> f c) s \<Longrightarrow> split_on f s = [s]"
  by (induction s) auto

lemma split_on_joined:
  "list_all (\<lambda>c. \<not> f c) s \<Longrightarrow> f c \<Longrightarrow> split_on f (s @ c # r) = s # split_on f r"
  by (induction s) auto

lemma request_line_plain:
  assumes "plain_target t" "method_from_str m = Some m'" "CHR '' '' \<notin> set m"
  shows "request_line (m @ CHR '' '' # t @ '' HTTP/1.1'') =
    Inr \<lparr>rq_method = m', rq_target = t, rq_framing = FrameEmpty, rq_keep_alive = Keep,
      rq_expectation = ExpectNone, rq_range = None, rq_authorization = None\<rparr>"
proof -
  let ?sp = "\<lambda>c. c = CHR '' ''"
  have "list_all (\<lambda>c. \<not> ?sp c) t" "list_all (\<lambda>c. \<not> ?sp c) m"
    using assms(1,3) by (auto simp: plain_target_def list_all_iff)
  then have "split_on ?sp (m @ CHR '' '' # t @ CHR '' '' # ''HTTP/1.1'') = [m, t, ''HTTP/1.1'']"
    using split_on_joined [of ?sp m "CHR '' ''"] split_on_joined [of ?sp t "CHR '' ''" "''HTTP/1.1''"] by simp
  then show ?thesis using assms(2) by (simp add: request_line_def)
qed

lemma plain_chars: "c \<in> set (show_u64 n) \<Longrightarrow> visible c \<and> (of_char c :: nat) < 128 \<and> c \<noteq> cr"
  using show_nat_digits [of c "unat n"] by (auto simp: show_u64_def is_digit_def visible_def)

lemma length_line: "absorb_header r (''Content-Length: '' @ show_u64 n) =
    (if rq_framing r \<noteq> FrameChunked then Inr (r\<lparr>rq_framing := FrameLength n\<rparr>) else Inl HTTP_ConflictingFraming)"
proof -
  have "show_u64 n \<noteq> []" by (simp add: show_u64_def)
  then have "trim (CHR '' '' # show_u64 n) = show_u64 n"
    using plain_chars [OF hd_in_set, of n] plain_chars [OF last_in_set, of n]
    by (simp add: trim_def trim_start_space trim_start_visible trim_end_visible)
  then show ?thesis
    by (simp add: absorb_header_def eq_ignore_ascii_case_def ascii_lower_def parse_show_u64 char_of_eq_iff)
qed

lemma bearer_line: "absorb_header r ''Authorization: Bearer secret'' = Inr (r\<lparr>rq_authorization := Some ''Bearer secret''\<rparr>)"
proof -
  have "trim '' Bearer secret'' = ''Bearer secret''" by code_simp
  then show ?thesis
    by (simp add: absorb_header_def eq_ignore_ascii_case_def ascii_lower_def char_of_eq_iff)
qed

lemma show_u64_short: "length (show_u64 n) \<le> 20"
proof -
  have "length (show_nat m) \<le> Suc k" if "m < 10 ^ Suc k" for m k
    using that
  proof (induction k arbitrary: m)
    case (Suc k)
    then have "m div 10 < 10 ^ Suc k" by (simp add: less_mult_imp_div_less)
    from Suc.IH [OF this] show ?case by (subst show_nat.simps) simp
  qed (simp add: show_nat.simps)
  from this [of "unat n" 19] show ?thesis using unat_less64 [of n] by (simp add: show_u64_def)
qed

lemma head_plain:
  assumes "plain_target t"
  shows "list_all plain_line [''PUT '' @ t @ '' HTTP/1.1'', ''Content-Length: '' @ show_u64 n, ''Authorization: Bearer secret'']"
    and "list_all plain_line [''GET '' @ t @ '' HTTP/1.1'']"
  using assms plain_chars [of _ n] by (auto simp: plain_line_def plain_target_def ascii_def)

lemma asks_put:
  assumes "plain_target t"
  shows "asks (put_head t n) (sample_put t n)"
proof -
  note pl = head_plain(1) [OF assms, of n]
  have "request_line (''PUT '' @ t @ '' HTTP/1.1'') = Inr ((sample_put t n)\<lparr>rq_framing := FrameEmpty, rq_authorization := None\<rparr>)"
    using request_line_plain [OF assms, of "''PUT''"] by (simp add: method_from_str_def sample_put_def)
  then have "http_parse (put_head t n) = Inr (sample_put t n)"
    using http_parse_head [of "''PUT '' @ t @ '' HTTP/1.1''"] pl length_line bearer_line
    by (simp add: put_head_def plain_line_def sample_put_def)
  then show ?thesis using head_len_head_text [OF pl, of "[]"] assms show_u64_short [of n]
    by (simp add: asks_def put_head_def head_text_def plain_target_def HEAD_LEN_MAX_def)
qed

lemma asks_get: "plain_target t \<Longrightarrow> asks (get_head t) (sample_get t None)"
proof -
  assume t: "plain_target t"
  note pl = head_plain(2) [OF t]
  have "http_parse (get_head t) = Inr (sample_get t None)"
    using http_parse_head [of "''GET '' @ t @ '' HTTP/1.1''" "[]"] pl request_line_plain [OF t, of "''GET''"]
    by (simp add: get_head_def plain_line_def sample_get_def method_from_str_def)
  then show ?thesis using head_len_head_text [OF pl, of "[]"] t
    by (simp add: asks_def get_head_def head_text_def plain_target_def HEAD_LEN_MAX_def)
qed

section \<open>The requests of the session\<close>

definition nar_path :: string where "nar_path = slash # nar_url nar_target"
definition info_path :: string where "info_path = slash # hash_display (sp_hash (sample_path ''hello'')) @ NARINFO_SUFFIX"

lemma encode_chars: "c \<in> set (encode bs) \<Longrightarrow> c \<noteq> cr \<and> c \<noteq> CHR '' ''"
proof -
  have "cr \<notin> set ALPHABET \<and> CHR '' '' \<notin> set ALPHABET" by code_simp
  then show "c \<in> set (encode bs) \<Longrightarrow> c \<noteq> cr \<and> c \<noteq> CHR '' ''" using set_encode [of bs] by auto
qed

lemma paths_plain: "plain_target nar_path" "plain_target info_path"
proof -
  have "length (sha_bytes (digest sample ''nar'')) = 32"
    using sha_ok_digest [OF sample_sha_laws, of "''nar''"] by (cases "digest sample ''nar''") (simp add: sha_ok_def)
  then show "plain_target nar_path"
    using nar_name_ascii [of nar_target] encode_chars
    by (auto simp: plain_target_def nar_path_def nar_url_def PREFIX_def ascii_def nar_name_def nar_target_def
        sha_base32_def text_len_def BITS_def)
  show "plain_target info_path"
    using ascii_encode encode_chars
    by (auto simp: plain_target_def info_path_def sample_path_def hash_display_def NARINFO_SUFFIX_def ascii_def
        text_len_def BITS_def)
qed


section \<open>The samples work\<close>

lemma mem_fs_works: "fs_works mem_fsys mem_fs_views root"
  unfolding fs_works_def by (auto simp: mem_fsys_def mem_fs_views_def Let_def io_return_def split: option.splits)

lemma mem_redb_works: "redb_works mem_redb"
  unfolding redb_works_def by (simp add: mem_redb_def io_return_def)

lemma copy_zstd_works: "zstd_works copy_zstd copy_views"
  unfolding zstd_works_def by (auto simp: copy_zstd_def copy_views_def)

lemma string_sock_works: "sock_works string_sock string_views"
  unfolding sock_works_def by (auto simp: string_sock_def)

lemma mem_fs_serves: "fs_serves mem_fsys mem_fs_views"
  unfolding fs_serves_def by (auto simp: mem_fsys_def mem_fs_views_def Let_def io_return_def split: option.splits)

definition sample_session :: string where
  "sample_session = put_head nar_path 3 @ ''nar'' @ put_head info_path (of_nat (length fetch_body)) @ fetch_body @ get_head info_path"

lemma sample_machine:
  "machine string_sock string_views fetch_env copy_views mem_fs_views mem_views (sample_cache [''secret'']) 0
     (sample_serving inp no_files empty_rows)"
proof -
  have "level_new 3 = Some (ig_level (ca_ingest (sample_cache [''secret''])))"
    by (simp add: level_new_def sample_cache_def sample_ingest_def)
  moreover have "fs_good mem_fsys mem_fs_views no_files" "index_good mem_redb mem_views (e_rkyv fetch_env) empty_rows"
    using idle_fresh by (simp_all add: fresh_system_def idle_def)
  moreover have "hs_stats (sample_serving inp no_files empty_rows) = shards_new 1" by (simp add: sample_serving_def)
  ultimately show ?thesis unfolding machine_def
    using mem_fs_works mem_redb_works copy_zstd_laws copy_zstd_works string_sock_laws string_sock_works sample_sha_laws
    by (auto simp: sample_serving_simps shards_new_def)
qed

lemma fetch_body_text: "length fetch_body < 4096" "from_utf8 fetch_body = Inr fetch_body"
proof -
  have nums: "show_u64 10 = ''10''" "show_u64 3 = ''3''" by code_simp+
  have len: "length (sha_bytes (digest sample ''nar'')) = 32"
    using sha_ok_digest [OF sample_sha_laws, of "''nar''"] by (cases "digest sample ''nar''") (simp add: sha_ok_def)
  have "ascii fetch_body"
    using nar_name_ascii by (simp add: Narinfo.render_def fetch_decl_def sample_record_def nums dir_print_def path_display_def
        hash_display_def sha_display_def sha_base32_def nar_url_def PREFIX_def sample_path_def)
  then show "from_utf8 fetch_body = Inr fetch_body" by (rule from_utf8_ascii)
  show "length fetch_body < 4096"
    by (simp add: Narinfo.render_def fetch_decl_def sample_record_def nums dir_print_def path_display_def sample_hash_def
        text_len_def BITS_def hash_display_def sha_display_def sha_base32_def nar_url_def nar_name_def PREFIX_def
        sample_path_def ni_nar_def len)
qed

end
