(* ===== verification/LiveSpec.thy ===== *)
theory LiveSpec
  imports SampleLive
begin

text \<open>
  The two halves of a push succeed when nothing around the server fails, with witnesses on the
  instances of the samples, which work.
\<close>

lemma sample_push_ready:
  assumes "e_ext E = sample" "e_zstd E = copy_zstd" "e_fs E = mem_fsys" "e_redb E = mem_redb"
    and "index_good (e_redb E) mem_views (e_rkyv E) d"
  shows "push_ready string_sock string_views E copy_views mem_fs_views mem_views (sample_cache [''secret''])
    \<lparr>ex_shard = 0, ex_request = sample_put t n\<rparr> (sample_serving inp no_files d)"
proof -
  have "level_new 3 = Some (ig_level (ca_ingest (sample_cache [''secret''])))"
    by (simp add: level_new_def sample_cache_def sample_ingest_def)
  moreover have "no_links mem_fs_views no_files" by (simp add: no_links_def mem_fs_views_def no_files_def)
  moreover have "hs_stats (sample_serving inp no_files d) = shards_new 1" by (simp add: sample_serving_def)
  moreover have "admission_of sample (ca_tokens (sample_cache [''secret''])) (sample_put t n) = Admitted"
    using sample_admitted by (simp add: sample_cache_def)
  ultimately show ?thesis unfolding push_ready_def machine_def fs_good_def
    using assms mem_fs_laws mem_fs_works mem_redb_works copy_zstd_laws copy_zstd_works string_sock_laws
      string_sock_works sample_sha_laws
    by (auto simp: sample_serving_simps shards_new_def)
qed

section \<open>Success\<close>

text \<open>
  C10. An upload completes. On a machine that works, an admitted \<open>PUT\<close> of an uncompressed NAR whose
  body arrives, is not empty and has the digest in the URL is answered \<open>201\<close>: exactly the body is
  consumed, and afterwards an artifact that decompresses to it is stored and recorded under that
  digest.
\<close>

theorem push_succeeds:
  assumes "push_ready S W E Y V U ca ex x"
    and "route_resolve (e_ext E) (rq_target (ex_request ex)) = Inr (R_Nar url)" "compression url = NoCompression"
    and "rq_framing (ex_request ex) = FrameLength n" "to_come W x = body @ rest" "length body = unat n"
    and "body \<noteq> []" "length body < 2 ^ 63" "digest (e_ext E) body = file_hash url"
    and "\<forall>a. unzstd Y a = Some body \<longrightarrow> \<not> isl (rk_entry_bytes (e_rkyv E) (stored_entry (e_ext E) a body))"
  shows "\<exists>x' a. handle S E ca ex x = (Inr (rq_keep_alive (ex_request ex)), x') \<and> to_come W x' = rest \<and>
    said W x' = said W x @ interim (ex_request ex) @ bare S_Created (rq_keep_alive (ex_request ex)) 0 \<and>
    unzstd Y a = Some body \<and>
    artifacts V (w_root (hs_world x)) (w_fs (hs_world x')) (stored_url (e_ext E) a) = Some a \<and>
    nars U (e_rkyv E) (w_db (hs_world x')) (file_hash url) = Some (stored_entry (e_ext E) a body)"
proof -
  from assms(10) have enc: "\<not> isl (rk_entry_bytes (e_rkyv E) (stored_entry (e_ext E) a body))"
    if "unzstd Y a = Some body" for a using that by blast
  show ?thesis using push_completes [OF assms(1-9) enc] by (metis fun_upd_same)
qed

theorem push_succeeds_witness:
  "\<exists>x'. handle string_sock push_env (sample_cache [''secret'']) sample_push
       (sample_serving ''narX'' no_files empty_rows) = (Inr Keep, x') \<and> to_come string_views x' = ''X'' \<and>
     nars mem_views (e_rkyv push_env) (w_db (hs_world x')) (digest sample ''nar'') = Some (stored_entry sample ''nar'' ''nar'')"
proof -
  have "index_good (e_redb push_env) mem_views (e_rkyv push_env) empty_rows"
    unfolding push_env_simps index_good_def
    by (simp add: mem_redb_laws known_rkyv_laws) (simp add: rows_ok_def mem_views_def)
  note ready = sample_push_ready [OF push_env_simps(1-4) this]
  have "narurl_ok nar_target" by (simp add: narurl_ok_def nar_target_def sha_ok_digest sample_sha_laws)
  then have route: "route_resolve (e_ext push_env) (rq_target (ex_request sample_push)) = Inr (R_Nar nar_target)"
    using route_resolve_nar [of nar_target "[]" sample] by (simp add: query_def)
  have come: "to_come string_views (sample_serving ''narX'' no_files empty_rows) = ''nar'' @ ''X''"
    by (simp add: sample_serving_simps string_views_def)
  have "digest (e_ext push_env) ''nar'' = file_hash nar_target" "compression nar_target = NoCompression"
    by (simp_all add: nar_target_def)
  moreover have "\<not> isl (rk_entry_bytes (e_rkyv push_env) (stored_entry (e_ext push_env) a ''nar''))"
    if "unzstd copy_views a = Some ''nar''" for a
    using that by (simp add: copy_views_def known_rkyv_def)
  ultimately obtain x' a where "handle string_sock push_env (sample_cache [''secret'']) sample_push
       (sample_serving ''narX'' no_files empty_rows) = (Inr Keep, x')" "to_come string_views x' = ''X''"
    "unzstd copy_views a = Some ''nar''"
    "nars mem_views (e_rkyv push_env) (w_db (hs_world x')) (file_hash nar_target) = Some (stored_entry sample a ''nar'')"
    using push_succeeds [OF ready route _ _ come, of 3] by auto
  then show ?thesis by (auto simp: copy_views_def nar_target_def)
qed

text \<open>
  C11. A publish completes. On a machine that works, an admitted \<open>PUT\<close> of a narinfo whose body is a
  valid record of a NAR that was received with the declared size is answered \<open>201\<close>, and afterwards the
  index has, under the record's store path, the record described by what was received and signed by
  the server.
\<close>

theorem publish_succeeds:
  assumes "push_ready S W E Y V U ca ex x"
    and "route_resolve (e_ext E) (rq_target (ex_request ex)) = Inr (R_Narinfo key)"
    and "rq_framing (ex_request ex) = FrameLength n" "n \<le> METADATA_BODY_MAX"
    and "to_come W x = body @ rest" "length body = unat n" "from_utf8 body = Inr str"
    and "NarinfoParse.parse (e_ext E) str (ig_dir (ca_ingest ca)) = Inr q"
    and "nars U (e_rkyv E) (w_db (hs_world x)) (ni_nar_hash q) = Some e" "en_nar_size e = ni_nar_size q"
    and "resign (e_ext E) (ig_dir (ca_ingest ca)) (ig_key (ca_ingest ca)) (publish_record q e) = p"
    and "rk_narinfo_bytes (e_rkyv E) p = Inr bytes"
  shows "\<exists>x'. handle S E ca ex x = (Inr (rq_keep_alive (ex_request ex)), x') \<and> to_come W x' = rest \<and>
    said W x' = said W x @ interim (ex_request ex) @ bare S_Created (rq_keep_alive (ex_request ex)) 0 \<and>
    infos U (e_rkyv E) (w_db (hs_world x')) (sp_hash (ni_store_path q)) = Some p"
proof -
  have "\<not> isl (rk_narinfo_bytes (e_rkyv E) (resign (e_ext E) (ig_dir (ca_ingest ca)) (ig_key (ca_ingest ca))
    (publish_record q e)))" using assms(11,12) by simp
  from publish_completes [OF assms(1-10) this] assms(11) show ?thesis by (metis fun_upd_same)
qed

theorem publish_succeeds_witness:
  "\<exists>x'. handle string_sock (sample_env [sample_published]) (sample_cache [''secret'']) sample_publish
       (sample_serving sample_body no_files uploaded_rows) = (Inr Keep, x') \<and>
     infos mem_views (sample_rkyv [sample_published]) (w_db (hs_world x')) (sp_hash (sample_path ''hello'')) = Some sample_published"
proof -
  let ?E = "sample_env [sample_published]" and ?ca = "sample_cache [''secret'']"
  let ?h = "SpHash (replicate 20 3)" and ?n = "of_nat (length sample_body) :: u64"
  have E: "e_ext ?E = sample" "e_zstd ?E = copy_zstd" "e_fs ?E = mem_fsys" "e_redb ?E = mem_redb"
    "e_rkyv ?E = sample_rkyv [sample_published]" by (simp_all add: sample_env_def)
  have ig: "ca_ingest ?ca = sample_ingest" by (simp add: sample_cache_def)
  have "index_good (e_redb ?E) mem_views (e_rkyv ?E) uploaded_rows" using uploaded_good E by simp
  note ready = sample_push_ready [OF E(1-4) this]
  have route: "route_resolve (e_ext ?E) (rq_target (ex_request sample_publish)) = Inr (R_Narinfo ?h)"
    using route_resolve_narinfo [of ?h "[]" sample] by (simp add: hash_ok_def query_def E)
  have n: "?n \<le> METADATA_BODY_MAX" "length sample_body = unat ?n"
    using sample_body_text(1) by (simp_all add: METADATA_BODY_MAX_def word_le_nat_alt unat_of_nat64)
  have fr: "rq_framing (ex_request sample_publish) = FrameLength ?n" by simp
  have come: "to_come string_views (sample_serving sample_body no_files uploaded_rows) = sample_body @ []"
    by (simp only: sample_serving_simps conn_new_view string_views_def sock_views.simps fst_conv append_Nil2)
  have dir: "ig_dir (ca_ingest ?ca) = Dir ''/nix/store''" "ig_key (ca_ingest ?ca) = sample_key"
    by (simp_all add: ig sample_ingest_def)
  have parse: "NarinfoParse.parse (e_ext ?E) sample_body (ig_dir (ca_ingest ?ca)) = Inr sample_record"
    unfolding E dir by (rule parse_sample_body)
  have rows: "w_db (hs_world (sample_serving sample_body no_files uploaded_rows)) = uploaded_rows"
    by (simp only: sample_serving_simps)
  have nar: "nars mem_views (e_rkyv ?E) (w_db (hs_world (sample_serving sample_body no_files uploaded_rows)))
      (ni_nar_hash sample_record) = Some sample_entry" unfolding rows E
    by (simp add: nars_def nars_of_def mem_views_def uploaded_rows_def sample_rkyv_def known_rkyv_def decode_nar_def
        at_place_def sample_record_simps)
  have size: "en_nar_size sample_entry = ni_nar_size sample_record" by (simp add: sample_entry_def sample_record_simps)
  have p: "resign (e_ext ?E) (ig_dir (ca_ingest ?ca)) (ig_key (ca_ingest ?ca)) (publish_record sample_record sample_entry) =
      sample_published" unfolding E dir by (simp only: sample_published_def)
  have enc: "rk_narinfo_bytes (e_rkyv ?E) sample_published = Inr []"
    by (simp add: E sample_rkyv_def known_rkyv_def)
  have sp: "ni_store_path sample_record = sample_path ''hello''" by (simp only: sample_record_simps)
  have keep: "rq_keep_alive (ex_request sample_publish) = Keep" by simp
  from publish_succeeds [OF ready route fr n(1) come n(2) sample_body_text(2) parse nar size p enc]
  show ?thesis unfolding sp keep E by blast
qed

section \<open>Push, publish and fetch\<close>

text \<open>A request that uploads a NAR, and one that publishes a record.\<close>

definition uploads :: "('e, 'z, 'f, 'h, 'd, 'r, 't) env \<Rightarrow> cache \<Rightarrow> request \<Rightarrow> string \<Rightarrow> bool" where
  "uploads E ca rq nar \<longleftrightarrow>
     rq_method rq = Put \<and> admission_of (e_ext E) (ca_tokens ca) rq = Admitted \<and>
     route_resolve (e_ext E) (rq_target rq) =
       Inr (R_Nar \<lparr>file_hash = digest (e_ext E) nar, compression = NoCompression\<rparr>) \<and>
     rq_framing rq = FrameLength (of_nat (length nar)) \<and> nar \<noteq> [] \<and> length nar < 2 ^ 63"

definition announces :: "('e, 'z, 'f, 'h, 'd, 'r, 't) env \<Rightarrow> cache \<Rightarrow> request \<Rightarrow> string \<Rightarrow> narinfo \<Rightarrow> bool" where
  "announces E ca rq info q \<longleftrightarrow>
     rq_method rq = Put \<and> admission_of (e_ext E) (ca_tokens ca) rq = Admitted \<and>
     (\<exists>key. route_resolve (e_ext E) (rq_target rq) = Inr (R_Narinfo key)) \<and>
     rq_framing rq = FrameLength (of_nat (length info)) \<and> length info \<le> unat METADATA_BODY_MAX \<and>
     (\<exists>str. from_utf8 info = Inr str \<and> NarinfoParse.parse (e_ext E) str (ig_dir (ca_ingest ca)) = Inr q)"

lemma machine_conn: "machine S W E Y V U ca i x \<Longrightarrow> machine S W E Y V U ca i (x\<lparr>hs_conn := c\<rparr>)"
  by (simp add: machine_def)

lemma machine_turn:
  assumes "machine S W E Y V U ca i x" "asks h rq" "to_come W x = h @ rest"
  obtains c where "to_come W (x\<lparr>hs_conn := c\<rparr>) = rest" "said W (x\<lparr>hs_conn := c\<rparr>) = said W x"
    "\<And>k x' n. handle S E ca \<lparr>ex_shard = i, ex_request = rq\<rparr> (x\<lparr>hs_conn := c\<rparr>) = (Inr k, x') \<Longrightarrow>
       session S E ca i (Suc n) x = (if k = Close then (Inr True, x') else session S E ca i n x')"
proof -
  have "sock_works S W" "sock_laws S W" using assms(1) by (simp_all add: machine_def)
  from turn_handles [OF this assms(2,3), of E ca i] that show thesis by blast
qed

lemma upload_turn:
  assumes m: "machine S W E Y V U ca i x" and h: "asks h rq" "to_come W x = h @ nar @ rest"
    and up: "uploads E ca rq nar" "rq_keep_alive rq = Keep"
    and enc: "\<And>a. unzstd Y a = Some nar \<Longrightarrow> \<not> isl (rk_entry_bytes (e_rkyv E) (stored_entry (e_ext E) a nar))"
  obtains x' a where "\<And>n. session S E ca i (Suc n) x = session S E ca i n x'" "to_come W x' = rest"
    "said W x' = said W x @ interim rq @ bare S_Created Keep 0" "machine S W E Y V U ca i x'"
    "unzstd Y a = Some nar" "length a < 2 ^ 64"
    "artifacts V (w_root (hs_world x')) (w_fs (hs_world x')) (stored_url (e_ext E) a) = Some a"
    "nars U (e_rkyv E) (w_db (hs_world x')) (digest (e_ext E) nar) = Some (stored_entry (e_ext E) a nar)"
proof -
  note U = up(1) [unfolded uploads_def]
  let ?ex = "\<lparr>ex_shard = i, ex_request = rq\<rparr>"
  obtain c where c: "to_come W (x\<lparr>hs_conn := c\<rparr>) = nar @ rest" "said W (x\<lparr>hs_conn := c\<rparr>) = said W x"
    and run: "\<And>k x' n. handle S E ca ?ex (x\<lparr>hs_conn := c\<rparr>) = (Inr k, x') \<Longrightarrow>
       session S E ca i (Suc n) x = (if k = Close then (Inr True, x') else session S E ca i n x')"
    using machine_turn [OF m h] by blast
  have ready: "push_ready S W E Y V U ca ?ex (x\<lparr>hs_conn := c\<rparr>)"
    using machine_conn [OF m, of c] U by (simp add: push_ready_def)
  have len: "length nar = unat (of_nat (length nar) :: u64)" using U by (simp add: unat_of_nat64)
  obtain x' a where x': "handle S E ca ?ex (x\<lparr>hs_conn := c\<rparr>) = (Inr Keep, x')" "to_come W x' = rest"
    "said W x' = said W x @ interim rq @ bare S_Created Keep 0" "unzstd Y a = Some nar" "length a < 2 ^ 64"
    "machine S W E Y V U ca i x'" "w_root (hs_world x') = w_root (hs_world x)"
    "artifacts V (w_root (hs_world x)) (w_fs (hs_world x')) =
       (artifacts V (w_root (hs_world x)) (w_fs (hs_world x)))(stored_url (e_ext E) a \<mapsto> a)"
    "nars U (e_rkyv E) (w_db (hs_world x')) =
       (nars U (e_rkyv E) (w_db (hs_world x)))(digest (e_ext E) nar \<mapsto> stored_entry (e_ext E) a nar)"
    by (rule push_completes [OF ready, of "\<lparr>file_hash = digest (e_ext E) nar, compression = NoCompression\<rparr>", OF _ _ _ c(1) len])
      (use U enc up(2) c(2) in simp_all)
  show thesis
  proof (rule that [of x' a])
    show "session S E ca i (Suc n) x = session S E ca i n x'" for n using run [OF x'(1)] by simp
  qed (use x' in simp_all)
qed

lemma announce_turn:
  assumes m: "machine S W E Y V U ca i x" and h: "asks h rq" "to_come W x = h @ info @ rest"
    and up: "announces E ca rq info q" "rq_keep_alive rq = Keep"
    and e: "nars U (e_rkyv E) (w_db (hs_world x)) (ni_nar_hash q) = Some e" "en_nar_size e = ni_nar_size q"
  defines "p \<equiv> resign (e_ext E) (ig_dir (ca_ingest ca)) (ig_key (ca_ingest ca)) (publish_record q e)"
  assumes enc: "\<not> isl (rk_narinfo_bytes (e_rkyv E) p)"
  obtains x' where "\<And>n. session S E ca i (Suc n) x = session S E ca i n x'" "to_come W x' = rest"
    "said W x' = said W x @ interim rq @ bare S_Created Keep 0" "machine S W E Y V U ca i x'"
    "infos U (e_rkyv E) (w_db (hs_world x')) (sp_hash (ni_store_path q)) = Some p"
    "w_store (hs_world x') = w_store (hs_world x)" "w_fs (hs_world x') = w_fs (hs_world x)"
proof -
  note U = up(1) [unfolded announces_def]
  obtain key str where k: "route_resolve (e_ext E) (rq_target rq) = Inr (R_Narinfo key)" "from_utf8 info = Inr str"
    "NarinfoParse.parse (e_ext E) str (ig_dir (ca_ingest ca)) = Inr q" using U by blast
  let ?ex = "\<lparr>ex_shard = i, ex_request = rq\<rparr>" and ?n = "of_nat (length info) :: u64"
  obtain c where c: "to_come W (x\<lparr>hs_conn := c\<rparr>) = info @ rest" "said W (x\<lparr>hs_conn := c\<rparr>) = said W x"
    and run: "\<And>k x' n. handle S E ca ?ex (x\<lparr>hs_conn := c\<rparr>) = (Inr k, x') \<Longrightarrow>
       session S E ca i (Suc n) x = (if k = Close then (Inr True, x') else session S E ca i n x')"
    using machine_turn [OF m h] by blast
  have ready: "push_ready S W E Y V U ca ?ex (x\<lparr>hs_conn := c\<rparr>)"
    using machine_conn [OF m, of c] U by (simp add: push_ready_def)
  have "length info < 2 ^ 64" using U unat_less64 [of METADATA_BODY_MAX] by linarith
  then have len: "length info = unat ?n" "?n \<le> METADATA_BODY_MAX"
    using U by (simp_all add: unat_of_nat64 word_le_nat_alt)
  obtain x' where x': "handle S E ca ?ex (x\<lparr>hs_conn := c\<rparr>) = (Inr Keep, x')" "to_come W x' = rest"
    "said W x' = said W x @ interim rq @ bare S_Created Keep 0"
    "infos U (e_rkyv E) (w_db (hs_world x')) = (infos U (e_rkyv E) (w_db (hs_world x)))(sp_hash (ni_store_path q) \<mapsto> p)"
    "hs_world x' = (hs_world x)\<lparr>w_db := w_db (hs_world x')\<rparr>" "machine S W E Y V U ca i x'"
    using publish_completes [OF ready _ _ len(2) c(1) len(1) k(2) _ _ e(2)] U k(1,3) e(1) enc up(2) c(2)
    unfolding p_def by auto
  have w: "w_store (hs_world x') = w_store (hs_world x)" "w_fs (hs_world x') = w_fs (hs_world x)"
    by (subst x'(5), simp)+
  show thesis
  proof (rule that [of x'])
    show "session S E ca i (Suc n) x = session S E ca i n x'" for n using run [OF x'(1)] by simp
  qed (use x' w in simp_all)
qed

lemma record_turn:
  assumes m: "machine S W E Y V U ca i x" and h: "asks h rq" "to_come W x = h @ rest"
    and rq: "rq_method rq = Get" "rq_framing rq \<noteq> FrameChunked" "rq_keep_alive rq = Keep"
      "rq_target rq = slash # hash_display g @ NARINFO_SUFFIX"
    and rec: "infos U (e_rkyv E) (w_db (hs_world x)) g = Some p"
  obtains x' where "\<And>n. session S E ca i (Suc n) x = session S E ca i n x'" "to_come W x' = rest"
    "said W x' = said W x @ with_body (head_header (head_new S_Ok Keep) ''Content-Type'' NARINFO_CONTENT_TYPE)
       (Narinfo.render (e_ext E) (ig_dir (ca_ingest ca)) p)" "hs_world x' = hs_world x"
proof -
  note M = m [unfolded machine_def]
  let ?ex = "\<lparr>ex_shard = i, ex_request = rq\<rparr>"
  obtain c where c: "to_come W (x\<lparr>hs_conn := c\<rparr>) = rest" "said W (x\<lparr>hs_conn := c\<rparr>) = said W x"
    and run: "\<And>k x' n. handle S E ca ?ex (x\<lparr>hs_conn := c\<rparr>) = (Inr k, x') \<Longrightarrow>
       session S E ca i (Suc n) x = (if k = Close then (Inr True, x') else session S E ca i n x')"
    using machine_turn [OF m h] by blast
  have "sp_hash (ni_store_path p) = g \<and> core_ok p"
    using infos_of_Some [of "e_rkyv E" "v_db U (w_db (hs_world x))" g p] rec M by (simp add: index_good_def infos_def)
  then have "hash_ok g" by (auto simp: core_ok_def path_ok_def)
  then have route: "route_resolve (e_ext E) (rq_target (ex_request ?ex)) = Inr (R_Narinfo g)"
    using route_resolve_narinfo [of g "[]" "e_ext E"] rq(4) by (simp add: query_def)
  obtain x' where x': "handle S E ca ?ex (x\<lparr>hs_conn := c\<rparr>) = (Inr Keep, x')" "to_come W x' = rest" "hs_world x' = hs_world x"
    "said W x' = said W x @ with_body (head_header (head_new S_Ok Keep) ''Content-Type'' NARINFO_CONTENT_TYPE)
       (Narinfo.render (e_ext E) (ig_dir (ca_ingest ca)) p)"
    by (rule record_is_sent [OF _ _ _ _ _ _ _ route, of S W U "x\<lparr>hs_conn := c\<rparr>" p ca]) (use M rec rq c in auto)
  show thesis
  proof (rule that [of x'])
    show "session S E ca i (Suc n) x = session S E ca i n x'" for n using run [OF x'(1)] by simp
  qed (use x' in simp_all)
qed

text \<open>The record the server makes of a declaration when the artifact of the NAR is \<open>a\<close>.\<close>

definition served_record :: "('e, 'z, 'f, 'h, 'd, 'r, 't) env \<Rightarrow> cache \<Rightarrow> narinfo \<Rightarrow> string \<Rightarrow> string \<Rightarrow> narinfo" where
  "served_record E ca q nar a = resign (e_ext E) (ig_dir (ca_ingest ca)) (ig_key (ca_ingest ca))
     (publish_record q (stored_entry (e_ext E) a nar))"

text \<open>
  C3. What a client pushes, a client fetches. On a machine that works, a connection that carries the
  bytes of three requests is served in three turns: the upload of a NAR is answered \<open>201\<close>, the publish
  of a narinfo for it is answered \<open>201\<close>, and the \<open>GET\<close> of the narinfo is answered with the record the
  server made of it, signed with the server's key. From then on, as long as the store and the index are not
  changed, a \<open>GET\<close> of the URL in that record is answered with an artifact that decompresses to the
  pushed NAR.
\<close>

theorem pushed_nar_is_served:
  assumes "machine S W E Y V U ca i x" "fs_serves (e_fs E) V" "unzstd Y [] \<in> {None, Some []}"
    and "to_come W x = h1 @ nar @ h2 @ info @ h3 @ rest" "asks h1 rq1" "asks h2 rq2" "asks h3 rq3"
    and "rq_keep_alive rq1 = Keep" "rq_keep_alive rq2 = Keep" "rq_keep_alive rq3 = Keep"
    and "uploads E ca rq1 nar" "announces E ca rq2 info q"
    and "ni_nar_hash q = digest (e_ext E) nar" "ni_nar_size q = of_nat (length nar)"
    and "rq_method rq3 = Get" "rq_framing rq3 \<noteq> FrameChunked"
      "rq_target rq3 = slash # hash_display (sp_hash (ni_store_path q)) @ NARINFO_SUFFIX"
    and "\<forall>a. unzstd Y a = Some nar \<longrightarrow> \<not> isl (rk_entry_bytes (e_rkyv E) (stored_entry (e_ext E) a nar)) \<and>
      \<not> isl (rk_narinfo_bytes (e_rkyv E) (served_record E ca q nar a))"
  shows "\<exists>x' a. session S E ca i 3 x = (Inr False, x') \<and> to_come W x' = rest \<and>
    said W x' = said W x @ interim rq1 @ bare S_Created Keep 0 @ interim rq2 @ bare S_Created Keep 0 @
      with_body (head_header (head_new S_Ok Keep) ''Content-Type'' NARINFO_CONTENT_TYPE)
        (Narinfo.render (e_ext E) (ig_dir (ca_ingest ca)) (served_record E ca q nar a)) \<and>
    ni_sigs (served_record E ca q nar a) = [sign (e_ext E) (ig_key (ca_ingest ca)) (fingerprint (served_record E ca q nar a) (ig_dir (ca_ingest ca)))] \<and>
    unzstd Y a = Some nar \<and>
    (\<forall>ex y. world_is V (hs_world x') y \<longrightarrow> ex_shard ex < length (hs_stats y) \<longrightarrow>
       rq_method (ex_request ex) = Get \<longrightarrow> rq_framing (ex_request ex) \<noteq> FrameChunked \<longrightarrow>
       rq_range (ex_request ex) = None \<longrightarrow> rq_target (ex_request ex) = slash # nar_url (ni_nar (served_record E ca q nar a)) \<longrightarrow>
       (\<exists>y'. handle S E ca ex y = (Inr (rq_keep_alive (ex_request ex)), y') \<and> to_come W y' = to_come W y \<and>
          said W y' = said W y @ with_body (head_header (head_header (head_new S_Ok (rq_keep_alive (ex_request ex)))
            ''Content-Type'' NAR_CONTENT_TYPE) ''Accept-Ranges'' ''bytes'') a))"
proof -
  let ?p = "\<lambda>a. served_record E ca q nar a"
  note p = served_record_def [of E ca q nar] and enc = assms(18) [rule_format]
  obtain x1 a where t1: "\<And>n. session S E ca i (Suc n) x = session S E ca i n x1" "to_come W x1 = h2 @ info @ h3 @ rest"
    "said W x1 = said W x @ interim rq1 @ bare S_Created Keep 0" "machine S W E Y V U ca i x1"
    and a: "unzstd Y a = Some nar" "length a < 2 ^ 64"
      "artifacts V (w_root (hs_world x1)) (w_fs (hs_world x1)) (stored_url (e_ext E) a) = Some a"
    and e: "nars U (e_rkyv E) (w_db (hs_world x1)) (digest (e_ext E) nar) = Some (stored_entry (e_ext E) a nar)"
    using upload_turn [OF assms(1,5,4,11,8)] enc by blast
  have e: "nars U (e_rkyv E) (w_db (hs_world x1)) (ni_nar_hash q) = Some (stored_entry (e_ext E) a nar)"
    "en_nar_size (stored_entry (e_ext E) a nar) = ni_nar_size q"
    using e assms(13,14) assms(11) [unfolded uploads_def] by (simp_all add: stored_entry_def u64_from_usize_def)
  have enc2: "\<not> isl (rk_narinfo_bytes (e_rkyv E) (?p a))" using enc [OF a(1)] by blast
  obtain x2 where t2: "\<And>n. session S E ca i (Suc n) x1 = session S E ca i n x2" "to_come W x2 = h3 @ rest"
    "said W x2 = said W x1 @ interim rq2 @ bare S_Created Keep 0" "machine S W E Y V U ca i x2"
    "infos U (e_rkyv E) (w_db (hs_world x2)) (sp_hash (ni_store_path q)) = Some (?p a)"
    "w_store (hs_world x2) = w_store (hs_world x1)" "w_fs (hs_world x2) = w_fs (hs_world x1)"
    using announce_turn [OF t1(4) assms(6) t1(2) assms(12,9) e] enc2 unfolding p by blast
  obtain x3 where t3: "\<And>n. session S E ca i (Suc n) x2 = session S E ca i n x3" "to_come W x3 = rest"
    "said W x3 = said W x2 @ with_body (head_header (head_new S_Ok Keep) ''Content-Type'' NARINFO_CONTENT_TYPE)
       (Narinfo.render (e_ext E) (ig_dir (ca_ingest ca)) (?p a))" "hs_world x3 = hs_world x2"
    using record_turn [OF t2(4) assms(7) t2(2) assms(15,16,10,17) t2(5)] by blast
  have run: "session S E ca i 3 x = (Inr False, x3)"
    unfolding numeral_3_eq_3 using t1(1) t2(1) t3(1) by (simp del: session.simps(2) add: io_return_def)
  have url: "ni_nar (?p a) = stored_url (e_ext E) a" "narurl_ok (stored_url (e_ext E) a)"
  proof -
    show "ni_nar (?p a) = stored_url (e_ext E) a"
      by (simp only: p published_fields) (simp add: entry_url_def stored_entry_def stored_url_def)
    show "narurl_ok (stored_url (e_ext E) a)"
      using assms(1) by (simp add: stored_url_def narurl_ok_def sha_ok_digest machine_def)
  qed
  have "nar \<noteq> []" using assms(11) by (simp add: uploads_def)
  then have ne: "a \<noteq> []" using a(1) assms(3) by auto
  have M: "sock_laws S W" "sock_works S W" "fs_laws (e_fs E) V" using t1(4) by (simp_all add: machine_def fs_good_def)
  have get: "\<exists>y'. handle S E ca ex y = (Inr (rq_keep_alive (ex_request ex)), y') \<and> to_come W y' = to_come W y \<and>
      said W y' = said W y @ with_body (head_header (head_header (head_new S_Ok (rq_keep_alive (ex_request ex)))
        ''Content-Type'' NAR_CONTENT_TYPE) ''Accept-Ranges'' ''bytes'') a"
    if y: "world_is V (hs_world x3) y" "ex_shard ex < length (hs_stats y)" and rq: "rq_method (ex_request ex) = Get"
      "rq_framing (ex_request ex) \<noteq> FrameChunked" "rq_range (ex_request ex) = None"
      "rq_target (ex_request ex) = slash # nar_url (ni_nar (?p a))" for ex y
  proof -
    have "route_resolve (e_ext E) (rq_target (ex_request ex)) = Inr (R_Nar (stored_url (e_ext E) a))"
      using route_resolve_nar [OF url(2), of "[]"] rq(4) url(1) by (simp add: query_def)
    moreover have "artifacts V (w_root (hs_world y)) (w_fs (hs_world y)) (stored_url (e_ext E) a) = Some a"
      using world_is_artifacts [OF y(1)] a(3) t2(6,7) t3(4) by simp
    ultimately show ?thesis
      using artifact_is_sent [OF M assms(2) url(2) _ ne a(2) rq(1,2) _ y(2), of ca] whole_answer [OF ne a(2) rq(3)] by metis
  qed
  show ?thesis using run t1(3) t2(3) t3(2,3) a(1) get published_fields(7) p by (intro exI [of _ x3] exI [of _ a]) simp
qed

theorem pushed_nar_is_served_witness:
  "\<exists>x'. session string_sock fetch_env (sample_cache [''secret'']) 0 3 (sample_serving sample_session no_files empty_rows) =
       (Inr False, x') \<and> to_come string_views x' = [] \<and>
     (\<exists>y'. handle string_sock fetch_env (sample_cache [''secret''])
          \<lparr>ex_shard = 0, ex_request = sample_get (slash # nar_url nar_url_stored) None\<rparr>
          ((sample_serving [] no_files empty_rows)\<lparr>hs_world := hs_world x'\<rparr>) = (Inr Keep, y') \<and>
        said string_views y' = with_body (head_header (head_header (head_new S_Ok Keep)
          ''Content-Type'' NAR_CONTENT_TYPE) ''Accept-Ranges'' ''bytes'') ''nar'')"
proof -
  let ?ca = "sample_cache [''secret'']" and ?x = "sample_serving sample_session no_files empty_rows"
  let ?put = "sample_put nar_path 3" and ?pub = "sample_put info_path (of_nat (length fetch_body))"
  let ?get = "sample_get info_path None" and ?fetch = "\<lparr>ex_shard = 0, ex_request = sample_get (slash # nar_url nar_url_stored) None\<rparr>"
  let ?y = "\<lambda>x'. (sample_serving [] no_files empty_rows)\<lparr>hs_world := hs_world x'\<rparr>"
  have ca: "ca_ingest ?ca = sample_ingest" "ca_tokens ?ca = tokens_new sample [''secret'']" by (simp_all add: sample_cache_def)
  have serves: "fs_serves (e_fs fetch_env) mem_fs_views" "unzstd copy_views [] \<in> {None, Some []}"
    by (simp_all add: mem_fs_serves copy_views_def)
  have come: "to_come string_views ?x = put_head nar_path 3 @ ''nar'' @ put_head info_path (of_nat (length fetch_body)) @
      fetch_body @ get_head info_path @ []"
    by (simp only: sample_serving_simps conn_new_view string_views_def sock_views.simps fst_conv append_Nil2 sample_session_def)
  have keep: "rq_keep_alive ?put = Keep" "rq_keep_alive ?pub = Keep" "rq_keep_alive ?get = Keep" by simp_all
  have "narurl_ok nar_target" by (simp add: narurl_ok_def nar_target_def sha_ok_digest sample_sha_laws)
  then have up: "uploads fetch_env ?ca ?put ''nar''"
    using sample_admitted route_resolve_nar [of nar_target "[]" sample]
    by (simp add: uploads_def ca query_def nar_path_def nar_target_def)
  have an: "announces fetch_env ?ca ?pub fetch_body fetch_decl"
  proof -
    have "hash_ok (sp_hash (sample_path ''hello''))" using sample_path_ok by (simp add: path_ok_def)
    then have "route_resolve sample info_path = Inr (R_Narinfo (sp_hash (sample_path ''hello'')))"
      using route_resolve_narinfo [of "sp_hash (sample_path ''hello'')" "[]" sample] by (simp add: info_path_def query_def)
    moreover have "length fetch_body \<le> unat METADATA_BODY_MAX"
      using fetch_body_text(1) by (simp add: METADATA_BODY_MAX_def)
    moreover have "ig_dir sample_ingest = Dir ''/nix/store''" by (simp add: sample_ingest_def)
    ultimately show ?thesis using sample_admitted fetch_body_text(2) parse_fetch_body
      unfolding announces_def by (simp add: ca)
  qed
  have served: "served_record fetch_env ?ca fetch_decl ''nar'' ''nar'' = fetch_record"
    by (simp add: served_record_def ca sample_ingest_def fetch_record_def fetch_entry_def)
  have decl: "ni_nar_hash fetch_decl = digest (e_ext fetch_env) ''nar''" "ni_nar_size fetch_decl = of_nat (length ''nar'')"
    by (simp_all add: fetch_decl_simps)
  have get: "rq_method ?get = Get" "rq_framing ?get \<noteq> FrameChunked"
      "rq_target ?get = slash # hash_display (sp_hash (ni_store_path fetch_decl)) @ NARINFO_SUFFIX"
    by (simp_all add: info_path_def fetch_decl_simps)
  have enc: "\<forall>a. unzstd copy_views a = Some ''nar'' \<longrightarrow>
      \<not> isl (rk_entry_bytes (e_rkyv fetch_env) (stored_entry (e_ext fetch_env) a ''nar'')) \<and>
      \<not> isl (rk_narinfo_bytes (e_rkyv fetch_env) (served_record fetch_env ?ca fetch_decl ''nar'' a))"
    using served by (auto simp: copy_views_def known_rkyv_def fetch_entry_def)
  note all = pushed_nar_is_served [OF sample_machine serves come asks_put [OF paths_plain(1)] asks_put [OF paths_plain(2)]
      asks_get [OF paths_plain(2)] keep up an decl get enc]
  then obtain x' a where x': "session string_sock fetch_env ?ca 0 3 ?x = (Inr False, x')" "to_come string_views x' = []"
    and a: "unzstd copy_views a = Some ''nar''"
    and fetch: "\<forall>ex y. world_is mem_fs_views (hs_world x') y \<longrightarrow> ex_shard ex < length (hs_stats y) \<longrightarrow>
       rq_method (ex_request ex) = Get \<longrightarrow> rq_framing (ex_request ex) \<noteq> FrameChunked \<longrightarrow>
       rq_range (ex_request ex) = None \<longrightarrow>
       rq_target (ex_request ex) = slash # nar_url (ni_nar (served_record fetch_env ?ca fetch_decl ''nar'' a)) \<longrightarrow>
       (\<exists>y'. handle string_sock fetch_env ?ca ex y = (Inr (rq_keep_alive (ex_request ex)), y') \<and>
          to_come string_views y' = to_come string_views y \<and>
          said string_views y' = said string_views y @ with_body (head_header (head_header (head_new S_Ok (rq_keep_alive (ex_request ex)))
            ''Content-Type'' NAR_CONTENT_TYPE) ''Accept-Ranges'' ''bytes'') a)" by blast
  have a: "a = ''nar''" using a by (simp add: copy_views_def)
  have "ni_nar fetch_record = nar_url_stored"
    by (simp only: fetch_record_def published_fields) (simp add: entry_url_def fetch_entry_def stored_entry_def nar_url_stored_def stored_url_def)
  moreover have "world_is mem_fs_views (hs_world x') (?y x')" using world_is_refl [of mem_fs_views "?y x'"] by simp
  ultimately obtain y' where "handle string_sock fetch_env ?ca ?fetch (?y x') = (Inr Keep, y')"
    "said string_views y' = said string_views (?y x') @ with_body (head_header (head_header (head_new S_Ok Keep)
            ''Content-Type'' NAR_CONTENT_TYPE) ''Accept-Ranges'' ''bytes'') ''nar''"
    using fetch [rule_format, of "?y x'" ?fetch] served a by auto
  moreover have "said string_views (?y x') = []" by (simp add: sample_serving_simps string_views_def)
  ultimately show ?thesis using x' by (intro exI [of _ x'] conjI exI [of _ y']) simp_all
qed

end
