(* ===== verification/StagingLaws.thy ===== *)
theory StagingLaws
  imports SystemInv
begin

text \<open>
  No staging file is lost track of: an upload that fails at any point, is abandoned or is placed leaves
  nothing in the staging area, as long as files can be removed. One lemma per operation that ends an
  upload, and the invariant over the steps of the whole server.
\<close>

section \<open>Removal\<close>

text \<open>A file can always be removed, unless there is none.\<close>

definition fs_removes :: "('f, 'h) fsys \<Rightarrow> bool" where
  "fs_removes F \<longleftrightarrow> (\<forall>p f e f'. fs_remove_file F p f = (Inl e, f') \<longrightarrow> io_kind_of e = Io_NotFound)"

named_theorems ends \<open>operations that end an upload remove its staging file\<close>

lemma drop_gone [ends]:
  assumes "fs_removes F" "fs_good F V f" "\<not> sg_committed s"
  shows "fv_names V (staged_drop F s f) (sg_path s) = None"
proof -
  have laws: "fs_laws F V" using assms(2) by (simp add: fs_good_def)
  obtain x f' where r: "fs_remove_file F (sg_path s) f = (x, f')" by fastforce
  show ?thesis
  proof (cases x)
    case (Inl e)
    with r assms(1) have "io_kind_of e = Io_NotFound" unfolding fs_removes_def by blast
    with remove_law(2) [OF laws r [unfolded Inl]] r assms(3) show ?thesis by (auto simp: staged_drop_def same_view_def)
  next
    case (Inr u)
    with remove_law(1) [OF laws] r assms(3) show ?thesis by (auto simp: staged_drop_def)
  qed
qed

lemma live_drop_gone:
  assumes "fs_removes F" "fs_good F V f" "live_upload V root f u"
  shows "fv_names V (staged_drop F (up_staged u) f) (up_path u) = None"
  using drop_gone [OF assms(1,2)] assms(3) by (simp add: live_upload_def in_flight_def)

lemma finish_gone [ends]:
  assumes "fs_removes F" "fs_good F V f" "live_upload V root f u" "upload_finish X Z F u f = (Inl e, f')"
  shows "fv_names V f' (up_path u) = None"
proof -
  obtain x u1 f1 where x: "upload_drain X Z F (u, f) = (x, (u1, f1))" by (metis prod.exhaust)
  have k: "fs_good F V f1" "live_upload V root f1 u1" "up_path u1 = up_path u"
    using upload_drain_keeps [OF assms(2,3) x] upload_drain_others [OF assms(2,3) x] by simp_all
  note gone = live_drop_gone [OF assms(1) k(1,2), unfolded k(3)]
  show ?thesis
  proof (cases "isl x \<or> isl (zs_finish Z (rc_encoder (up_state u1)))")
    case True
    then show ?thesis using assms(4) x gone
      by (cases x; cases "zs_finish Z (rc_encoder (up_state u1))") (auto simp: upload_finish_def Let_def)
  next
    case False
    then obtain tail where t: "x = Inr ()" "zs_finish Z (rc_encoder (up_state u1)) = Inr tail"
      by (cases x; cases "zs_finish Z (rc_encoder (up_state u1))") auto
    obtain y f2 where y: "staged_write F tail (up_staged u1) f1 = (y, f2)" by fastforce
    have fl: "in_flight V root f1 (up_staged u1)" using k(2) by (simp add: live_upload_def)
    have "fs_good F V f2" using staged_write_effect [OF k(1) fl y] by blast
    moreover have "\<not> sg_committed (up_staged u1)" using fl by (simp add: in_flight_def)
    ultimately have "fv_names V (staged_drop F (up_staged u1) f2) (up_path u) = None"
      using drop_gone [OF assms(1)] k(3) by metis
    then show ?thesis using assms(4) x y t by (cases y) (auto simp: upload_finish_def Let_def)
  qed
qed

lemma verify_gone [ends]:
  assumes "fs_removes F" "fs_good F V f" "live_upload V root f u" "upload_verify F u f = (Inl e, f')"
  shows "fv_names V f' (up_path u) = None"
  using assms(4) live_drop_gone [OF assms(1-3)] by (auto simp: upload_verify_def Let_def split: if_splits)

lemma commit_gone [ends]:
  assumes "fs_removes F" "fs_good F V f" "in_flight V root f s" "staged_commit F root s url f = (r, f')"
  shows "fv_names V f' (sg_path s) = None"
proof -
  have laws: "fs_laws F V" using assms(2) by (simp add: fs_good_def)
  let ?t = "store_path root url" and ?p = "sg_path s"
  let ?steps = "io_then (io_ctx (ST_Sync ?p) (fs_sync_all F (sg_file s))) (\<lambda>_.
        io_then (io_ctx (ST_CreateDir (butlast ?t)) (fs_create_dir_all F (butlast ?t))) (\<lambda>_.
        io_ctx (ST_Rename ?p ?t) (fs_rename F ?p ?t)))"
  have t: "?t \<noteq> []" "?t \<noteq> ?p"
    using assms(3) staging_not_artifact [of root ?p url] by (auto simp: store_path_def Let_def in_flight_def)
  have c: "\<not> sg_committed s" using assms(3) by (simp add: in_flight_def)
  obtain x f3 where x: "?steps f = (x, f3)" by fastforce
  have run: "(case x of Inl e \<Rightarrow> (Inl e, staged_drop F s f3)
      | Inr _ \<Rightarrow> (Inr (sg_offset s), staged_drop F (s\<lparr>sg_committed := True\<rparr>) f3)) = (r, f')"
    using assms(4) x t by (simp add: staged_commit_def Let_def)
  show ?thesis
  proof (cases x)
    case (Inr u)
    with x obtain g where "fs_rename F ?p ?t g = (Inr (), f3)" by (auto elim!: io_thenE io_ctxE)
    with rename_law(1) [OF laws this] t(2) run Inr show ?thesis by (auto simp: staged_drop_def)
  next
    case (Inl e)
    have q: "fs_sync_all F h f = (y, g) \<Longrightarrow> same_view V f g" "fs_create_dir_all F d g = (y', k) \<Longrightarrow> same_view V g k"
      "fs_rename F a b g = (Inl e', k) \<Longrightarrow> same_view V g k"
      for h d f g k y y' a b e'
      by (rule query_view(5) [OF laws], assumption) (rule query_view(1) [OF laws], assumption, rule rename_law(2) [OF laws], assumption)
    have "same_view V f f3" using x Inl by (auto elim!: io_thenE io_ctxE dest!: q intro: same_view_trans)
    then have "fs_good F V f3" using assms(2) by (simp add: same_view_good)
    with drop_gone [OF assms(1) this c] run Inl show ?thesis by auto
  qed
qed

section \<open>The invariant\<close>

definition tidy :: "('f, 'h) fs_views \<Rightarrow> path \<Rightarrow> ('f, 'd, 'h, 'e, 'z) system \<Rightarrow> bool" where
  "tidy V root s \<longleftrightarrow> (sy_cache s \<noteq> None \<longrightarrow>
     (\<forall>q. staging_path root q \<longrightarrow> fv_names V (sy_fs s) q \<noteq> None \<longrightarrow>
        (\<exists>i t. sy_tasks s i = Some t \<and> task_path t = Some q)))"

text \<open>A step of one task that keeps its staging file, or ends with it gone.\<close>

lemma tidy_update:
  assumes "tidy V root s" "\<And>u. sy_tasks s i = Some u \<Longrightarrow> task_path u = p"
    and new: "sy_tasks s' = (sy_tasks s)(i := t')" "sy_cache s' = sy_cache s" "sy_fs s' = f"
    and "\<And>q. p = Some q \<Longrightarrow> others V root q (sy_fs s) f" "p = None \<Longrightarrow> same_view V (sy_fs s) f"
    and "\<And>q. p = Some q \<Longrightarrow> (\<exists>u. t' = Some u \<and> task_path u = p) \<or> fv_names V f q = None"
  shows "tidy V root s'"
  unfolding tidy_def
proof (intro impI allI)
  fix q assume q: "sy_cache s' \<noteq> None" "staging_path root q" "fv_names V (sy_fs s') q \<noteq> None"
  show "\<exists>j u. sy_tasks s' j = Some u \<and> task_path u = Some q"
  proof (cases "p = Some q")
    case True
    with assms(8) q(3) new show ?thesis by fastforce
  next
    case False
    have "fv_names V f q = fv_names V (sy_fs s) q"
    proof (cases p)
      case None
      then show ?thesis using assms(7) by (simp add: same_view_def)
    next
      case (Some r)
      then show ?thesis using assms(6) [OF Some] False q(2) by (auto simp: others_def)
    qed
    with assms(1) q new obtain j u where u: "sy_tasks s j = Some u" "task_path u = Some q"
      by (auto simp: tidy_def)
    with assms(2) False have "j \<noteq> i" by auto
    with u new show ?thesis by auto
  qed
qed

lemma ingest_receive_gone:
  assumes "fs_removes (e_fs E)" "fs_good (e_fs E) V (w_fs w)" "ingest_receive E ig url w = (Inl e, w')"
  shows "same_view V (w_fs w) (w_fs w') \<or> fv_names V (w_fs w') (w_root w @ [STAGING, staging_name (w_store w)]) = None"
proof (cases "compression url = NoCompression")
  case False
  then show ?thesis using assms(3) by (auto simp: ingest_receive_def)
next
  case True
  let ?p = "w_root w @ [STAGING, staging_name (w_store w)]"
  obtain x st f1 where x: "stage (e_fs E) (w_store w, w_fs w) = (x, (st, f1))" by (metis prod.exhaust)
  show ?thesis
  proof (cases x)
    case (Inl err)
    with x have "\<exists>z. fs_create (e_fs E) ?p (w_fs w) = (Inl z, f1)"
      by (auto simp: stage_def Let_def io_ctx_def and_then_def ctx_eq_Inl_iff split: prod.splits sum.splits)
    then have "same_view V (w_fs w) f1" using assms(2) by (auto simp: fs_good_def fs_laws_def fs_update_laws_def)
    moreover have "w' = w\<lparr>w_store := st, w_fs := f1\<rparr>" using assms(3) x True Inl
      by (auto simp: ingest_receive_def io_run on_store_def)
    ultimately show ?thesis by simp
  next
    case (Inr sg)
    have sg: "sg_path sg = ?p" "\<not> sg_committed sg" "fs_good (e_fs E) V f1"
      using stage_others [OF assms(2) refl x] stage_effect [OF assms(2) refl x] Inr by (simp_all add: holds_def in_flight_def)
    have "w_fs w' = staged_drop (e_fs E) sg f1" using assms(3) x True Inr
      by (auto simp: ingest_receive_def io_run on_store_def on_fs_def upload_new_def split: sum.splits)
    with drop_gone [OF assms(1) sg(3,2)] sg(1) show ?thesis by simp
  qed
qed

section \<open>Steps\<close>

lemma tidy_task:
  assumes "tidy V root s" "sy_tasks s i = Some t" "task_path t = Some p" "others V root p (sy_fs s) f"
    and "(\<exists>u. t' = Some u \<and> task_path u = Some p) \<or> fv_names V f p = None"
  shows "tidy V root (put_task i t' (put_files f s))"
  by (rule tidy_update [OF assms(1), where i = i and p = "Some p" and t' = t' and f = f]) (use assms(2-5) in auto)

lemma tidy_still:
  assumes "tidy V root s" "\<And>u. sy_tasks s i = Some u \<Longrightarrow> task_path u = None"
  shows "tidy V root (put_task i t' s)" "tidy V root (put_task i t' (put_rows d s))"
  by (rule tidy_update [OF assms(1), where i = i and p = None and t' = t' and f = "sy_fs s"]; use assms(2) in simp)+

lemma tidy_receive:
  assumes ok: "sys_ok E V Y U dd Cs As s" and tidy: "tidy V (dd @ [PAYLOAD]) s" and rm: "fs_removes (e_fs E)"
    and c: "sy_cache s = Some ca" "sy_tasks s i = None" "unat (st_sequence (w_store (sy_world s))) + 1 < 2 ^ 64"
    and run: "ingest_receive E (ca_ingest ca) url (sy_world s) = (r, w)"
  shows "tidy V (dd @ [PAYLOAD]) (put_task i (case r of Inl _ \<Rightarrow> None | Inr u \<Rightarrow> Some (Receiving u)) (s\<lparr>sy_world := w\<rparr>))"
    (is "tidy V ?root ?s'")
proof -
  note W = world_okD [OF sys_okD(1) [OF ok]]
  have root: "w_root (sy_world s) = ?root" using sys_okD(6) [OF ok c(1)] by blast
  note ap = ingest_receive_apart [OF W(1) c(3) run, unfolded root]
  show ?thesis
  proof (cases "isl r \<and> same_view V (sy_fs s) (w_fs w)")
    case True
    then show ?thesis
      by (intro tidy_update [OF tidy, where i = i and p = None and f = "w_fs w"]) (use c(2) in auto)
  next
    case False
    then have "fv_names V (w_fs w) (?root @ [STAGING, staging_name (w_store (sy_world s))]) = None \<or>
        (\<exists>u. r = Inr u)"
      using ingest_receive_gone [OF rm W(1), of "ca_ingest ca" url _ w] run root by (cases r) auto
    then show ?thesis
      by (intro tidy_update [OF tidy, where i = i and p = "Some (?root @ [STAGING, staging_name (w_store (sy_world s))])"
          and f = "w_fs w"]) (use c(2) ap in auto)
  qed
qed

lemma tidy_command:
  assumes ok: "sys_ok E V Y U dd Cs As s" and c: "sy_cache s = None" and dir: "cmd_data_dir cmd \<in> {None, Some dd}"
    and run: "boot_run H E cmd (sy_fs s, sy_db s) = (r, (f, d))"
  shows "tidy V (dd @ [PAYLOAD]) (started r (put_rows d (put_files f s)))"
proof (cases "\<exists>p. r = Inr (Inl p)")
  case False
  with c show ?thesis by (auto simp: tidy_def started_def split: sum.splits)
next
  case True
  then obtain p where p: "r = Inr (Inl p)" by blast
  then obtain args where args: "cmd = Cmd_Serve args"
    using run by (cases cmd) (auto simp: boot_run_def elim!: io_then_InrE)
  then have serve: "boot_serve H E args (sy_fs s, sy_db s) = (Inr p, (f, d))" "sv_data_dir args = dd"
    using run p dir by (auto simp: boot_run_def elim: io_then_InrE)
  let ?root = "dd @ [PAYLOAD]"
  let ?P = "stored_as E V U ?root (artifacts V ?root (sy_fs s)) (v_db U (sy_db s))"
  have "redb_laws (e_redb E) U" using world_okD(2) [OF sys_okD(1) [OF ok]] by (simp add: index_good_def)
  then have "?P (sy_fs s, sy_db s)" using world_okD(1) [OF sys_okD(1) [OF ok]] by (simp add: stored_as_def)
  from serve_sweeps [OF durable_stored_as this _ serve(1)] serve(2) show ?thesis
    by (simp add: tidy_def p started_def)
qed

lemma step_tidy:
  assumes ok: "sys_ok E V Y U dd Cs As s" and tidy: "tidy V (dd @ [PAYLOAD]) s" and rm: "fs_removes (e_fs E)"
    and step: "sys_step E V dd Cs As s s'"
  shows "tidy V (dd @ [PAYLOAD]) s'"
proof -
  let ?root = "dd @ [PAYLOAD]"
  note O = sys_okD [OF ok] and W = world_okD [OF sys_okD(1) [OF ok]]
  have live: "live_upload V ?root (sy_fs s) u" if "sy_tasks s i = Some (Receiving u)" for i u
    using O(2) [OF that] receives_live by auto
  from step show ?thesis
  proof cases
    case (look f)
    then have "fv_names V f = fv_names V (sy_fs s)" by (simp add: same_view_def)
    then show ?thesis using tidy look(1) by (simp add: tidy_def)
  next
    case (receive ca i url r w)
    then show ?thesis using tidy_receive [OF ok tidy rm] by simp
  next
    case (take_chunk i u chunk v f)
    note a = upload_write_others [OF W(1) live [OF take_chunk(2)] take_chunk(3)]
    show ?thesis unfolding take_chunk(1) by (rule tidy_task [OF tidy take_chunk(2)]) (use a in auto)
  next
    case (chunk_fails i u chunk e v f)
    note a = upload_write_others [OF W(1) live [OF chunk_fails(2)] chunk_fails(3)]
    note k = upload_write_keeps [OF W(1) live [OF chunk_fails(2)] chunk_fails(3)]
    have "fv_names V (staged_drop (e_fs E) (up_staged v) f) (up_path v) = None"
      using live_drop_gone [OF rm] k by blast
    moreover have "others V ?root (up_path u) (sy_fs s) (staged_drop (e_fs E) (up_staged v) f)"
      using others_trans [of V ?root "up_path u" "sy_fs s" f] a staged_drop_others [of "e_fs E" V f ?root "up_staged v"] k
      by simp
    ultimately show ?thesis unfolding chunk_fails(1) using a by (intro tidy_task [OF tidy chunk_fails(2)]) auto
  next
    case (complete i u r f)
    note a = upload_finish_others [OF W(1) live [OF complete(2)] complete(3)]
    show ?thesis unfolding complete(1)
      by (rule tidy_task [OF tidy complete(2)]) (use a finish_gone [OF rm W(1) live [OF complete(2)]] complete(3) in \<open>auto split: sum.splits\<close>)
  next
    case (judge i c r f)
    have l: "live_upload V ?root (sy_fs s) c" using task_in_flight [OF O(2) [OF judge(2)]] by (simp add: live_upload_def)
    note a = upload_verify_others [OF W(1) judge(3), of ?root]
    show ?thesis unfolding judge(1)
      by (rule tidy_task [OF tidy judge(2)]) (use a verify_gone [OF rm W(1) l] judge(3) in \<open>auto split: sum.splits\<close>)
  next
    case (place i v n f)
    have fl: "in_flight V ?root (sy_fs s) (up_staged v)" using task_in_flight [OF O(2) [OF place(2)]] by simp
    note run = place(3) [unfolded O(7) [OF place(2)]]
    show ?thesis unfolding place(1)
      by (rule tidy_task [OF tidy place(2)]) (use staged_commit_others [OF W(1) fl run] commit_gone [OF rm W(1) fl run] in auto)
  next
    case (place_fails i v e f)
    have fl: "in_flight V ?root (sy_fs s) (up_staged v)" using task_in_flight [OF O(2) [OF place_fails(2)]] by simp
    note run = place_fails(3) [unfolded O(7) [OF place_fails(2)]]
    show ?thesis unfolding place_fails(1)
      by (rule tidy_task [OF tidy place_fails(2)]) (use staged_commit_others [OF W(1) fl run] commit_gone [OF rm W(1) fl run] in auto)
  next
    case (enter i h e r d)
    show ?thesis unfolding enter(1) by (rule tidy_still [OF tidy]) (use enter(2) in simp)
  next
    case (build ca i body p)
    show ?thesis unfolding build(1) by (rule tidy_still [OF tidy]) (use build(3) in simp)
  next
    case (publish i p r d)
    show ?thesis unfolding publish(1) by (rule tidy_still [OF tidy]) (use publish(2) in simp)
  next
    case (abandon i t)
    show ?thesis
    proof (cases "task_file t")
      case None
      then have "task_path t = None" "put_files (task_drop (e_fs E) t (sy_fs s)) s = s"
        by (simp_all add: task_path_def task_drop_def put_files_def)
      then show ?thesis unfolding abandon(1) using abandon(2) tidy_still(1) [OF tidy, of i None] by simp
    next
      case (Some sg)
      have fl: "in_flight V ?root (sy_fs s) sg" by (rule task_in_flight [OF O(2) [OF abandon(2)] Some])
      then have "\<not> sg_committed sg" by (simp add: in_flight_def)
      then show ?thesis unfolding abandon(1)
        by (intro tidy_task [OF tidy abandon(2), of "sg_path sg"])
          (use drop_gone [OF rm W(1)] staged_drop_others [OF W(1)] in \<open>auto simp: task_drop_def task_path_def Some\<close>)
    qed
  next
    case crash
    then show ?thesis by (simp add: tidy_def)
  next
    case (command cmd H r f d)
    then show ?thesis using tidy_command [OF ok] by simp
  qed
qed

lemma steps_tidy:
  assumes "sys_steps E V dd Cs As s s'" "sys_ok E V Y U dd Cs As s" "tidy V (dd @ [PAYLOAD]) s" "fs_removes (e_fs E)"
    and laws: "sha_laws (e_ext E)" "zstd_laws (e_zstd E) Y" "inj_on (digest (e_ext E)) As"
  shows "tidy V (dd @ [PAYLOAD]) s'"
  using assms(1-3)
proof (induction rule: rtranclp_induct)
  case (step t u)
  have "sys_ok E V Y U dd Cs As t" by (rule steps_keep [OF step(1) step(4) laws])
  from step_tidy [OF this step(3) [OF step(4,5)] assms(4) step(2)] show ?case .
qed simp

end
