(* ===== verification/StagingSpec.thy ===== *)
theory StagingSpec
  imports StagingLaws SystemSpec
begin

text \<open>
  The staging area of a running server holds exactly the files of the uploads in progress, with a
  witness on the run of the samples.
\<close>

lemma mem_removes: "fs_removes mem_fsys"
  by (auto simp: fs_removes_def mem_fsys_def not_found_def split: option.splits if_splits)

text \<open>
  C8. Nothing is left behind. On a machine where files can be removed, in every state a running server
  reaches, through any interleaving of uploads that succeed, fail at any point or are abandoned by
  their peers, and after any crash and restart, the files of the staging area are exactly those of
  the uploads in progress, one for each.
\<close>

theorem staging_is_tidy:
  assumes "sha_laws (e_ext E)" "zstd_laws (e_zstd E) Y" "inj_on (digest (e_ext E)) As" "fs_removes (e_fs E)"
    and "fresh_system E V U dd s0" "sys_steps E V dd Cs As s0 s" "sy_cache s = Some ca"
    and "staging_path (dd @ [PAYLOAD]) q"
  shows "fv_names V (sy_fs s) q \<noteq> None \<longleftrightarrow>
    (\<exists>!i. \<exists>t sg. sy_tasks s i = Some t \<and> task_file t = Some sg \<and> sg_path sg = q)"
proof -
  have ok: "sys_ok E V Y U dd Cs As s" by (rule reachable_ok [OF assms(5,6,1-3)])
  note O = sys_okD [OF ok]
  have "tidy V (dd @ [PAYLOAD]) s0" using assms(5) by (simp add: tidy_def fresh_system_def)
  from steps_tidy [OF assms(6) fresh_ok [OF assms(5)] this assms(4,1-3)]
  have tidy: "tidy V (dd @ [PAYLOAD]) s" .
  show ?thesis
  proof
    assume "fv_names V (sy_fs s) q \<noteq> None"
    with tidy assms(7,8) obtain i t where t: "sy_tasks s i = Some t" "task_path t = Some q" by (auto simp: tidy_def)
    then obtain sg where sg: "task_file t = Some sg" "sg_path sg = q" by (auto simp: task_path_def)
    show "\<exists>!i. \<exists>t sg. sy_tasks s i = Some t \<and> task_file t = Some sg \<and> sg_path sg = q"
    proof (rule ex1I [of _ i])
      fix j assume "\<exists>t sg. sy_tasks s j = Some t \<and> task_file t = Some sg \<and> sg_path sg = q"
      then obtain u where "sy_tasks s j = Some u" "task_path u = Some q" by (auto simp: task_path_def)
      from O(4) [OF this(1) t(1) this(2) t(2)] show "j = i" .
    qed (use t sg in blast)
  next
    assume "\<exists>!i. \<exists>t sg. sy_tasks s i = Some t \<and> task_file t = Some sg \<and> sg_path sg = q"
    then obtain i t sg where t: "sy_tasks s i = Some t" "task_file t = Some sg" "sg_path sg = q" by blast
    from task_in_flight [OF O(2) [OF t(1)] t(2)] t(3) show "fv_names V (sy_fs s) q \<noteq> None" by (simp add: in_flight_def)
  qed
qed

theorem staging_is_tidy_witness:
  "\<exists>!i. \<exists>t sg. sy_tasks (slot (Some (Receiving (up_receiving [] 0))) (sample_world 1 (up_files []) empty_rows)) i = Some t \<and>
     task_file t = Some sg \<and> sg_path sg = [''d'', PAYLOAD, STAGING, ''1-0.nar'']"
proof -
  let ?s = "slot (Some (Receiving (up_receiving [] 0))) (sample_world 1 (up_files []) empty_rows)"
  let ?q = "[''d'', PAYLOAD, STAGING, ''1-0.nar'']"
  have laws: "sha_laws (e_ext fetch_env)" "zstd_laws (e_zstd fetch_env) copy_views" "inj_on (digest (e_ext fetch_env)) {''nar''}"
      "fs_removes (e_fs fetch_env)"
    by (simp_all add: sample_sha_laws copy_zstd_laws mem_removes)
  have "run_steps idle up" using step_up by (rule r_into_rtranclp)
  from this step_receive have "run_steps idle ?s" by (rule rtranclp.rtrancl_into_rtrancl)
  moreover have "sy_cache ?s = Some up_cache" by (simp add: held_def put_task_def)
  moreover have "staging_path ([''d''] @ [PAYLOAD]) ?q" by (simp add: staging_path_def)
  ultimately have "fv_names mem_fs_views (sy_fs ?s) ?q \<noteq> None \<longleftrightarrow>
      (\<exists>!i. \<exists>t sg. sy_tasks ?s i = Some t \<and> task_file t = Some sg \<and> sg_path sg = ?q)"
    by (rule staging_is_tidy [OF laws idle_fresh])
  moreover have "fv_names mem_fs_views (sy_fs ?s) ?q \<noteq> None"
    by (simp add: held_def put_task_def up_files_def mem_fs_views_def)
  ultimately show ?thesis by blast
qed

end
