(* ===== verification/UnitCore.thy ===== *)
theory UnitCore
  imports Cacheinfo NarinfoParse Sample
begin

text \<open>
  The unit tests of the core crate (the \<open>mod tests\<close> of \<open>crates/bincache-core/src\<close>), each test function
  a definition of the same name: the conjunction of its assertions on the model. The lemmas are the
  test run: the model passes every one of them. A test that needs a third-party function takes it as
  the parameter \<open>X\<close>, and the run assumes its documented laws, or, where the test compares with a text
  that a real SHA-256 produced, that digest.
\<close>

section \<open>Assertions\<close>

text \<open>\<open>expect\<close> on a result and on an option, and \<open>matches!(.., Err(..))\<close>.\<close>

definition expect :: "'e + 'a \<Rightarrow> ('a \<Rightarrow> bool) \<Rightarrow> bool" where
  "expect r k = (case r of Inl _ \<Rightarrow> False | Inr a \<Rightarrow> k a)"

definition present :: "'a option \<Rightarrow> ('a \<Rightarrow> bool) \<Rightarrow> bool" where
  "present r k = (case r of None \<Rightarrow> False | Some a \<Rightarrow> k a)"

definition refused :: "('e \<Rightarrow> bool) \<Rightarrow> 'e + 'a \<Rightarrow> bool" where
  "refused p r = (case r of Inl e \<Rightarrow> p e | Inr _ \<Rightarrow> False)"

text \<open>\<open>Result::ok\<close>.\<close>

definition ok :: "'e + 'a \<Rightarrow> 'a option" where
  "ok r = (case r of Inl _ \<Rightarrow> None | Inr a \<Rightarrow> Some a)"

lemma assertion_simps [simp]:
  "expect (Inr a) k = k a" "expect (Inl e) k = False" "present (Some a) k = k a" "present None k = False"
  "refused p (Inl e) = p e" "refused p (Inr a) = False"
  by (simp_all add: expect_def present_def refused_def)

section \<open>base32.rs\<close>

text \<open>The bytes \<open>0xe3, 0xb0, ..\<close> of the source, in decimal.\<close>

definition EMPTY_SHA256 :: "u8 list" where
  "EMPTY_SHA256 =
    [227, 176, 196, 66, 152, 252, 28, 20, 154, 251, 244, 200, 153, 111, 185,
     36, 39, 174, 65, 228, 100, 155, 147, 76, 164, 149, 153, 27, 120, 82,
     184, 85]"

definition text_len_matches_nix :: bool where
  "text_len_matches_nix \<longleftrightarrow> text_len 20 = 32 \<and> text_len 32 = 52"

definition encodes_the_empty_sha256_like_nix :: bool where
  "encodes_the_empty_sha256_like_nix \<longleftrightarrow>
     encode EMPTY_SHA256 = ''0mdqa9w1p6cmli6976v4wi0sw9r4p5prkj7lzfd1877wk11c9c73''"

definition decodes_what_it_encodes :: bool where
  "decodes_what_it_encodes \<longleftrightarrow>
     (let text = encode EMPTY_SHA256 in expect (decode 32 text) (\<lambda>bytes. bytes = EMPTY_SHA256))"

text \<open>The fixed LCG: \<open>lcg_fill\<close> is the inner loop over the slots of one value.\<close>

fun lcg_fill :: "nat \<Rightarrow> u64 \<Rightarrow> u8 list \<times> u64" where
  "lcg_fill 0 state = ([], state)"
| "lcg_fill (Suc n) state =
     (let state = state * 6364136223846793005 + 1442695040888963407;
          slot = ucast (drop_bit 56 state);
          (slots, state) = lcg_fill n state
      in (slot # slots, state))"

fun sampled :: "nat \<Rightarrow> u64 \<Rightarrow> bool" where
  "sampled 0 state = True"
| "sampled (Suc n) state =
     (let (bytes, state) = lcg_fill 20 state; text = encode bytes
      in length text = 32 \<and> expect (decode 20 text) (\<lambda>decoded. decoded = bytes) \<and> sampled n state)"

definition round_trips_every_sampled_store_path_hash :: bool where
  "round_trips_every_sampled_store_path_hash \<longleftrightarrow> sampled 4096 0x2545f4914f6cdd1d"

definition rejects_dropped_letters :: bool where
  "rejects_dropped_letters \<longleftrightarrow>
     refused (\<lambda>e. e = B32_Alphabet (of_char CHR ''e'')) (decode 20 (replicate 32 CHR ''e''))"

definition rejects_wrong_length :: bool where
  "rejects_wrong_length \<longleftrightarrow> refused (\<lambda>e. e = B32_Length 32 2) (decode 20 ''00'')"

definition rejects_overflowing_padding_bits :: bool where
  "rejects_overflowing_padding_bits \<longleftrightarrow>
     (let text = ''z'' @ drop 1 (encode EMPTY_SHA256) in refused (\<lambda>e. case e of B32_Overflow _ _ \<Rightarrow> True | _ \<Rightarrow> False) (decode 32 text))"

lemma length_EMPTY_SHA256 [simp]: "length EMPTY_SHA256 = 32"
  by (simp add: EMPTY_SHA256_def)

lemma encode_EMPTY_SHA256: "encode EMPTY_SHA256 = ''0mdqa9w1p6cmli6976v4wi0sw9r4p5prkj7lzfd1877wk11c9c73''"
  by code_simp

lemma base32_examples:
  "text_len_matches_nix" "encodes_the_empty_sha256_like_nix" "decodes_what_it_encodes"
  "rejects_dropped_letters" "rejects_wrong_length"
  by (simp add: text_len_matches_nix_def text_len_def BITS_def)
    (simp add: encodes_the_empty_sha256_like_nix_def encode_EMPTY_SHA256,
     simp add: decodes_what_it_encodes_def b32_32.parse_print, code_simp, code_simp)

lemma base32_overflow_example: "rejects_overflowing_padding_bits"
  unfolding rejects_overflowing_padding_bits_def encode_EMPTY_SHA256 by code_simp

lemma length_lcg_fill [simp]: "length (fst (lcg_fill n s)) = n"
proof (induction n arbitrary: s)
  case (Suc n)
  show ?case
    using Suc [of "s * 6364136223846793005 + 1442695040888963407"]
    by (auto simp: Let_def split: prod.split)
qed simp

lemma sampled_all: "sampled n s"
proof (induction n arbitrary: s)
  case (Suc n)
  obtain bytes t where f: "lcg_fill 20 s = (bytes, t)" by (cases "lcg_fill 20 s")
  then have "length bytes = 20" using length_lcg_fill [of 20 s] by simp
  with f Suc show ?case by (simp del: lcg_fill.simps add: b32_20.parse_print text_len_def BITS_def)
qed simp

lemma base32_round_trips: "round_trips_every_sampled_store_path_hash"
  unfolding round_trips_every_sampled_store_path_hash_def by (rule sampled_all)

section \<open>hash.rs\<close>

definition EMPTY :: string where
  "EMPTY = ''sha256:0mdqa9w1p6cmli6976v4wi0sw9r4p5prkj7lzfd1877wk11c9c73''"

definition digests_the_empty_input_like_nix :: "'h ext \<Rightarrow> bool" where
  "digests_the_empty_input_like_nix X \<longleftrightarrow> sha_display (digest X '''') = EMPTY"

definition incremental_matches_one_shot :: "'h ext \<Rightarrow> bool" where
  "incremental_matches_one_shot X \<longleftrightarrow>
     (let hasher = hasher_default X;
          hasher = hasher_update X hasher ''nix-archive-1'';
          hasher = hasher_update X hasher ''(''
      in hasher_finish X hasher = digest X ''nix-archive-1('')"

definition parses_every_accepted_spelling :: "'h ext \<Rightarrow> bool" where
  "parses_every_accepted_spelling X \<longleftrightarrow>
     (let expected = digest X '''';
          hex = ''e3b0c44298fc1c149afbf4c8996fb92427ae41e4649b934ca495991b7852b855'';
          base64 = ''47DEQpj8HBSa+/TImW+5JCeuQeRkm5NMpJWZG3hSuFU=''
      in list_all (\<lambda>text. expect (sha_parse X text) (\<lambda>parsed. parsed = expected))
           [EMPTY, drop 7 EMPTY, hex, base64, ''sha256-'' @ base64])"

definition rejects_an_unknown_length :: "'h ext \<Rightarrow> bool" where
  "rejects_an_unknown_length X \<longleftrightarrow>
     refused (\<lambda>e. e = Hash_Encoding 3) (sha_parse X ''sha256:abc'')"

text \<open>What the tests rely on of SHA-256 and of the two decoders at the empty input.\<close>

definition empty_vector :: "'h ext \<Rightarrow> bool" where
  "empty_vector X \<longleftrightarrow> sha_finalize X (sha_update X (sha_init X) '''') = EMPTY_SHA256
     \<and> hex_decode X ''e3b0c44298fc1c149afbf4c8996fb92427ae41e4649b934ca495991b7852b855'' = Inr EMPTY_SHA256
     \<and> b64_decode X ''47DEQpj8HBSa+/TImW+5JCeuQeRkm5NMpJWZG3hSuFU='' = Inr EMPTY_SHA256"

lemma hash_examples:
  "empty_vector X \<Longrightarrow> digests_the_empty_input_like_nix X"
  "sha_laws X \<Longrightarrow> incremental_matches_one_shot X"
  "rejects_an_unknown_length X"
  by (simp add: digests_the_empty_input_like_nix_def empty_vector_def digest_def hasher_finish_def
      hasher_update_def hasher_default_def sha_display_def sha_base32_def encode_EMPTY_SHA256 EMPTY_def)
    (simp add: incremental_matches_one_shot_def digest_def hasher_update_def sha_laws_def,
     simp add: rejects_an_unknown_length_def sha_parse_def sha_body_def)

lemma hash_spellings_example:
  assumes "empty_vector X"
  shows "parses_every_accepted_spelling X"
proof -
  have d: "digest X '''' = Sha256 EMPTY_SHA256"
    using assms by (simp add: empty_vector_def digest_def hasher_finish_def hasher_update_def hasher_default_def)
  have ok: "sha_ok (Sha256 EMPTY_SHA256)" by (simp add: sha_ok_def)
  have "EMPTY = sha_display (Sha256 EMPTY_SHA256)"
    by (simp add: EMPTY_def sha_base32_def sha_display_def encode_EMPTY_SHA256)
  with ok have "sha_parse X EMPTY = Inr (Sha256 EMPTY_SHA256)"
    by (metis sha_parse_display)
  moreover have "drop 7 EMPTY = sha_base32 (Sha256 EMPTY_SHA256)"
    by (simp add: EMPTY_def sha_base32_def encode_EMPTY_SHA256)
  with ok have "sha_parse X (drop 7 EMPTY) = Inr (Sha256 EMPTY_SHA256)"
    by (metis sha_parse_base32)
  ultimately show ?thesis
    using assms
    by (simp add: parses_every_accepted_spelling_def d Let_def)
      (simp add: empty_vector_def sha_parse_def sha_body_def sha_from_slice_def)
qed

section \<open>storepath.rs\<close>

definition HELLO :: string where "HELLO = ''5rnvz1n7hdmvbdzq0d5m5xrz3xz6ky8j-hello-2.12.1''"

definition round_trips_a_real_base_name :: bool where
  "round_trips_a_real_base_name \<longleftrightarrow>
     expect (path_parse HELLO) (\<lambda>path. sp_str (sp_name path) = ''hello-2.12.1'' \<and> path_display path = HELLO)"

definition prints_and_reparses_under_a_directory :: bool where
  "prints_and_reparses_under_a_directory \<longleftrightarrow>
     expect (dir_new ''/nix/store'') (\<lambda>dir.
     expect (path_parse HELLO) (\<lambda>path.
     let printed = dir_print dir path
     in printed = ''/nix/store/'' @ HELLO \<and> expect (dir_parse dir printed) (\<lambda>again. again = path)))"

definition rejects_a_foreign_store_directory :: bool where
  "rejects_a_foreign_store_directory \<longleftrightarrow>
     expect (dir_new ''/nix/store'') (\<lambda>dir.
     refused (\<lambda>e. case e of SP_DirPrefix _ _ \<Rightarrow> True | _ \<Rightarrow> False) (dir_parse dir (''/other/store/'' @ HELLO)))"

definition rejects_a_missing_separator :: bool where
  "rejects_a_missing_separator \<longleftrightarrow>
     refused (\<lambda>e. case e of SP_Separator _ \<Rightarrow> True | _ \<Rightarrow> False)
       (path_parse ''5rnvz1n7hdmvbdzq0d5m5xrz3xz6ky8jhello'')"

definition rejects_an_illegal_name_byte :: bool where
  "rejects_an_illegal_name_byte \<longleftrightarrow>
     refused (\<lambda>e. e = SP_NameCharacter (of_char CHR '' '')) (name_new ''hello world'')"

definition rejects_a_relative_store_directory :: bool where
  "rejects_a_relative_store_directory \<longleftrightarrow>
     refused (\<lambda>e. case e of SP_DirRelative _ \<Rightarrow> True | _ \<Rightarrow> False) (dir_new ''nix/store'')"

lemma storepath_examples:
  "round_trips_a_real_base_name" "prints_and_reparses_under_a_directory"
  "rejects_a_foreign_store_directory" "rejects_a_missing_separator" "rejects_an_illegal_name_byte"
  "rejects_a_relative_store_directory"
  by code_simp+

section \<open>compression.rs\<close>

definition renders_the_names_nix_writes :: bool where
  "renders_the_names_nix_writes \<longleftrightarrow>
     compression_display Zstd = ''zstd'' \<and> compression_display NoCompression = ''none''
     \<and> compression_display Bzip2 = ''bzip2''"

definition parses_the_names_nix_writes :: bool where
  "parses_the_names_nix_writes \<longleftrightarrow>
     expect (compression_from_str ''zstd'') (\<lambda>parsed. parsed = Zstd)
     \<and> refused (\<lambda>_. True) (compression_from_str ''lzma'')"

definition extensions_match_the_url_nix_builds :: bool where
  "extensions_match_the_url_nix_builds \<longleftrightarrow>
     extension Zstd = ''.zst'' \<and> extension NoCompression = '''' \<and> extension Bzip2 = ''.bz2''"

definition every_extension_maps_back_to_its_algorithm :: bool where
  "every_extension_maps_back_to_its_algorithm \<longleftrightarrow>
     list_all (\<lambda>c. from_extension (extension c) = Some c) VARIANTS \<and> from_extension ''.lzma'' = None"

lemma compression_examples:
  "renders_the_names_nix_writes" "parses_the_names_nix_writes" "extensions_match_the_url_nix_builds"
  "every_extension_maps_back_to_its_algorithm"
  by code_simp+

section \<open>cacheinfo.rs\<close>

definition renders_the_three_lines :: bool where
  "renders_the_three_lines \<longleftrightarrow>
     expect (dir_new ''/nix/store'') (\<lambda>dir.
     let info = \<lparr>ci_store_dir = dir, ci_mass_query = Wanted, ci_priority = Priority 30\<rparr>
     in cacheinfo_render info =
          unlines [''StoreDir: /nix/store'', ''WantMassQuery: 1'', ''Priority: 30''])"

lemma cacheinfo_examples: "renders_the_three_lines"
  by code_simp

section \<open>narurl.rs\<close>

text \<open>The name of the tests' artifact, \<open>Sha256::digest(b"nar")\<close>, as the tests spell it.\<close>

definition NAR_TEXT :: string where
  "NAR_TEXT = ''0gsyc3g0w8wacg97wwm1iirigsl96k36iijdxiadn8cqcjmx18y1''"

definition test_url :: "'h ext \<Rightarrow> compression \<Rightarrow> narurl" where
  "test_url X c = \<lparr>file_hash = digest X ''nar'', compression = c\<rparr>"

definition round_trips_every_compression :: "'h ext \<Rightarrow> bool" where
  "round_trips_every_compression X \<longleftrightarrow>
     list_all (\<lambda>c. let url = test_url X c in expect (narurl_parse X (nar_name url)) (\<lambda>parsed. parsed = url))
       [NoCompression, Zstd, Xz, Bzip2, Br]"

definition renders_the_url_nix_builds :: "'h ext \<Rightarrow> bool" where
  "renders_the_url_nix_builds X \<longleftrightarrow>
     (let url = test_url X Zstd in nar_url url = ''nar/'' @ NAR_TEXT @ ''.nar.zst'')"

definition parses_an_uncompressed_upload_target :: "'h ext \<Rightarrow> bool" where
  "parses_an_uncompressed_upload_target X \<longleftrightarrow>
     expect (narurl_parse X (NAR_TEXT @ ''.nar'')) (\<lambda>parsed.
       compression parsed = NoCompression \<and> file_hash parsed = digest X ''nar'')"

definition rejects_a_name_without_a_nar_component :: "'h ext \<Rightarrow> bool" where
  "rejects_a_name_without_a_nar_component X \<longleftrightarrow>
     refused (\<lambda>e. case e of NU_Suffix _ \<Rightarrow> True | _ \<Rightarrow> False) (narurl_parse X ''whatever.tar.gz'')"

definition rejects_an_unknown_extension :: "'h ext \<Rightarrow> bool" where
  "rejects_an_unknown_extension X \<longleftrightarrow>
     refused (\<lambda>e. case e of NU_Extension _ \<Rightarrow> True | _ \<Rightarrow> False) (narurl_parse X (NAR_TEXT @ ''.nar.lzma''))"

definition nar_vector :: "'h ext \<Rightarrow> bool" where
  "nar_vector X \<longleftrightarrow> sha_base32 (digest X ''nar'') = NAR_TEXT"

lemma test_url_ok: "sha_laws X \<Longrightarrow> narurl_ok (test_url X c)"
  by (simp add: narurl_ok_def test_url_def sha_ok_digest)

lemma narurl_examples:
  "sha_laws X \<Longrightarrow> round_trips_every_compression X"
  "nar_vector X \<Longrightarrow> renders_the_url_nix_builds X"
  by (simp add: round_trips_every_compression_def narurl_parse_name test_url_ok)
    (simp add: renders_the_url_nix_builds_def nar_url_def nar_name_def PREFIX_def nar_vector_def test_url_def)

lemma narurl_target_example:
  assumes "sha_laws X" "nar_vector X"
  shows "parses_an_uncompressed_upload_target X"
proof -
  have "NAR_TEXT @ ''.nar'' = nar_name (test_url X NoCompression)"
    using assms(2) by (simp add: nar_name_def test_url_def nar_vector_def)
  then show ?thesis
    by (simp add: parses_an_uncompressed_upload_target_def narurl_parse_name test_url_ok assms(1))
      (simp add: test_url_def)
qed

lemma narurl_rejections:
  "rejects_a_name_without_a_nar_component X" "rejects_an_unknown_extension X"
  by (simp add: rejects_a_name_without_a_nar_component_def narurl_parse_def)
    (simp add: rejects_an_unknown_extension_def narurl_parse_def NAR_TEXT_def from_extension_def VARIANTS_def)

section \<open>sign.rs\<close>

text \<open>\<open>generate\<close> draws a seed: the tests take what it drew.\<close>

definition TEST_KEY :: string where "TEST_KEY = ''bincache-test-1''"

definition FINGERPRINT :: string where
  "FINGERPRINT = ''1;/nix/store/5rnvz1n7hdmvbdzq0d5m5xrz3xz6ky8j-hello;sha256:x;1;''"

definition signs_what_its_public_half_verifies :: "'h ext \<Rightarrow> u8 list \<Rightarrow> bool" where
  "signs_what_its_public_half_verifies X seed \<longleftrightarrow>
     (let secret = secret_generate TEST_KEY seed; signature = sign X secret FINGERPRINT
      in sig_name signature = TEST_KEY
         \<and> expect (verify X (secret_public X secret) FINGERPRINT signature) (\<lambda>_. True))"

definition rejects_a_signature_over_different_bytes :: "'h ext \<Rightarrow> u8 list \<Rightarrow> bool" where
  "rejects_a_signature_over_different_bytes X seed \<longleftrightarrow>
     (let secret = secret_generate TEST_KEY seed; signature = sign X secret FINGERPRINT
      in refused (\<lambda>e. case e of Sign_Invalid _ _ \<Rightarrow> True | _ \<Rightarrow> False)
           (verify X (secret_public X secret) ''1;other;sha256:x;1;'' signature))"

definition round_trips_key_and_signature_text :: "'h ext \<Rightarrow> u8 list \<Rightarrow> bool" where
  "round_trips_key_and_signature_text X seed \<longleftrightarrow>
     (let secret = secret_generate TEST_KEY seed in
      expect (secret_parse X (secret_render X secret)) (\<lambda>reparsed.
        public_render X (secret_public X reparsed) = public_render X (secret_public X secret)
        \<and> (let signature = sign X secret FINGERPRINT; text = signature_display X signature in
           expect (signature_parse X text) (\<lambda>parsed. parsed = signature)
           \<and> expect (public_parse X (public_render X (secret_public X secret))) (\<lambda>public.
               expect (verify X public FINGERPRINT signature) (\<lambda>_. True)))))"

definition rejects_a_signature_from_an_unknown_key :: "'h ext \<Rightarrow> u8 list \<Rightarrow> u8 list \<Rightarrow> bool" where
  "rejects_a_signature_from_an_unknown_key X seed seed' \<longleftrightarrow>
     (let secret = secret_generate TEST_KEY seed;
          stranger = secret_generate ''someone-else-1'' seed';
          signature = sign X stranger FINGERPRINT
      in refused (\<lambda>e. case e of Sign_KeyMismatch _ \<Rightarrow> True | _ \<Rightarrow> False)
           (verify X (secret_public X secret) FINGERPRINT signature))"

lemma test_key_ok: "length seed = 32 \<Longrightarrow> secret_ok (secret_generate TEST_KEY seed)"
  by (simp add: secret_ok_def secret_generate_def key_name_ok_def TEST_KEY_def visible_def)

lemma secret_generate_simps [simp]:
  "sk_name (secret_generate n seed) = n" "sk_seed (secret_generate n seed) = seed"
  by (simp_all add: secret_generate_def)

lemma sign_examples:
  "ed_laws X \<Longrightarrow> length seed = 32 \<Longrightarrow> signs_what_its_public_half_verifies X seed"
  "b64_laws X \<Longrightarrow> ed_laws X \<Longrightarrow> length seed = 32 \<Longrightarrow> round_trips_key_and_signature_text X seed"
  "rejects_a_signature_from_an_unknown_key X seed seed'"
    apply (simp add: signs_what_its_public_half_verifies_def verify_sign)
    apply (simp add: sign_def)
   apply (simp add: round_trips_key_and_signature_text_def secret_parse_render test_key_ok
      public_parse_render signature_parse_display sig_ok_sign verify_sign)
  apply (simp add: rejects_a_signature_from_an_unknown_key_def verify_def sign_def secret_public_def
      TEST_KEY_def)
  done

text \<open>That a signature does not verify over other bytes is no law of ed25519: the run is on \<open>sample\<close>.\<close>

lemma sign_refusal_example:
  assumes "length seed = 32"
  shows "rejects_a_signature_over_different_bytes sample seed"
  using assms
  by (simp add: rejects_a_signature_over_different_bytes_def verify_def sign_def secret_public_def
      sample_def sample_sign_def FINGERPRINT_def)
    (simp add: fit_def)

section \<open>narinfo.rs\<close>

definition test_dir :: dir where
  "test_dir = projr (dir_new DIR_DEFAULT)"

definition test_record :: "'h ext \<Rightarrow> narinfo" where
  "test_record X =
     \<lparr>ni_store_path = projr (path_parse ''5rnvz1n7hdmvbdzq0d5m5xrz3xz6ky8j-hello-2.12.1''),
      ni_compression = Zstd,
      ni_file_hash = digest X ''compressed'',
      ni_file_size = 50088,
      ni_nar_hash = digest X ''nar'',
      ni_nar_size = 226504,
      ni_references =
        [projr (path_parse ''5rnvz1n7hdmvbdzq0d5m5xrz3xz6ky8j-hello-2.12.1''),
         projr (path_parse ''kzp5qfy8m2h3vqcvjrsw1sn8fzsz5nx8-glibc-2.37'')],
      ni_deriver = ok (path_parse ''9fs4vq4gdsb8r9ywawq5c9dfvj7lp5g8-hello-2.12.1.drv''),
      ni_sigs = [],
      ni_ca = None\<rparr>"

text \<open>The digests of \<open>b"nar"\<close> and \<open>b"compressed"\<close> as the expected texts spell them.\<close>

definition FILE_TEXT :: string where
  "FILE_TEXT = ''014q9y1r70rmmayxc8ggydvw8wsnzjsqih7m5nksycxwwk10i8wx''"

definition file_vector :: "'h ext \<Rightarrow> bool" where
  "file_vector X \<longleftrightarrow> sha_base32 (digest X ''compressed'') = FILE_TEXT"

definition RENDERED :: "string list" where
  "RENDERED =
       [''StorePath: /nix/store/5rnvz1n7hdmvbdzq0d5m5xrz3xz6ky8j-hello-2.12.1'',
        ''URL: nar/014q9y1r70rmmayxc8ggydvw8wsnzjsqih7m5nksycxwwk10i8wx.nar.zst'',
        ''Compression: zstd'',
        ''FileHash: sha256:014q9y1r70rmmayxc8ggydvw8wsnzjsqih7m5nksycxwwk10i8wx'',
        ''FileSize: 50088'',
        ''NarHash: sha256:0gsyc3g0w8wacg97wwm1iirigsl96k36iijdxiadn8cqcjmx18y1'',
        ''NarSize: 226504'',
        ''References: 5rnvz1n7hdmvbdzq0d5m5xrz3xz6ky8j-hello-2.12.1 kzp5qfy8m2h3vqcvjrsw1sn8fzsz5nx8-glibc-2.37'',
        ''Deriver: 9fs4vq4gdsb8r9ywawq5c9dfvj7lp5g8-hello-2.12.1.drv'']"

definition renders_the_fields_nix_writes_in_order :: "'h ext \<Rightarrow> bool" where
  "renders_the_fields_nix_writes_in_order X \<longleftrightarrow> render X test_dir (test_record X) = unlines RENDERED"

definition an_empty_reference_set_still_renders_a_readable_value :: "'h ext \<Rightarrow> bool" where
  "an_empty_reference_set_still_renders_a_readable_value X \<longleftrightarrow>
     (let info = (test_record X)\<lparr>ni_references := []\<rparr>; body = render X test_dir info
      in split_once ([nl] @ ''References: '' @ [nl]) body \<noteq> None
         \<and> expect (parse X body test_dir) (\<lambda>parsed. ni_references parsed = []))"

definition fingerprint_matches_the_documented_shape :: "'h ext \<Rightarrow> bool" where
  "fingerprint_matches_the_documented_shape X \<longleftrightarrow>
     fingerprint (test_record X) test_dir =
       ''1;/nix/store/5rnvz1n7hdmvbdzq0d5m5xrz3xz6ky8j-hello-2.12.1;'' @
       ''sha256:0gsyc3g0w8wacg97wwm1iirigsl96k36iijdxiadn8cqcjmx18y1;226504;'' @
       ''/nix/store/5rnvz1n7hdmvbdzq0d5m5xrz3xz6ky8j-hello-2.12.1,'' @
       ''/nix/store/kzp5qfy8m2h3vqcvjrsw1sn8fzsz5nx8-glibc-2.37''"

definition fingerprint_sorts_references_regardless_of_record_order :: "'h ext \<Rightarrow> bool" where
  "fingerprint_sorts_references_regardless_of_record_order X \<longleftrightarrow>
     (let info = test_record X; info = info\<lparr>ni_references := rev (ni_references info)\<rparr>
      in fingerprint info test_dir = fingerprint (test_record X) test_dir)"

definition resign_replaces_rather_than_appends :: "'h ext \<Rightarrow> u8 list \<Rightarrow> bool" where
  "resign_replaces_rather_than_appends X seed \<longleftrightarrow>
     (let key = secret_generate TEST_KEY seed;
          info = test_record X;
          info = resign X test_dir key info;
          info = resign X test_dir key info
      in length (ni_sigs info) = 1
         \<and> expect (verify X (secret_public X key) (fingerprint info test_dir) (ni_sigs info ! 0)) (\<lambda>_. True))"

definition url_follows_the_file_hash_and_compression :: "'h ext \<Rightarrow> bool" where
  "url_follows_the_file_hash_and_compression X \<longleftrightarrow>
     (let info = test_record X
      in nar_url (ni_nar info) = ''nar/'' @ sha_base32 (ni_file_hash info) @ ''.nar.zst'')"

lemma test_dir_eq: "test_dir = Dir ''/nix/store''"
  by code_simp

lemma test_paths_parse:
  "expect (path_parse ''5rnvz1n7hdmvbdzq0d5m5xrz3xz6ky8j-hello-2.12.1'') (\<lambda>_. True)"
  "expect (path_parse ''kzp5qfy8m2h3vqcvjrsw1sn8fzsz5nx8-glibc-2.37'') (\<lambda>_. True)"
  "expect (path_parse ''9fs4vq4gdsb8r9ywawq5c9dfvj7lp5g8-hello-2.12.1.drv'') (\<lambda>_. True)"
  by code_simp+

lemma parsed_path:
  assumes "expect (path_parse s) (\<lambda>_. True)"
  shows "path_ok (projr (path_parse s))" "path_display (projr (path_parse s)) = s"
    "ok (path_parse s) = Some (projr (path_parse s))"
proof -
  obtain p where p: "path_parse s = Inr p" using assms by (auto simp: expect_def split: sum.splits)
  then show "path_ok (projr (path_parse s))" "path_display (projr (path_parse s)) = s"
    using sp_path_codec.parse_valid [OF p] sp_path_codec.print_parse [OF p] by simp_all
  show "ok (path_parse s) = Some (projr (path_parse s))" by (simp add: ok_def p)
qed

lemmas test_paths = test_paths_parse [THEN parsed_path(1)] test_paths_parse [THEN parsed_path(2)]
  test_paths_parse [THEN parsed_path(3)]

lemma test_record_ok: "sha_laws X \<Longrightarrow> narinfo_ok (test_record X)"
  by (simp add: narinfo_ok_def core_ok_def test_record_def sha_ok_digest test_paths)

lemma digit_chars:
  "digit_char 0 = CHR ''0''" "digit_char 1 = CHR ''1''" "digit_char 2 = CHR ''2''" "digit_char 3 = CHR ''3''"
  "digit_char 4 = CHR ''4''" "digit_char 5 = CHR ''5''" "digit_char 6 = CHR ''6''" "digit_char 7 = CHR ''7''"
  "digit_char 8 = CHR ''8''" "digit_char 9 = CHR ''9''"
  by code_simp+

lemma test_record_fields [simp]:
  "path_display (ni_store_path (test_record X)) = HELLO"
  "ni_compression (test_record X) = Zstd" "ni_file_size (test_record X) = 50088"
  "ni_nar_size (test_record X) = 226504"
  "map path_display (ni_references (test_record X)) = [HELLO, ''kzp5qfy8m2h3vqcvjrsw1sn8fzsz5nx8-glibc-2.37'']"
  "map_option path_display (ni_deriver (test_record X)) = Some ''9fs4vq4gdsb8r9ywawq5c9dfvj7lp5g8-hello-2.12.1.drv''"
  "ni_sigs (test_record X) = []" "ni_ca (test_record X) = None"
  by (simp_all only: test_record_def narinfo.simps test_paths HELLO_def list.map option.map)

lemma narinfo_texts:
  assumes "nar_vector X" "file_vector X"
  shows "render_lines X test_dir (test_record X) = RENDERED" "fingerprint_matches_the_documented_shape X"
proof -
  have sizes: "show_u64 50088 = ''50088''" "show_u64 226504 = ''226504''"
    by (simp_all add: show_u64_def show_nat.simps digit_chars)
  have vectors: "sha_base32 (ni_nar_hash (test_record X)) = NAR_TEXT"
    "sha_base32 (ni_file_hash (test_record X)) = FILE_TEXT"
    using assms by (simp_all only: nar_vector_def file_vector_def test_record_def narinfo.simps)
  obtain p where p: "ni_deriver (test_record X) = Some p"
    "path_display p = ''9fs4vq4gdsb8r9ywawq5c9dfvj7lp5g8-hello-2.12.1.drv''"
    using test_record_fields(6) [of X, unfolded map_option_eq_Some] by (elim exE conjE)
  show "render_lines X test_dir (test_record X) = RENDERED"
    unfolding RENDERED_def
    by (simp add: render_lines_def field_line_def ni_nar_def dir_print_def nar_url_def nar_name_def
        sha_display_def sizes test_dir_eq PREFIX_def vectors HELLO_def NAR_TEXT_def FILE_TEXT_def p)
  have printed: "map (dir_print test_dir) ps = map (\<lambda>s. ''/nix/store/'' @ s) (map path_display ps)" for ps
    unfolding map_map by (rule map_cong) (simp_all add: dir_print_def test_dir_eq)
  have refs: "sort (map (dir_print test_dir) (ni_references (test_record X))) =
      [''/nix/store/'' @ HELLO, ''/nix/store/kzp5qfy8m2h3vqcvjrsw1sn8fzsz5nx8-glibc-2.37'']"
    unfolding printed test_record_fields by code_simp
  show "fingerprint_matches_the_documented_shape X"
    unfolding fingerprint_matches_the_documented_shape_def fingerprint_def refs Let_def
    by (simp add: dir_print_def sizes test_dir_eq sha_display_def vectors HELLO_def NAR_TEXT_def)
qed

lemma narinfo_text_examples:
  assumes "nar_vector X" "file_vector X"
  shows "renders_the_fields_nix_writes_in_order X" "fingerprint_matches_the_documented_shape X"
  by (simp add: renders_the_fields_nix_writes_in_order_def render_unlines narinfo_texts(1) [OF assms])
    (rule narinfo_texts(2) [OF assms])

lemma narinfo_examples:
  "fingerprint_sorts_references_regardless_of_record_order X"
  "ed_laws X \<Longrightarrow> length seed = 32 \<Longrightarrow> resign_replaces_rather_than_appends X seed"
  "url_follows_the_file_hash_and_compression X"
    apply (simp add: fingerprint_sorts_references_regardless_of_record_order_def fingerprint_perm)
   apply (simp add: resign_replaces_rather_than_appends_def resign_def verify_sign)
  apply (simp add: url_follows_the_file_hash_and_compression_def nar_url_def nar_name_def ni_nar_def
      PREFIX_def test_record_def)
  done

lemma empty_references_example:
  assumes "sha_laws X" "b64_laws X"
  shows "an_empty_reference_set_still_renders_a_readable_value X"
proof -
  let ?info = "(test_record X)\<lparr>ni_references := []\<rparr>"
  have "narinfo_ok ?info"
    using test_record_ok [OF assms(1)] by (simp add: narinfo_ok_def core_ok_def)
  then have parsed: "parse X (render X test_dir ?info) test_dir = Inr ?info"
    using assms(2) by (intro parse_render) (simp_all add: test_dir_eq)
  let ?before = "''StorePath: '' @ dir_print test_dir (ni_store_path ?info) @ [nl] @
    ''URL: '' @ nar_url (ni_nar ?info) @ [nl] @ ''Compression: '' @ compression_display Zstd @ [nl] @
    ''FileHash: '' @ sha_display (ni_file_hash ?info) @ [nl] @ ''FileSize: '' @ show_u64 (ni_file_size ?info) @ [nl] @
    ''NarHash: '' @ sha_display (ni_nar_hash ?info) @ [nl] @ ''NarSize: '' @ show_u64 (ni_nar_size ?info)"
  have "render X test_dir ?info = ?before @ ([nl] @ ''References: '' @ [nl]) @
    (case ni_deriver ?info of None \<Rightarrow> [] | Some p \<Rightarrow> ''Deriver: '' @ path_display p @ [nl])"
    by (simp add: render_def test_record_def)
  then have "split_once ([nl] @ ''References: '' @ [nl]) (render X test_dir ?info) \<noteq> None"
    using split_once_eq_None by blast
  with parsed show ?thesis
    by (simp add: an_empty_reference_set_still_renders_a_readable_value_def)
qed

end
