(* ===== verification/UnitServe.thy ===== *)
theory UnitServe
  imports UnitCore Range Response Route Stats IngestLaws
begin

text \<open>
  The unit tests of the serve crate's pure modules (\<open>crates/bincache-serve/src\<close>: \<open>range.rs\<close>,
  \<open>stats.rs\<close>, \<open>http.rs\<close>, \<open>http/response.rs\<close>, \<open>route.rs\<close>) and of the push credentials
  (\<open>crates/bincache-ingest/src/auth.rs\<close>), in the style of \<open>UnitCore\<close>.
\<close>

section \<open>range.rs\<close>

definition resolves_the_resume_form_nix_sends :: bool where
  "resolves_the_resume_form_nix_sends \<longleftrightarrow>
     range_resolve (Some ''bytes=100-'') 1000 = Partial \<lparr>first = 100, last_byte = 999\<rparr>"

definition resolves_a_closed_range :: bool where
  "resolves_a_closed_range \<longleftrightarrow>
     range_resolve (Some ''bytes=10-19'') 1000 = Partial \<lparr>first = 10, last_byte = 19\<rparr>"

definition clamps_a_last_byte_past_the_end :: bool where
  "clamps_a_last_byte_past_the_end \<longleftrightarrow>
     range_resolve (Some ''bytes=990-5000'') 1000 = Partial \<lparr>first = 990, last_byte = 999\<rparr>"

definition resolves_a_suffix_range :: bool where
  "resolves_a_suffix_range \<longleftrightarrow>
     range_resolve (Some ''bytes=-10'') 1000 = Partial \<lparr>first = 990, last_byte = 999\<rparr>
     \<and> range_resolve (Some ''bytes=-5000'') 1000 = Partial \<lparr>first = 0, last_byte = 999\<rparr>"

definition refuses_a_range_that_starts_past_the_end :: bool where
  "refuses_a_range_that_starts_past_the_end \<longleftrightarrow>
     range_resolve (Some ''bytes=1000-'') 1000 = Unsatisfiable
     \<and> range_resolve (Some ''bytes=-0'') 1000 = Unsatisfiable
     \<and> range_resolve (Some ''bytes=50-10'') 1000 = Unsatisfiable"

definition ignores_what_it_cannot_understand :: bool where
  "ignores_what_it_cannot_understand \<longleftrightarrow>
     list_all (\<lambda>header. range_resolve (Some header) 1000 = Whole)
       [''items=1-2'', ''bytes=abc-'', ''bytes=1-def'', ''bytes=0-1,5-6'', ''nonsense'']
     \<and> range_resolve None 1000 = Whole"

definition a_span_length_counts_both_ends :: bool where
  "a_span_length_counts_both_ends \<longleftrightarrow>
     span_len \<lparr>first = 0, last_byte = 0\<rparr> = 1 \<and> span_len \<lparr>first = 100, last_byte = 999\<rparr> = 900"

lemma range_examples:
  "resolves_the_resume_form_nix_sends" "resolves_a_closed_range" "clamps_a_last_byte_past_the_end"
  "resolves_a_suffix_range" "refuses_a_range_that_starts_past_the_end" "ignores_what_it_cannot_understand"
  "a_span_length_counts_both_ends"
  by (simp_all add: resolves_the_resume_form_nix_sends_def resolves_a_closed_range_def
      clamps_a_last_byte_past_the_end_def resolves_a_suffix_range_def
      refuses_a_range_that_starts_past_the_end_def ignores_what_it_cannot_understand_def
      a_span_length_counts_both_ends_def range_resolve_def suffix_range_def parse_u64_def is_digit_def
      digit_val_def trim_visible visible_def saturating_sub_def span_len_def)
    (simp add: word_le_nat_alt)

section \<open>stats.rs\<close>

fun bump_each :: "nat list \<Rightarrow> shards \<Rightarrow> shards option" where
  "bump_each [] ss = Some ss"
| "bump_each (i # is) ss =
     Option.bind (shards_bump i C_Requests 10 ss) (\<lambda>ss.
     Option.bind (shards_bump i C_Hits 3 ss) (bump_each is))"

definition totals_sum_across_shards :: bool where
  "totals_sum_across_shards \<longleftrightarrow>
     (let shards = shards_new 4 in
      present (bump_each [0..<shards_len shards] shards) (\<lambda>shards.
      let totals = total shards
      in to_requests totals = 40 \<and> to_metadata_hits totals = 12 \<and> to_metadata_misses totals = 0))"

text \<open>The clock is a parameter: \<open>at\<close> is its reading at the beat, \<open>now\<close> at the call of \<open>stalled\<close>.\<close>

definition a_shard_that_stopped_beating_is_reported :: "nat \<Rightarrow> nat \<Rightarrow> bool" where
  "a_shard_that_stopped_beating_is_reported at now \<longleftrightarrow>
     present (beat at 1 (shards_new 3)) (\<lambda>shards. stalled now 10 shards = [1])"

definition a_shard_that_kept_beating_is_not_reported :: "nat \<Rightarrow> nat \<Rightarrow> nat \<Rightarrow> bool" where
  "a_shard_that_kept_beating_is_not_reported at at' now \<longleftrightarrow>
     present (Option.bind (beat at 0 (shards_new 2)) (beat at' 1)) (\<lambda>shards. stalled now 30000 shards = [])"

definition renders_the_metrics_body :: bool where
  "renders_the_metrics_body \<longleftrightarrow>
     present (shards_bump 0 C_Requests 7 (shards_new 1)) (\<lambda>shards.
       totals_render (total shards) 1 42 = unlines
         [''bincache_requests_total 7'', ''bincache_metadata_hits_total 0'', ''bincache_metadata_misses_total 0'',
          ''bincache_payload_bytes_total 0'', ''bincache_uploads_total 0'', ''bincache_rejections_total 0'',
          ''bincache_shards 1'', ''bincache_paths 42''])"

lemma stats_totals_example: "totals_sum_across_shards"
proof -
  have new: "shards_new 4 = [shard_default, shard_default, shard_default, shard_default]"
    by (simp add: shards_new_def eval_nat_numeral)
  have "[0..<4] = [0, 1, 2, 3 :: nat]" by (simp add: upt_rec)
  then show ?thesis
    by (simp add: totals_sum_across_shards_def new shards_len_def shards_bump_def shards_get_def total_def
        totals_default_def add_slot_def shard_default_def)
qed

lemma stats_render_example: "renders_the_metrics_body"
  by (simp add: renders_the_metrics_body_def shards_new_def shards_bump_def shards_get_def total_def
      totals_default_def add_slot_def shard_default_def totals_render_def show_u64_def show_nat.simps
      digit_chars [simplified] u64_from_usize_def)

lemma stats_stopped_example:
  assumes "at + 60 \<le> now" "now < 2 ^ 64"
  shows "a_shard_that_stopped_beating_is_reported at now"
proof -
  let ?ss = "[shard_default, shard_default\<lparr>sh_heartbeat := u64_from_usize at, sh_heartbeats := 1\<rparr>, shard_default]"
  have beat: "beat at 1 (shards_new 3) = Some ?ss"
    by (simp add: beat_def shards_new_def shards_get_def shard_default_def numeral_3_eq_3)
  have "set (stalled now 10 ?ss) = {1}"
  proof (rule set_eqI)
    fix i
    have "unat (u64_from_usize at) = at" using assms by (simp add: unat_u64_from_usize)
    then show "i \<in> set (stalled now 10 ?ss) \<longleftrightarrow> i \<in> {1}"
      using assms by (cases i; cases "i - 1"; cases "i - 2") (auto simp: stalled_iff shard_default_def nth_Cons')
  qed
  then have "stalled now 10 ?ss = [1]"
    using stalled_sorted [of now 10 ?ss] sorted_distinct_set_unique [of "stalled now 10 ?ss" "[1]"] by simp
  then show ?thesis unfolding a_shard_that_stopped_beating_is_reported_def beat by simp
qed

lemma stats_kept_example:
  assumes "now < 30000 + at" "now < 30000 + at'" "at < 2 ^ 64" "at' < 2 ^ 64" "now < 2 ^ 64"
  shows "a_shard_that_kept_beating_is_not_reported at at' now"
proof -
  let ?ss = "[shard_default\<lparr>sh_heartbeat := u64_from_usize at, sh_heartbeats := 1\<rparr>,
    shard_default\<lparr>sh_heartbeat := u64_from_usize at', sh_heartbeats := 1\<rparr>]"
  have beat: "Option.bind (beat at 0 (shards_new 2)) (beat at' 1) = Some ?ss"
    by (simp add: beat_def shards_new_def shards_get_def shard_default_def numeral_2_eq_2)
  have "i \<notin> set (stalled now 30000 ?ss)" for i
    using assms by (cases i; cases "i - 1") (auto simp: stalled_iff unat_u64_from_usize nth_Cons')
  then have "stalled now 30000 ?ss = []" by (metis list.set_intros(1) neq_Nil_conv)
  then show ?thesis unfolding a_shard_that_kept_beating_is_not_reported_def beat by simp
qed

section \<open>http.rs\<close>

definition GET :: string where
  "GET = ''GET /nix-cache-info HTTP/1.1'' @ crlf @ ''Host: cache'' @ crlf @ crlf"

definition measures_a_complete_head :: bool where
  "measures_a_complete_head \<longleftrightarrow>
     head_len GET = Some (length GET) \<and> head_len (take (length GET - 1) GET) = None
     \<and> head_len (''GET / HTTP/1.1'' @ crlf) = None"

definition parses_a_plain_get :: bool where
  "parses_a_plain_get \<longleftrightarrow>
     expect (http_parse GET) (\<lambda>request.
       rq_method request = Get \<and> rq_target request = ''/nix-cache-info'' \<and> rq_framing request = FrameEmpty
       \<and> rq_keep_alive request = Keep \<and> rq_expectation request = ExpectNone)"

definition reads_the_headers_a_nix_upload_sends :: bool where
  "reads_the_headers_a_nix_upload_sends \<longleftrightarrow>
     (let head = ''PUT /nar/abc.nar HTTP/1.1'' @ crlf @ ''Content-Length: 4096'' @ crlf @
            ''Expect: 100-continue'' @ crlf @ ''Authorization: Bearer secret'' @ crlf @
            ''Connection: close'' @ crlf @ crlf
      in expect (http_parse head) (\<lambda>request.
        rq_method request = Put \<and> rq_framing request = FrameLength 4096 \<and> body_len request = 4096
        \<and> rq_expectation request = ExpectContinue \<and> rq_authorization request = Some ''Bearer secret''
        \<and> rq_keep_alive request = Close))"

definition header_names_are_case_insensitive :: bool where
  "header_names_are_case_insensitive \<longleftrightarrow>
     (let head = ''GET /x HTTP/1.1'' @ crlf @ ''CONTENT-LENGTH: 7'' @ crlf @ ''rAnGe: bytes=1-'' @ crlf @ crlf
      in expect (http_parse head) (\<lambda>request.
        rq_framing request = FrameLength 7 \<and> rq_range request = Some ''bytes=1-''))"

definition chunked_bodies_are_recognized_rather_than_misparsed :: bool where
  "chunked_bodies_are_recognized_rather_than_misparsed \<longleftrightarrow>
     (let head = ''PUT /x HTTP/1.1'' @ crlf @ ''Transfer-Encoding: chunked'' @ crlf @ crlf
      in expect (http_parse head) (\<lambda>request. rq_framing request = FrameChunked \<and> body_len request = 0))"

definition refuses_methods_and_versions_it_does_not_serve :: bool where
  "refuses_methods_and_versions_it_does_not_serve \<longleftrightarrow>
     refused (\<lambda>e. case e of HTTP_Method _ \<Rightarrow> True | _ \<Rightarrow> False)
       (http_parse (''POST /x HTTP/1.1'' @ crlf @ crlf))
     \<and> refused (\<lambda>e. case e of HTTP_Version _ \<Rightarrow> True | _ \<Rightarrow> False)
       (http_parse (''GET /x HTTP/0.9'' @ crlf @ crlf))
     \<and> refused (\<lambda>e. e = HTTP_RequestLine) (http_parse (''GET /x'' @ crlf @ crlf))"

lemma http_head_example: "measures_a_complete_head"
  by code_simp

text \<open>The heads above as lines, on which \<open>http_parse_head\<close> runs the parser.\<close>

lemma http_lines_parse:
  assumes "text = head_text (l # ls)" "list_all (\<lambda>l. cr \<notin> set l \<and> ascii l) (l # ls)"
  shows "http_parse text = and_then (request_line l) (absorb_headers ls)"
  unfolding assms(1) by (rule http_parse_head) (use assms(2) in \<open>auto simp: list_all_iff\<close>)

lemma http_get_example: "parses_a_plain_get"
proof -
  have "http_parse GET = and_then (request_line ''GET /nix-cache-info HTTP/1.1'') (absorb_headers [''Host: cache''])"
    by (rule http_lines_parse) (simp_all add: GET_def head_text_def crlf_lines_def ascii_def)
  then show ?thesis
    unfolding parses_a_plain_get_def by (simp only:) code_simp
qed

lemma absorb_length_line:
  assumes "split_once [colon] line = Some (name, value)" "eq_ignore_ascii_case name ''content-length''"
    "parse_u64 (trim value) = Inr n" "rq_framing r \<noteq> FrameChunked"
  shows "absorb_header r line = Inr (r\<lparr>rq_framing := FrameLength n\<rparr>)"
  using assms by (simp add: absorb_header_def)

lemma length_lines:
  "rq_framing r \<noteq> FrameChunked \<Longrightarrow> absorb_header r ''Content-Length: 4096'' = Inr (r\<lparr>rq_framing := FrameLength 4096\<rparr>)"
  "rq_framing r \<noteq> FrameChunked \<Longrightarrow> absorb_header r ''CONTENT-LENGTH: 7'' = Inr (r\<lparr>rq_framing := FrameLength 7\<rparr>)"
proof -
  have split: "split_once [colon] ''Content-Length: 4096'' = Some (''Content-Length'', '' 4096'')"
    "split_once [colon] ''CONTENT-LENGTH: 7'' = Some (''CONTENT-LENGTH'', '' 7'')" by code_simp+
  have name: "eq_ignore_ascii_case ''Content-Length'' ''content-length''"
    "eq_ignore_ascii_case ''CONTENT-LENGTH'' ''content-length''" by code_simp+
  have "trim '' 4096'' = ''4096''" "trim '' 7'' = ''7''" by code_simp+
  then have val: "parse_u64 (trim '' 4096'') = Inr 4096" "parse_u64 (trim '' 7'') = Inr 7"
    by (simp_all only:) (simp_all add: parse_u64_def is_digit_def digit_val_def)
  show "rq_framing r \<noteq> FrameChunked \<Longrightarrow> absorb_header r ''Content-Length: 4096'' = Inr (r\<lparr>rq_framing := FrameLength 4096\<rparr>)"
    by (rule absorb_length_line [OF split(1) name(1) val(1)])
  show "rq_framing r \<noteq> FrameChunked \<Longrightarrow> absorb_header r ''CONTENT-LENGTH: 7'' = Inr (r\<lparr>rq_framing := FrameLength 7\<rparr>)"
    by (rule absorb_length_line [OF split(2) name(2) val(2)])
qed

lemma absorb_first: "l \<noteq> [] \<Longrightarrow> absorb_header r l = Inr r' \<Longrightarrow> absorb_headers (l # ls) r = absorb_headers ls r'"
  by simp

lemma http_upload_example: "reads_the_headers_a_nix_upload_sends"
proof -
  let ?head = "''PUT /nar/abc.nar HTTP/1.1'' @ crlf @ ''Content-Length: 4096'' @ crlf @
    ''Expect: 100-continue'' @ crlf @ ''Authorization: Bearer secret'' @ crlf @ ''Connection: close'' @ crlf @ crlf"
  let ?r = "\<lparr>rq_method = Put, rq_target = ''/nar/abc.nar'', rq_framing = FrameEmpty, rq_keep_alive = Keep,
    rq_expectation = ExpectNone, rq_range = None, rq_authorization = None\<rparr>"
  have rest: "absorb_headers [''Expect: 100-continue'', ''Authorization: Bearer secret'', ''Connection: close'']
      (?r\<lparr>rq_framing := f\<rparr>) = Inr (?r\<lparr>rq_framing := f, rq_expectation := ExpectContinue,
      rq_authorization := Some ''Bearer secret'', rq_keep_alive := Close\<rparr>)" for f
    by code_simp
  have line: "request_line ''PUT /nar/abc.nar HTTP/1.1'' = Inr ?r" by code_simp
  have head: "http_parse ?head = and_then (request_line ''PUT /nar/abc.nar HTTP/1.1'') (absorb_headers [''Content-Length: 4096'', ''Expect: 100-continue'',
      ''Authorization: Bearer secret'', ''Connection: close''])"
    by (rule http_lines_parse) (simp_all add: head_text_def crlf_lines_def ascii_def)
  have "absorb_headers [''Content-Length: 4096'', ''Expect: 100-continue'',
      ''Authorization: Bearer secret'', ''Connection: close''] ?r = absorb_headers [''Expect: 100-continue'', ''Authorization: Bearer secret'', ''Connection: close'']
      (?r\<lparr>rq_framing := FrameLength 4096\<rparr>)"
    by (rule absorb_first, simp, rule length_lines, simp)
  also have "\<dots> = Inr (?r\<lparr>rq_framing := FrameLength 4096, rq_expectation := ExpectContinue,
      rq_authorization := Some ''Bearer secret'', rq_keep_alive := Close\<rparr>)"
    by (rule rest)
  finally show ?thesis
    unfolding reads_the_headers_a_nix_upload_sends_def Let_def head line and_then_simps
    by (simp add: body_len_def del: absorb_headers.simps)
qed

lemma http_case_example: "header_names_are_case_insensitive"
proof -
  let ?head = "''GET /x HTTP/1.1'' @ crlf @ ''CONTENT-LENGTH: 7'' @ crlf @ ''rAnGe: bytes=1-'' @ crlf @ crlf"
  let ?r = "\<lparr>rq_method = Get, rq_target = ''/x'', rq_framing = FrameEmpty, rq_keep_alive = Keep,
    rq_expectation = ExpectNone, rq_range = None, rq_authorization = None\<rparr>"
  have rest: "absorb_headers [''rAnGe: bytes=1-''] (?r\<lparr>rq_framing := f\<rparr>) =
      Inr (?r\<lparr>rq_framing := f, rq_range := Some ''bytes=1-''\<rparr>)" for f
    by code_simp
  have line: "request_line ''GET /x HTTP/1.1'' = Inr ?r" by code_simp
  have head: "http_parse ?head = and_then (request_line ''GET /x HTTP/1.1'') (absorb_headers [''CONTENT-LENGTH: 7'', ''rAnGe: bytes=1-''])"
    by (rule http_lines_parse) (simp_all add: head_text_def crlf_lines_def ascii_def)
  have "absorb_headers [''CONTENT-LENGTH: 7'', ''rAnGe: bytes=1-''] ?r = absorb_headers [''rAnGe: bytes=1-''] (?r\<lparr>rq_framing := FrameLength 7\<rparr>)"
    by (rule absorb_first, simp, rule length_lines, simp)
  also have "\<dots> = Inr (?r\<lparr>rq_framing := FrameLength 7, rq_range := Some ''bytes=1-''\<rparr>)"
    by (rule rest)
  finally show ?thesis
    unfolding header_names_are_case_insensitive_def Let_def head line and_then_simps
    by (simp del: absorb_headers.simps)
qed

lemma http_chunked_example: "chunked_bodies_are_recognized_rather_than_misparsed"
proof -
  let ?head = "''PUT /x HTTP/1.1'' @ crlf @ ''Transfer-Encoding: chunked'' @ crlf @ crlf"
  have "http_parse ?head = and_then (request_line ''PUT /x HTTP/1.1'')
      (absorb_headers [''Transfer-Encoding: chunked''])"
    by (rule http_lines_parse) (simp_all add: head_text_def crlf_lines_def ascii_def)
  then show ?thesis
    unfolding chunked_bodies_are_recognized_rather_than_misparsed_def Let_def by (simp only:) code_simp
qed

lemma http_refusal_example: "refuses_methods_and_versions_it_does_not_serve"
proof -
  have "http_parse (''POST /x HTTP/1.1'' @ crlf @ crlf) = and_then (request_line ''POST /x HTTP/1.1'') (absorb_headers [])"
    "http_parse (''GET /x HTTP/0.9'' @ crlf @ crlf) = and_then (request_line ''GET /x HTTP/0.9'') (absorb_headers [])"
    "http_parse (''GET /x'' @ crlf @ crlf) = and_then (request_line ''GET /x'') (absorb_headers [])"
    by (rule http_lines_parse; simp add: head_text_def crlf_lines_def ascii_def)+
  then show ?thesis
    unfolding refuses_methods_and_versions_it_does_not_serve_def by (simp only:) code_simp
qed

section \<open>http/response.rs\<close>

text \<open>\<open>replace('\r', "")\<close> drops the carriage returns before the comparison.\<close>

definition renders_a_narinfo_head :: bool where
  "renders_a_narinfo_head \<longleftrightarrow>
     (let head = head_new S_Ok Keep;
          head = head_header head ''Content-Type'' NARINFO_CONTENT_TYPE;
          bytes = with_body head (''StorePath: /nix/store/x'' @ [nl])
      in filter (\<lambda>c. c \<noteq> cr) bytes = unlines
           [''HTTP/1.1 200 OK'', ''Server: bincache'', ''Connection: keep-alive'',
            ''Content-Type: text/x-nix-narinfo'', ''Content-Length: 24'', [], ''StorePath: /nix/store/x''])"

definition a_bare_response_carries_a_length_and_no_body :: bool where
  "a_bare_response_carries_a_length_and_no_body \<longleftrightarrow>
     (let bytes = bare S_NotFound Close 0
      in filter (\<lambda>c. c \<noteq> cr) bytes = unlines
           [''HTTP/1.1 404 Not Found'', ''Server: bincache'', ''Connection: close'', ''Content-Length: 0'', []])"

lemma response_examples: "renders_a_narinfo_head" "a_bare_response_carries_a_length_and_no_body"
  by (simp_all add: renders_a_narinfo_head_def a_bare_response_carries_a_length_and_no_body_def
      with_body_def bare_def head_new_def head_header_def head_length_def head_finish_def code_def reason_def
      SERVER_def NARINFO_CONTENT_TYPE_def show_u64_def u64_from_usize_def show_nat.simps digit_chars)

section \<open>route.rs\<close>

definition KEY :: string where "KEY = ''5rnvz1n7hdmvbdzq0d5m5xrz3xz6ky8j''"

definition resolves_the_three_protocol_routes :: "'h ext \<Rightarrow> bool" where
  "resolves_the_three_protocol_routes X \<longleftrightarrow>
     expect (route_resolve X ''/nix-cache-info'') (\<lambda>r. r = R_CacheInfo)
     \<and> expect (route_resolve X (''/'' @ KEY @ ''.narinfo'')) (\<lambda>narinfo.
         expect (hash_parse KEY) (\<lambda>expected. narinfo = R_Narinfo expected))
     \<and> (let d = digest X ''nar''; name = ''/nar/'' @ sha_base32 d @ ''.nar.zst''
        in expect (route_resolve X name) (\<lambda>nar. nar = R_Nar \<lparr>file_hash = d, compression = Zstd\<rparr>))"

definition drops_a_query_string :: "'h ext \<Rightarrow> bool" where
  "drops_a_query_string X \<longleftrightarrow> expect (route_resolve X ''/nix-cache-info?whatever=1'') (\<lambda>r. r = R_CacheInfo)"

definition refuses_a_key_that_is_not_a_store_path_hash :: "'h ext \<Rightarrow> bool" where
  "refuses_a_key_that_is_not_a_store_path_hash X \<longleftrightarrow>
     refused (\<lambda>e. case e of RE_Key _ \<Rightarrow> True | _ \<Rightarrow> False) (route_resolve X ''/abc.narinfo'')
     \<and> refused (\<lambda>e. case e of RE_Key _ \<Rightarrow> True | _ \<Rightarrow> False)
         (route_resolve X ''/eeeeeeeeeeeeeeeeeeeeeeeeeeeeeeee.narinfo'')"

definition refuses_targets_it_does_not_serve :: "'h ext \<Rightarrow> bool" where
  "refuses_targets_it_does_not_serve X \<longleftrightarrow>
     refused (\<lambda>e. case e of RE_Unknown _ \<Rightarrow> True | _ \<Rightarrow> False) (route_resolve X ''/log/whatever.drv'')
     \<and> refused (\<lambda>e. case e of RE_Unknown _ \<Rightarrow> True | _ \<Rightarrow> False) (route_resolve X (''/'' @ KEY @ ''.ls''))
     \<and> refused (\<lambda>e. case e of RE_Relative _ \<Rightarrow> True | _ \<Rightarrow> False) (route_resolve X ''nix-cache-info'')"

definition resolves_an_uncompressed_upload_target :: "'h ext \<Rightarrow> bool" where
  "resolves_an_uncompressed_upload_target X \<longleftrightarrow>
     (let d = digest X ''nar''
      in expect (route_resolve X (''/nar/'' @ sha_base32 d @ ''.nar''))
           (\<lambda>resolved. resolved = R_Nar \<lparr>file_hash = d, compression = NoCompression\<rparr>))"

lemma route_refusal_examples:
  "drops_a_query_string X" "refuses_a_key_that_is_not_a_store_path_hash X" "refuses_targets_it_does_not_serve X"
  by code_simp+

lemma route_nar_target:
  assumes "sha_laws X"
  shows "route_resolve X (''/nar/'' @ sha_base32 (digest X s) @ ''.nar'' @ extension c) =
    Inr (R_Nar \<lparr>file_hash = digest X s, compression = c\<rparr>)"
  using route_resolve_nar [of "\<lparr>file_hash = digest X s, compression = c\<rparr>" "[]" X] assms
  by (simp add: narurl_ok_def sha_ok_digest query_def nar_url_def nar_name_def PREFIX_def)

lemma route_examples:
  assumes "sha_laws X"
  shows "resolves_the_three_protocol_routes X" "resolves_an_uncompressed_upload_target X"
proof -
  have "expect (route_resolve X ''/nix-cache-info'') (\<lambda>r. r = R_CacheInfo)"
    "expect (route_resolve X (''/'' @ KEY @ ''.narinfo'')) (\<lambda>narinfo.
       expect (hash_parse KEY) (\<lambda>expected. narinfo = R_Narinfo expected))"
    by code_simp+
  then show "resolves_the_three_protocol_routes X"
    using route_nar_target [OF assms, of "''nar''" Zstd]
    by (simp add: resolves_the_three_protocol_routes_def)
  show "resolves_an_uncompressed_upload_target X"
    using route_nar_target [OF assms, of "''nar''" NoCompression]
    by (simp add: resolves_an_uncompressed_upload_target_def)
qed

section \<open>auth.rs\<close>

definition admits_a_configured_token_and_denies_everything_else :: "'h ext \<Rightarrow> bool" where
  "admits_a_configured_token_and_denies_everything_else X \<longleftrightarrow>
     (let tokens = tokens_new X [''builder-one'', ''builder-two'']
      in admits X tokens ''builder-one'' = Admitted \<and> admits X tokens ''builder-two'' = Admitted
         \<and> admits X tokens ''builder-thr'' = Denied \<and> admits X tokens '''' = Denied
         \<and> admits X tokens ''builder-one '' = Denied)"

definition an_empty_set_admits_nothing :: "'h ext \<Rightarrow> bool" where
  "an_empty_set_admits_nothing X \<longleftrightarrow>
     (let tokens = tokens_new X [] in tokens_is_empty tokens \<and> admits X tokens ''anything'' = Denied)"

definition generated_tokens_are_distinct_and_admitted :: "'h ext \<Rightarrow> u8 list \<Rightarrow> u8 list \<Rightarrow> bool" where
  "generated_tokens_are_distinct_and_admitted X entropy entropy' \<longleftrightarrow>
     (let first = token_generate X entropy; second = token_generate X entropy'; tokens = tokens_new X [first]
      in first \<noteq> second \<and> admits X tokens first = Admitted \<and> admits X tokens second = Denied)"

definition reads_the_bearer_scheme_case_insensitively :: "'h ext \<Rightarrow> bool" where
  "reads_the_bearer_scheme_case_insensitively X \<longleftrightarrow>
     list_all (\<lambda>header. credential X header = Some ''abc'') [''Bearer abc'', ''bearer abc'', ''BEARER abc'']
     \<and> credential X ''abc'' = None \<and> credential X ''Digest abc'' = None"

definition reads_the_password_out_of_a_basic_credential :: "'h ext \<Rightarrow> bool" where
  "reads_the_password_out_of_a_basic_credential X \<longleftrightarrow>
     (let encoded = b64_encode X (map of_char ''bincache:the-token'')
      in credential X (''Basic '' @ encoded) = Some ''the-token'')
     \<and> (let encoded = b64_encode X (map of_char ''someone-else:the-token'')
        in credential X (''Basic '' @ encoded) = Some ''the-token'')
     \<and> (let encoded = b64_encode X (map of_char ''user:tok:en'')
        in credential X (''Basic '' @ encoded) = Some ''tok:en'')"

definition refuses_a_basic_credential_it_cannot_decode :: "'h ext \<Rightarrow> bool" where
  "refuses_a_basic_credential_it_cannot_decode X \<longleftrightarrow>
     credential X ''Basic !!!not-base64!!!'' = None
     \<and> (let encoded = b64_encode X (map of_char ''no-colon-here'')
        in credential X (''Basic '' @ encoded) = None)"

definition a_basic_credential_is_admitted_like_a_bearer_one :: "'h ext \<Rightarrow> bool" where
  "a_basic_credential_is_admitted_like_a_bearer_one X \<longleftrightarrow>
     (let tokens = tokens_new X [''the-token''];
          header = ''Basic '' @ b64_encode X (map of_char ''bincache:the-token'')
      in present (credential X header) (\<lambda>presented. admits X tokens presented = Admitted))"

text \<open>The run: tokens with distinct digests, base64 by its laws.\<close>

lemma auth_admission_examples:
  assumes "sha_laws X" "ct_laws X"
    and "inj_on (digest X) {''builder-one'', ''builder-two'', ''builder-thr'', '''', ''builder-one ''}"
  shows "admits_a_configured_token_and_denies_everything_else X" "an_empty_set_admits_nothing X"
proof -
  have "digest X a \<noteq> digest X b" if "a \<in> {''builder-one'', ''builder-two''}" "b \<in> {''builder-thr'', '''', ''builder-one ''}" for a b
  proof -
    have "a \<noteq> b" using that by auto
    then show ?thesis using inj_onD [OF assms(3), of a b] that by blast
  qed
  moreover have "admits X t p = Denied \<longleftrightarrow> admits X t p \<noteq> Admitted" for t p
    using admits_cases [of X t p] by auto
  ultimately show "admits_a_configured_token_and_denies_everything_else X"
    unfolding admits_a_configured_token_and_denies_everything_else_def Let_def
    by (simp add: admits_iff [OF assms(1,2)])
  show "an_empty_set_admits_nothing X"
    by (simp add: an_empty_set_admits_nothing_def tokens_new_def tokens_is_empty_def admits_def)
qed

lemma auth_generated_example:
  assumes "sha_laws X" "ct_laws X" "digest X (token_generate X e) \<noteq> digest X (token_generate X e')"
  shows "generated_tokens_are_distinct_and_admitted X e e'"
proof -
  have "token_generate X e \<noteq> token_generate X e'" using assms(3) by auto
  moreover have "admits X (tokens_new X [token_generate X e]) (token_generate X e) = Admitted"
    by (simp add: admits_iff [OF assms(1,2)])
  moreover have "admits X (tokens_new X [token_generate X e]) (token_generate X e') \<noteq> Admitted"
    using assms(3) by (simp add: admits_iff [OF assms(1,2)])
  ultimately show ?thesis
    using admits_cases [of X "tokens_new X [token_generate X e]" "token_generate X e'"]
    by (simp add: generated_tokens_are_distinct_and_admitted_def)
qed

lemma auth_bearer_example: "reads_the_bearer_scheme_case_insensitively X"
  by code_simp

lemma basic_of:
  assumes "b64_laws X" "ascii user" "ascii t" "colon \<notin> set user"
  shows "credential X (''Basic '' @ b64_encode X (map of_char (user @ colon # t))) = Some t"
proof (rule credential_basic)
  let ?e = "b64_encode X (map of_char (user @ colon # t))"
  show "b64_decode X ?e = Inr (map of_char (user @ colon # t))" using assms(1) by simp
  show "string_of_bytes (map of_char (user @ colon # t)) = user @ colon # t" by (rule string_of_bytes_map)
  show "from_utf8 (user @ colon # t) = Inr (user @ colon # t)"
    using assms(2,3) by (intro from_utf8_ascii) (auto simp: ascii_def)
  show "colon \<notin> set user" by fact
  have "visible c" if "c \<in> set ?e" for c using b64_char_visible [OF b64_chars [OF assms(1) that]] .
  then show "?e = [] \<or> visible (hd ?e) \<and> visible (last ?e)"
    using hd_in_set [of ?e] last_in_set [of ?e] by blast
qed

lemma auth_basic_examples:
  assumes "b64_laws X" "sha_laws X" "ct_laws X"
  shows "reads_the_password_out_of_a_basic_credential X" "a_basic_credential_is_admitted_like_a_bearer_one X"
proof -
  have ascii: "ascii ''bincache''" "ascii ''someone-else''" "ascii ''user''" "ascii ''the-token''" "ascii ''tok:en''"
    by (simp_all add: ascii_def)
  have cred: "credential X (''Basic '' @ b64_encode X (map of_char ''bincache:the-token'')) = Some ''the-token''"
    "credential X (''Basic '' @ b64_encode X (map of_char ''someone-else:the-token'')) = Some ''the-token''"
    "credential X (''Basic '' @ b64_encode X (map of_char ''user:tok:en'')) = Some ''tok:en''"
    using basic_of [OF assms(1) ascii(1) ascii(4)] basic_of [OF assms(1) ascii(2) ascii(4)]
      basic_of [OF assms(1) ascii(3) ascii(5)] by simp_all
  then show "reads_the_password_out_of_a_basic_credential X"
    by (simp only: reads_the_password_out_of_a_basic_credential_def Let_def simp_thms)
  show "a_basic_credential_is_admitted_like_a_bearer_one X"
    unfolding a_basic_credential_is_admitted_like_a_bearer_one_def Let_def cred(1)
    by (simp add: admits_iff [OF assms(2,3)])
qed

lemma auth_undecodable_example:
  assumes "b64_laws X"
  shows "refuses_a_basic_credential_it_cannot_decode X"
proof -
  let ?e = "b64_encode X (map of_char ''no-colon-here'')"
  have "\<exists>e. b64_decode X ''!!!not-base64!!!'' = Inl e"
    by (rule b64_reject [OF assms, of "CHR ''!''"]) (simp_all add: b64_char_def)
  moreover have "trim ''!!!not-base64!!!'' = ''!!!not-base64!!!''" by (rule trim_visible) (simp add: visible_def)
  ultimately have bad: "credential X ''Basic !!!not-base64!!!'' = None"
    by (auto simp: credential_def eq_ignore_ascii_case_def)
  have "visible c" if "c \<in> set ?e" for c using b64_char_visible [OF b64_chars [OF assms that]] .
  then have trim: "trim ?e = ?e" using hd_in_set [of ?e] last_in_set [of ?e] by (intro trim_visible) blast
  have split: "split_once [CHR '' ''] (''Basic '' @ ?e) = Some (''Basic'', ?e)"
    using split_once_char [of "CHR '' ''" "''Basic''" ?e] by simp
  have decoded: "b64_decode X ?e = Inr (map of_char ''no-colon-here'')" using assms by (rule b64_roundtrip)
  have "from_utf8 ''no-colon-here'' = Inr ''no-colon-here''" "split_once [colon] ''no-colon-here'' = None"
    by (rule from_utf8_ascii, simp add: ascii_def) simp
  moreover have "\<not> eq_ignore_ascii_case ''Basic'' ''Bearer''" "eq_ignore_ascii_case ''Basic'' ''Basic''"
    by code_simp+
  ultimately have "credential X (''Basic '' @ ?e) = None"
    unfolding credential_def split Option.bind.simps prod.case Let_def trim decoded sum.case string_of_bytes_map
    by (simp only: if_False if_True sum.case option.map)
  with bad show ?thesis
    unfolding refuses_a_basic_credential_it_cannot_decode_def Let_def by blast
qed

end
