(* ===== verification/UnitIndex.thy ===== *)
theory UnitIndex
  imports UnitCore IngestLaws
begin

text \<open>
  The unit tests of the index (\<open>crates/bincache-index/src/index.rs\<close>) over any database with the
  documented behaviour. A test is an operation that returns whether its assertions held; an
  \<open>expect\<close> on a call of the machine is the \<open>?\<close> of the model, so that a call that fails ends the
  test. The run: no assertion can fail.
\<close>

section \<open>Assertions on effects\<close>

text \<open>A call that only reads, and what an operation guarantees when it returns.\<close>

definition reading :: "('s \<Rightarrow> 'e + 'a) \<Rightarrow> ('s, 'e, 'a) io" where
  "reading f = (\<lambda>s. (f s, s))"

definition yields :: "('s \<Rightarrow> bool) \<Rightarrow> ('s, 'e, 'a) io \<Rightarrow> ('a \<Rightarrow> 's \<Rightarrow> bool) \<Rightarrow> bool" where
  "yields P m Q \<longleftrightarrow> (\<forall>s a s'. P s \<longrightarrow> m s = (Inr a, s') \<longrightarrow> Q a s')"

text \<open>A test passes from the states of \<open>P\<close> when it never returns that an assertion failed.\<close>

definition passes :: "('s \<Rightarrow> bool) \<Rightarrow> ('s, 'e, bool) io \<Rightarrow> bool" where
  "passes P m \<longleftrightarrow> yields P m (\<lambda>b _. b)"

lemma yieldsD: "yields P m Q \<Longrightarrow> P s \<Longrightarrow> m s = (Inr a, s') \<Longrightarrow> Q a s'"
  by (auto simp: yields_def)

lemma yields_then: "yields P m Q \<Longrightarrow> (\<And>a. yields (Q a) (f a) R) \<Longrightarrow> yields P (io_then m f) R"
  by (fastforce simp: yields_def elim!: io_thenE)

lemma yields_return: "(\<And>s. P s \<Longrightarrow> Q a s) \<Longrightarrow> yields P (io_return a) Q"
  by (auto simp: yields_def)

lemma yields_reading: "(\<And>s a. P s \<Longrightarrow> f s = Inr a \<Longrightarrow> Q a s) \<Longrightarrow> yields P (reading f) Q"
  by (auto simp: yields_def reading_def)

lemma yields_pure: "(\<And>a. r = Inr a \<Longrightarrow> yields P (f a) Q) \<Longrightarrow> yields P (io_then (io_lift r) f) Q"
  by (auto simp: yields_def elim!: io_thenE)

lemma yields_pre: "yields P' m Q \<Longrightarrow> (\<And>s. P s \<Longrightarrow> P' s) \<Longrightarrow> yields P m Q"
  by (auto simp: yields_def)

text \<open>What a call answered is known from there on.\<close>

lemma yields_fact: "(A \<Longrightarrow> yields P m Q) \<Longrightarrow> yields (\<lambda>s. A \<and> P s) m Q"
  by (auto simp: yields_def)

lemma yields_case: "(\<And>s. P s \<Longrightarrow> A) \<Longrightarrow> (A \<Longrightarrow> yields P m Q) \<Longrightarrow> yields P m Q"
  by (auto simp: yields_def)

section \<open>The contents of the index\<close>

definition holding ::
  "('d, 'r, 't) redb \<Rightarrow> ('d, 'r, 't) views \<Rightarrow> rkyv \<Rightarrow> (sp_hash \<Rightarrow> narinfo option) \<Rightarrow>
     (sha256 \<Rightarrow> entry option) \<Rightarrow> 'd \<Rightarrow> bool" where
  "holding D V K i n d \<longleftrightarrow> index_good D V K d \<and> infos V K d = i \<and> nars V K d = n"

lemma holding_publish:
  "core_ok q \<Longrightarrow> yields (holding D V K i n) (index_publish D K q)
     (\<lambda>_. holding D V K (i(sp_hash (ni_store_path q) \<mapsto> q)) n)"
  unfolding yields_def holding_def using publish_good [of D V K] by fastforce

lemma holding_put_nar:
  "entry_ok e \<Longrightarrow> yields (holding D V K i n) (index_put_nar D K h e) (\<lambda>_. holding D V K i (n(h \<mapsto> e)))"
  unfolding yields_def holding_def using put_nar_good [of D V K] by fastforce

lemma holding_narinfo:
  "yields (holding D V K i n) (reading (index_narinfo D K k)) (\<lambda>x d. x = i k \<and> holding D V K i n d)"
  unfolding holding_def by (rule yields_reading) (auto dest: index_narinfo_Inr)

lemma holding_nar:
  "yields (holding D V K i n) (reading (index_nar D K h)) (\<lambda>x d. x = n h \<and> holding D V K i n d)"
  unfolding holding_def by (rule yields_reading) (auto dest: index_nar_Inr)

lemma holding_count:
  "yields (holding D V K i n) (reading (index_count D)) (\<lambda>x d. unat x = card (dom i) \<and> holding D V K i n d)"
  unfolding holding_def by (rule yields_reading) (auto dest: index_count_Inr)

lemma holding_records:
  "yields (holding D V K i n) (reading (index_records D K))
     (\<lambda>x d. set x = ran i \<and> distinct (map (\<lambda>r. sp_hash (ni_store_path r)) x) \<and> holding D V K i n d)"
  unfolding holding_def by (rule yields_reading) (auto dest: index_records_Inr)

lemma holding_unpublish:
  "yields (holding D V K i n) (index_unpublish D K k) (\<lambda>x. case i k of
     None \<Rightarrow> \<lambda>d. x = None \<and> holding D V K i n d
   | Some q \<Rightarrow> \<lambda>d. x = Some q \<and> holding D V K (i(k := None)) (n(ni_nar_hash q := None)) d)"
  unfolding yields_def holding_def
proof (intro allI impI, elim conjE)
  fix d x d' assume d: "index_good D V K d" "infos V K d = i" "nars V K d = n"
    and run: "index_unpublish D K k d = (Inr x, d')"
  note out = unpublish_good [OF d(1) run, unfolded d(2,3)]
  show "(case i k of None \<Rightarrow> \<lambda>d. x = None \<and> index_good D V K d \<and> infos V K d = i \<and> nars V K d = n
    | Some q \<Rightarrow> \<lambda>d. x = Some q \<and> index_good D V K d \<and> infos V K d = i(k := None) \<and> nars V K d = n(ni_nar_hash q := None)) d'"
    using out by (cases "i k") simp_all
qed

lemma yields_unpublish:
  assumes "i k = None \<Longrightarrow> yields (holding D V K i n) (f None) R"
    and "\<And>q. i k = Some q \<Longrightarrow> yields (holding D V K (i(k := None)) (n(ni_nar_hash q := None))) (f (Some q)) R"
  shows "yields (holding D V K i n) (io_then (index_unpublish D K k) f) R"
proof (rule yields_then [OF holding_unpublish])
  fix x
  show "yields ((case i k of None \<Rightarrow> \<lambda>d. x = None \<and> holding D V K i n d
    | Some q \<Rightarrow> \<lambda>d. x = Some q \<and> holding D V K (i(k := None)) (n(ni_nar_hash q := None)) d)) (f x) R"
    using assms by (cases "i k") (auto intro: yields_fact)
qed

lemma holding_open: "yields (holding D V K i n) (index_open D path) (\<lambda>_. holding D V K i n)"
  by (auto simp: yields_def holding_def index_good_def infos_def nars_def dest: index_open_keeps)

section \<open>index.rs\<close>

text \<open>\<open>record\<close>, with the seed that the key generation drew.\<close>

definition published_as :: "'h ext \<Rightarrow> u8 list \<Rightarrow> string \<Rightarrow> narinfo" where
  "published_as X seed name =
     (let hash = digest X name;
          key = take HASH_WIDTH (sha_bytes hash);
          record = \<lparr>ni_store_path = SpPath (SpHash key) (projr (name_new name)),
            ni_compression = Zstd, ni_file_hash = digest X ''artifact'', ni_file_size = 512,
            ni_nar_hash = hash, ni_nar_size = 1024, ni_references = [], ni_deriver = None,
            ni_sigs = [], ni_ca = None\<rparr>
      in resign X test_dir (secret_generate TEST_KEY seed) record)"

definition publishes_and_reads_back_an_exact_record ::
  "'h ext \<Rightarrow> ('d, 'r, 't) redb \<Rightarrow> rkyv \<Rightarrow> string \<Rightarrow> u8 list \<Rightarrow> ('d, index_error, bool) io" where
  "publishes_and_reads_back_an_exact_record X D K path seed =
     io_then (index_open D path) (\<lambda>_.
     let published = published_as X seed ''hello'' in
     io_then (index_publish D K published) (\<lambda>_.
     io_then (reading (index_narinfo D K (sp_hash (ni_store_path published)))) (\<lambda>read.
     io_return (present read (\<lambda>read. read = published \<and> render X test_dir read = render X test_dir published)))))"

definition reports_an_absent_key_rather_than_failing ::
  "('d, 'r, 't) redb \<Rightarrow> rkyv \<Rightarrow> string \<Rightarrow> ('d, index_error, bool) io" where
  "reports_an_absent_key_rather_than_failing D K path =
     io_then (index_open D path) (\<lambda>_.
     let missing = SpHash (replicate 20 0) in
     io_then (reading (index_narinfo D K missing)) (\<lambda>read.
     io_then (reading (index_count D)) (\<lambda>n.
     io_return (read = None \<and> n = 0))))"

definition republishing_the_same_path_is_idempotent ::
  "'h ext \<Rightarrow> ('d, 'r, 't) redb \<Rightarrow> rkyv \<Rightarrow> string \<Rightarrow> u8 list \<Rightarrow> ('d, index_error, bool) io" where
  "republishing_the_same_path_is_idempotent X D K path seed =
     io_then (index_open D path) (\<lambda>_.
     let published = published_as X seed ''hello'' in
     io_then (index_publish D K published) (\<lambda>_.
     io_then (index_publish D K published) (\<lambda>_.
     io_then (reading (index_count D)) (\<lambda>n. io_return (n = 1)))))"

definition unpublish_returns_the_record_and_forgets_its_nar ::
  "'h ext \<Rightarrow> ('d, 'r, 't) redb \<Rightarrow> rkyv \<Rightarrow> string \<Rightarrow> u8 list \<Rightarrow> ('d, index_error, bool) io" where
  "unpublish_returns_the_record_and_forgets_its_nar X D K path seed =
     io_then (index_open D path) (\<lambda>_.
     let published = published_as X seed ''hello'';
         entry = \<lparr>en_file_hash = ni_file_hash published, en_file_size = ni_file_size published,
           en_nar_size = ni_nar_size published, en_compression = ni_compression published\<rparr>;
         key = sp_hash (ni_store_path published) in
     io_then (index_put_nar D K (ni_nar_hash published) entry) (\<lambda>_.
     io_then (index_publish D K published) (\<lambda>_.
     io_then (index_unpublish D K key) (\<lambda>removed.
     io_then (reading (index_narinfo D K key)) (\<lambda>record.
     io_then (reading (index_nar D K (ni_nar_hash published))) (\<lambda>nar.
     io_then (index_unpublish D K key) (\<lambda>again.
     io_return (present removed (\<lambda>removed. removed = published) \<and> record = None \<and> nar = None \<and> again = None))))))))"

definition nar_entries_survive_a_round_trip ::
  "'h ext \<Rightarrow> ('d, 'r, 't) redb \<Rightarrow> rkyv \<Rightarrow> string \<Rightarrow> ('d, index_error, bool) io" where
  "nar_entries_survive_a_round_trip X D K path =
     io_then (index_open D path) (\<lambda>_.
     let nar_hash = digest X ''uncompressed'';
         entry = \<lparr>en_file_hash = digest X ''compressed'', en_file_size = 99, en_nar_size = 1234, en_compression = Zstd\<rparr> in
     io_then (index_put_nar D K nar_hash entry) (\<lambda>_.
     io_then (reading (index_nar D K nar_hash)) (\<lambda>read.
     io_return (read = Some entry
       \<and> nar_name (entry_url entry) = sha_base32 (en_file_hash entry) @ ''.nar.zst''))))"

definition records_lists_everything_published ::
  "'h ext \<Rightarrow> ('d, 'r, 't) redb \<Rightarrow> rkyv \<Rightarrow> string \<Rightarrow> (string \<Rightarrow> u8 list) \<Rightarrow> ('d, index_error, bool) io" where
  "records_lists_everything_published X D K path seed =
     io_then (index_open D path) (\<lambda>_.
     io_then (io_each (\<lambda>name. index_publish D K (published_as X (seed name) name)) [''one'', ''two'', ''three'']) (\<lambda>_.
     io_then (reading (index_records D K)) (\<lambda>records.
     io_then (reading (index_count D)) (\<lambda>n. io_return (length records = 3 \<and> n = 3)))))"

definition a_reopened_index_sees_what_was_committed ::
  "'h ext \<Rightarrow> ('d, 'r, 't) redb \<Rightarrow> rkyv \<Rightarrow> string \<Rightarrow> u8 list \<Rightarrow> ('d, index_error, bool) io" where
  "a_reopened_index_sees_what_was_committed X D K path seed =
     (let published = published_as X seed ''hello'' in
      io_then (io_then (index_open D path) (\<lambda>_. index_publish D K published)) (\<lambda>_.
      io_then (index_open D path) (\<lambda>_.
      io_then (reading (index_narinfo D K (sp_hash (ni_store_path published)))) (\<lambda>read.
      io_return (read = Some published)))))"

section \<open>The run\<close>

text \<open>\<open>path\<close> removes a stale file: the tests start on an empty database.\<close>

abbreviation empty_index :: "('d, 'r, 't) redb \<Rightarrow> ('d, 'r, 't) views \<Rightarrow> rkyv \<Rightarrow> 'd \<Rightarrow> bool" where
  "empty_index D V K \<equiv> holding D V K (\<lambda>_. None) (\<lambda>_. None)"

lemma published_as_ok:
  assumes "sha_laws X" "name_ok (SpName name)"
  shows "core_ok (published_as X seed name)"
proof -
  have "name_new name = Inr (SpName name)" using assms(2) by (simp add: name_new_Inr)
  then show ?thesis
    using assms sha_ok_digest [OF assms(1), of name] sha_ok_digest [OF assms(1), of "''artifact''"]
    by (simp add: published_as_def core_ok_def Let_def path_ok_def hash_ok_def sha_ok_def)
qed

lemma test_names: "name_ok (SpName ''hello'')" "name_ok (SpName ''one'')" "name_ok (SpName ''two'')" "name_ok (SpName ''three'')"
  by code_simp+

lemmas index_steps = yields_fact yields_unpublish yields_then yields_return holding_open holding_publish holding_put_nar
  holding_narinfo holding_nar holding_count holding_records

lemma index_publish_example:
  assumes "sha_laws X"
  shows "passes (empty_index D V K) (publishes_and_reads_back_an_exact_record X D K path seed)"
  unfolding passes_def publishes_and_reads_back_an_exact_record_def Let_def
  by (rule index_steps published_as_ok [OF assms] test_names | simp)+

lemma index_absent_example: "passes (empty_index D V K) (reports_an_absent_key_rather_than_failing D K path)"
  unfolding passes_def reports_an_absent_key_rather_than_failing_def Let_def
  by (rule index_steps | simp add: word_unat_eq_iff)+

lemma index_idempotent_example:
  assumes "sha_laws X"
  shows "passes (empty_index D V K) (republishing_the_same_path_is_idempotent X D K path seed)"
  unfolding passes_def republishing_the_same_path_is_idempotent_def Let_def
  by (rule index_steps published_as_ok [OF assms] test_names | simp add: word_unat_eq_iff)+

lemma index_unpublish_example:
  assumes "sha_laws X"
  shows "passes (empty_index D V K) (unpublish_returns_the_record_and_forgets_its_nar X D K path seed)"
proof -
  let ?r = "published_as X seed ''hello''"
  have "core_ok ?r" by (rule published_as_ok [OF assms test_names(1)])
  then have "entry_ok \<lparr>en_file_hash = ni_file_hash ?r, en_file_size = ni_file_size ?r,
      en_nar_size = ni_nar_size ?r, en_compression = ni_compression ?r\<rparr>"
    by (simp add: entry_ok_def core_ok_def)
  with \<open>core_ok ?r\<close> show ?thesis
    unfolding passes_def unpublish_returns_the_record_and_forgets_its_nar_def Let_def
    by - (rule index_steps | simp)+
qed

lemma index_nar_example:
  assumes "sha_laws X"
  shows "passes (empty_index D V K) (nar_entries_survive_a_round_trip X D K path)"
proof -
  have "entry_ok \<lparr>en_file_hash = digest X ''compressed'', en_file_size = 99, en_nar_size = 1234, en_compression = Zstd\<rparr>"
    using sha_ok_digest [OF assms, of "''compressed''"] by (simp add: entry_ok_def)
  then show ?thesis
    unfolding passes_def nar_entries_survive_a_round_trip_def Let_def
    by - (rule index_steps | simp add: entry_url_def nar_name_def)+
qed

text \<open>The three records have three keys when the digest does not collide on the first 20 bytes.\<close>

lemma index_records_example:
  assumes "sha_laws X" "distinct (map (\<lambda>name. take 20 (sha_bytes (digest X name))) [''one'', ''two'', ''three''])"
  shows "passes (empty_index D V K) (records_lists_everything_published X D K path seed)"
proof -
  let ?key = "\<lambda>name. sp_hash (ni_store_path (published_as X (seed name) name))"
  let ?i = "((\<lambda>_. None)(?key ''one'' \<mapsto> published_as X (seed ''one'') ''one'',
    ?key ''two'' \<mapsto> published_as X (seed ''two'') ''two'', ?key ''three'' \<mapsto> published_as X (seed ''three'') ''three''))"
  have "?key name = SpHash (take 20 (sha_bytes (digest X name)))" for name
    by (simp add: published_as_def Let_def)
  then have keys: "?key ''one'' \<noteq> ?key ''two''" "?key ''one'' \<noteq> ?key ''three''" "?key ''two'' \<noteq> ?key ''three''"
    using assms(2) by simp_all
  have dom: "dom ?i = {?key ''one'', ?key ''two'', ?key ''three''}" by auto
  have card: "card (dom ?i) = 3" unfolding dom using keys by simp
  have records: "length rs = 3" if "set rs = ran ?i" "distinct (map (\<lambda>r. sp_hash (ni_store_path r)) rs)" for rs
  proof -
    have "ran ?i = {published_as X (seed ''one'') ''one'', published_as X (seed ''two'') ''two'',
        published_as X (seed ''three'') ''three''}"
      using keys keys [symmetric] by (simp add: ran_map_upd insert_commute)
    then have "set (map (\<lambda>r. sp_hash (ni_store_path r)) rs) = {?key ''one'', ?key ''two'', ?key ''three''}"
      using that(1) by simp
    then show ?thesis using distinct_card [OF that(2)] keys by simp
  qed
  show ?thesis
    unfolding passes_def records_lists_everything_published_def io_each.simps
    apply (assumption | rule index_steps published_as_ok [OF assms(1)] test_names)+
    using records by (intro conjI, blast) (simp only: card word_unat_eq_iff, simp)
qed

lemma index_reopened_example:
  assumes "sha_laws X"
  shows "passes (empty_index D V K) (a_reopened_index_sees_what_was_committed X D K path seed)"
  unfolding passes_def a_reopened_index_sees_what_was_committed_def Let_def
  by (rule index_steps published_as_ok [OF assms] test_names | simp)+

end
