(* ===== verification/UnitNarinfo.thy ===== *)
theory UnitNarinfo
  imports UnitCore
begin

text \<open>
  The unit tests of the narinfo parser (\<open>crates/bincache-core/src/narinfo/parse.rs\<close>), on the record
  of \<open>UnitCore.test_record\<close>: what the parser does with bodies that are cut, extended or edited.
\<close>

section \<open>Editing a text\<close>

text \<open>\<open>str::starts_with\<close>, and \<open>str::replace\<close> for a non-empty pattern.\<close>

definition starts_with :: "string \<Rightarrow> string \<Rightarrow> bool" where
  "starts_with p s \<longleftrightarrow> strip_prefix p s \<noteq> None"

function str_replace :: "string \<Rightarrow> string \<Rightarrow> string \<Rightarrow> string" where
  "str_replace old new s =
     (if old = [] then s
      else (case split_once old s of None \<Rightarrow> s | Some (a, b) \<Rightarrow> a @ new @ str_replace old new b))"
  by pat_completeness auto
termination
  by (relation "measure (\<lambda>(old, new, s). length s)") (auto dest: split_once_SomeD)

declare str_replace.simps [simp del]

definition stripped_body :: "string \<Rightarrow> string \<Rightarrow> string" where
  "stripped_body prefix body = concat (map (\<lambda>line. line @ [nl]) (filter (\<lambda>line. \<not> starts_with prefix line) (lines body)))"

section \<open>The tests\<close>

definition round_trips_a_rendered_record :: "'h ext \<Rightarrow> u8 list \<Rightarrow> bool" where
  "round_trips_a_rendered_record X seed \<longleftrightarrow>
     (let key = secret_generate TEST_KEY seed;
          original = resign X test_dir key (test_record X);
          body = render X test_dir original
      in expect (parse X body test_dir) (\<lambda>parsed. parsed = original \<and> render X test_dir parsed = body))"

definition ignores_unknown_keys :: "'h ext \<Rightarrow> bool" where
  "ignores_unknown_keys X \<longleftrightarrow>
     (let body = render X test_dir (test_record X); extended = body @ ''Unknown: whatever'' @ [nl]
      in expect (parse X extended test_dir) (\<lambda>parsed. parsed = test_record X))"

definition treats_an_absent_compression_field_as_bzip2 :: "'h ext \<Rightarrow> bool" where
  "treats_an_absent_compression_field_as_bzip2 X \<longleftrightarrow>
     (let stripped = stripped_body ''Compression:'' (render X test_dir (test_record X))
      in expect (parse X stripped test_dir) (\<lambda>parsed. ni_compression parsed = Bzip2))"

definition drops_an_unknown_deriver :: "'h ext \<Rightarrow> bool" where
  "drops_an_unknown_deriver X \<longleftrightarrow>
     (let body = render X test_dir (test_record X) @ ''Deriver: unknown-deriver'' @ [nl]
      in expect (parse X body test_dir) (\<lambda>parsed. ni_deriver parsed = ni_deriver (test_record X)))"

definition rejects_each_missing_required_field :: "'h ext \<Rightarrow> bool" where
  "rejects_each_missing_required_field X \<longleftrightarrow>
     list_all (\<lambda>(prefix, field).
         let stripped = stripped_body prefix (render X test_dir (test_record X))
         in refused (\<lambda>e. e = NP_Missing field) (parse X stripped test_dir))
       [(''StorePath:'', F_StorePath), (''URL:'', F_Url), (''NarHash:'', F_NarHash), (''NarSize:'', F_NarSize)]"

definition rejects_a_zero_nar_size :: "'h ext \<Rightarrow> bool" where
  "rejects_a_zero_nar_size X \<longleftrightarrow>
     (let body = str_replace ''NarSize: 226504'' ''NarSize: 0'' (render X test_dir (test_record X))
      in refused (\<lambda>e. e = NP_NarSizeZero) (parse X body test_dir))"

definition accepts_a_bare_key_as_an_empty_value :: "'h ext \<Rightarrow> bool" where
  "accepts_a_bare_key_as_an_empty_value X \<longleftrightarrow>
     (let body = str_replace ''References: 5rnvz'' (''References:'' @ [nl] @ ''Ignored: 5rnvz'')
                   (render X test_dir (test_record X))
      in expect (parse X body test_dir) (\<lambda>parsed. ni_references parsed = []))"

definition rejects_a_line_without_a_separator :: "'h ext \<Rightarrow> bool" where
  "rejects_a_line_without_a_separator X \<longleftrightarrow>
     (let body = render X test_dir (test_record X) @ ''garbage'' @ [nl]
      in refused (\<lambda>e. case e of NP_Line _ \<Rightarrow> True | _ \<Rightarrow> False) (parse X body test_dir))"

section \<open>The run\<close>

lemma test_key_record_ok:
  assumes "sha_laws X" "ed_laws X" "length seed = 32"
  shows "narinfo_ok (resign X test_dir (secret_generate TEST_KEY seed) (test_record X))"
  using test_record_ok [OF assms(1)] sig_ok_sign [OF assms(2) test_key_ok [OF assms(3)]]
  by (simp add: narinfo_ok_def resign_def core_ok_def) (simp add: sign_def TEST_KEY_def)

lemma narinfo_round_trip_example:
  assumes "sha_laws X" "b64_laws X" "ed_laws X" "length seed = 32"
  shows "round_trips_a_rendered_record X seed"
  using parse_render [OF assms(2) test_key_record_ok [OF assms(1,3,4)]]
  by (simp add: round_trips_a_rendered_record_def test_dir_eq)

text \<open>Bodies made of the record's lines and others: the parser runs over the lines.\<close>

lemma test_lines_ok:
  "sha_laws X \<Longrightarrow> b64_laws X \<Longrightarrow> list_all line_ok (render_lines X test_dir (test_record X))"
  by (rule render_lines_ok) (simp_all add: test_record_ok test_dir_eq)

lemma test_draft:
  assumes "sha_laws X" "b64_laws X"
  shows "and_then (parse_lines X test_dir (render_lines X test_dir (test_record X)) draft_default) finish = Inr (test_record X)"
  using parse_render [OF assms(2) test_record_ok [OF assms(1)], of test_dir] lines_unlines [OF test_lines_ok [OF assms]]
  by (simp add: parse_def render_unlines test_dir_eq)

lemma and_then_assoc: "and_then (and_then m f) g = and_then m (\<lambda>a. and_then (f a) g)"
  by (cases m) simp_all

lemma parse_extended:
  assumes "sha_laws X" "b64_laws X" "line_ok l"
  shows "parse X (render X test_dir (test_record X) @ l @ [nl]) test_dir =
    and_then (parse_lines X test_dir (render_lines X test_dir (test_record X)) draft_default)
      (\<lambda>d. and_then (parse_lines X test_dir [l] d) finish)"
proof -
  have "render X test_dir (test_record X) @ l @ [nl] = unlines (render_lines X test_dir (test_record X) @ [l])"
    by (simp add: render_unlines)
  moreover have "list_all line_ok (render_lines X test_dir (test_record X) @ [l])"
    using test_lines_ok [OF assms(1,2)] assms(3) by simp
  ultimately show ?thesis
    by (simp only: parse_def lines_unlines parse_lines_append and_then_assoc)
qed

lemma narinfo_extended_examples:
  assumes "sha_laws X" "b64_laws X"
  shows "ignores_unknown_keys X" "drops_an_unknown_deriver X" "rejects_a_line_without_a_separator X"
proof -
  obtain d where d: "parse_lines X test_dir (render_lines X test_dir (test_record X)) draft_default = Inr d"
    "finish d = Inr (test_record X)"
    using test_draft [OF assms] by (auto simp: result_iffs)
  have "parse_lines X test_dir [''Unknown: whatever''] = Inr"
    by (rule ext) (simp add: parse_lines.simps split_line_def field_from_str_def)
  moreover have "parse_lines X test_dir [''Deriver: unknown-deriver''] = Inr"
    by (rule ext) (simp add: parse_lines.simps split_line_def field_from_str_def DERIVER_UNKNOWN_def)
  moreover have "parse_lines X test_dir [''garbage''] = (\<lambda>_. Inl (NP_Line ''garbage''))"
    by (rule ext) (simp add: parse_lines.simps split_line_def strip_suffix_def)
  ultimately show "ignores_unknown_keys X" "drops_an_unknown_deriver X" "rejects_a_line_without_a_separator X"
    using d by (simp_all add: ignores_unknown_keys_def drops_an_unknown_deriver_def
        rejects_a_line_without_a_separator_def parse_extended [OF assms] line_ok_def
        del: append_Cons append_assoc)
qed

text \<open>Bodies with lines removed.\<close>

lemma record_lines:
  assumes "sha_laws X" "b64_laws X"
  shows "lines (render X test_dir (test_record X)) = render_lines X test_dir (test_record X)"
  unfolding render_unlines by (rule lines_unlines [OF test_lines_ok [OF assms]])

lemma parse_without:
  assumes "sha_laws X" "b64_laws X"
  shows "parse X (stripped_body prefix (render X test_dir (test_record X))) test_dir =
    and_then (parse_lines X test_dir
      (filter (\<lambda>line. \<not> starts_with prefix line) (render_lines X test_dir (test_record X))) draft_default) finish"
proof -
  have "list_all line_ok (filter (\<lambda>line. \<not> starts_with prefix line) (render_lines X test_dir (test_record X)))"
    using test_lines_ok [OF assms] by (auto simp: list_all_iff)
  then show ?thesis
    by (simp add: parse_def stripped_body_def record_lines [OF assms] lines_unlines flip: unlines_def)
qed

lemma starts_with_field:
  "starts_with ''Compression:'' (field_line f v) \<longleftrightarrow> f = F_Compression"
  "starts_with ''StorePath:'' (field_line f v) \<longleftrightarrow> f = F_StorePath"
  "starts_with ''URL:'' (field_line f v) \<longleftrightarrow> f = F_Url"
  "starts_with ''NarHash:'' (field_line f v) \<longleftrightarrow> f = F_NarHash"
  "starts_with ''NarSize:'' (field_line f v) \<longleftrightarrow> f = F_NarSize"
  by (cases f; simp add: starts_with_def field_line_def)+

text \<open>What each line of the record contributes to the draft.\<close>

lemma absorb_record:
  assumes "narinfo_ok r" "ni_deriver r = Some p"
  shows "absorb X d0 d F_StorePath (dir_print d0 (ni_store_path r)) = Inr (d\<lparr>d_store_path := Some (ni_store_path r)\<rparr>)"
    "absorb X d0 d F_Compression (compression_display (ni_compression r)) = Inr (d\<lparr>d_compression := Some (ni_compression r)\<rparr>)"
    "absorb X d0 d F_FileHash (sha_display (ni_file_hash r)) = Inr (d\<lparr>d_file_hash := Some (ni_file_hash r)\<rparr>)"
    "absorb X d0 d F_FileSize (show_u64 (ni_file_size r)) = Inr (d\<lparr>d_file_size := Some (ni_file_size r)\<rparr>)"
    "absorb X d0 d F_NarHash (sha_display (ni_nar_hash r)) = Inr (d\<lparr>d_nar_hash := Some (ni_nar_hash r)\<rparr>)"
    "absorb X d0 d F_NarSize (show_u64 (ni_nar_size r)) = Inr (d\<lparr>d_nar_size := Some (ni_nar_size r)\<rparr>)"
    "absorb X d0 d F_References (join '' '' (map path_display (ni_references r))) = Inr (d\<lparr>d_references := d_references d @ ni_references r\<rparr>)"
    "absorb X d0 d F_Deriver (path_display p) = Inr (d\<lparr>d_deriver := Some p\<rparr>)"
  using assms
  by (simp_all add: narinfo_ok_def core_ok_def sp_dir_codec.parse_print compression_codec.parse_print
      sha_parse_display parse_show_u64 absorb_references absorb_deriver del: absorb.simps(8,9))

lemma test_deriver: obtains p where "ni_deriver (test_record X) = Some p"
  by (simp add: test_record_def test_paths)

lemma narinfo_without_examples:
  assumes "sha_laws X" "b64_laws X"
  shows "treats_an_absent_compression_field_as_bzip2 X" "rejects_each_missing_required_field X"
proof -
  obtain p where p: "ni_deriver (test_record X) = Some p" by (rule test_deriver)
  note absorbed = absorb_record [OF test_record_ok [OF assms(1)] p]
  have size: "ni_nar_size (test_record X) \<noteq> 0" by simp
  show "treats_an_absent_compression_field_as_bzip2 X"
    unfolding treats_an_absent_compression_field_as_bzip2_def Let_def parse_without [OF assms]
    by (simp add: render_lines_def p starts_with_field absorbed absorb.simps(2) draft_default_def finish_def
        nar_url_plain size del: absorb.simps(1,3-11) test_record_fields(2-5))
  show "rejects_each_missing_required_field X"
    unfolding rejects_each_missing_required_field_def Let_def prod.case parse_without [OF assms]
    by (simp add: render_lines_def p starts_with_field absorbed absorb.simps(2) draft_default_def finish_def
        nar_url_plain size del: absorb.simps(1,3-11) test_record_fields(2-5))
qed

text \<open>Bodies with a line edited: the two texts are concrete.\<close>

lemma edited_bodies:
  "str_replace ''NarSize: 226504'' ''NarSize: 0'' (unlines RENDERED) =
     unlines (RENDERED[6 := field_line F_NarSize ''0''])"
  "str_replace ''References: 5rnvz'' (''References:'' @ [nl] @ ''Ignored: 5rnvz'') (unlines RENDERED) =
     unlines (take 7 RENDERED @
       [''References:'', ''Ignored: 5rnvz1n7hdmvbdzq0d5m5xrz3xz6ky8j-hello-2.12.1 kzp5qfy8m2h3vqcvjrsw1sn8fzsz5nx8-glibc-2.37'']
       @ drop 8 RENDERED)"
  by code_simp+

lemma zero_text: "absorb X d0 d F_NarSize ''0'' = Inr (d\<lparr>d_nar_size := Some 0\<rparr>)"
  by (simp add: parse_u64_def) (simp add: is_digit_def digit_val_def)

lemma parse_unlines:
  "list_all line_ok ls \<Longrightarrow> parse X (unlines ls) d = and_then (parse_lines X d ls draft_default) finish"
  by (simp add: parse_def lines_unlines)

lemma narinfo_edited_examples:
  assumes laws: "sha_laws X" "b64_laws X" and vectors: "nar_vector X" "file_vector X"
  shows "rejects_a_zero_nar_size X" "accepts_a_bare_key_as_an_empty_value X"
proof -
  obtain p where p: "ni_deriver (test_record X) = Some p" by (rule test_deriver)
  note absorbed = absorb_record [OF test_record_ok [OF laws(1)] p]
  have size: "ni_nar_size (test_record X) \<noteq> 0" by simp
  note ok = test_lines_ok [OF laws]
  note edited = edited_bodies [folded narinfo_texts(1) [OF vectors]]
  let ?zero = "(render_lines X test_dir (test_record X))[6 := field_line F_NarSize ''0'']"
  have "list_all line_ok ?zero"
    using ok by (simp add: render_lines_def p) (simp add: line_ok_def field_line_def)
  then show "rejects_a_zero_nar_size X"
    unfolding rejects_a_zero_nar_size_def Let_def render_unlines edited
    by (simp add: parse_unlines, simp add: render_lines_def p absorbed absorb.simps(2) draft_default_def
        finish_def nar_url_plain zero_text del: absorb.simps(1,3-11) test_record_fields(2-5))
  let ?bare = "take 7 (render_lines X test_dir (test_record X)) @
    [''References:'', ''Ignored: 5rnvz1n7hdmvbdzq0d5m5xrz3xz6ky8j-hello-2.12.1 kzp5qfy8m2h3vqcvjrsw1sn8fzsz5nx8-glibc-2.37'']
    @ drop 8 (render_lines X test_dir (test_record X))"
  have bare: "list_all line_ok ?bare"
    using ok by (auto simp: list_all_iff line_ok_def dest: in_set_takeD in_set_dropD)
  have skip: "parse_lines X test_dir (''References:'' # ls) d = parse_lines X test_dir ls d" for ls d
    by (simp add: parse_lines.simps split_line_def strip_suffix_def field_from_str_def)
  have skip': "parse_lines X test_dir
      (''Ignored: 5rnvz1n7hdmvbdzq0d5m5xrz3xz6ky8j-hello-2.12.1 kzp5qfy8m2h3vqcvjrsw1sn8fzsz5nx8-glibc-2.37'' # ls) d
      = parse_lines X test_dir ls d" for ls d
    by (simp add: parse_lines.simps split_line_def field_from_str_def)
  show "accepts_a_bare_key_as_an_empty_value X"
    unfolding accepts_a_bare_key_as_an_empty_value_def Let_def render_unlines edited parse_unlines [OF bare]
    by (simp add: render_lines_def p skip skip' absorbed absorb.simps(2) draft_default_def
        finish_def nar_url_plain size del: absorb.simps(1,3-11) test_record_fields(2-5))
qed

end
