(* ===== verification/UnitIngest.thy ===== *)
theory UnitIngest
  imports UnitIndex UnitNarinfo PushLive
begin

text \<open>
  The unit tests of the write side as a whole (\<open>crates/bincache-ingest/src/ingest.rs\<close>): an upload,
  the publish of the record that a client renders for it, and what maintenance does to the pair. As
  in \<open>UnitIndex\<close> a test is an operation on the world that returns whether its assertions held, and
  the run shows that none can fail, on any machine with the documented behaviour.
\<close>

section \<open>The world of the tests\<close>

definition called :: "('s, 'e, 'a) io \<Rightarrow> ('s, unit, 'a) io" where
  "called m = io_ctx (\<lambda>_. ()) m"

text \<open>A call whose own result the test looks at.\<close>

definition attempt :: "('s, 'e, 'a) io \<Rightarrow> ('s, unit, 'e + 'a) io" where
  "attempt m = (\<lambda>s. case m s of (r, s') \<Rightarrow> (Inr r, s'))"

definition containing ::
  "('e, 'z, 'f, 'h, 'd, 'r, 't) env \<Rightarrow> ('f, 'h) fs_views \<Rightarrow> ('d, 'r, 't) views \<Rightarrow> path \<Rightarrow>
     (narurl \<Rightarrow> string option) \<Rightarrow> (sp_hash \<Rightarrow> narinfo option) \<Rightarrow> (sha256 \<Rightarrow> entry option) \<Rightarrow>
     ('f, 'd) world \<Rightarrow> bool" where
  "containing E V U root a i n w \<longleftrightarrow> w_root w = root \<and> fs_good (e_fs E) V (w_fs w) \<and>
     artifacts V root (w_fs w) = a \<and> holding (e_redb E) U (e_rkyv E) i n (w_db w)"

lemma calledE:
  assumes "called m s = (Inr a, s')"
  obtains "m s = (Inr a, s')"
  using assms unfolding called_def by (auto elim: io_ctxE)

lemma called_on_fsE:
  assumes "called (on_fs m) w = (Inr a, w')"
  obtains f where "m (w_fs w) = (Inr a, f)" "w' = w\<lparr>w_fs := f\<rparr>"
  by (rule calledE [OF assms]) (auto simp: on_fs_def split: prod.splits)

lemma called_on_fs_dbE:
  assumes "called (on_fs_db m) w = (Inr a, w')"
  obtains f d where "m (w_fs w, w_db w) = (Inr a, (f, d))" "w' = w\<lparr>w_fs := f, w_db := d\<rparr>"
  by (rule calledE [OF assms]) (auto simp: on_fs_db_def split: prod.splits)

lemma yields_called: "yields P m Q \<Longrightarrow> yields P (called m) Q"
  unfolding yields_def by (metis calledE)

text \<open>An operation of the index, in the world.\<close>

lemma containing_db:
  assumes "yields (holding (e_redb E) U (e_rkyv E) i n) m (\<lambda>x d. R x \<and> holding (e_redb E) U (e_rkyv E) (i' x) (n' x) d)"
  shows "yields (containing E V U root a i n) (on_db m) (\<lambda>x w. R x \<and> containing E V U root a (i' x) (n' x) w)"
  using assms by (fastforce simp: yields_def containing_def on_db_def split: prod.splits)

section \<open>ingest.rs: the fixtures\<close>

definition test_ingest :: "u8 list \<Rightarrow> ingest" where
  "test_ingest seed = \<lparr>ig_key = secret_generate TEST_KEY seed, ig_dir = test_dir, ig_level = the (level_new 3)\<rparr>"

definition PATH :: string where "PATH = ''5rnvz1n7hdmvbdzq0d5m5xrz3xz6ky8j-hello-2.12.1''"

definition client_narinfo :: "'e ext \<Rightarrow> string \<Rightarrow> string" where
  "client_narinfo X body =
     (let hash = digest X body in
      ''StorePath: /nix/store/'' @ PATH @ [nl] @
      ''URL: nar/'' @ sha_base32 hash @ ''.nar'' @ [nl] @
      ''Compression: none'' @ [nl] @
      ''FileHash: '' @ sha_display hash @ [nl] @
      ''FileSize: '' @ show_nat (length body) @ [nl] @
      ''NarHash: '' @ sha_display hash @ [nl] @
      ''NarSize: '' @ show_nat (length body) @ [nl] @
      ''References: '' @ [nl] @
      ''Sig: cache.example.org-1:'' @ b64_encode X (replicate 64 7) @ [nl])"

text \<open>\<open>upload\<close>: a call that fails ends the test.\<close>

definition test_upload ::
  "('e, 'z, 'f, 'h, 'd, 'r, 't) env \<Rightarrow> ingest \<Rightarrow> string \<Rightarrow> (('f, 'd) world, unit, entry) io" where
  "test_upload E ig body =
     (let target = \<lparr>file_hash = digest (e_ext E) body, compression = NoCompression\<rparr> in
      io_then (called (ingest_receive E ig target)) (\<lambda>receiving w.
        case upload_write (e_ext E) (e_zstd E) (e_fs E) body (receiving, w_fs w) of
          (Inl _, (u, f)) \<Rightarrow> (Inl (), w\<lparr>w_fs := f\<rparr>)
        | (Inr _, (u, f)) \<Rightarrow>
            io_then (called (on_fs (upload_finish (e_ext E) (e_zstd E) (e_fs E) u))) (\<lambda>compressed.
            io_then (called (on_fs (upload_verify (e_fs E) compressed))) (\<lambda>verified w.
              called (on_fs_db (upload_store (e_fs E) (e_redb E) (e_rkyv E) (w_root w) verified)) w))
            (w\<lparr>w_fs := f\<rparr>)))"

section \<open>What the fixtures do\<close>

text \<open>What a finished upload leaves when it verifies and is stored.\<close>

lemma verify_store_effect:
  assumes laws: "sha_laws X" "length body < 2 ^ 64"
    and up: "fs_good F V f" "live_upload V root f c" "finished X Y V root f c body b"
    and index: "index_good D U K d"
    and ver: "upload_verify F c f = (Inr y, f1)" and st: "upload_store F D K root y (f1, d) = (Inr e, (f2, d2))"
  shows "fs_good F V f2 \<and> index_good D U K d2 \<and> infos U K d2 = infos U K d \<and> unzstd Y b = Some body \<and>
    e = stored_entry X b body \<and> artifacts V root f2 = (artifacts V root f)(stored_url X b \<mapsto> b) \<and>
    nars U K d2 = (nars U K d)(digest X body \<mapsto> stored_entry X b body)"
proof -
  note vk = upload_verify_keeps [OF up(1,2) ver]
  note fv = finished_verified [OF up(3) laws(2) ver]
  have hash: "sha_ok (vf_file_hash (up_state y))" using fv sha_ok_digest [OF laws(1)] by simp
  have g: "fs_good F V f1" "holds V root f1 (up_staged y) b" using vk fv by auto
  have nz: "vf_nar_size (up_state y) \<noteq> 0" using fv by blast
  have url: "verified_url (up_state y) = stored_url X b"
    "verified_entry (up_state y) = stored_entry X b body" "vf_nar_hash (up_state y) = digest X body"
    using fv by blast+
  note se = upload_store_effect [OF g(1) index g(2) hash nz st, unfolded url]
  moreover have "artifacts V root f1 = artifacts V root f" using vk by blast
  moreover have "unzstd Y b = Some body" using up(3) by (simp add: finished_def Let_def)
  ultimately show ?thesis by auto
qed

lemma test_upload_yields:
  assumes laws: "sha_laws (e_ext E)" "zstd_laws (e_zstd E) Y" and body: "length body < 2 ^ 64"
  shows "yields (containing E V U root a i n) (test_upload E ig body)
    (\<lambda>e w. \<exists>c. unzstd Y c = Some body \<and> e = stored_entry (e_ext E) c body \<and>
       containing E V U root (a(stored_url (e_ext E) c \<mapsto> c)) i
         (n(digest (e_ext E) body \<mapsto> stored_entry (e_ext E) c body)) w)"
  unfolding yields_def
proof (intro allI impI)
  fix w e w'
  assume w: "containing E V U root a i n w" and run: "test_upload E ig body w = (Inr e, w')"
  let ?target = "\<lparr>file_hash = digest (e_ext E) body, compression = NoCompression\<rparr>"
  from run obtain u w1 where rc: "ingest_receive E ig ?target w = (Inr u, w1)"
    and r1: "(case upload_write (e_ext E) (e_zstd E) (e_fs E) body (u, w_fs w1) of
          (Inl _, (u, f)) \<Rightarrow> (Inl (), w1\<lparr>w_fs := f\<rparr>)
        | (Inr _, (u, f)) \<Rightarrow>
            io_then (called (on_fs (upload_finish (e_ext E) (e_zstd E) (e_fs E) u))) (\<lambda>compressed.
            io_then (called (on_fs (upload_verify (e_fs E) compressed))) (\<lambda>verified w.
              called (on_fs_db (upload_store (e_fs E) (e_redb E) (e_rkyv E) (w_root w) verified)) w))
            (w1\<lparr>w_fs := f\<rparr>)) = (Inr e, w')"
    unfolding test_upload_def Let_def by (elim io_then_InrE calledE)
  have good: "fs_good (e_fs E) V (w_fs w)" "w_root w = root" using w by (simp_all add: containing_def)
  note re = ingest_receive_effect [OF good(1) rc, of Y, unfolded good(2)]
  obtain x v f1 where x: "upload_write (e_ext E) (e_zstd E) (e_fs E) body (u, w_fs w1) = (x, (v, f1))" by (metis prod.exhaust)
  from r1 x have xi: "x = Inr ()" by (cases x) auto
  have g1: "fs_good (e_fs E) V (w_fs w1)" "live_upload V root (w_fs w1) u" "receives (e_ext E) Y V root (w_fs w1) u []"
    using re laws by simp_all
  note wk = upload_write_keeps [OF g1(1,2) x]
  have rv: "receives (e_ext E) Y V root f1 v body"
    using upload_write_receives [OF laws g1(1,3) x [unfolded xi]] by simp
  let ?keep = "\<lambda>verified w. called (on_fs_db (upload_store (e_fs E) (e_redb E) (e_rkyv E) (w_root w) verified)) w"
  have r2: "io_then (called (on_fs (upload_finish (e_ext E) (e_zstd E) (e_fs E) v))) (\<lambda>compressed.
      io_then (called (on_fs (upload_verify (e_fs E) compressed))) ?keep) (w1\<lparr>w_fs := f1\<rparr>) = (Inr e, w')"
    using r1 by (simp add: x xi)
  obtain c w2 where c: "called (on_fs (upload_finish (e_ext E) (e_zstd E) (e_fs E) v)) (w1\<lparr>w_fs := f1\<rparr>) = (Inr c, w2)"
    and r3: "io_then (called (on_fs (upload_verify (e_fs E) c))) ?keep w2 = (Inr e, w')"
    using r2 by (rule io_then_InrE)
  obtain f2 where fin: "upload_finish (e_ext E) (e_zstd E) (e_fs E) v f1 = (Inr c, f2)"
    and w2: "w2 = w1\<lparr>w_fs := f2\<rparr>"
    using c by (rule called_on_fsE) simp
  obtain y w3 where y: "called (on_fs (upload_verify (e_fs E) c)) w2 = (Inr y, w3)"
    and r4: "?keep y w3 = (Inr e, w')"
    using r3 by (rule io_then_InrE)
  obtain f3 where ver: "upload_verify (e_fs E) c f2 = (Inr y, f3)" and w3: "w3 = w1\<lparr>w_fs := f3\<rparr>"
    using y by (rule called_on_fsE) (simp add: w2)
  obtain f4 d4 where st: "upload_store (e_fs E) (e_redb E) (e_rkyv E) (w_root w1) y (f3, w_db w1) = (Inr e, (f4, d4))"
    and out: "w' = w1\<lparr>w_fs := f4, w_db := d4\<rparr>"
    using r4 by (rule called_on_fs_dbE) (simp add: w3)
  have g2: "fs_good (e_fs E) V f1" "live_upload V root f1 v" using wk by simp_all
  note fk = upload_finish_keeps [OF g2 fin]
  obtain b where b: "finished (e_ext E) Y V root f2 c body b"
    using upload_finish_finished [OF laws g2(1) rv fin] by blast
  have g3: "fs_good (e_fs E) V f2" "live_upload V root f2 c" using fk by simp_all
  have db: "index_good (e_redb E) U (e_rkyv E) (w_db w1)" "infos U (e_rkyv E) (w_db w1) = i" "nars U (e_rkyv E) (w_db w1) = n"
    using w re by (simp_all add: containing_def holding_def)
  have root: "w_root w1 = root" using re good by simp
  have arts: "artifacts V root f2 = a" using w wk fk re good(2) by (simp add: containing_def)
  note se = verify_store_effect [OF laws(1) body g3 b db(1) ver st [unfolded root], unfolded arts db(2,3)]
  have grown: "e = stored_entry (e_ext E) b body" using se by blast
  have kept: "fs_good (e_fs E) V f4" "index_good (e_redb E) U (e_rkyv E) d4" "infos U (e_rkyv E) d4 = i"
    "artifacts V root f4 = a(stored_url (e_ext E) b \<mapsto> b)"
    "nars U (e_rkyv E) d4 = n(digest (e_ext E) body \<mapsto> stored_entry (e_ext E) b body)"
    using se by blast+
  have "unzstd Y b = Some body" using b by (simp add: finished_def Let_def)
  moreover have "containing E V U root (a(stored_url (e_ext E) b \<mapsto> b)) i
      (n(digest (e_ext E) body \<mapsto> stored_entry (e_ext E) b body)) w'"
    using kept root out by (simp add: containing_def holding_def)
  moreover note grown
  ultimately show "\<exists>c. unzstd Y c = Some body \<and> e = stored_entry (e_ext E) c body \<and>
      containing E V U root (a(stored_url (e_ext E) c \<mapsto> c)) i (n(digest (e_ext E) body \<mapsto> stored_entry (e_ext E) c body)) w'"
    by blast
qed


section \<open>What a client publishes\<close>

text \<open>The record that \<open>client_narinfo\<close> spells.\<close>

definition client_record :: "'e ext \<Rightarrow> string \<Rightarrow> narinfo" where
  "client_record X body =
     \<lparr>ni_store_path = projr (path_parse PATH), ni_compression = NoCompression, ni_file_hash = digest X body,
      ni_file_size = u64_from_usize (length body), ni_nar_hash = digest X body,
      ni_nar_size = u64_from_usize (length body), ni_references = [], ni_deriver = None,
      ni_sigs = [\<lparr>sig_name = ''cache.example.org-1'', sig_bytes = replicate 64 7\<rparr>], ni_ca = None\<rparr>"

lemma test_path: "path_ok (projr (path_parse PATH))" "path_display (projr (path_parse PATH)) = PATH"
proof -
  have p: "expect (path_parse PATH) (\<lambda>_. True)" by code_simp
  show "path_ok (projr (path_parse PATH))" "path_display (projr (path_parse PATH)) = PATH"
    by (rule parsed_path [OF p])+
qed

lemma client_signature_ok: "sig_ok \<lparr>sig_name = ''cache.example.org-1'', sig_bytes = replicate 64 7\<rparr>"
  by code_simp

lemma client_narinfo_render:
  assumes "length body < 2 ^ 64"
  shows "client_narinfo X body = render X test_dir (client_record X body)"
proof -
  have "show_u64 (u64_from_usize (length body)) = show_nat (length body)"
    using assms by (simp add: show_u64_def unat_u64_from_usize)
  then show ?thesis
    by (simp add: client_narinfo_def render_def client_record_def dir_print_def test_path test_dir_eq Let_def
      ni_nar_def nar_url_def nar_name_def PREFIX_def signature_display_def render_key_def)
qed

lemma client_narinfo_parses:
  assumes "sha_laws X" "b64_laws X" "length body < 2 ^ 64" "body \<noteq> []"
  shows "NarinfoParse.parse X (client_narinfo X body) test_dir = Inr (client_record X body)"
proof -
  have "unat (u64_from_usize (length body)) \<noteq> 0" using assms(3,4) by (simp add: unat_u64_from_usize)
  then have "u64_from_usize (length body) \<noteq> 0" by force
  then have "narinfo_ok (client_record X body)"
    using client_signature_ok
    by (simp add: narinfo_ok_def core_ok_def client_record_def sha_ok_digest [OF assms(1)] test_path)
  then show ?thesis
    unfolding client_narinfo_render [OF assms(3)] by (rule parse_render [OF assms(2)]) (simp_all add: test_dir_eq)
qed


section \<open>Publishing, forgetting and reading in the world of the tests\<close>

lemma called_publish:
  assumes "NarinfoParse.parse (e_ext E) text (ig_dir ig) = Inr q"
    and "n (ni_nar_hash q) = Some e" "en_nar_size e = ni_nar_size q"
  shows "yields (containing E V U root a i n) (called (on_db (ingest_publish E ig text)))
    (\<lambda>p w. p = resign (e_ext E) (ig_dir ig) (ig_key ig) (publish_record q e) \<and>
       containing E V U root a (i(sp_hash (ni_store_path q) \<mapsto> p)) n w)"
proof (rule yields_called, rule containing_db, unfold yields_def, intro allI impI)
  fix d p d'
  assume d: "holding (e_redb E) U (e_rkyv E) i n d" and run: "ingest_publish E ig text d = (Inr p, d')"
  show "p = resign (e_ext E) (ig_dir ig) (ig_key ig) (publish_record q e) \<and>
      holding (e_redb E) U (e_rkyv E) (i(sp_hash (ni_store_path q) \<mapsto> p)) n d'"
    using ingest_publish_effect [OF _ run, of U] d assms by (auto simp: holding_def Let_def)
qed

lemma called_delete:
  "yields (containing E V U root a i n) (called (on_db (maintain_delete (e_redb E) (e_rkyv E) k)))
    (\<lambda>x. case i k of
       None \<Rightarrow> \<lambda>w. x = D_Absent \<and> containing E V U root a i n w
     | Some q \<Rightarrow> \<lambda>w. x = D_Removed \<and> containing E V U root a (i(k := None)) (n(ni_nar_hash q := None)) w)"
proof (cases "i k")
  case None
  have "yields (holding (e_redb E) U (e_rkyv E) i n) (maintain_delete (e_redb E) (e_rkyv E) k)
      (\<lambda>x d. x = D_Absent \<and> holding (e_redb E) U (e_rkyv E) i n d)"
    using None holding_unpublish [of "e_redb E" U "e_rkyv E" i n k]
    by (fastforce simp: yields_def maintain_delete_def elim!: io_then_InrE io_ctxE split: option.splits)
  then show ?thesis using None by (auto intro: yields_called containing_db)
next
  case (Some q)
  have "yields (holding (e_redb E) U (e_rkyv E) i n) (maintain_delete (e_redb E) (e_rkyv E) k)
      (\<lambda>x d. x = D_Removed \<and> holding (e_redb E) U (e_rkyv E) (i(k := None)) (n(ni_nar_hash q := None)) d)"
    using Some holding_unpublish [of "e_redb E" U "e_rkyv E" i n k]
    by (fastforce simp: yields_def maintain_delete_def elim!: io_then_InrE io_ctxE split: option.splits)
  then show ?thesis using Some by (auto intro: yields_called containing_db)
qed

lemma called_narinfo:
  "yields (containing E V U root a i n) (called (on_db (reading (index_narinfo (e_redb E) (e_rkyv E) k))))
    (\<lambda>x w. x = i k \<and> containing E V U root a i n w)"
  by (rule yields_called, rule containing_db, rule holding_narinfo)

lemma called_nar:
  "yields (containing E V U root a i n) (called (on_db (reading (index_nar (e_redb E) (e_rkyv E) h))))
    (\<lambda>x w. x = n h \<and> containing E V U root a i n w)"
  by (rule yields_called, rule containing_db, rule holding_nar)

lemma called_read:
  assumes "narurl_ok u"
  shows "yields (containing E V U root a i n) (called (on_fs (store_read (e_fs E) root u)))
    (\<lambda>x w. map_option (\<lambda>rd. unat (rr_size rd)) x = map_option length (a u) \<and> containing E V U root a i n w)"
  unfolding yields_def
proof (intro allI impI)
  fix w x w'
  assume w: "containing E V U root a i n w" and run: "called (on_fs (store_read (e_fs E) root u)) w = (Inr x, w')"
  obtain f where f: "store_read (e_fs E) root u (w_fs w) = (Inr x, f)" "w' = w\<lparr>w_fs := f\<rparr>"
    using run by (rule called_on_fsE)
  have good: "fs_good (e_fs E) V (w_fs w)" using w by (simp add: containing_def)
  note rd = store_read_Inr [OF conjunct1 [OF good [unfolded fs_good_def]] f(1) assms]
  then have same: "same_view V (w_fs w) f" by blast
  have "fs_good (e_fs E) V f" "artifacts V root f = artifacts V root (w_fs w)"
    using good by (simp_all add: same_view_good [OF same] same_view_artifacts [OF same])
  then show "map_option (\<lambda>rd. unat (rr_size rd)) x = map_option length (a u) \<and> containing E V U root a i n w'"
    using w f(2) rd by (cases x) (auto simp: containing_def)
qed


section \<open>ingest.rs: the tests\<close>

text \<open>Each starts from the world its fixture opened: an empty store and an empty index.\<close>

definition repeat :: "string \<Rightarrow> nat \<Rightarrow> string" where
  "repeat s n = concat (replicate n s)"

definition test_publish ::
  "('e, 'z, 'f, 'h, 'd, 'r, 't) env \<Rightarrow> ingest \<Rightarrow> string \<Rightarrow> (('f, 'd) world, unit, narinfo) io" where
  "test_publish E ig text = called (on_db (ingest_publish E ig text))"

definition publishes_a_record_that_describes_what_was_stored ::
  "('e, 'z, 'f, 'h, 'd, 'r, 't) env \<Rightarrow> u8 list \<Rightarrow> (('f, 'd) world, unit, bool) io" where
  "publishes_a_record_that_describes_what_was_stored E seed =
     (let ig = test_ingest seed; body = repeat ''nix-archive-1 body'' 40 in
      io_then (test_upload E ig body) (\<lambda>e.
      io_then (test_publish E ig (client_narinfo (e_ext E) body)) (\<lambda>record.
      io_return (ni_compression record = Zstd \<and> ni_file_hash record = en_file_hash e
        \<and> ni_file_size record = en_file_size e \<and> ni_nar_hash record = digest (e_ext E) body
        \<and> unat (ni_nar_size record) = length body \<and> path_display (ni_store_path record) = PATH))))"

definition replaces_client_signatures_with_its_own ::
  "('e, 'z, 'f, 'h, 'd, 'r, 't) env \<Rightarrow> u8 list \<Rightarrow> (('f, 'd) world, unit, bool) io" where
  "replaces_client_signatures_with_its_own E seed =
     (let ig = test_ingest seed; body = repeat ''nix-archive-1 signed'' 40 in
      io_then (test_upload E ig body) (\<lambda>_.
      io_then (test_publish E ig (client_narinfo (e_ext E) body)) (\<lambda>record.
      io_return (length (ni_sigs record) = 1 \<and> sig_name (ni_sigs record ! 0) = TEST_KEY))))"

definition refuses_a_narinfo_whose_nar_was_never_uploaded ::
  "('e, 'z, 'f, 'h, 'd, 'r, 't) env \<Rightarrow> u8 list \<Rightarrow> (('f, 'd) world, unit, bool) io" where
  "refuses_a_narinfo_whose_nar_was_never_uploaded E seed =
     (let ig = test_ingest seed; body = ''never uploaded'' in
      io_then (attempt (on_db (ingest_publish E ig (client_narinfo (e_ext E) body)))) (\<lambda>r.
      io_return (refused (\<lambda>e. case e of IG_UnknownNar _ \<Rightarrow> True | _ \<Rightarrow> False) r)))"

definition refuses_a_pre_compressed_upload_and_names_the_fix ::
  "('e, 'z, 'f, 'h, 'd, 'r, 't) env \<Rightarrow> u8 list \<Rightarrow> (('f, 'd) world, unit, bool) io" where
  "refuses_a_pre_compressed_upload_and_names_the_fix E seed =
     (let ig = test_ingest seed; target = \<lparr>file_hash = digest (e_ext E) ''whatever'', compression = Xz\<rparr> in
      io_then (attempt (ingest_receive E ig target)) (\<lambda>r.
      io_return (refused (\<lambda>e. split_once ''?compression=none'' (ingest_display e) \<noteq> None) r)))"

definition delete_forgets_the_record_and_leaves_the_artifact ::
  "('e, 'z, 'f, 'h, 'd, 'r, 't) env \<Rightarrow> path \<Rightarrow> u8 list \<Rightarrow> (('f, 'd) world, unit, bool) io" where
  "delete_forgets_the_record_and_leaves_the_artifact E root seed =
     (let ig = test_ingest seed; body = repeat ''nix-archive-1 deletable'' 10 in
      io_then (test_upload E ig body) (\<lambda>_.
      io_then (test_publish E ig (client_narinfo (e_ext E) body)) (\<lambda>record.
      let key = sp_hash (ni_store_path record) in
      io_then (called (on_db (maintain_delete (e_redb E) (e_rkyv E) key))) (\<lambda>deleted.
      io_then (called (on_db (reading (index_narinfo (e_redb E) (e_rkyv E) key)))) (\<lambda>found.
      io_then (called (on_fs (store_read (e_fs E) root (ni_nar record)))) (\<lambda>artifact.
      io_then (called (on_db (maintain_delete (e_redb E) (e_rkyv E) key))) (\<lambda>again.
      io_return (deleted = D_Removed \<and> found = None \<and> artifact \<noteq> None \<and> again = D_Absent))))))))"

section \<open>ingest.rs: the run\<close>

abbreviation empty_plane ::
  "('e, 'z, 'f, 'h, 'd, 'r, 't) env \<Rightarrow> ('f, 'h) fs_views \<Rightarrow> ('d, 'r, 't) views \<Rightarrow> path \<Rightarrow> ('f, 'd) world \<Rightarrow> bool" where
  "empty_plane E V U root \<equiv> containing E V U root (\<lambda>_. None) (\<lambda>_. None) (\<lambda>_. None)"

definition stored_record :: "'e ext \<Rightarrow> u8 list \<Rightarrow> string \<Rightarrow> string \<Rightarrow> narinfo" where
  "stored_record X seed c body =
     resign X test_dir (secret_generate TEST_KEY seed) (publish_record (client_record X body) (stored_entry X c body))"

lemma yields_ex: "(\<And>c. yields (P c) m Q) \<Longrightarrow> yields (\<lambda>s. \<exists>c. P c s) m Q"
  by (auto simp: yields_def)

lemma length_repeat [simp]: "length (repeat s n) = n * length s"
  by (simp add: repeat_def length_concat sum_list_replicate)

text \<open>The upload and the publish that most tests start with.\<close>

lemma uploaded_and_published:
  assumes laws: "sha_laws (e_ext E)" "b64_laws (e_ext E)" "zstd_laws (e_zstd E) Y"
    and body: "length body < 2 ^ 64" "body \<noteq> []"
    and rest: "\<And>c. unzstd Y c = Some body \<Longrightarrow>
      yields (containing E V U root ((\<lambda>_. None)(stored_url (e_ext E) c \<mapsto> c))
          ((\<lambda>_. None)(sp_hash (projr (path_parse PATH)) \<mapsto> stored_record (e_ext E) seed c body))
          ((\<lambda>_. None)(digest (e_ext E) body \<mapsto> stored_entry (e_ext E) c body)))
        (f (stored_entry (e_ext E) c body) (stored_record (e_ext E) seed c body)) R"
  shows "yields (empty_plane E V U root)
    (io_then (test_upload E (test_ingest seed) body) (\<lambda>e.
     io_then (test_publish E (test_ingest seed) (client_narinfo (e_ext E) body)) (f e))) R"
proof (rule yields_then [OF test_upload_yields [OF laws(1,3) body(1)]], intro yields_ex yields_fact)
  fix e c assume c: "unzstd Y c = Some body" and e: "e = stored_entry (e_ext E) c body"
  have parses: "NarinfoParse.parse (e_ext E) (client_narinfo (e_ext E) body) (ig_dir (test_ingest seed)) =
      Inr (client_record (e_ext E) body)"
    using client_narinfo_parses [OF laws(1,2) body] by (simp add: test_ingest_def)
  show "yields (containing E V U root ((\<lambda>_. None)(stored_url (e_ext E) c \<mapsto> c)) (\<lambda>_. None)
        ((\<lambda>_. None)(digest (e_ext E) body \<mapsto> stored_entry (e_ext E) c body)))
      (io_then (test_publish E (test_ingest seed) (client_narinfo (e_ext E) body)) (f e)) R"
    unfolding test_publish_def
  proof (rule yields_then [OF called_publish [OF parses]])
    show "((\<lambda>_. None)(digest (e_ext E) body \<mapsto> stored_entry (e_ext E) c body)) (ni_nar_hash (client_record (e_ext E) body)) =
        Some (stored_entry (e_ext E) c body)"
      by (simp add: client_record_def)
    show "en_nar_size (stored_entry (e_ext E) c body) = ni_nar_size (client_record (e_ext E) body)"
      by (simp add: client_record_def stored_entry_def)
  next
    fix p
    show "yields (\<lambda>w. p = resign (e_ext E) (ig_dir (test_ingest seed)) (ig_key (test_ingest seed))
              (publish_record (client_record (e_ext E) body) (stored_entry (e_ext E) c body)) \<and>
          containing E V U root ((\<lambda>_. None)(stored_url (e_ext E) c \<mapsto> c))
            ((\<lambda>_. None)(sp_hash (ni_store_path (client_record (e_ext E) body)) \<mapsto> p))
            ((\<lambda>_. None)(digest (e_ext E) body \<mapsto> stored_entry (e_ext E) c body)) w)
        (f e p) R"
      using rest [OF c] by (intro yields_fact) (simp add: e stored_record_def test_ingest_def client_record_def)
  qed
qed


lemma stored_record_fields [simp]:
  "ni_store_path (stored_record X seed c body) = projr (path_parse PATH)"
  "ni_nar (stored_record X seed c body) = stored_url X c"
  "ni_nar_hash (stored_record X seed c body) = digest X body"
  "ni_nar_size (stored_record X seed c body) = u64_from_usize (length body)"
  "ni_file_size (stored_record X seed c body) = en_file_size (stored_entry X c body)"
  "ni_file_hash (stored_record X seed c body) = en_file_hash (stored_entry X c body)"
  "ni_compression (stored_record X seed c body) = Zstd"
  by (simp_all add: stored_record_def resign_def publish_record_def client_record_def ni_nar_def
      stored_url_def stored_entry_def STORED_AS_def)

lemma repeat_empty [simp]: "repeat s n = [] \<longleftrightarrow> n = 0 \<or> s = []"
  by (auto simp: repeat_def)

lemma publish_example:
  assumes "sha_laws (e_ext E)" "b64_laws (e_ext E)" "zstd_laws (e_zstd E) Y"
  shows "passes (empty_plane E V U root) (publishes_a_record_that_describes_what_was_stored E seed)"
  unfolding passes_def publishes_a_record_that_describes_what_was_stored_def Let_def
  by (rule uploaded_and_published [OF assms]; (rule yields_return)?) (simp_all add: test_path unat_u64_from_usize)

lemma signing_example:
  assumes "sha_laws (e_ext E)" "b64_laws (e_ext E)" "zstd_laws (e_zstd E) Y"
  shows "passes (empty_plane E V U root) (replaces_client_signatures_with_its_own E seed)"
  unfolding passes_def replaces_client_signatures_with_its_own_def Let_def
  by (rule uploaded_and_published [OF assms]; (rule yields_return)?)
    (simp_all add: stored_record_def resign_def sign_def secret_generate_def)

lemma delete_example:
  assumes "sha_laws (e_ext E)" "b64_laws (e_ext E)" "zstd_laws (e_zstd E) Y"
  shows "passes (empty_plane E V U root) (delete_forgets_the_record_and_leaves_the_artifact E root seed)"
proof -
  have url: "narurl_ok (stored_url (e_ext E) c)" for c
    using sha_ok_digest [OF assms(1), of c] by (simp add: stored_url_def narurl_ok_def)
  show ?thesis
    unfolding passes_def delete_forgets_the_record_and_leaves_the_artifact_def Let_def
  proof (rule uploaded_and_published [OF assms])
    fix c
    let ?body = "repeat ''nix-archive-1 deletable'' 10"
    let ?r = "stored_record (e_ext E) seed c ?body"
    let ?key = "sp_hash (ni_store_path ?r)"
    let ?a = "(\<lambda>_. None)(stored_url (e_ext E) c \<mapsto> c)"
    let ?i = "(\<lambda>_. None)(sp_hash (projr (path_parse PATH)) \<mapsto> ?r)"
    let ?n = "(\<lambda>_. None)(digest (e_ext E) ?body \<mapsto> stored_entry (e_ext E) c ?body)"
    have removed: "yields (containing E V U root ?a ?i ?n)
        (called (on_db (maintain_delete (e_redb E) (e_rkyv E) ?key)))
        (\<lambda>x w. x = D_Removed \<and> containing E V U root ?a (\<lambda>_. None) (\<lambda>_. None) w)"
      using called_delete [of E V U root ?a ?i ?n ?key] by simp
    have absent: "yields (containing E V U root ?a (\<lambda>_. None) (\<lambda>_. None))
        (called (on_db (maintain_delete (e_redb E) (e_rkyv E) ?key)))
        (\<lambda>x w. x = D_Absent \<and> containing E V U root ?a (\<lambda>_. None) (\<lambda>_. None) w)"
      using called_delete [of E V U root ?a "\<lambda>_. None" "\<lambda>_. None" ?key] by simp
    have read: "yields (containing E V U root ?a (\<lambda>_. None) (\<lambda>_. None))
        (called (on_fs (store_read (e_fs E) root (ni_nar ?r))))
        (\<lambda>x w. x \<noteq> None \<and> containing E V U root ?a (\<lambda>_. None) (\<lambda>_. None) w)"
      using called_read [OF url [of c], of E V U root ?a "\<lambda>_. None" "\<lambda>_. None"] by (fastforce simp: yields_def)
    show "yields (containing E V U root ?a ?i ?n)
      (io_then (called (on_db (maintain_delete (e_redb E) (e_rkyv E) ?key))) (\<lambda>deleted.
       io_then (called (on_db (reading (index_narinfo (e_redb E) (e_rkyv E) ?key)))) (\<lambda>found.
       io_then (called (on_fs (store_read (e_fs E) root (ni_nar ?r)))) (\<lambda>artifact.
       io_then (called (on_db (maintain_delete (e_redb E) (e_rkyv E) ?key))) (\<lambda>again.
       io_return (deleted = D_Removed \<and> found = None \<and> artifact \<noteq> None \<and> again = D_Absent))))))
      (\<lambda>b _. b)"
      by (rule yields_then [OF removed] yields_then [OF called_narinfo] yields_then [OF read]
          yields_then [OF absent] yields_fact yields_return | simp)+
  qed simp_all
qed

text \<open>A call whose result the test looks at answers something on a machine that works.\<close>

lemma orphan_example:
  assumes "sha_laws (e_ext E)" "b64_laws (e_ext E)" "redb_works (e_redb E)"
  shows "passes (empty_plane E V U root) (refuses_a_narinfo_whose_nar_was_never_uploaded E seed)"
  unfolding passes_def yields_def
proof (intro allI impI)
  fix w b w'
  assume w: "empty_plane E V U root w"
    and run: "refuses_a_narinfo_whose_nar_was_never_uploaded E seed w = (Inr b, w')"
  have parses: "NarinfoParse.parse (e_ext E) (client_narinfo (e_ext E) ''never uploaded'') (ig_dir (test_ingest seed)) =
      Inr (client_record (e_ext E) ''never uploaded'')"
    using client_narinfo_parses [OF assms(1,2), of "''never uploaded''"] by (simp add: test_ingest_def)
  have "index_nar (e_redb E) (e_rkyv E) (ni_nar_hash (client_record (e_ext E) ''never uploaded'')) (w_db w) = Inr None"
    using w index_nar_works [OF assms(3), of U "e_rkyv E" "w_db w"] by (simp add: containing_def holding_def)
  then have "ingest_publish E (test_ingest seed) (client_narinfo (e_ext E) ''never uploaded'') (w_db w) =
      (Inl (IG_UnknownNar (ni_nar_hash (client_record (e_ext E) ''never uploaded''))), w_db w)"
    using parses by (simp add: ingest_publish_def io_run)
  then show b
    using run by (simp add: refuses_a_narinfo_whose_nar_was_never_uploaded_def Let_def attempt_def on_db_def
      io_then_def io_return_def refused_def)
qed

lemma precompressed_example: "passes P (refuses_a_pre_compressed_upload_and_names_the_fix E seed)"
proof -
  have names: "split_once ''?compression=none'' (ingest_display (IG_PreCompressed Xz)) \<noteq> None" by code_simp
  show ?thesis
    using names by (simp add: passes_def yields_def refuses_a_pre_compressed_upload_and_names_the_fix_def Let_def
      attempt_def ingest_receive_def io_run refused_def)
qed

end
