(* ===== verification/UnitStore.thy ===== *)
theory UnitStore
  imports UnitIngest
begin

text \<open>
  The unit tests of the artifact store (\<open>crates/bincache-store/src/nar.rs\<close>) and of an upload
  (\<open>crates/bincache-ingest/src/upload.rs\<close>) whose assertions follow from the documented behaviour of a
  file system. The tests that count what a directory lists are not among them: the laws leave open
  whether a listing also shows a name that is already gone.
\<close>

section \<open>Calls on a staging file\<close>

text \<open>A read of a local file fills the buffer up to the end of the file, and only a name can be unlinked.\<close>

definition plain_files :: "('f, 'h) fsys \<Rightarrow> ('f, 'h) fs_views \<Rightarrow> bool" where
  "plain_files F V \<longleftrightarrow>
     (\<forall>h cap at f s f'. fs_read_at F h cap at f = (Inr s, f') \<longrightarrow>
        s = take cap (drop (unat at) (fv_data V f (fv_file V h)))) \<and>
     (\<forall>p f f'. fs_remove_file F p f = (Inr (), f') \<longrightarrow> fv_names V f p \<noteq> None)"

text \<open>The world, and a staging file that has received \<open>bs\<close>.\<close>

definition staging ::
  "('e, 'z, 'f, 'h, 'd, 'r, 't) env \<Rightarrow> ('f, 'h) fs_views \<Rightarrow> ('d, 'r, 't) views \<Rightarrow> path \<Rightarrow>
     (narurl \<Rightarrow> string option) \<Rightarrow> (sp_hash \<Rightarrow> narinfo option) \<Rightarrow> (sha256 \<Rightarrow> entry option) \<Rightarrow>
     'h staged \<Rightarrow> string \<Rightarrow> ('f, 'd) world \<Rightarrow> bool" where
  "staging E V U root a i n s bs w \<longleftrightarrow> containing E V U root a i n w \<and> holds V root (w_fs w) s bs"

lemma called_on_storeE:
  assumes "called (on_store m) w = (Inr a, w')"
  obtains s f where "m (w_store w, w_fs w) = (Inr a, (s, f))" "w' = w\<lparr>w_store := s, w_fs := f\<rparr>"
  by (rule calledE [OF assms]) (auto simp: on_store_def split: prod.splits)

lemma called_stage:
  "yields (containing E V U root a i n) (called (on_store (stage (e_fs E)))) (\<lambda>s. staging E V U root a i n s [])"
  unfolding yields_def
proof (intro allI impI)
  fix w s w' assume w: "containing E V U root a i n w" and run: "called (on_store (stage (e_fs E))) w = (Inr s, w')"
  obtain st f where f: "stage (e_fs E) (w_store w, w_fs w) = (Inr s, (st, f))" "w' = w\<lparr>w_store := st, w_fs := f\<rparr>"
    using run by (rule called_on_storeE)
  have good: "fs_good (e_fs E) V (w_fs w)" "w_root w = root" using w by (simp_all add: containing_def)
  show "staging E V U root a i n s [] w'"
    using stage_effect [OF good f(1)] w f(2) by (simp add: staging_def containing_def)
qed

lemma called_write:
  "yields (staging E V U root a i n s bs) (called (on_fs (staged_write (e_fs E) new s)))
    (\<lambda>s. staging E V U root a i n s (bs @ new))"
  unfolding yields_def
proof (intro allI impI)
  fix w s' w' assume w: "staging E V U root a i n s bs w"
    and run: "called (on_fs (staged_write (e_fs E) new s)) w = (Inr s', w')"
  obtain f where f: "staged_write (e_fs E) new s (w_fs w) = (Inr s', f)" "w' = w\<lparr>w_fs := f\<rparr>"
    using run by (rule called_on_fsE)
  have good: "fs_good (e_fs E) V (w_fs w)" "in_flight V root (w_fs w) s"
    using w by (simp_all add: staging_def containing_def holds_def)
  show "staging E V U root a i n s' (bs @ new) w'"
    using staged_write_effect [OF good f(1)] w f(2) by (simp add: staging_def containing_def)
qed

lemma called_commit:
  assumes "narurl_ok u"
  shows "yields (staging E V U root a i n s bs) (called (on_fs (staged_commit (e_fs E) root s u)))
    (\<lambda>k w. unat k = length bs \<and> containing E V U root (a(u \<mapsto> bs)) i n w)"
  unfolding yields_def
proof (intro allI impI)
  fix w k w' assume w: "staging E V U root a i n s bs w"
    and run: "called (on_fs (staged_commit (e_fs E) root s u)) w = (Inr k, w')"
  obtain f where f: "staged_commit (e_fs E) root s u (w_fs w) = (Inr k, f)" "w' = w\<lparr>w_fs := f\<rparr>"
    using run by (rule called_on_fsE)
  have good: "fs_good (e_fs E) V (w_fs w)" "holds V root (w_fs w) s bs"
    using w by (simp_all add: staging_def containing_def)
  show "unat k = length bs \<and> containing E V U root (a(u \<mapsto> bs)) i n w'"
    using staged_commit_effect [OF good assms f(1)] w f(2) by (simp add: staging_def containing_def)
qed

section \<open>Calls on an open artifact\<close>

definition opened ::
  "('e, 'z, 'f, 'h, 'd, 'r, 't) env \<Rightarrow> ('f, 'h) fs_views \<Rightarrow> ('d, 'r, 't) views \<Rightarrow> path \<Rightarrow>
     (narurl \<Rightarrow> string option) \<Rightarrow> (sp_hash \<Rightarrow> narinfo option) \<Rightarrow> (sha256 \<Rightarrow> entry option) \<Rightarrow>
     'h \<Rightarrow> string \<Rightarrow> ('f, 'd) world \<Rightarrow> bool" where
  "opened E V U root a i n h bs w \<longleftrightarrow> containing E V U root a i n w \<and> fv_data V (w_fs w) (fv_file V h) = bs"

lemma called_open:
  assumes "narurl_ok u" "a u = Some bs"
  shows "yields (containing E V U root a i n) (called (on_fs (store_read (e_fs E) root u)))
    (\<lambda>x w. x \<noteq> None \<and> unat (rr_size (the x)) = length bs \<and> opened E V U root a i n (rr_file (the x)) bs w)"
  unfolding yields_def
proof (intro allI impI)
  fix w x w'
  assume w: "containing E V U root a i n w" and run: "called (on_fs (store_read (e_fs E) root u)) w = (Inr x, w')"
  obtain f where f: "store_read (e_fs E) root u (w_fs w) = (Inr x, f)" "w' = w\<lparr>w_fs := f\<rparr>"
    using run by (rule called_on_fsE)
  have good: "fs_good (e_fs E) V (w_fs w)" using w by (simp add: containing_def)
  note rd = store_read_Inr [OF conjunct1 [OF good [unfolded fs_good_def]] f(1) assms(1)]
  then have same: "same_view V (w_fs w) f" by blast
  have "fs_good (e_fs E) V f" "artifacts V root f = artifacts V root (w_fs w)"
    using good by (simp_all add: same_view_good [OF same] same_view_artifacts [OF same])
  then show "x \<noteq> None \<and> unat (rr_size (the x)) = length bs \<and> opened E V U root a i n (rr_file (the x)) bs w'"
    using w f(2) rd assms(2) by (cases x) (auto simp: opened_def containing_def same_view_def)
qed

lemma called_read_at:
  assumes "plain_files (e_fs E) V"
  shows "yields (opened E V U root a i n (rr_file rd) bs) (called (on_fs (reader_read_at (e_fs E) rd cap at)))
    (\<lambda>s w. s = take cap (drop (unat at) bs) \<and> opened E V U root a i n (rr_file rd) bs w)"
  unfolding yields_def
proof (intro allI impI)
  fix w s w'
  assume w: "opened E V U root a i n (rr_file rd) bs w"
    and run: "called (on_fs (reader_read_at (e_fs E) rd cap at)) w = (Inr s, w')"
  obtain f where f: "reader_read_at (e_fs E) rd cap at (w_fs w) = (Inr s, f)" "w' = w\<lparr>w_fs := f\<rparr>"
    using run by (rule called_on_fsE)
  have good: "fs_good (e_fs E) V (w_fs w)" using w by (simp add: opened_def containing_def)
  have same: "same_view V (w_fs w) f" using read_at_view [OF _ f(1)] good by (simp add: fs_good_def)
  have "fs_read_at (e_fs E) (rr_file rd) cap at (w_fs w) = (Inr s, f)"
    using f(1) by (auto simp: reader_read_at_def elim: io_ctxE)
  then have "s = take cap (drop (unat at) (fv_data V (w_fs w) (fv_file V (rr_file rd))))"
    using assms unfolding plain_files_def by blast
  then show "s = take cap (drop (unat at) bs) \<and> opened E V U root a i n (rr_file rd) bs w'"
    using w f(2) good same_view_good [OF same] same_view_artifacts [OF same]
    by (simp add: opened_def containing_def) (use same in \<open>simp add: same_view_def\<close>)
qed

text \<open>A removal leaves the bytes of an open file alone.\<close>

lemma store_remove_plain:
  assumes "plain_files F V" "fs_good F V f" "narurl_ok u" "store_remove F root u f = (Inr x, f')"
  shows "(x = Absent \<longleftrightarrow> artifacts V root f u = None) \<and> fs_good F V f' \<and>
    artifacts V root f' = (artifacts V root f)(u := None) \<and> fv_data V f' = fv_data V f"
proof -
  obtain r f1 where r: "fs_remove_file F (store_path root u) f = (r, f1)" by fastforce
  have laws: "fs_laws F V" using assms(2) by (simp add: fs_good_def)
  note effect = store_remove_effect [OF assms(2-4)]
  show ?thesis
  proof (cases r)
    case (Inl e)
    then have "x = Absent" "same_view V f f1" "f' = f1"
      using assms(4) r remove_law(2) [OF laws] by (auto simp: store_remove_def Let_def split: if_splits)
    then show ?thesis using effect by (auto simp: same_view_def fun_upd_idem)
  next
    case (Inr y)
    have n: "fv_names V f (store_path root u) \<noteq> None" "fv_data V f1 = fv_data V f"
      using assms(1) r Inr remove_law(1) [OF laws] by (auto simp: plain_files_def)
    then have "artifacts V root f u \<noteq> None" using assms(3) by (simp add: artifacts_def)
    moreover have "x = Deleted" "f' = f1" using assms(4) r Inr by (auto simp: store_remove_def Let_def)
    ultimately show ?thesis using effect n by simp
  qed
qed

lemma called_remove:
  assumes "plain_files (e_fs E) V" "narurl_ok u"
  shows "yields (containing E V U root a i n) (called (on_fs (store_remove (e_fs E) root u)))
      (\<lambda>x w. (x = Absent \<longleftrightarrow> a u = None) \<and> containing E V U root (a(u := None)) i n w)"
    and "yields (opened E V U root a i n h bs) (called (on_fs (store_remove (e_fs E) root u)))
      (\<lambda>x w. (x = Absent \<longleftrightarrow> a u = None) \<and> opened E V U root (a(u := None)) i n h bs w)"
  unfolding yields_def
   apply (intro allI impI, elim called_on_fsE)
   apply (drule store_remove_plain [OF assms(1) _ assms(2), rotated])
    apply (simp add: containing_def)
   apply (simp add: containing_def)
  apply (intro allI impI, elim called_on_fsE)
  apply (drule store_remove_plain [OF assms(1) _ assms(2), rotated])
   apply (simp add: opened_def containing_def)
  apply (simp add: opened_def containing_def)
  done


section \<open>nar.rs\<close>

text \<open>Each test starts from the store its fixture opened.\<close>

definition test_artifact :: "'e ext \<Rightarrow> string \<Rightarrow> narurl" where
  "test_artifact X seed = \<lparr>file_hash = digest X seed, compression = Zstd\<rparr>"

definition commits_an_upload_and_reads_it_back ::
  "('e, 'z, 'f, 'h, 'd, 'r, 't) env \<Rightarrow> path \<Rightarrow> (('f, 'd) world, unit, bool) io" where
  "commits_an_upload_and_reads_it_back E root =
     (let url = test_artifact (e_ext E) ''payload'' in
      io_then (called (on_store (stage (e_fs E)))) (\<lambda>staged.
      io_then (called (on_fs (staged_write (e_fs E) ''hello '' staged))) (\<lambda>staged.
      io_then (called (on_fs (staged_write (e_fs E) ''world'' staged))) (\<lambda>staged.
      let written = sg_offset staged in
      io_then (called (on_fs (staged_commit (e_fs E) root staged url))) (\<lambda>committed.
      io_then (called (on_fs (store_read (e_fs E) root url))) (\<lambda>found.
      case found of
        None \<Rightarrow> io_return False
      | Some reader \<Rightarrow>
          io_then (called (on_fs (reader_read_at (e_fs E) reader 16 0))) (\<lambda>buffer.
          io_return (written = 11 \<and> committed = 11 \<and> rr_size reader = 11 \<and> buffer = ''hello world''))))))))"

definition reports_an_absent_artifact_rather_than_failing ::
  "('e, 'z, 'f, 'h, 'd, 'r, 't) env \<Rightarrow> path \<Rightarrow> (('f, 'd) world, unit, bool) io" where
  "reports_an_absent_artifact_rather_than_failing E root =
     (let url = test_artifact (e_ext E) ''missing'' in
      io_then (called (on_fs (store_read (e_fs E) root url))) (\<lambda>found.
      io_then (called (on_fs (store_remove (e_fs E) root url))) (\<lambda>removed.
      io_return (found = None \<and> removed = Absent))))"

definition an_unlinked_artifact_still_streams ::
  "('e, 'z, 'f, 'h, 'd, 'r, 't) env \<Rightarrow> path \<Rightarrow> (('f, 'd) world, unit, bool) io" where
  "an_unlinked_artifact_still_streams E root =
     (let url = test_artifact (e_ext E) ''unlinked'' in
      io_then (called (on_store (stage (e_fs E)))) (\<lambda>staged.
      io_then (called (on_fs (staged_write (e_fs E) ''streaming'' staged))) (\<lambda>staged.
      io_then (called (on_fs (staged_commit (e_fs E) root staged url))) (\<lambda>_.
      io_then (called (on_fs (store_read (e_fs E) root url))) (\<lambda>found.
      case found of
        None \<Rightarrow> io_return False
      | Some reader \<Rightarrow>
          io_then (called (on_fs (store_remove (e_fs E) root url))) (\<lambda>removed.
          io_then (called (on_fs (reader_read_at (e_fs E) reader 16 0))) (\<lambda>buffer.
          io_return (removed = Deleted \<and> buffer = ''streaming''))))))))"

section \<open>nar.rs: the run\<close>

lemma test_artifact_ok: "sha_laws X \<Longrightarrow> narurl_ok (test_artifact X seed)"
  using sha_ok_digest [of X seed] by (simp add: test_artifact_def narurl_ok_def)

lemma yields_some:
  assumes "\<And>rd. A rd \<Longrightarrow> yields (P rd) (f rd) Q"
  shows "yields (\<lambda>w. x \<noteq> None \<and> A (the x) \<and> P (the x) w) (case x of None \<Rightarrow> m | Some rd \<Rightarrow> f rd) Q"
  using assms by (cases x) (auto simp: yields_def)

lemma commit_read_example:
  assumes "sha_laws (e_ext E)" "plain_files (e_fs E) V"
  shows "passes (empty_plane E V U root) (commits_an_upload_and_reads_it_back E root)"
  unfolding passes_def commits_an_upload_and_reads_it_back_def Let_def
proof (rule yields_then [OF called_stage], rule yields_then [OF called_write], rule yields_then [OF called_write])
  let ?u = "test_artifact (e_ext E) ''payload''"
  note ok = test_artifact_ok [OF assms(1), of "''payload''"]
  fix s
  show "yields (staging E V U root (\<lambda>_. None) (\<lambda>_. None) (\<lambda>_. None) s (([] @ ''hello '') @ ''world''))
    (io_then (called (on_fs (staged_commit (e_fs E) root s ?u))) (\<lambda>committed.
     io_then (called (on_fs (store_read (e_fs E) root ?u))) (\<lambda>found.
     case found of None \<Rightarrow> io_return False
     | Some reader \<Rightarrow> io_then (called (on_fs (reader_read_at (e_fs E) reader 16 0))) (\<lambda>buffer.
         io_return (sg_offset s = 11 \<and> committed = 11 \<and> rr_size reader = 11 \<and> buffer = ''hello world'')))))
    (\<lambda>b _. b)"
  proof (rule yields_case [where A = "unat (sg_offset s) = 11"])
    assume off: "unat (sg_offset s) = 11"
    then have off: "sg_offset s = 11" by (simp add: word_unat_eq_iff)
    show ?thesis
      apply (rule yields_then [OF called_commit [OF ok]], rule yields_fact)
      apply (rule yields_then [OF called_open [OF ok]], simp, rule yields_some)
      apply (rule yields_then [OF called_read_at [OF assms(2)]], rule yields_fact, rule yields_return)
      using off by (simp add: word_unat_eq_iff)
  qed (simp add: staging_def holds_def)
qed

lemma absent_example:
  assumes "sha_laws (e_ext E)" "plain_files (e_fs E) V"
  shows "passes (empty_plane E V U root) (reports_an_absent_artifact_rather_than_failing E root)"
  unfolding passes_def reports_an_absent_artifact_rather_than_failing_def Let_def
  using test_artifact_ok [OF assms(1), of "''missing''"]
  by (intro yields_then [OF called_read] yields_then [OF called_remove(1) [OF assms(2)]] yields_fact yields_return) simp_all

lemma unlinked_example:
  assumes "sha_laws (e_ext E)" "plain_files (e_fs E) V"
  shows "passes (empty_plane E V U root) (an_unlinked_artifact_still_streams E root)"
proof -
  note ok = test_artifact_ok [OF assms(1), of "''unlinked''"]
  have deleted: "x = Absent \<longleftrightarrow> x \<noteq> Deleted" for x by (cases x) simp_all
  show ?thesis
    unfolding passes_def an_unlinked_artifact_still_streams_def Let_def
    apply (rule yields_then [OF called_stage], rule yields_then [OF called_write])
    apply (rule yields_then [OF called_commit [OF ok]], rule yields_fact)
    apply (rule yields_then [OF called_open [OF ok]], simp, rule yields_some)
    apply (rule yields_then [OF called_remove(2) [OF assms(2) ok]], rule yields_fact)
    apply (rule yields_then [OF called_read_at [OF assms(2)]], rule yields_fact, rule yields_return)
    by (simp add: deleted)
qed


section \<open>upload.rs\<close>

text \<open>\<open>receive\<close>: a body that arrives in chunks of seven bytes.\<close>

definition test_receive ::
  "('e, 'z, 'f, 'h, 'd, 'r, 't) env \<Rightarrow> string \<Rightarrow> sha256 \<Rightarrow> (('f, 'd) world, unit, ('h, compressed) upload) io" where
  "test_receive E body expected =
     io_then (called (on_store (stage (e_fs E)))) (\<lambda>staged.
     io_then (called (on_fs (upload_new (e_ext E) (e_zstd E) (e_fs E) staged expected (the (level_new 3))))) (\<lambda>u w.
       case upload_chunks (e_ext E) (e_zstd E) (e_fs E) (chunks_of 7 body) (u, w_fs w) of
         (Inl _, (u, f)) \<Rightarrow> (Inl (), w\<lparr>w_fs := f\<rparr>)
       | (Inr _, (u, f)) \<Rightarrow> called (on_fs (upload_finish (e_ext E) (e_zstd E) (e_fs E) u)) (w\<lparr>w_fs := f\<rparr>)))"

definition test_store ::
  "('e, 'z, 'f, 'h, 'd, 'r, 't) env \<Rightarrow> path \<Rightarrow> ('h, compressed) upload \<Rightarrow> (('f, 'd) world, unit, entry) io" where
  "test_store E root u =
     io_then (called (on_fs (upload_verify (e_fs E) u))) (\<lambda>verified.
     called (on_fs_db (upload_store (e_fs E) (e_redb E) (e_rkyv E) root verified)))"

definition stores_and_records_a_verified_upload ::
  "('e, 'z, 'f, 'h, 'd, 'r, 't) env \<Rightarrow> path \<Rightarrow> (('f, 'd) world, unit, bool) io" where
  "stores_and_records_a_verified_upload E root =
     (let body = repeat ''nix-archive-1 pretend this is a real NAR'' 64; nar_hash = digest (e_ext E) body in
      io_then (test_receive E body nar_hash) (\<lambda>u.
      io_then (test_store E root u) (\<lambda>e.
      io_then (called (on_db (reading (index_nar (e_redb E) (e_rkyv E) nar_hash)))) (\<lambda>found.
      io_then (called (on_fs (store_read (e_fs E) root (entry_url e)))) (\<lambda>reader.
      io_return (unat (en_nar_size e) = length body \<and> en_compression e = STORED_AS \<and> found = Some e
        \<and> present reader (\<lambda>reader. rr_size reader = en_file_size e)))))))"

definition an_empty_upload_is_refused ::
  "('e, 'z, 'f, 'h, 'd, 'r, 't) env \<Rightarrow> (('f, 'd) world, unit, bool) io" where
  "an_empty_upload_is_refused E =
     io_then (test_receive E [] (digest (e_ext E) [])) (\<lambda>u.
     io_then (attempt (on_fs (upload_verify (e_fs E) u))) (\<lambda>r.
     io_return (refused (\<lambda>e. e = UE_Empty) r)))"

definition compression_levels_are_range_checked :: bool where
  "compression_levels_are_range_checked \<longleftrightarrow>
     level_new 3 \<noteq> None \<and> level_new 22 \<noteq> None \<and> level_new 23 = None \<and> level_new (- 8) = None"

section \<open>upload.rs: the run\<close>

text \<open>The world, and a finished upload of \<open>body\<close>.\<close>

definition received ::
  "('e, 'z, 'f, 'h, 'd, 'r, 't) env \<Rightarrow> 'z zstd_views \<Rightarrow> ('f, 'h) fs_views \<Rightarrow> ('d, 'r, 't) views \<Rightarrow> path \<Rightarrow>
     (narurl \<Rightarrow> string option) \<Rightarrow> (sp_hash \<Rightarrow> narinfo option) \<Rightarrow> (sha256 \<Rightarrow> entry option) \<Rightarrow>
     string \<Rightarrow> sha256 \<Rightarrow> ('h, compressed) upload \<Rightarrow> ('f, 'd) world \<Rightarrow> bool" where
  "received E Y V U root a i n body expected u w \<longleftrightarrow> containing E V U root a i n w \<and>
     live_upload V root (w_fs w) u \<and> up_expected u = expected \<and>
     (\<exists>b. finished (e_ext E) Y V root (w_fs w) u body b)"

lemma test_receive_yields:
  assumes laws: "sha_laws (e_ext E)" "zstd_laws (e_zstd E) Y"
  shows "yields (containing E V U root a i n) (test_receive E body expected)
    (received E Y V U root a i n body expected)"
  unfolding yields_def
proof (intro allI impI)
  fix w c w' assume w: "containing E V U root a i n w" and run: "test_receive E body expected w = (Inr c, w')"
  let ?new = "upload_new (e_ext E) (e_zstd E) (e_fs E)"
  obtain s w1 where s: "called (on_store (stage (e_fs E))) w = (Inr s, w1)"
    and r1: "io_then (called (on_fs (?new s expected (the (level_new 3))))) (\<lambda>u w.
       case upload_chunks (e_ext E) (e_zstd E) (e_fs E) (chunks_of 7 body) (u, w_fs w) of
         (Inl _, (u, f)) \<Rightarrow> (Inl (), w\<lparr>w_fs := f\<rparr>)
       | (Inr _, (u, f)) \<Rightarrow> called (on_fs (upload_finish (e_ext E) (e_zstd E) (e_fs E) u)) (w\<lparr>w_fs := f\<rparr>)) w1 = (Inr c, w')"
    using run unfolding test_receive_def by (rule io_then_InrE)
  have st: "containing E V U root a i n w1" "holds V root (w_fs w1) s []"
    using yieldsD [OF called_stage w s] by (simp_all add: staging_def)
  obtain u w2 where u: "called (on_fs (?new s expected (the (level_new 3)))) w1 = (Inr u, w2)"
    and r2: "(case upload_chunks (e_ext E) (e_zstd E) (e_fs E) (chunks_of 7 body) (u, w_fs w2) of
         (Inl _, (u, f)) \<Rightarrow> (Inl (), w2\<lparr>w_fs := f\<rparr>)
       | (Inr _, (u, f)) \<Rightarrow> called (on_fs (upload_finish (e_ext E) (e_zstd E) (e_fs E) u)) (w2\<lparr>w_fs := f\<rparr>)) = (Inr c, w')"
    using r1 by (rule io_then_InrE)
  obtain g where g: "?new s expected (the (level_new 3)) (w_fs w1) = (Inr u, g)" "w2 = w1\<lparr>w_fs := g\<rparr>"
    using u by (rule called_on_fsE)
  note started = upload_new_receives [OF laws st(2) g(1)]
  then have w2: "w2 = w1" using g(2) by simp
  have good: "fs_good (e_fs E) V (w_fs w1)" using st by (simp add: containing_def)
  have live: "live_upload V root (w_fs w1) u" "up_expected u = expected"
    "receives (e_ext E) Y V root (w_fs w1) u []"
    using started receives_live [of "e_ext E" Y V root "w_fs w1" u "[]"] by auto
  obtain x v f1 where x: "upload_chunks (e_ext E) (e_zstd E) (e_fs E) (chunks_of 7 body) (u, w_fs w1) = (x, (v, f1))"
    by (metis prod.exhaust)
  have xi: "x = Inr ()" and r3: "called (on_fs (upload_finish (e_ext E) (e_zstd E) (e_fs E) v)) (w1\<lparr>w_fs := f1\<rparr>) = (Inr c, w')"
    using r2 by (cases x; simp add: x w2)+
  note ck = upload_chunks_keeps [OF good live(1) x]
  have rv: "receives (e_ext E) Y V root f1 v body"
    using upload_chunks_receives [OF laws good live(3) x [unfolded xi]] by (simp add: chunks_of_concat)
  obtain f2 where fin: "upload_finish (e_ext E) (e_zstd E) (e_fs E) v f1 = (Inr c, f2)" and w': "w' = w1\<lparr>w_fs := f2\<rparr>"
    using r3 by (rule called_on_fsE) simp
  have g: "fs_good (e_fs E) V f1" "live_upload V root f1 v" using ck by simp_all
  note fk = upload_finish_keeps [OF g fin]
  show "received E Y V U root a i n body expected c w'"
    using upload_finish_finished [OF laws g(1) rv fin] fk ck st(1) live(2) w'
    by (simp add: received_def containing_def)
qed

lemma test_store_yields:
  assumes laws: "sha_laws (e_ext E)" "length body < 2 ^ 64"
  shows "yields (received E Y V U root a i n body expected u) (test_store E root u)
    (\<lambda>e w. \<exists>c. unzstd Y c = Some body \<and> e = stored_entry (e_ext E) c body \<and>
       containing E V U root (a(stored_url (e_ext E) c \<mapsto> c)) i
         (n(digest (e_ext E) body \<mapsto> stored_entry (e_ext E) c body)) w)"
  unfolding yields_def
proof (intro allI impI)
  fix w e w' assume w: "received E Y V U root a i n body expected u w" and run: "test_store E root u w = (Inr e, w')"
  obtain y w1 where y: "called (on_fs (upload_verify (e_fs E) u)) w = (Inr y, w1)"
    and r1: "called (on_fs_db (upload_store (e_fs E) (e_redb E) (e_rkyv E) root y)) w1 = (Inr e, w')"
    using run unfolding test_store_def by (rule io_then_InrE)
  obtain f1 where ver: "upload_verify (e_fs E) u (w_fs w) = (Inr y, f1)" and w1: "w1 = w\<lparr>w_fs := f1\<rparr>"
    using y by (rule called_on_fsE)
  obtain f2 d2 where st: "upload_store (e_fs E) (e_redb E) (e_rkyv E) root y (f1, w_db w) = (Inr e, (f2, d2))"
    and w': "w' = w\<lparr>w_fs := f2, w_db := d2\<rparr>"
    using r1 by (rule called_on_fs_dbE) (simp add: w1)
  obtain b where fin: "finished (e_ext E) Y V root (w_fs w) u body b" and live: "live_upload V root (w_fs w) u"
    and c: "containing E V U root a i n w"
    using w by (auto simp: received_def)
  have good: "fs_good (e_fs E) V (w_fs w)" "index_good (e_redb E) U (e_rkyv E) (w_db w)"
    using c by (simp_all add: containing_def holding_def)
  note effect = verify_store_effect [OF laws good(1) live fin good(2) ver st]
  show "\<exists>c. unzstd Y c = Some body \<and> e = stored_entry (e_ext E) c body \<and>
      containing E V U root (a(stored_url (e_ext E) c \<mapsto> c)) i (n(digest (e_ext E) body \<mapsto> stored_entry (e_ext E) c body)) w'"
    using effect c w' by (intro exI [of _ b]) (simp add: containing_def holding_def)
qed

lemma read_size: "unat (rr_size r) = k \<Longrightarrow> rr_size r = u64_from_usize k"
  using unat_less64 [of "rr_size r"] by (simp add: word_unat_eq_iff unat_u64_from_usize)

lemma stores_example:
  assumes "sha_laws (e_ext E)" "zstd_laws (e_zstd E) Y"
  shows "passes (empty_plane E V U root) (stores_and_records_a_verified_upload E root)"
proof -
  let ?body = "repeat ''nix-archive-1 pretend this is a real NAR'' 64"
  have short: "length ?body < 2 ^ 64" by simp
  have url: "narurl_ok (stored_url (e_ext E) c)" "entry_url (stored_entry (e_ext E) c b) = stored_url (e_ext E) c" for c b
    using sha_ok_digest [OF assms(1), of c] by (simp_all add: stored_url_def stored_entry_def entry_url_def narurl_ok_def)
  show ?thesis
    unfolding passes_def stores_and_records_a_verified_upload_def Let_def
    apply (rule yields_then [OF test_receive_yields [OF assms]])
    apply (rule yields_then [OF test_store_yields [OF assms(1) short]], rule yields_ex, rule yields_fact, rule yields_fact)
    apply (rule yields_then [OF called_nar], rule yields_fact, simp only: url)
    apply (rule yields_then [OF called_read [OF url(1)]], rule yields_fact, rule yields_return)
    using short by (auto simp: stored_entry_def present_def unat_u64_from_usize intro: read_size split: option.splits)
qed

lemma empty_example:
  assumes "sha_laws (e_ext E)" "zstd_laws (e_zstd E) Y"
  shows "passes (empty_plane E V U root) (an_empty_upload_is_refused E)"
  unfolding passes_def an_empty_upload_is_refused_def
proof (rule yields_then [OF test_receive_yields [OF assms]], unfold yields_def, intro allI impI)
  fix u w b w'
  assume w: "received E Y V U root (\<lambda>_. None) (\<lambda>_. None) (\<lambda>_. None) [] (digest (e_ext E) []) u w"
    and run: "io_then (attempt (on_fs (upload_verify (e_fs E) u))) (\<lambda>r. io_return (refused (\<lambda>e. e = UE_Empty) r)) w = (Inr b, w')"
  obtain c where "finished (e_ext E) Y V root (w_fs w) u [] c" using w by (auto simp: received_def)
  then have "cm_nar_hash (up_state u) = digest (e_ext E) []" "unat (cm_nar_size (up_state u)) = 0"
    by (simp_all add: finished_def Let_def)
  then have "cm_nar_hash (up_state u) = up_expected u" "cm_nar_size (up_state u) = 0"
    using w by (simp_all add: received_def unat_eq_0)
  then have "upload_verify (e_fs E) u (w_fs w) = (Inl UE_Empty, staged_drop (e_fs E) (up_staged u) (w_fs w))"
    by (simp add: upload_verify_def Let_def)
  then show b using run by (simp add: attempt_def on_fs_def io_then_def io_return_def refused_def)
qed

lemma levels_example: compression_levels_are_range_checked
  by (simp add: compression_levels_are_range_checked_def level_new_def)

end
