(* ===== verification/Spec2Isabelle.thy ===== *)
theory Spec2Isabelle
  imports CoreSpec HttpSpec Cacheinfo BootSpec SystemSpec ShardSpec LiveSpec StagingSpec UnitServe UnitStore
begin

text \<open>
  bincache, a read-optimised binary cache server for Nix. This is the root of the development; the
  source paths below are relative to \<open>src/crates/\<close>.

  \<^bold>\<open>The program.\<close> A build node pushes a package in two requests. \<open>PUT nar/<hash>.nar\<close> streams an
  archive (a NAR), which the server hashes, compresses with zstd, stores under the digest of the
  compressed file and records in the index under the digest of the NAR. \<open>PUT <key>.narinfo\<close> then
  publishes the metadata: the server looks up what it received, replaces whatever the client said
  about the payload and signs the record with its own key. Clients \<open>GET\<close> the record and then the
  file it names. One process runs a thread per core, each with its own listener; the store and the
  index are shared. Subcommands delete records, compare store and index, and re-sign everything;
  they need the server stopped, since \<open>redb\<close> locks the index.

  \<^bold>\<open>Which theory models what\<close>, in the order the code builds up:
  \<^item> \<open>Prelude\<close>, \<open>Text\<close>, \<open>Effects\<close>: results as sums, the string functions of Rust's standard library
    over byte strings (split, trim, UTF-8, decimal numbers), effectful operations as functions on an
    explicit state that return a state on the error path too; the locales \<open>codec\<close> and
    \<open>canonical_codec\<close> for everything that is printed and parsed.
  \<^item> \<open>External\<close>: the third-party functions (SHA-256, base64, hex, ed25519, constant-time comparison)
    as one record of parameters, with their documented behaviour as named predicates.
  \<^item> \<open>Base32\<close>, \<open>Hash\<close>, \<open>Sign\<close>, \<open>Storepath\<close>, \<open>Narurl\<close>, \<open>Narinfo\<close>, \<open>NarinfoParse\<close>, \<open>Cacheinfo\<close>:
    \<open>bincache-core/src\<close>, one theory per file. \<open>CoreSpec\<close> holds their properties.
  \<^item> \<open>Range\<close>, \<open>Http\<close>, \<open>Response\<close>, \<open>Route\<close>, \<open>Stats\<close>: the pure part of \<open>bincache-serve/src\<close>.
    \<open>HttpSpec\<close> holds their properties.
  \<^item> \<open>Store\<close> (\<open>bincache-store/src/nar.rs\<close>) over a file system parameter, \<open>Index\<close>
    (\<open>bincache-index/src\<close>) over \<open>redb\<close> and \<open>rkyv\<close>, \<open>Upload\<close> and \<open>Ingest\<close> (\<open>bincache-ingest/src\<close>);
    \<open>StoreLaws\<close>, \<open>IndexLaws\<close>, \<open>UploadLaws\<close>, \<open>IngestLaws\<close> say what each operation does to a map of
    artifacts and two maps of records, on success and on failure; \<open>StoreSpec\<close> and \<open>UploadSpec\<close> hold
    the properties.
  \<^item> \<open>Connection\<close> and \<open>Handler\<close> (\<open>bincache-serve/src/connection.rs\<close>, \<open>handler.rs\<close> and the session
    loop of \<open>shard.rs\<close>): the buffered connection over a socket parameter, and every route from the
    parsed head to the written answer. \<open>HandlerLaws\<close>, \<open>PushLaws\<close> and \<open>HandlerTotal\<close> are their
    lemmas; \<open>ServeSpec\<close> and \<open>PushSpec\<close> hold the properties. \<open>StagingLaws\<close> and \<open>StagingSpec\<close> follow the
    staging files through every route. \<open>PushLive\<close>, \<open>FetchLive\<close> and \<open>LiveSpec\<close> show that both halves
    of a push, and the fetch after it, succeed when no call around them fails.
  \<^item> \<open>Shard\<close> (\<open>bincache-serve/src/shard.rs\<close>, \<open>bincache/src/watchdog.rs\<close>): binding, spawning and
    joining threads over a machine parameter; accepting, session turns and heartbeats as events.
    \<open>ShardLaws\<close> and \<open>ShardSpec\<close> hold what they do and the properties.
  \<^item> \<open>Boot\<close> (\<open>bincache/src/boot.rs\<close>, \<open>args.rs\<close>): every subcommand; \<open>BootSpec\<close> holds its properties.
  \<^item> \<open>System\<close>: the whole server over time, as the step relation \<open>sys_step\<close>. \<open>Isolation\<close> shows that
    uploads in progress do not touch each other's files, \<open>SystemLaws\<close> states the invariant,
    \<open>CommandLaws\<close> shows that commands keep it, \<open>SystemInv\<close> that every step does, \<open>SystemRuns\<close> that a
    handled request is a run of steps, and \<open>SystemSpec\<close> holds the properties.
  \<^item> \<open>UnitCore\<close>, \<open>UnitNarinfo\<close>, \<open>UnitServe\<close>: the program's own unit tests of its pure modules, one
    definition per test function, and the proofs that the model passes them. \<open>UnitIndex\<close>, \<open>UnitIngest\<close>,
    \<open>UnitStore\<close>: its tests of the index, the write side and the store, as programs over any database
    and file system with the documented behaviour, and the proofs that no run of one ends in a failed
    assertion. They check the model against what the authors expect of the code; no property
    depends on them.
  \<^item> \<open>Sample\<close>, \<open>SampleWorld\<close>, \<open>SampleServe\<close>, \<open>SampleSystem\<close>, \<open>SampleLive\<close>: concrete parameters (a table as file
    system and database, strings as sockets, a toy digest and cipher, an encoder that copies) that
    satisfy every law assumed anywhere, and complete runs on them, which the witnesses use.

  \<^bold>\<open>State and errors.\<close> A struct is a record and an enum a datatype with the source's constructors; a
  machine integer is a word of its width; a byte string is a list of characters; a path is the list
  of its components. An operation that can fail returns \<open>Inl\<close> of the code's error. Panics are error
  values or \<open>None\<close> of their own, and theorems show where they cannot occur. A value whose \<open>Drop\<close> has
  an effect (a staging file, a socket, a write transaction) is dropped explicitly on every path on
  which the code drops it.

  \<^bold>\<open>What is proved.\<close>
  \<^item> Text: base32, digests, keys, store paths, artifact names and narinfo records are parsed from
    exactly what is printed, and nothing else is accepted where the code means to be canonical; the
    fingerprint that is signed determines what it signs.
  \<^item> Requests: where a head and a body end depends only on the bytes sent; framing is never
    ambiguous; ranges stay inside the artifact; what a route, a response and a range mean.
  \<^item> Store and index refine maps under every operation and every failure; the streaming upload
    computes what a pass over the whole body would, whatever the chunks.
  \<^item> Handlers: what each answered request consumed, sent and changed; only an admitted \<open>PUT\<close> changes
    anything; no panic, no endless loop; the staging area holds
    exactly the files of the uploads in progress; a push that should
    succeed does, and \<open>pushed_nar_is_served\<close> follows one session from an upload over the publish to
    the client that gets the record and the bytes back.
  \<^item> The whole server: \<open>index_is_backed\<close> is the invariant over all interleavings, failures, commands,
    crashes and restarts, \<open>requests_are_runs\<close> ties the step relation to the handlers, and
    \<open>fetch_is_sound\<close> follows one record from its \<open>GET\<close> to the file a client receives later.
  \<^item> The shards and the watchdog: serving never stops, and a stalled shard is reported exactly.

  \<^bold>\<open>Assumptions\<close>, each a named predicate that the samples satisfy: \<open>sha_laws\<close> (a digest does not
  depend on how the input is cut), \<open>b64_laws\<close>, \<open>hex_laws\<close>, \<open>ed_laws\<close>, \<open>ct_laws\<close>, \<open>zstd_laws\<close> (what the
  encoder put out, decompressed, is what went in), \<open>fs_laws\<close> (names, contents and open files of a
  POSIX file system, with calls that may fail), \<open>redb_laws\<close> (transactions are atomic), \<open>rkyv_laws\<close>
  (decoding inverts encoding), \<open>fs_removes\<close> (a removal that is asked for happens), \<open>sock_laws\<close> (a socket is a stream). The whole-system properties also
  assume that the digest does not collide on the artifacts that are ever placed (\<open>inj_on\<close> over
  the parameter \<open>As\<close> of the step relation), that one process hands out fewer than \<open>2 ^ 64\<close> staging
  names, and that commands run only while no server does. The theorems that a push or a fetch succeeds add
  that calls do not fail (\<open>fs_works\<close>, \<open>redb_works\<close>, \<open>zstd_works\<close>, \<open>sock_works\<close>); no other theorem does.
  The unit tests of the store also need \<open>plain_files\<close>: a read fills its buffer up to the end of the
  file, and only a name that exists can be removed.

  \<^bold>\<open>Bounds and fuel.\<close> Loops that consume a list, a buffer or a length are total functions with a
  measure. The pump has as much fuel as its span has bytes, which suffices because every turn sends
  at least one (\<open>HandlerTotal\<close>). A session takes its number of turns as an argument, since a peer may
  keep it open forever, and its properties hold for every number.

  \<^bold>\<open>Granularity.\<close> In \<open>System\<close> a step is one upload or index operation, which is finer than a request:
  the two halves of a push, and the two transactions of a publish, may be separated by anything. In
  \<open>Shard\<close> an event is one turn of a session. A crash is the death of the process: the file system and the
  committed transactions survive. Loss of power, and with it the effect of \<open>fsync\<close>, is not modelled.

  \<^bold>\<open>Not modelled.\<close> The declarations that make clap parse the command line and read the environment
  (\<open>args.rs\<close> is modelled as the parsed arguments), the tracing output and the process's exit code
  (\<open>main.rs\<close>), the display texts of errors that are only logged, the padding and pinning of
  shards beyond the choice of a core, and the conformance tests, which drive a real \<open>nix\<close>.
\<close>

end
